(* ===== verification/Prelude.thy ===== *)
theory Prelude
  imports Main "HOL-Library.Word"
begin

text \<open>
  Shared vocabulary of the development: Go's byte slices and strings, 64-bit
  signed integers with the wrap-around written out, little-endian integers, the
  standard library's hexadecimal and decimal text forms, and the outcome of a
  statement that may panic, block on a channel or never return.
\<close>

named_theorems codec_simps \<open>rewrite rules for reading back what a codec wrote\<close>
named_theorems outcome_simps \<open>rewrite rules for outcomes\<close>

type_synonym byte = "8 word"
type_synonym bytes = "8 word list"

section \<open>Outcomes of statements\<close>

text \<open>
  A Go statement either finishes with a value, panics (a nil dereference, an index or a
  slice conversion out of range), blocks forever on a channel, or runs forever.
\<close>

datatype 'a outcome = Done 'a | Panics | Blocks | Diverges

fun bindO :: "'a outcome \<Rightarrow> ('a \<Rightarrow> 'b outcome) \<Rightarrow> 'b outcome" where
  "bindO (Done x) f = f x"
| "bindO Panics f = Panics"
| "bindO Blocks f = Blocks"
| "bindO Diverges f = Diverges"

lemma bindO_Done_iff [outcome_simps]:
  "bindO m f = Done y \<longleftrightarrow> (\<exists>x. m = Done x \<and> f x = Done y)"
  by (cases m) auto

lemma bindO_assoc [outcome_simps]: "bindO (bindO m f) g = bindO m (\<lambda>x. bindO (f x) g)"
  by (cases m) auto

text \<open>Send on a channel of the given capacity; a full channel blocks the sender.\<close>

definition chan_send :: "nat \<Rightarrow> 'a list \<Rightarrow> 'a \<Rightarrow> 'a list outcome" where
  "chan_send cap q x = (if length q < cap then Done (q @ [x]) else Blocks)"

lemma chan_send_Done [outcome_simps]:
  "chan_send cap q x = Done q' \<longleftrightarrow> length q < cap \<and> q' = q @ [x]"
  by (auto simp: chan_send_def)

text \<open>Converting a slice to an array panics when the slice is too short, and drops what is too long.\<close>

definition to_array :: "nat \<Rightarrow> bytes \<Rightarrow> bytes outcome" where
  "to_array n bs = (if length bs < n then Panics else Done (take n bs))"

lemma to_array_exact [simp]: "length bs = n \<Longrightarrow> to_array n bs = Done bs"
  by (simp add: to_array_def)

section \<open>Machine integers\<close>

text \<open>An int64 is an \<^typ>\<open>int\<close> in range; arithmetic wraps through \<open>i64\<close>.\<close>

definition in_i64 :: "int \<Rightarrow> bool" where
  "in_i64 x \<longleftrightarrow> -(2 ^ 63) \<le> x \<and> x < 2 ^ 63"

definition i64 :: "int \<Rightarrow> int" where
  "i64 x = (x + 2 ^ 63) mod 2 ^ 64 - 2 ^ 63"

lemma i64_id [simp]: "in_i64 x \<Longrightarrow> i64 x = x"
  unfolding in_i64_def i64_def
proof -
  assume "- (2 ^ 63) \<le> x \<and> x < 2 ^ 63"
  then have "(x + 2 ^ 63) mod 2 ^ 64 = x + 2 ^ 63"
    by (intro mod_pos_pos_trivial) auto
  then show "(x + 2 ^ 63) mod 2 ^ 64 - 2 ^ 63 = x" by simp
qed

lemma in_i64_i64 [simp]: "in_i64 (i64 x)"
proof -
  have "0 \<le> (x + 2 ^ 63) mod 2 ^ 64" and "(x + 2 ^ 63) mod 2 ^ 64 < (2::int) ^ 64"
    by simp_all
  then show ?thesis unfolding in_i64_def i64_def by auto
qed

text \<open>Go's integer division truncates towards zero.\<close>

definition go_div :: "int \<Rightarrow> int \<Rightarrow> int" where
  "go_div a b = sgn a * sgn b * (\<bar>a\<bar> div \<bar>b\<bar>)"

definition go_mod :: "int \<Rightarrow> int \<Rightarrow> int" where
  "go_mod a b = a - b * go_div a b"

lemma go_div_pos [simp]: "0 \<le> a \<Longrightarrow> 0 < b \<Longrightarrow> go_div a b = a div b"
  by (cases "a = 0") (auto simp: go_div_def)

text \<open>The conversions between int64 and uint64 keep the 64 bits.\<close>

definition u64_of_i64 :: "int \<Rightarrow> nat" where
  "u64_of_i64 x = nat (x mod 2 ^ 64)"

definition i64_of_u64 :: "nat \<Rightarrow> int" where
  "i64_of_u64 v = i64 (int v)"

lemma u64_of_i64_bound [simp]: "u64_of_i64 x < 2 ^ 64"
proof -
  have "x mod 2 ^ 64 < 2 ^ 64" by (rule pos_mod_bound) simp
  then have "nat (x mod 2 ^ 64) < nat (2 ^ 64)" by (subst nat_less_eq_zless) simp_all
  then show ?thesis by (simp add: u64_of_i64_def)
qed

lemma i64_of_u64_of_i64 [codec_simps]: "i64_of_u64 (u64_of_i64 x) = i64 x"
proof -
  have "int (u64_of_i64 x) = x mod 2 ^ 64" by (simp add: u64_of_i64_def)
  then show ?thesis by (simp add: i64_of_u64_def i64_def mod_add_left_eq)
qed

section \<open>Little-endian integers\<close>

fun le_enc :: "nat \<Rightarrow> nat \<Rightarrow> bytes" where
  "le_enc 0 v = []"
| "le_enc (Suc n) v = word_of_nat (v mod 256) # le_enc n (v div 256)"

fun le_dec :: "bytes \<Rightarrow> nat" where
  "le_dec [] = 0"
| "le_dec (b # bs) = unat b + 256 * le_dec bs"

lemma unat_byte_less [simp]: "unat (b :: byte) < 256"
proof -
  have "(unsigned b :: nat) < 2 ^ LENGTH(8)" by (rule unsigned_less)
  then show ?thesis by simp
qed

lemma length_le_enc [simp]: "length (le_enc n v) = n"
  by (induction n arbitrary: v) auto

lemma unat_byte_of_nat [simp]: "unat (word_of_nat (v mod 256) :: byte) = v mod 256"
  by (simp add: unat_of_nat)

lemma le_dec_enc_mod: "le_dec (le_enc n v) = v mod 256 ^ n"
proof (induction n arbitrary: v)
  case 0
  then show ?case by simp
next
  case (Suc n)
  show ?case by (simp add: Suc.IH mod_mult2_eq)
qed

lemma le_dec_enc [codec_simps]: "v < 256 ^ n \<Longrightarrow> le_dec (le_enc n v) = v"
  by (simp add: le_dec_enc_mod)

lemma le_dec_bound: "le_dec bs < 256 ^ length bs"
proof (induction bs)
  case Nil
  then show ?case by simp
next
  case (Cons b bs)
  have "unat b < 256" by (rule unat_byte_less)
  moreover have "Suc (le_dec bs) \<le> 256 ^ length bs" using Cons by simp
  then have "256 * Suc (le_dec bs) \<le> 256 * 256 ^ length bs" by (rule mult_le_mono2)
  ultimately have "unat b + 256 * le_dec bs < 256 * 256 ^ length bs"
    by (metis add_less_mono1 add.commute less_le_trans mult_Suc_right)
  then show ?case by simp
qed

lemma le_enc_dec: "length bs = n \<Longrightarrow> le_enc n (le_dec bs) = bs"
proof (induction bs arbitrary: n)
  case Nil
  then show ?case by simp
next
  case (Cons b bs)
  then obtain m where m: "n = Suc m" "length bs = m" by (cases n) auto
  have "unat b < 256" by (rule unat_byte_less)
  then show ?case using Cons.IH [OF m(2)] by (simp add: m(1))
qed

section \<open>Strings, hexadecimal and decimal text\<close>

text \<open>A Go string is a byte string; each byte is shown as the character with that code.\<close>

definition byte_of_char :: "char \<Rightarrow> byte" where
  "byte_of_char c = word_of_nat (of_char c)"

definition char_of_byte :: "byte \<Rightarrow> char" where
  "char_of_byte b = char_of (unat b)"

definition bytes_of_string :: "string \<Rightarrow> bytes" where
  "bytes_of_string s = map byte_of_char s"

definition string_of_bytes :: "bytes \<Rightarrow> string" where
  "string_of_bytes bs = map char_of_byte bs"

lemma char_of_byte_of_char [simp]: "char_of_byte (byte_of_char c) = c"
proof -
  have "(of_char c :: nat) < 256" by (rule nat_of_char_less_256)
  then show ?thesis by (simp add: char_of_byte_def byte_of_char_def unat_of_nat)
qed

lemma byte_of_char_of_byte [simp]: "byte_of_char (char_of_byte b) = b"
proof -
  have "unat b < 256" by (rule unat_byte_less)
  then show ?thesis by (simp add: char_of_byte_def byte_of_char_def)
qed

lemma string_of_bytes_of_string [simp]: "string_of_bytes (bytes_of_string s) = s"
  by (simp add: string_of_bytes_def bytes_of_string_def comp_def)

lemma bytes_of_string_of_bytes [simp]: "bytes_of_string (string_of_bytes b) = b"
  by (simp add: string_of_bytes_def bytes_of_string_def comp_def)

lemma length_bytes_of_string [simp]: "length (bytes_of_string s) = length s"
  by (simp add: bytes_of_string_def)

lemma inj_bytes_of_string: "bytes_of_string s = bytes_of_string t \<longleftrightarrow> s = t"
  by (metis string_of_bytes_of_string)

lemma bytes_of_string_append [simp]:
  "bytes_of_string (s @ t) = bytes_of_string s @ bytes_of_string t"
  by (simp add: bytes_of_string_def)

text \<open>encoding/hex: lower-case digits out; both cases in, an error on anything else.\<close>

definition hex_digit :: "nat \<Rightarrow> char" where
  "hex_digit n = ''0123456789abcdef'' ! n"

definition hex_value :: "char \<Rightarrow> nat option" where
  "hex_value c =
     (let n = (of_char c :: nat) in
      if 48 \<le> n \<and> n \<le> 57 then Some (n - 48)
      else if 97 \<le> n \<and> n \<le> 102 then Some (n - 87)
      else if 65 \<le> n \<and> n \<le> 70 then Some (n - 55)
      else None)"

definition hex_encode :: "bytes \<Rightarrow> string" where
  "hex_encode bs = concat (map (\<lambda>b. [hex_digit (unat b div 16), hex_digit (unat b mod 16)]) bs)"

fun hex_decode :: "string \<Rightarrow> bytes option" where
  "hex_decode [] = Some []"
| "hex_decode [c] = None"
| "hex_decode (c # d # cs) =
     (case (hex_value c, hex_value d, hex_decode cs) of
        (Some h, Some l, Some bs) \<Rightarrow> Some (word_of_nat (16 * h + l) # bs)
      | _ \<Rightarrow> None)"

lemma less_16_cases: "(n::nat) < 16 \<Longrightarrow>
  n \<in> {0, 1, 2, 3, 4, 5, 6, 7, 8, 9, 10, 11, 12, 13, 14, 15}"
  unfolding insert_iff empty_iff by presburger

lemma hex_value_digit [simp]: "n < 16 \<Longrightarrow> hex_value (hex_digit n) = Some n"
  by (drule less_16_cases) (auto simp: hex_digit_def hex_value_def Let_def)

lemma hex_digit_not_hash [simp]: "n < 16 \<Longrightarrow> hex_digit n \<noteq> CHR ''#''"
  by (drule less_16_cases) (auto simp: hex_digit_def)

lemma hex_encode_Nil [simp]: "hex_encode [] = []"
  by (simp add: hex_encode_def)

lemma hex_encode_Cons [simp]:
  "hex_encode (b # bs) = hex_digit (unat b div 16) # hex_digit (unat b mod 16) # hex_encode bs"
  by (simp add: hex_encode_def)

lemma unat_byte_div16 [simp]: "unat (b :: byte) div 16 < 16"
  by (rule less_mult_imp_div_less) simp

lemma hex_decode_encode [simp]: "hex_decode (hex_encode bs) = Some bs"
  by (induction bs) auto

lemma hex_encode_inject [simp]: "hex_encode a = hex_encode b \<longleftrightarrow> a = b"
  by (metis hex_decode_encode option.inject)

lemma length_hex_encode [simp]: "length (hex_encode bs) = 2 * length bs"
  by (induction bs) auto

lemma hash_notin_hex_encode [simp]: "CHR ''#'' \<notin> set (hex_encode bs)"
  by (induction bs) (auto dest: sym simp: hex_digit_not_hash [THEN not_sym])

lemma hex_encode_zeros: "hex_encode (replicate n 0) = replicate (2 * n) (CHR ''0'')"
  by (induction n) (auto simp: hex_digit_def)

text \<open>strconv.FormatInt in base ten.\<close>

definition dec_digit :: "nat \<Rightarrow> char" where
  "dec_digit n = ''0123456789'' ! n"

fun format_nat :: "nat \<Rightarrow> string" where
  "format_nat n = (if n < 10 then [dec_digit n] else format_nat (n div 10) @ [dec_digit (n mod 10)])"

declare format_nat.simps [simp del]

definition format_int :: "int \<Rightarrow> string" where
  "format_int x = (if x < 0 then CHR ''-'' # format_nat (nat (- x)) else format_nat (nat x))"

definition dec_value :: "string \<Rightarrow> nat" where
  "dec_value s = foldl (\<lambda>v c. 10 * v + (of_char c - 48)) 0 s"

lemma less_10_cases: "(n::nat) < 10 \<Longrightarrow> n \<in> {0, 1, 2, 3, 4, 5, 6, 7, 8, 9}"
  by auto

lemma of_char_dec_digit: "n < 10 \<Longrightarrow> (of_char (dec_digit n) :: nat) = n + 48"
  by (drule less_10_cases) (auto simp: dec_digit_def)

lemma dec_digit_not_minus: "n < 10 \<Longrightarrow> dec_digit n \<noteq> CHR ''-''"
  by (drule less_10_cases) (auto simp: dec_digit_def)

lemma dec_value_format_nat: "dec_value (format_nat n) = n"
proof (induction n rule: format_nat.induct)
  case (1 n)
  show ?case
  proof (cases "n < 10")
    case True
    then show ?thesis
      by (simp add: format_nat.simps [of n] dec_value_def of_char_dec_digit)
  next
    case False
    with 1 show ?thesis
      by (simp add: format_nat.simps [of n] dec_value_def of_char_dec_digit)
  qed
qed

lemma minus_notin_format_nat: "CHR ''-'' \<notin> set (format_nat n)"
proof (induction n rule: format_nat.induct)
  case (1 n)
  show ?case
  proof (cases "n < 10")
    case True
    then show ?thesis
      using dec_digit_not_minus [of n] by (auto simp: format_nat.simps [of n])
  next
    case False
    then show ?thesis
      using 1 dec_digit_not_minus [of "n mod 10"] by (auto simp: format_nat.simps [of n])
  qed
qed

lemma format_nat_ne_minus: "format_nat n \<noteq> CHR ''-'' # s"
  using minus_notin_format_nat [of n] by auto

lemma format_nat_inject: "format_nat a = format_nat b \<longleftrightarrow> a = b"
  by (metis dec_value_format_nat)

lemma format_int_inject [simp]: "format_int a = format_int b \<longleftrightarrow> a = b"
  by (auto simp: format_int_def format_nat_inject format_nat_ne_minus format_nat_ne_minus [THEN not_sym])

lemma length_format_nat: "n < 10 ^ k \<Longrightarrow> 0 < k \<Longrightarrow> length (format_nat n) \<le> k"
proof (induction k arbitrary: n)
  case 0
  then show ?case by simp
next
  case (Suc k)
  show ?case
  proof (cases "n < 10")
    case True
    then show ?thesis by (simp add: format_nat.simps [of n])
  next
    case False
    with Suc.prems have "0 < k" by (cases k) auto
    moreover from Suc.prems have "n div 10 < 10 ^ k" by auto
    ultimately have "length (format_nat (n div 10)) \<le> k" using Suc.IH by blast
    with False show ?thesis by (simp add: format_nat.simps [of n])
  qed
qed

lemma length_format_int: "in_i64 x \<Longrightarrow> length (format_int x) \<le> 20"
proof -
  assume x: "in_i64 x"
  then have "nat \<bar>x\<bar> < 10 ^ 19" by (auto simp: in_i64_def)
  then have "length (format_nat (nat \<bar>x\<bar>)) \<le> 19" by (rule length_format_nat) simp
  then show ?thesis by (auto simp: format_int_def)
qed

end
