(* ===== verification/Karmem.thy ===== *)
theory Karmem
  imports Prelude
begin

text \<open>
  The interface of the karmem serialisation library as the generated code uses it, and the
  shape that code has for every table: a size word, fixed slots, and byte slices that are
  allocated behind the table and referred to by (offset, size) pairs. The library itself is
  not part of the repository: its operations are the fields of a record that every codec
  takes as an argument, and what they promise is the locale \<open>karmem\<close>. The generic facts on
  tables are proved once inside the locale; \<open>std_karmem\<close> is an instance that shows the laws
  can hold.
\<close>

section \<open>The library's operations\<close>

text \<open>
  \<open>kw_alloc w n\<close> extends the written part by \<open>n\<close> bytes and returns where they start (an
  error is \<open>None\<close>); \<open>kw_write\<close> is WriteAt, \<open>kw_write1\<close>, \<open>kw_write4\<close> and \<open>kw_write8\<close> are
  Write1At, Write4At and Write8At; \<open>kr_valid\<close> is IsValidOffset of a reader over the given memory.
  \<open>kr_null\<close> and \<open>kr_null64\<close> are the memory of the process from the variable \<open>_Null\<close> of the packages
  common and p2p on: the generated code takes the address of these variables, which are slices.
\<close>

record 'w karmem_ops =
  kw_new :: "nat \<Rightarrow> 'w"
  kw_reset :: "'w \<Rightarrow> 'w"
  kw_alloc :: "'w \<Rightarrow> nat \<Rightarrow> (nat \<times> 'w) option"
  kw_write :: "'w \<Rightarrow> nat \<Rightarrow> bytes \<Rightarrow> 'w"
  kw_write1 :: "'w \<Rightarrow> nat \<Rightarrow> nat \<Rightarrow> 'w"
  kw_write4 :: "'w \<Rightarrow> nat \<Rightarrow> nat \<Rightarrow> 'w"
  kw_write8 :: "'w \<Rightarrow> nat \<Rightarrow> nat \<Rightarrow> 'w"
  kw_bytes :: "'w \<Rightarrow> bytes"
  kr_valid :: "bytes \<Rightarrow> nat \<Rightarrow> nat \<Rightarrow> bool"
  kr_null :: bytes
  kr_null64 :: bytes

section \<open>Writing a table\<close>

text \<open>
  The kinds of slot the generated writers fill, each with its offset in the table: a fixed
  byte array, an int64, a uint32, a uint8, and a byte slice.
\<close>

datatype field =
    FBytes nat bytes
  | FInt64 nat int
  | FUint32 nat nat
  | FUint8 nat nat
  | FSlice nat bytes

fun write_field :: "'w karmem_ops \<Rightarrow> nat \<Rightarrow> field \<Rightarrow> 'w \<Rightarrow> 'w option" where
  "write_field K base (FBytes k bs) w = Some (kw_write K w (base + k) bs)"
| "write_field K base (FInt64 k x) w = Some (kw_write8 K w (base + k) (u64_of_i64 x))"
| "write_field K base (FUint32 k x) w = Some (kw_write4 K w (base + k) x)"
| "write_field K base (FUint8 k x) w = Some (kw_write1 K w (base + k) x)"
| "write_field K base (FSlice k bs) w =
     (case kw_alloc K w (length bs) of
        None \<Rightarrow> None
      | Some (off, w1) \<Rightarrow>
          (let w2 = kw_write4 K w1 (base + k) (off mod 2 ^ 32);
               w3 = kw_write4 K w2 (base + k + 4) (length bs mod 2 ^ 32);
               w4 = kw_write4 K w3 (base + k + 8) 1
           in Some (kw_write K w4 off bs)))"

fun write_fields :: "'w karmem_ops \<Rightarrow> nat \<Rightarrow> field list \<Rightarrow> 'w \<Rightarrow> 'w option" where
  "write_fields K base [] w = Some w"
| "write_fields K base (f # fs) w =
     (case write_field K base f w of None \<Rightarrow> None | Some w1 \<Rightarrow> write_fields K base fs w1)"

text \<open>A start offset of zero asks the writer for room, any other one is used as it is.\<close>

definition table_alloc :: "'w karmem_ops \<Rightarrow> nat \<Rightarrow> nat \<Rightarrow> 'w \<Rightarrow> (nat \<times> 'w) option" where
  "table_alloc K sz start w = (if start = 0 then kw_alloc K w sz else Some (start, w))"

definition write_table ::
    "'w karmem_ops \<Rightarrow> nat \<Rightarrow> nat \<Rightarrow> field list \<Rightarrow> nat \<Rightarrow> 'w \<Rightarrow> (nat \<times> 'w) option" where
  "write_table K sz used fs start w =
     (case table_alloc K sz start w of
        None \<Rightarrow> None
      | Some (off, w1) \<Rightarrow>
          (case write_fields K off fs (kw_write4 K w1 off used) of
             None \<Rightarrow> None
           | Some w2 \<Rightarrow> Some (off, w2)))"

section \<open>Reading a table\<close>

text \<open>
  A viewer is the memory from the table's first byte on. An offset that does not leave room for the
  table gives the null viewer. It is meant to be zero bytes, whose size word is zero, so that every
  accessor returns its default; but the code converts the address of the slice variable, not of its
  elements, so what is read is the slice's header (the address of the elements, their number, the
  capacity, each eight bytes) and the memory behind it.
\<close>

definition null_viewer :: "'w karmem_ops \<Rightarrow> bytes" where
  "null_viewer K = kr_null K"

definition slice_header :: "nat \<Rightarrow> nat \<Rightarrow> bytes" where
  "slice_header addr n = le_enc 8 addr @ le_enc 8 n @ le_enc 8 n"

definition view_size :: "bytes \<Rightarrow> nat" where
  "view_size v = le_dec (take 4 v)"

definition new_viewer :: "'w karmem_ops \<Rightarrow> bytes \<Rightarrow> nat \<Rightarrow> bytes" where
  "new_viewer K mem off =
     (if \<not> kr_valid K mem off 8 then null_viewer K
      else let v = drop off mem in
        if \<not> kr_valid K mem off (view_size v) then null_viewer K else v)"

definition view_array :: "bytes \<Rightarrow> nat \<Rightarrow> nat \<Rightarrow> bytes" where
  "view_array v k n = (if k + n > view_size v then [] else take n (drop k v))"

definition view_uint :: "bytes \<Rightarrow> nat \<Rightarrow> nat \<Rightarrow> nat" where
  "view_uint v k n = (if k + n > view_size v then 0 else le_dec (take n (drop k v)))"

definition view_i64 :: "bytes \<Rightarrow> nat \<Rightarrow> int" where
  "view_i64 v k = (if k + 8 > view_size v then 0 else i64_of_u64 (le_dec (take 8 (drop k v))))"

definition view_slice :: "'w karmem_ops \<Rightarrow> bytes \<Rightarrow> bytes \<Rightarrow> nat \<Rightarrow> bytes" where
  "view_slice K mem v k =
     (if k + 12 > view_size v then []
      else let off = le_dec (take 4 (drop k v)); sz = le_dec (take 4 (drop (k + 4) v)) in
        if \<not> kr_valid K mem off sz then [] else take sz (drop off mem))"

text \<open>What the generated code finds eight bytes long behind the size of a null viewer.\<close>

lemma le_enc_add: "le_enc (m + n) v = le_enc m v @ le_enc n (v div 256 ^ m)"
  by (induction m arbitrary: v) (simp_all add: div_mult2_eq)

lemma le_dec_append: "le_dec (xs @ ys) = le_dec xs + 256 ^ length xs * le_dec ys"
  by (induction xs) (simp_all add: algebra_simps)

lemma null_i64:
  assumes "addr < 2 ^ 64" and "n < 2 ^ 31" and "12 \<le> addr mod 2 ^ 32"
  shows "view_i64 (slice_header addr n @ rest) 4 = int (addr div 2 ^ 32 + n * 2 ^ 32)"
proof -
  have a: "le_enc 8 addr = le_enc 4 addr @ le_enc 4 (addr div 2 ^ 32)" using le_enc_add [of 4 4 addr] by simp
  have b: "le_enc 8 n = le_enc 4 n @ le_enc 4 (n div 2 ^ 32)" using le_enc_add [of 4 4 n] by simp
  have h: "addr div 2 ^ 32 < 2 ^ 32" using assms(1) by (simp add: less_mult_imp_div_less)
  have "view_size (slice_header addr n @ rest) = addr mod 2 ^ 32"
    by (simp add: view_size_def slice_header_def a le_dec_enc_mod)
  moreover have "take 8 (drop 4 (slice_header addr n @ rest)) = le_enc 4 (addr div 2 ^ 32) @ le_enc 4 n"
    by (simp add: slice_header_def a b)
  moreover have "le_dec (le_enc 4 (addr div 2 ^ 32) @ le_enc 4 n) = addr div 2 ^ 32 + n * 2 ^ 32"
    using h assms(2) by (simp add: le_dec_append le_dec_enc_mod)
  moreover have "in_i64 (int (addr div 2 ^ 32 + n * 2 ^ 32))"
  proof -
    have "n * 2 ^ 32 \<le> (2 ^ 31 - 1) * 2 ^ 32" using assms(2) by (intro mult_right_mono) auto
    then have "addr div 2 ^ 32 + n * 2 ^ 32 < 2 ^ 63" using h by simp
    then have "int (addr div 2 ^ 32 + n * 2 ^ 32) < 2 ^ 63" by (metis of_nat_less_iff of_nat_numeral of_nat_power)
    then show ?thesis unfolding in_i64_def by (meson neg_le_0_iff_le of_nat_0_le_iff order_trans zero_le_numeral zero_le_power)
  qed
  ultimately show ?thesis using assms(3) by (simp add: view_i64_def i64_of_u64_def)
qed

text \<open>Copying a slice into a fixed array pads it with zeros.\<close>

definition copy_array :: "nat \<Rightarrow> bytes \<Rightarrow> bytes" where
  "copy_array n bs = take n bs @ replicate (n - length bs) 0"

lemma length_copy_array [simp]: "length (copy_array n bs) = n"
  by (simp add: copy_array_def)

lemma copy_array_id [simp]: "length bs = n \<Longrightarrow> copy_array n bs = bs"
  by (simp add: copy_array_def)

section \<open>Slots\<close>

fun slot_off :: "field \<Rightarrow> nat" where
  "slot_off (FBytes k bs) = k"
| "slot_off (FInt64 k x) = k"
| "slot_off (FUint32 k x) = k"
| "slot_off (FUint8 k x) = k"
| "slot_off (FSlice k bs) = k"

fun slot_len :: "field \<Rightarrow> nat" where
  "slot_len (FBytes k bs) = length bs"
| "slot_len (FInt64 k x) = 8"
| "slot_len (FUint32 k x) = 4"
| "slot_len (FUint8 k x) = 1"
| "slot_len (FSlice k bs) = 12"

fun tail_len :: "field \<Rightarrow> nat" where
  "tail_len (FSlice k bs) = length bs"
| "tail_len _ = 0"

text \<open>The slots lie in order, without overlap, between \<open>lo\<close> and \<open>hi\<close>.\<close>

fun slots_ok :: "nat \<Rightarrow> nat \<Rightarrow> field list \<Rightarrow> bool" where
  "slots_ok lo hi [] \<longleftrightarrow> lo \<le> hi"
| "slots_ok lo hi (f # fs) \<longleftrightarrow> lo \<le> slot_off f \<and> slots_ok (slot_off f + slot_len f) hi fs"

lemma slots_ok_le: "slots_ok lo hi fs \<Longrightarrow> lo \<le> hi"
  by (induction fs arbitrary: lo) force+

lemma slots_ok_mem: "slots_ok lo hi fs \<Longrightarrow> f \<in> set fs \<Longrightarrow>
    lo \<le> slot_off f \<and> slot_off f + slot_len f \<le> hi"
proof (induction fs arbitrary: lo)
  case Nil
  then show ?case by simp
next
  case (Cons g gs)
  show ?case
  proof (cases "f = g")
    case True
    then show ?thesis using Cons.prems slots_ok_le by auto
  next
    case False
    then show ?thesis using Cons.prems Cons.IH [of "slot_off g + slot_len g"] by auto
  qed
qed

text \<open>The memory holds the bytes \<open>bs\<close> from position \<open>p\<close> on.\<close>

definition holds :: "(nat \<Rightarrow> byte) \<Rightarrow> nat \<Rightarrow> bytes \<Rightarrow> bool" where
  "holds m p bs \<longleftrightarrow> (\<forall>i < length bs. m (p + i) = bs ! i)"

lemma holds_frame:
  assumes "holds m p bs" and "\<And>i. p \<le> i \<Longrightarrow> i < p + length bs \<Longrightarrow> m' i = m i"
  shows "holds m' p bs"
  using assms by (simp add: holds_def)

text \<open>
  What it means that a slot was written: \<open>len\<close> is the length of the written part, and the bytes
  of a slice lie at \<open>lo\<close> or behind it.
\<close>

fun field_holds :: "(nat \<Rightarrow> byte) \<Rightarrow> nat \<Rightarrow> nat \<Rightarrow> nat \<Rightarrow> field \<Rightarrow> bool" where
  "field_holds m lo len base (FBytes k bs) \<longleftrightarrow> holds m (base + k) bs"
| "field_holds m lo len base (FInt64 k x) \<longleftrightarrow> holds m (base + k) (le_enc 8 (u64_of_i64 x))"
| "field_holds m lo len base (FUint32 k x) \<longleftrightarrow> holds m (base + k) (le_enc 4 x)"
| "field_holds m lo len base (FUint8 k x) \<longleftrightarrow> holds m (base + k) (le_enc 1 x)"
| "field_holds m lo len base (FSlice k bs) \<longleftrightarrow>
     (\<exists>off. lo \<le> off \<and> off + length bs \<le> len \<and> holds m (base + k) (le_enc 4 (off mod 2 ^ 32))
        \<and> holds m (base + k + 4) (le_enc 4 (length bs mod 2 ^ 32)) \<and> holds m off bs)"

declare le_enc.simps [simp del]

lemma field_holds_frame:
  assumes "field_holds m l0 l base f" and "l \<le> l'"
    and "\<And>i. i < l \<Longrightarrow> \<not> (lo \<le> i \<and> i < hi) \<Longrightarrow> m' i = m i"
    and "base + slot_off f + slot_len f \<le> lo" and "hi \<le> l0" and "l0 \<le> l" and "lo \<le> l0"
  shows "field_holds m' l0 l' base f"
proof (cases f)
  case (FSlice k bs)
  then obtain off where off: "l0 \<le> off" "off + length bs \<le> l"
    "holds m (base + k) (le_enc 4 (off mod 2 ^ 32))"
    "holds m (base + k + 4) (le_enc 4 (length bs mod 2 ^ 32))" "holds m off bs"
    using assms(1) by auto
  have "holds m' (base + k) (le_enc 4 (off mod 2 ^ 32))"
    by (rule holds_frame [OF off(3)]) (use assms FSlice in auto)
  moreover have "holds m' (base + k + 4) (le_enc 4 (length bs mod 2 ^ 32))"
    by (rule holds_frame [OF off(4)]) (use assms FSlice in auto)
  moreover have "holds m' off bs"
    by (rule holds_frame [OF off(5)]) (use assms off in auto)
  ultimately show ?thesis
    using FSlice off(1,2) assms(2) by (auto intro!: exI [of _ off])
qed (use assms in \<open>auto elim!: holds_frame\<close>)

text \<open>The bytes a table was read from, as a list.\<close>

definition mem_list :: "(nat \<Rightarrow> byte) \<Rightarrow> nat \<Rightarrow> bytes" where
  "mem_list m len = map m [0..<len]"

lemma length_mem_list [simp]: "length (mem_list m len) = len"
  by (simp add: mem_list_def)

lemma holds_take_drop:
  assumes "holds m p bs" and "p + length bs \<le> len" and "n = length bs"
  shows "take n (drop p (mem_list m len)) = bs"
  using assms by (intro nth_equalityI) (auto simp: holds_def mem_list_def)

lemma holds_view:
  assumes "holds m (base + k) bs" and "base + k + length bs \<le> len" and "n = length bs"
  shows "take n (drop k (drop base (mem_list m len))) = bs"
  using holds_take_drop [OF assms] by (simp add: add.commute)

text \<open>A table written at \<open>off\<close>: its size word and its slots, with all slices behind it.\<close>

definition table_in :: "(nat \<Rightarrow> byte) \<Rightarrow> nat \<Rightarrow> nat \<Rightarrow> nat \<Rightarrow> nat \<Rightarrow> field list \<Rightarrow> bool" where
  "table_in m len off sz used fs \<longleftrightarrow> off + sz \<le> len \<and> slots_ok 4 sz fs
     \<and> holds m off (le_enc 4 used) \<and> (\<forall>f \<in> set fs. field_holds m (off + sz) len off f)"

lemma field_holds_keep:
  assumes "field_holds m lo len off f" and "off + slot_off f + slot_len f \<le> len"
    and "len \<le> len'" and "off \<le> lo"
    and "\<And>i. off \<le> i \<Longrightarrow> i < len \<Longrightarrow> m' i = m i"
  shows "field_holds m' lo len' off f"
proof (cases f)
  case (FSlice k bs)
  then obtain p where p: "lo \<le> p" "p + length bs \<le> len"
    "holds m (off + k) (le_enc 4 (p mod 2 ^ 32))"
    "holds m (off + k + 4) (le_enc 4 (length bs mod 2 ^ 32))" "holds m p bs"
    using assms(1) by auto
  have "holds m' (off + k) (le_enc 4 (p mod 2 ^ 32))"
    by (rule holds_frame [OF p(3)]) (use assms FSlice in auto)
  moreover have "holds m' (off + k + 4) (le_enc 4 (length bs mod 2 ^ 32))"
    by (rule holds_frame [OF p(4)]) (use assms FSlice in auto)
  moreover have "holds m' p bs"
    by (rule holds_frame [OF p(5)]) (use assms p in auto)
  ultimately show ?thesis
    using FSlice p(1,2) assms(3) by (auto intro!: exI [of _ p])
qed (use assms in \<open>auto elim!: holds_frame\<close>)

text \<open>Writes below the table or behind the written part do not disturb it.\<close>

lemma table_in_keep:
  assumes "table_in m len off sz used fs" and "len \<le> len'"
    and "\<And>i. off \<le> i \<Longrightarrow> i < len \<Longrightarrow> m' i = m i"
  shows "table_in m' len' off sz used fs"
proof -
  have sz: "4 \<le> sz" and ok: "slots_ok 4 sz fs" and room: "off + sz \<le> len"
    using assms(1) slots_ok_le by (auto simp: table_in_def)
  have "holds m' off (le_enc 4 used)"
    by (rule holds_frame [of m]) (use assms sz room in \<open>auto simp: table_in_def\<close>)
  moreover have "field_holds m' (off + sz) len' off f" if f: "f \<in> set fs" for f
    by (rule field_holds_keep [of m _ len])
      (use assms f room slots_ok_mem [OF ok f] in \<open>auto simp: table_in_def\<close>)
  ultimately show ?thesis using ok room assms(2) by (auto simp: table_in_def)
qed

section \<open>The laws of the library and what they give\<close>

text \<open>
  A writer is a backing memory \<open>cell\<close> of which the first \<open>len\<close> bytes are written. A new writer
  is zeroed; Reset forgets the length and keeps the memory; Alloc extends the length; a write
  inside the written part changes those bytes and no others.
\<close>

locale karmem =
  fixes K :: "'w karmem_ops" and len :: "'w \<Rightarrow> nat" and cell :: "'w \<Rightarrow> nat \<Rightarrow> byte"
  assumes len_new: "len (kw_new K c) = 0"
    and cell_new: "cell (kw_new K c) = (\<lambda>i. 0)"
    and len_reset: "len (kw_reset K w) = 0"
    and cell_reset: "cell (kw_reset K w) = cell w"
    and alloc: "\<exists>w'. kw_alloc K w n = Some (len w, w') \<and> len w' = len w + n \<and> cell w' = cell w"
    and len_write: "p + length bs \<le> len w \<Longrightarrow> len (kw_write K w p bs) = len w"
    and cell_write: "p + length bs \<le> len w \<Longrightarrow>
      cell (kw_write K w p bs) = (\<lambda>i. if p \<le> i \<and> i < p + length bs then bs ! (i - p) else cell w i)"
    and write1: "kw_write1 K w p v = kw_write K w p (le_enc 1 v)"
    and write4: "kw_write4 K w p v = kw_write K w p (le_enc 4 v)"
    and write8: "kw_write8 K w p v = kw_write K w p (le_enc 8 v)"
    and bytes: "kw_bytes K w = mem_list (cell w) (len w)"
    and valid: "kr_valid K mem off sz \<longleftrightarrow> off + sz \<le> length mem"
begin

lemma holds_write: "p + length bs \<le> len w \<Longrightarrow> holds (cell (kw_write K w p bs)) p bs"
  by (simp add: holds_def cell_write)

lemma frame_write: "p + length bs \<le> len w \<Longrightarrow> i < p \<or> p + length bs \<le> i \<Longrightarrow>
    cell (kw_write K w p bs) i = cell w i"
  by (auto simp: cell_write)

text \<open>One slot: it is written, the length grows by the slice's bytes, nothing else changes.\<close>

lemma write_field_spec:
  assumes "base + slot_off f + slot_len f \<le> len w"
    and "lo \<le> len w"
  shows "\<exists>w'. write_field K base f w = Some w' \<and> len w' = len w + tail_len f
      \<and> field_holds (cell w') lo (len w') base f
      \<and> (\<forall>i < len w. \<not> (base + slot_off f \<le> i \<and> i < base + slot_off f + slot_len f)
           \<longrightarrow> cell w' i = cell w i)"
proof (cases f)
  case (FSlice k bs)
  obtain w1 where w1: "kw_alloc K w (length bs) = Some (len w, w1)"
    "len w1 = len w + length bs" "cell w1 = cell w"
    using alloc [of w "length bs"] by blast
  define w2 where "w2 = kw_write4 K w1 (base + k) (len w mod 2 ^ 32)"
  define w3 where "w3 = kw_write4 K w2 (base + k + 4) (length bs mod 2 ^ 32)"
  define w4 where "w4 = kw_write4 K w3 (base + k + 8) 1"
  define w5 where "w5 = kw_write K w4 (len w) bs"
  have b: "base + k + 12 \<le> len w" using assms FSlice by simp
  have l2: "len w2 = len w1" using b w1 by (simp add: w2_def write4 len_write)
  have l3: "len w3 = len w1" using b w1 l2 by (simp add: w3_def write4 len_write)
  have l4: "len w4 = len w1" using b w1 l3 by (simp add: w4_def write4 len_write)
  have l5: "len w5 = len w1" using w1 l4 by (simp add: w5_def len_write)
  have c2: "cell w2 = (\<lambda>i. if base + k \<le> i \<and> i < base + k + 4
      then le_enc 4 (len w mod 2 ^ 32) ! (i - (base + k)) else cell w1 i)"
    unfolding w2_def write4 using b w1 by (subst cell_write) simp_all
  have c3: "cell w3 = (\<lambda>i. if base + k + 4 \<le> i \<and> i < base + k + 4 + 4
      then le_enc 4 (length bs mod 2 ^ 32) ! (i - (base + k + 4)) else cell w2 i)"
    unfolding w3_def write4 using b w1 l2 by (subst cell_write) simp_all
  have c4: "cell w4 = (\<lambda>i. if base + k + 8 \<le> i \<and> i < base + k + 8 + 4
      then le_enc 4 1 ! (i - (base + k + 8)) else cell w3 i)"
    unfolding w4_def write4 using b w1 l3 by (subst cell_write) simp_all
  have c5: "cell w5 = (\<lambda>i. if len w \<le> i \<and> i < len w + length bs then bs ! (i - len w)
      else cell w4 i)"
    unfolding w5_def using w1 l4 by (subst cell_write) simp_all
  note c = c5 c4 c3 c2 w1(3)
  have "write_field K base f w = Some w5"
    by (simp add: FSlice w1 Let_def w5_def w4_def w3_def w2_def)
  moreover have "holds (cell w5) (base + k) (le_enc 4 (len w mod 2 ^ 32))"
    using b by (auto simp: holds_def c)
  moreover have "holds (cell w5) (base + k + 4) (le_enc 4 (length bs mod 2 ^ 32))"
    using b by (auto simp: holds_def c)
  moreover have "holds (cell w5) (len w) bs"
    by (auto simp: holds_def c)
  moreover have "\<forall>i < len w. \<not> (base + k \<le> i \<and> i < base + k + 12) \<longrightarrow> cell w5 i = cell w i"
    by (auto simp: c)
  ultimately show ?thesis
    using FSlice w1 l5 assms(2) by (auto intro!: exI [of _ "len w"])
qed (use assms in \<open>auto simp: write1 write4 write8 len_write frame_write
      intro!: holds_write simp del: One_nat_def\<close>)

lemma write_fields_spec:
  assumes "slots_ok lo hi fs" and "base + hi \<le> len w"
  shows "\<exists>w'. write_fields K base fs w = Some w' \<and> len w' = len w + sum_list (map tail_len fs)
      \<and> (\<forall>f \<in> set fs. field_holds (cell w') (base + hi) (len w') base f)
      \<and> (\<forall>i < len w. \<not> (base + lo \<le> i \<and> i < base + hi) \<longrightarrow> cell w' i = cell w i)"
  using assms
proof (induction fs arbitrary: lo w)
  case Nil
  then show ?case by simp
next
  case (Cons f fs)
  let ?lo = "slot_off f + slot_len f"
  have ok: "slots_ok ?lo hi fs" and le: "lo \<le> slot_off f" using Cons.prems(1) by auto
  have hi: "?lo \<le> hi" using ok by (rule slots_ok_le)
  obtain w1 where w1: "write_field K base f w = Some w1" "len w1 = len w + tail_len f"
    "field_holds (cell w1) (base + hi) (len w1) base f"
    "\<forall>i < len w. \<not> (base + slot_off f \<le> i \<and> i < base + slot_off f + slot_len f)
       \<longrightarrow> cell w1 i = cell w i"
    using write_field_spec [of base f w "base + hi"] hi Cons.prems(2) by auto
  obtain w2 where w2: "write_fields K base fs w1 = Some w2"
    "len w2 = len w1 + sum_list (map tail_len fs)"
    "\<forall>f \<in> set fs. field_holds (cell w2) (base + hi) (len w2) base f"
    "\<forall>i < len w1. \<not> (base + ?lo \<le> i \<and> i < base + hi) \<longrightarrow> cell w2 i = cell w1 i"
    using Cons.IH [OF ok, of w1] w1(2) Cons.prems(2) by auto
  have "field_holds (cell w2) (base + hi) (len w2) base f"
    by (rule field_holds_frame [OF w1(3), where lo = "base + ?lo" and hi = "base + hi"])
      (use w1 w2 hi Cons.prems(2) in auto)
  moreover have "\<forall>i < len w. \<not> (base + lo \<le> i \<and> i < base + hi) \<longrightarrow> cell w2 i = cell w i"
    using w1(2,4) w2(4) le hi by auto
  ultimately show ?case using w1 w2 by auto
qed

text \<open>
  A whole table, either allocated (\<open>start = 0\<close>) or written into room that an enclosing table
  reserved for it: the size word and every slot are in place, and no byte outside changes.
\<close>

lemma write_table_spec:
  assumes "slots_ok 4 sz fs" and "start = 0 \<or> start + sz \<le> len w"
  shows "\<exists>off w'. write_table K sz used fs start w = Some (off, w')
      \<and> off = (if start = 0 then len w else start)
      \<and> len w' = len w + (if start = 0 then sz else 0) + sum_list (map tail_len fs)
      \<and> table_in (cell w') (len w') off sz used fs
      \<and> (\<forall>i < len w. \<not> (off \<le> i \<and> i < off + sz) \<longrightarrow> cell w' i = cell w i)"
proof -
  define off where "off = (if start = 0 then len w else start)"
  obtain w1 where w1: "table_alloc K sz start w = Some (off, w1)"
    "len w1 = len w + (if start = 0 then sz else 0)" "cell w1 = cell w"
    using alloc [of w sz] by (cases "start = 0") (auto simp: table_alloc_def off_def)
  have sz: "4 \<le> sz" using assms(1) by (rule slots_ok_le)
  have room: "off + sz \<le> len w1" using assms(2) w1(2) by (auto simp: off_def)
  define w2 where "w2 = kw_write4 K w1 off used"
  have l2: "len w2 = len w1" using room sz by (simp add: w2_def write4 len_write)
  have h2: "holds (cell w2) off (le_enc 4 used)"
    using room sz by (simp add: w2_def write4 holds_write)
  have f2: "i < off \<or> off + 4 \<le> i \<Longrightarrow> cell w2 i = cell w i" for i
    using room sz w1(3) by (simp add: w2_def write4 frame_write)
  obtain w3 where w3: "write_fields K off fs w2 = Some w3"
    "len w3 = len w2 + sum_list (map tail_len fs)"
    "\<forall>f \<in> set fs. field_holds (cell w3) (off + sz) (len w3) off f"
    "\<forall>i < len w2. \<not> (off + 4 \<le> i \<and> i < off + sz) \<longrightarrow> cell w3 i = cell w2 i"
    using write_fields_spec [OF assms(1), of off w2] room l2 by auto
  have "holds (cell w3) off (le_enc 4 used)"
    by (rule holds_frame [OF h2]) (use w3(4) l2 room sz in auto)
  moreover have "\<forall>i < len w. \<not> (off \<le> i \<and> i < off + sz) \<longrightarrow> cell w3 i = cell w i"
    using w3(4) l2 w1(2) f2 sz by auto
  moreover have "write_table K sz used fs start w = Some (off, w3)"
    using w1 w3 by (simp add: write_table_def w2_def)
  ultimately show ?thesis
    using w3 w1 l2 room assms(1) by (auto simp: off_def table_in_def)
qed

text \<open>
  Reading back. \<open>table_at\<close> is what an encoded table is in the memory it was written to, after
  whatever else was written around it.
\<close>

definition table_at :: "bytes \<Rightarrow> nat \<Rightarrow> nat \<Rightarrow> field list \<Rightarrow> bool" where
  "table_at mem off used fs \<longleftrightarrow> off + used \<le> length mem \<and> length mem < 2 ^ 32
     \<and> (\<exists>m lo. mem = mem_list m (length mem) \<and> holds m off (le_enc 4 used)
          \<and> (\<forall>f \<in> set fs. field_holds m lo (length mem) off f))"

lemma table_at_of_in:
  assumes "table_in m n off sz used fs" and "used \<le> sz" and "n < 2 ^ 32"
  shows "table_at (mem_list m n) off used fs"
  using assms unfolding table_at_def table_in_def by fastforce

lemma view_size_table: "table_at mem off used fs \<Longrightarrow> 4 \<le> used \<Longrightarrow> view_size (drop off mem) = used"
proof -
  assume t: "table_at mem off used fs" and u: "4 \<le> used"
  then obtain m where m: "mem = mem_list m (length mem)" "holds m off (le_enc 4 used)"
    "off + used \<le> length mem" "length mem < 2 ^ 32"
    unfolding table_at_def by blast
  have "take 4 (drop off (mem_list m (length mem))) = le_enc 4 used"
    by (rule holds_take_drop [OF m(2)]) (use m u in auto)
  with m(1) have "take 4 (drop off mem) = le_enc 4 used" by simp
  with m(3,4) show ?thesis by (simp add: view_size_def codec_simps)
qed

lemma new_viewer_table:
  "table_at mem off used fs \<Longrightarrow> 8 \<le> used \<Longrightarrow> new_viewer K mem off = drop off mem"
  using view_size_table [of mem off used fs]
  by (auto simp: new_viewer_def valid Let_def table_at_def)

lemma view_array_table:
  assumes "table_at mem off used fs" and "4 \<le> used" and "FBytes k bs \<in> set fs"
    and "k + length bs \<le> used" and "n = length bs"
  shows "view_array (drop off mem) k n = bs"
proof -
  obtain m where m: "mem = mem_list m (length mem)" "holds m (off + k) bs"
    "off + used \<le> length mem"
    using assms(1,3) unfolding table_at_def by fastforce
  have "take n (drop k (drop off (mem_list m (length mem)))) = bs"
    by (rule holds_view [OF m(2)]) (use m(3) assms in auto)
  then show ?thesis
    using assms m(1) view_size_table [OF assms(1,2)] by (simp add: view_array_def)
qed

lemma view_i64_table:
  assumes "table_at mem off used fs" and "4 \<le> used" and "FInt64 k x \<in> set fs"
    and "k + 8 \<le> used"
  shows "view_i64 (drop off mem) k = i64 x"
proof -
  obtain m where m: "mem = mem_list m (length mem)" "holds m (off + k) (le_enc 8 (u64_of_i64 x))"
    "off + used \<le> length mem"
    using assms(1,3) unfolding table_at_def by fastforce
  have "take 8 (drop k (drop off (mem_list m (length mem)))) = le_enc 8 (u64_of_i64 x)"
    by (rule holds_view [OF m(2)]) (use m(3) assms in auto)
  then have "take 8 (drop k (drop off mem)) = le_enc 8 (u64_of_i64 x)" using m(1) by simp
  moreover have "u64_of_i64 x < 256 ^ 8" using u64_of_i64_bound [of x] by simp
  ultimately show ?thesis
    using assms view_size_table [OF assms(1,2)] by (simp add: view_i64_def codec_simps)
qed

lemma view_uint_table:
  assumes "table_at mem off used fs" and "4 \<le> used"
    and "n = 4 \<and> FUint32 k x \<in> set fs \<or> n = 1 \<and> FUint8 k x \<in> set fs"
    and "k + n \<le> used" and "x < 256 ^ n"
  shows "view_uint (drop off mem) k n = x"
proof -
  obtain m where m: "mem = mem_list m (length mem)" "holds m (off + k) (le_enc n x)"
    "off + used \<le> length mem"
    using assms(1,3) unfolding table_at_def by (elim disjE conjE exE) fastforce+
  have "take n (drop k (drop off (mem_list m (length mem)))) = le_enc n x"
    by (rule holds_view [OF m(2)]) (use m(3) assms in auto)
  then have "take n (drop k (drop off mem)) = le_enc n x" using m(1) by simp
  with assms show ?thesis
    using view_size_table [OF assms(1,2)] by (simp add: view_uint_def codec_simps)
qed

lemma view_slice_table:
  assumes "table_at mem off used fs" and "4 \<le> used" and "FSlice k bs \<in> set fs"
    and "k + 12 \<le> used"
  shows "view_slice K mem (drop off mem) k = bs"
proof -
  obtain m p where m: "mem = mem_list m (length mem)" "p + length bs \<le> length mem"
    "holds m (off + k) (le_enc 4 (p mod 2 ^ 32))"
    "holds m (off + k + 4) (le_enc 4 (length bs mod 2 ^ 32))" "holds m p bs"
    "off + used \<le> length mem" "length mem < 2 ^ 32"
    using assms(1,3) unfolding table_at_def by fastforce
  have "take 4 (drop k (drop off (mem_list m (length mem)))) = le_enc 4 (p mod 2 ^ 32)"
    by (rule holds_view [OF m(3)]) (use m assms in auto)
  then have 1: "le_dec (take 4 (drop k (drop off mem))) = p"
    using m(1,2,7) by (simp add: codec_simps)
  have "take 4 (drop (k + 4) (drop off (mem_list m (length mem)))) = le_enc 4 (length bs mod 2 ^ 32)"
    by (rule holds_view) (use m assms in \<open>auto simp: add.assoc\<close>)
  then have 2: "le_dec (take 4 (drop (k + 4) (drop off mem))) = length bs"
    using m(1,2,7) by (simp add: codec_simps)
  have "take (length bs) (drop p (mem_list m (length mem))) = bs"
    by (rule holds_take_drop [OF m(5)]) (use m in auto)
  then have "take (length bs) (drop p mem) = bs" using m(1) by simp
  then show ?thesis
    using assms(4) m(2) 1 2 view_size_table [OF assms(1,2)]
    by (simp add: view_slice_def Let_def valid add.commute)
qed

end

section \<open>An instance\<close>

text \<open>
  A writer as the documentation describes it: a zeroed memory of unbounded capacity and the
  length written so far.
\<close>

record mem_writer =
  mw_len :: nat
  mw_cell :: "nat \<Rightarrow> byte"

definition mem_write :: "mem_writer \<Rightarrow> nat \<Rightarrow> bytes \<Rightarrow> mem_writer" where
  "mem_write w p bs = w\<lparr>mw_cell := (\<lambda>i. if p \<le> i \<and> i < p + length bs then bs ! (i - p)
     else mw_cell w i)\<rparr>"

definition std_karmem :: "mem_writer karmem_ops" where
  "std_karmem = \<lparr>
     kw_new = (\<lambda>c. \<lparr>mw_len = 0, mw_cell = (\<lambda>i. 0)\<rparr>),
     kw_reset = (\<lambda>w. w\<lparr>mw_len := 0\<rparr>),
     kw_alloc = (\<lambda>w n. Some (mw_len w, w\<lparr>mw_len := mw_len w + n\<rparr>)),
     kw_write = mem_write,
     kw_write1 = (\<lambda>w p v. mem_write w p (le_enc 1 v)),
     kw_write4 = (\<lambda>w p v. mem_write w p (le_enc 4 v)),
     kw_write8 = (\<lambda>w p v. mem_write w p (le_enc 8 v)),
     kw_bytes = (\<lambda>w. mem_list (mw_cell w) (mw_len w)),
     kr_valid = (\<lambda>mem off sz. off + sz \<le> length mem),
     kr_null = slice_header 824633794560 256 @ replicate 232 0,
     kr_null64 = slice_header 824633795584 64 @ replicate 40 0\<rparr>"

interpretation std: karmem std_karmem mw_len mw_cell
  by unfold_locales (auto simp: std_karmem_def mem_write_def)

end
