(* ===== verification/Codec.thy ===== *)
theory Codec
  imports Karmem
begin

text \<open>
  The data of the chain and its binary form: the structs of common/common_km.go, the writers
  and readers generated for them, and the round trip of every one of them. A fixed array
  \<open>[n]byte\<close> is a byte list, with its length in the struct's well-formedness predicate; an int64 is
  an integer with its range there.
\<close>

section \<open>The structs\<close>

record TransactionBody =
  tb_Hash :: bytes
  tb_Address :: bytes
  tb_Receiver :: bytes
  tb_Gas :: int
  tb_Nonce :: int
  tb_Event :: bytes
  tb_Opt :: bytes
  tb_State :: bytes
  tb_Data :: bytes
  tb_Expire :: int
  tb_Height :: int
  tb_Index :: int
  tb_BlockHash :: bytes
  tb_Timestamp :: int
  tb_Public :: bytes
  tb_Signature :: bytes

record Transaction =
  tx_Body :: TransactionBody

record GenesisParams =
  gp_Order :: bytes
  gp_TimeParam :: int
  gp_Seed :: bytes
  gp_VerifyParam :: bytes

record GeneralParams =
  gn_Result :: bytes
  gn_Proof :: bytes
  gn_RandomNumber :: bytes
  gn_S :: bytes
  gn_T :: bytes

record BlockHeader =
  bh_Timestamp :: int
  bh_PrevBlockHash :: bytes
  bh_BlockHash :: bytes
  bh_MerkleRoot :: bytes
  bh_Height :: int
  bh_PublicKey :: bytes
  bh_Params :: bytes
  bh_GasLimit :: int

record Block =
  blk_Header :: BlockHeader
  blk_Transactions :: "Transaction list"

record DataCommand =
  dc_Opt :: bytes
  dc_Key :: bytes
  dc_Value :: bytes

text \<open>What the Go types guarantee: array lengths and integer ranges; signatures are at most 73 bytes.\<close>

definition wf_body :: "TransactionBody \<Rightarrow> bool" where
  "wf_body x \<longleftrightarrow> length (tb_Hash x) = 32 \<and> length (tb_Address x) = 20
     \<and> length (tb_Receiver x) = 20 \<and> length (tb_BlockHash x) = 32 \<and> length (tb_Public x) = 33
     \<and> length (tb_Signature x) \<le> 73 \<and> in_i64 (tb_Gas x) \<and> in_i64 (tb_Nonce x)
     \<and> in_i64 (tb_Expire x) \<and> in_i64 (tb_Height x) \<and> in_i64 (tb_Index x) \<and> in_i64 (tb_Timestamp x)"

definition wf_tx :: "Transaction \<Rightarrow> bool" where
  "wf_tx t \<longleftrightarrow> wf_body (tx_Body t)"

definition wf_genesis :: "GenesisParams \<Rightarrow> bool" where
  "wf_genesis x \<longleftrightarrow> length (gp_Order x) = 128 \<and> length (gp_Seed x) = 32
     \<and> length (gp_VerifyParam x) = 32 \<and> in_i64 (gp_TimeParam x)"

definition wf_general :: "GeneralParams \<Rightarrow> bool" where
  "wf_general x \<longleftrightarrow> length (gn_RandomNumber x) = 33"

definition wf_header :: "BlockHeader \<Rightarrow> bool" where
  "wf_header x \<longleftrightarrow> length (bh_PrevBlockHash x) = 32 \<and> length (bh_BlockHash x) = 32
     \<and> length (bh_MerkleRoot x) = 32 \<and> length (bh_PublicKey x) = 33
     \<and> in_i64 (bh_Timestamp x) \<and> in_i64 (bh_Height x) \<and> in_i64 (bh_GasLimit x)"

definition wf_block :: "Block \<Rightarrow> bool" where
  "wf_block b \<longleftrightarrow> wf_header (blk_Header b) \<and> (\<forall>t \<in> set (blk_Transactions b). wf_tx t)"

section \<open>Writers\<close>

text \<open>The slots of each table, in the order and at the offsets the generated code writes them.\<close>

definition TransactionBody_fields :: "TransactionBody \<Rightarrow> field list" where
  "TransactionBody_fields x =
     [FBytes 4 (tb_Hash x), FBytes 36 (tb_Address x), FBytes 56 (tb_Receiver x),
      FInt64 76 (tb_Gas x), FInt64 84 (tb_Nonce x), FSlice 92 (tb_Event x),
      FSlice 104 (tb_Opt x), FSlice 116 (tb_State x), FSlice 128 (tb_Data x),
      FInt64 140 (tb_Expire x), FInt64 148 (tb_Height x), FInt64 156 (tb_Index x),
      FBytes 164 (tb_BlockHash x), FInt64 196 (tb_Timestamp x), FBytes 204 (tb_Public x),
      FSlice 237 (tb_Signature x)]"

definition TransactionBody_Write ::
    "'w karmem_ops \<Rightarrow> TransactionBody \<Rightarrow> nat \<Rightarrow> 'w \<Rightarrow> (nat \<times> 'w) option" where
  "TransactionBody_Write K x start w = write_table K 256 249 (TransactionBody_fields x) start w"

definition Transaction_Write ::
    "'w karmem_ops \<Rightarrow> Transaction \<Rightarrow> nat \<Rightarrow> 'w \<Rightarrow> (nat \<times> 'w) option" where
  "Transaction_Write K x start w =
     (case table_alloc K 8 start w of
        None \<Rightarrow> None
      | Some (off, w1) \<Rightarrow>
          (case kw_alloc K w1 256 of
             None \<Rightarrow> None
           | Some (bodyOff, w2) \<Rightarrow>
               (case TransactionBody_Write K (tx_Body x) bodyOff
                   (kw_write4 K w2 (off + 0) (bodyOff mod 2 ^ 32)) of
                  None \<Rightarrow> None
                | Some (_, w3) \<Rightarrow> Some (off, w3))))"

definition GenesisParams_fields :: "GenesisParams \<Rightarrow> field list" where
  "GenesisParams_fields x =
     [FBytes 4 (gp_Order x), FInt64 132 (gp_TimeParam x), FBytes 140 (gp_Seed x),
      FBytes 172 (gp_VerifyParam x)]"

definition GenesisParams_Write ::
    "'w karmem_ops \<Rightarrow> GenesisParams \<Rightarrow> nat \<Rightarrow> 'w \<Rightarrow> (nat \<times> 'w) option" where
  "GenesisParams_Write K x start w = write_table K 208 204 (GenesisParams_fields x) start w"

definition GeneralParams_fields :: "GeneralParams \<Rightarrow> field list" where
  "GeneralParams_fields x =
     [FSlice 4 (gn_Result x), FSlice 16 (gn_Proof x), FBytes 28 (gn_RandomNumber x),
      FSlice 61 (gn_S x), FSlice 73 (gn_T x)]"

definition GeneralParams_Write ::
    "'w karmem_ops \<Rightarrow> GeneralParams \<Rightarrow> nat \<Rightarrow> 'w \<Rightarrow> (nat \<times> 'w) option" where
  "GeneralParams_Write K x start w = write_table K 88 85 (GeneralParams_fields x) start w"

definition BlockHeader_fields :: "BlockHeader \<Rightarrow> field list" where
  "BlockHeader_fields x =
     [FInt64 4 (bh_Timestamp x), FBytes 12 (bh_PrevBlockHash x), FBytes 44 (bh_BlockHash x),
      FBytes 76 (bh_MerkleRoot x), FInt64 108 (bh_Height x), FBytes 116 (bh_PublicKey x),
      FSlice 149 (bh_Params x), FInt64 161 (bh_GasLimit x)]"

definition BlockHeader_Write ::
    "'w karmem_ops \<Rightarrow> BlockHeader \<Rightarrow> nat \<Rightarrow> 'w \<Rightarrow> (nat \<times> 'w) option" where
  "BlockHeader_Write K x start w = write_table K 176 169 (BlockHeader_fields x) start w"

fun Transactions_Write :: "'w karmem_ops \<Rightarrow> Transaction list \<Rightarrow> nat \<Rightarrow> 'w \<Rightarrow> 'w option" where
  "Transactions_Write K [] off w = Some w"
| "Transactions_Write K (t # ts) off w =
     (case Transaction_Write K t off w of
        None \<Rightarrow> None
      | Some (_, w1) \<Rightarrow> Transactions_Write K ts (off + 8) w1)"

definition Block_Write :: "'w karmem_ops \<Rightarrow> Block \<Rightarrow> nat \<Rightarrow> 'w \<Rightarrow> (nat \<times> 'w) option" where
  "Block_Write K x start w =
     (case table_alloc K 24 start w of
        None \<Rightarrow> None
      | Some (off, w1) \<Rightarrow>
          (case kw_alloc K (kw_write4 K w1 off 20) 176 of
             None \<Rightarrow> None
           | Some (hoff, w2) \<Rightarrow>
               (case BlockHeader_Write K (blk_Header x) hoff
                   (kw_write4 K w2 (off + 4) (hoff mod 2 ^ 32)) of
                  None \<Rightarrow> None
                | Some (_, w3) \<Rightarrow>
                    (let n = 8 * length (blk_Transactions x) in
                     case kw_alloc K w3 n of
                       None \<Rightarrow> None
                     | Some (toff, w4) \<Rightarrow>
                         (let w5 = kw_write4 K w4 (off + 8) (toff mod 2 ^ 32);
                              w6 = kw_write4 K w5 (off + 8 + 4) (n mod 2 ^ 32);
                              w7 = kw_write4 K w6 (off + 8 + 4 + 4) 8
                          in case Transactions_Write K (blk_Transactions x) toff w7 of
                               None \<Rightarrow> None
                             | Some w8 \<Rightarrow> Some (off, w8))))))"

definition DataCommand_fields :: "DataCommand \<Rightarrow> field list" where
  "DataCommand_fields x = [FSlice 4 (dc_Opt x), FSlice 16 (dc_Key x), FSlice 28 (dc_Value x)]"

definition DataCommand_Write ::
    "'w karmem_ops \<Rightarrow> DataCommand \<Rightarrow> nat \<Rightarrow> 'w \<Rightarrow> (nat \<times> 'w) option" where
  "DataCommand_Write K x start w = write_table K 48 40 (DataCommand_fields x) start w"

text \<open>WriteAsRoot into a new writer, and the bytes it holds then.\<close>

definition encode_root :: "'w karmem_ops \<Rightarrow> ('w \<Rightarrow> (nat \<times> 'w) option) \<Rightarrow> bytes option" where
  "encode_root K write =
     (case write (kw_new K 1024) of None \<Rightarrow> None | Some (_, w) \<Rightarrow> Some (kw_bytes K w))"

section \<open>Viewers and readers\<close>

text \<open>
  A viewer's accessors, as the record of what they return: a slice may be shorter than the array
  it is for. A signature is cut to 73 bytes.
\<close>

definition TransactionBodyViewer :: "'w karmem_ops \<Rightarrow> bytes \<Rightarrow> bytes \<Rightarrow> TransactionBody" where
  "TransactionBodyViewer K mem v =
     \<lparr>tb_Hash = view_array v 4 32, tb_Address = view_array v 36 20,
      tb_Receiver = view_array v 56 20, tb_Gas = view_i64 v 76, tb_Nonce = view_i64 v 84,
      tb_Event = view_slice K mem v 92, tb_Opt = view_slice K mem v 104,
      tb_State = view_slice K mem v 116, tb_Data = view_slice K mem v 128,
      tb_Expire = view_i64 v 140, tb_Height = view_i64 v 148, tb_Index = view_i64 v 156,
      tb_BlockHash = view_array v 164 32, tb_Timestamp = view_i64 v 196,
      tb_Public = view_array v 204 33, tb_Signature = take 73 (view_slice K mem v 237)\<rparr>"

definition TransactionBody_Read :: "'w karmem_ops \<Rightarrow> bytes \<Rightarrow> bytes \<Rightarrow> TransactionBody" where
  "TransactionBody_Read K mem v =
     (let x = TransactionBodyViewer K mem v in
      x\<lparr>tb_Hash := copy_array 32 (tb_Hash x), tb_Address := copy_array 20 (tb_Address x),
        tb_Receiver := copy_array 20 (tb_Receiver x),
        tb_BlockHash := copy_array 32 (tb_BlockHash x), tb_Public := copy_array 33 (tb_Public x)\<rparr>)"

definition TransactionViewer_Body :: "'w karmem_ops \<Rightarrow> bytes \<Rightarrow> bytes \<Rightarrow> bytes" where
  "TransactionViewer_Body K mem v = new_viewer K mem (le_dec (take 4 v))"

definition Transaction_Read :: "'w karmem_ops \<Rightarrow> bytes \<Rightarrow> bytes \<Rightarrow> Transaction" where
  "Transaction_Read K mem v =
     \<lparr>tx_Body = TransactionBody_Read K mem (TransactionViewer_Body K mem v)\<rparr>"

definition NewTransactionViewer :: "'w karmem_ops \<Rightarrow> bytes \<Rightarrow> nat \<Rightarrow> bytes" where
  "NewTransactionViewer K mem off =
     (if \<not> kr_valid K mem off 8 then null_viewer K else drop off mem)"

definition GenesisParamsViewer :: "bytes \<Rightarrow> GenesisParams" where
  "GenesisParamsViewer v =
     \<lparr>gp_Order = view_array v 4 128, gp_TimeParam = view_i64 v 132,
      gp_Seed = view_array v 140 32, gp_VerifyParam = view_array v 172 32\<rparr>"

definition GenesisParams_Read :: "bytes \<Rightarrow> GenesisParams" where
  "GenesisParams_Read v =
     (let x = GenesisParamsViewer v in
      x\<lparr>gp_Order := copy_array 128 (gp_Order x), gp_Seed := copy_array 32 (gp_Seed x),
        gp_VerifyParam := copy_array 32 (gp_VerifyParam x)\<rparr>)"

definition GeneralParamsViewer :: "'w karmem_ops \<Rightarrow> bytes \<Rightarrow> bytes \<Rightarrow> GeneralParams" where
  "GeneralParamsViewer K mem v =
     \<lparr>gn_Result = view_slice K mem v 4, gn_Proof = view_slice K mem v 16,
      gn_RandomNumber = view_array v 28 33, gn_S = view_slice K mem v 61,
      gn_T = view_slice K mem v 73\<rparr>"

definition GeneralParams_Read :: "'w karmem_ops \<Rightarrow> bytes \<Rightarrow> bytes \<Rightarrow> GeneralParams" where
  "GeneralParams_Read K mem v =
     (let x = GeneralParamsViewer K mem v in
      x\<lparr>gn_RandomNumber := copy_array 33 (gn_RandomNumber x)\<rparr>)"

definition BlockHeaderViewer :: "'w karmem_ops \<Rightarrow> bytes \<Rightarrow> bytes \<Rightarrow> BlockHeader" where
  "BlockHeaderViewer K mem v =
     \<lparr>bh_Timestamp = view_i64 v 4, bh_PrevBlockHash = view_array v 12 32,
      bh_BlockHash = view_array v 44 32, bh_MerkleRoot = view_array v 76 32,
      bh_Height = view_i64 v 108, bh_PublicKey = view_array v 116 33,
      bh_Params = view_slice K mem v 149, bh_GasLimit = view_i64 v 161\<rparr>"

definition BlockHeader_Read :: "'w karmem_ops \<Rightarrow> bytes \<Rightarrow> bytes \<Rightarrow> BlockHeader" where
  "BlockHeader_Read K mem v =
     (let x = BlockHeaderViewer K mem v in
      x\<lparr>bh_PrevBlockHash := copy_array 32 (bh_PrevBlockHash x),
        bh_BlockHash := copy_array 32 (bh_BlockHash x),
        bh_MerkleRoot := copy_array 32 (bh_MerkleRoot x),
        bh_PublicKey := copy_array 33 (bh_PublicKey x)\<rparr>)"

definition BlockViewer_Header :: "'w karmem_ops \<Rightarrow> bytes \<Rightarrow> bytes \<Rightarrow> bytes" where
  "BlockViewer_Header K mem v =
     (if 4 + 4 > view_size v then null_viewer K else new_viewer K mem (le_dec (take 4 (drop 4 v))))"

definition BlockViewer_Transactions :: "'w karmem_ops \<Rightarrow> bytes \<Rightarrow> bytes \<Rightarrow> bytes list" where
  "BlockViewer_Transactions K mem v =
     (if 8 + 12 > view_size v then []
      else let off = le_dec (take 4 (drop 8 v)); sz = le_dec (take 4 (drop (8 + 4) v)) in
        if \<not> kr_valid K mem off sz then []
        else map (\<lambda>i. drop (off + 8 * i) mem) [0..<sz div 8])"

definition Block_Read :: "'w karmem_ops \<Rightarrow> bytes \<Rightarrow> bytes \<Rightarrow> Block" where
  "Block_Read K mem v =
     \<lparr>blk_Header = BlockHeader_Read K mem (BlockViewer_Header K mem v),
      blk_Transactions = map (Transaction_Read K mem) (BlockViewer_Transactions K mem v)\<rparr>"

definition DataCommandViewer :: "'w karmem_ops \<Rightarrow> bytes \<Rightarrow> bytes \<Rightarrow> DataCommand" where
  "DataCommandViewer K mem v =
     \<lparr>dc_Opt = view_slice K mem v 4, dc_Key = view_slice K mem v 16,
      dc_Value = view_slice K mem v 28\<rparr>"

definition DataCommand_Read :: "'w karmem_ops \<Rightarrow> bytes \<Rightarrow> bytes \<Rightarrow> DataCommand" where
  "DataCommand_Read K mem v = DataCommandViewer K mem v"

section \<open>New values and resets\<close>

text \<open>A reset reads the null viewer with a reader over 256 zero bytes.\<close>

definition null_reader :: bytes where
  "null_reader = replicate 256 0"

definition NewTransactionBody :: TransactionBody where
  "NewTransactionBody =
     \<lparr>tb_Hash = replicate 32 0, tb_Address = replicate 20 0, tb_Receiver = replicate 20 0, tb_Gas = 0,
      tb_Nonce = 0, tb_Event = [], tb_Opt = [], tb_State = [], tb_Data = [], tb_Expire = 0, tb_Height = 0,
      tb_Index = 0, tb_BlockHash = replicate 32 0, tb_Timestamp = 0, tb_Public = replicate 33 0, tb_Signature = []\<rparr>"

definition TransactionBody_Reset :: "'w karmem_ops \<Rightarrow> TransactionBody" where
  "TransactionBody_Reset K = TransactionBody_Read K null_reader (null_viewer K)"

definition NewTransaction :: Transaction where
  "NewTransaction = \<lparr>tx_Body = NewTransactionBody\<rparr>"

definition Transaction_Reset :: "'w karmem_ops \<Rightarrow> Transaction" where
  "Transaction_Reset K = Transaction_Read K null_reader (null_viewer K)"

definition NewGenesisParams :: GenesisParams where
  "NewGenesisParams = \<lparr>gp_Order = replicate 128 0, gp_TimeParam = 0, gp_Seed = replicate 32 0, gp_VerifyParam = replicate 32 0\<rparr>"

definition GenesisParams_Reset :: "'w karmem_ops \<Rightarrow> GenesisParams" where
  "GenesisParams_Reset K = GenesisParams_Read (null_viewer K)"

definition NewGeneralParams :: GeneralParams where
  "NewGeneralParams = \<lparr>gn_Result = [], gn_Proof = [], gn_RandomNumber = replicate 33 0, gn_S = [], gn_T = []\<rparr>"

definition GeneralParams_Reset :: "'w karmem_ops \<Rightarrow> GeneralParams" where
  "GeneralParams_Reset K = GeneralParams_Read K null_reader (null_viewer K)"

definition NewBlockHeader :: BlockHeader where
  "NewBlockHeader =
     \<lparr>bh_Timestamp = 0, bh_PrevBlockHash = replicate 32 0, bh_BlockHash = replicate 32 0,
      bh_MerkleRoot = replicate 32 0, bh_Height = 0, bh_PublicKey = replicate 33 0, bh_Params = [], bh_GasLimit = 0\<rparr>"

definition BlockHeader_Reset :: "'w karmem_ops \<Rightarrow> BlockHeader" where
  "BlockHeader_Reset K = BlockHeader_Read K null_reader (null_viewer K)"

definition NewBlock :: Block where
  "NewBlock = \<lparr>blk_Header = NewBlockHeader, blk_Transactions = []\<rparr>"

definition Block_Reset :: "'w karmem_ops \<Rightarrow> Block" where
  "Block_Reset K = Block_Read K null_reader (null_viewer K)"

definition NewDataCommand :: DataCommand where
  "NewDataCommand = \<lparr>dc_Opt = [], dc_Key = [], dc_Value = []\<rparr>"

definition DataCommand_Reset :: "'w karmem_ops \<Rightarrow> DataCommand" where
  "DataCommand_Reset K = DataCommand_Read K null_reader (null_viewer K)"

text \<open>New values are well-formed; a reset header is not a new one, whatever lies behind the slice.\<close>

lemma new_values_wf:
  "wf_block NewBlock" "wf_tx NewTransaction" "wf_genesis NewGenesisParams" "wf_general NewGeneralParams"
  by (simp_all add: wf_block_def NewBlock_def wf_header_def NewBlockHeader_def wf_tx_def wf_body_def NewTransaction_def
      NewTransactionBody_def wf_genesis_def NewGenesisParams_def wf_general_def NewGeneralParams_def in_i64_def)

lemma reset_header_time:
  assumes "null_viewer K = slice_header addr 256 @ rest" and "addr < 2 ^ 64" and "12 \<le> addr mod 2 ^ 32"
  shows "bh_Timestamp (BlockHeader_Reset K) = int (addr div 2 ^ 32) + 2 ^ 40"
  using null_i64 [OF assms(2) _ assms(3), of 256 rest]
  by (simp add: BlockHeader_Reset_def BlockHeader_Read_def BlockHeaderViewer_def assms(1) Let_def)

section \<open>Serialising and deserialising (utils/serializer.go, utils/deseralizer.go)\<close>

definition SerializeBlock :: "'w karmem_ops \<Rightarrow> Block \<Rightarrow> bytes option" where
  "SerializeBlock K b = encode_root K (Block_Write K b 0)"

definition SerializeTransaction :: "'w karmem_ops \<Rightarrow> Transaction \<Rightarrow> bytes option" where
  "SerializeTransaction K t = encode_root K (Transaction_Write K t 0)"

definition SerializeBlockHeader :: "'w karmem_ops \<Rightarrow> BlockHeader \<Rightarrow> bytes option" where
  "SerializeBlockHeader K h = encode_root K (BlockHeader_Write K h 0)"

definition SerializeGenesisParams :: "'w karmem_ops \<Rightarrow> GenesisParams \<Rightarrow> bytes option" where
  "SerializeGenesisParams K p = encode_root K (GenesisParams_Write K p 0)"

definition SerializeGeneralParams :: "'w karmem_ops \<Rightarrow> GeneralParams \<Rightarrow> bytes option" where
  "SerializeGeneralParams K p = encode_root K (GeneralParams_Write K p 0)"

definition SerializeDataCommand :: "'w karmem_ops \<Rightarrow> DataCommand \<Rightarrow> bytes option" where
  "SerializeDataCommand K d = encode_root K (DataCommand_Write K d 0)"

definition DeserializeBlock :: "'w karmem_ops \<Rightarrow> bytes \<Rightarrow> Block" where
  "DeserializeBlock K mem = Block_Read K mem (new_viewer K mem 0)"

definition DeserializeTransaction :: "'w karmem_ops \<Rightarrow> bytes \<Rightarrow> Transaction" where
  "DeserializeTransaction K mem = Transaction_Read K mem (NewTransactionViewer K mem 0)"

definition DeserializeGeneralParams :: "'w karmem_ops \<Rightarrow> bytes \<Rightarrow> GeneralParams" where
  "DeserializeGeneralParams K mem = GeneralParams_Read K mem (new_viewer K mem 0)"

definition DeserializeGenesisParams :: "'w karmem_ops \<Rightarrow> bytes \<Rightarrow> GenesisParams" where
  "DeserializeGenesisParams K mem = GenesisParams_Read (new_viewer K mem 0)"

definition DeserializeDataCommand :: "'w karmem_ops \<Rightarrow> bytes \<Rightarrow> DataCommand" where
  "DeserializeDataCommand K mem = DataCommand_Read K mem (new_viewer K mem 0)"

section \<open>Accessors of a block (common/block.go)\<close>

definition BlockHash :: "Block \<Rightarrow> string" where
  "BlockHash b = hex_encode (bh_BlockHash (blk_Header b))"

definition PrevBlockHash :: "Block \<Rightarrow> string" where
  "PrevBlockHash b = hex_encode (bh_PrevBlockHash (blk_Header b))"

definition IsGenesisBlock :: "Block \<Rightarrow> bool" where
  "IsGenesisBlock b \<longleftrightarrow> PrevBlockHash b = replicate 64 (CHR ''0'')"

abbreviation blk_Height :: "Block \<Rightarrow> int" where
  "blk_Height b \<equiv> bh_Height (blk_Header b)"

lemma IsGenesisBlock_iff: "IsGenesisBlock b \<longleftrightarrow> bh_PrevBlockHash (blk_Header b) = replicate 32 0"
  using hex_encode_inject [of _ "replicate 32 0"]
  by (simp add: IsGenesisBlock_def PrevBlockHash_def hex_encode_zeros)

section \<open>Sample values\<close>

text \<open>A well-formed block with one transaction, for the instances below.\<close>

definition sample_tx :: Transaction where
  "sample_tx = \<lparr>tx_Body = \<lparr>tb_Hash = replicate 32 1, tb_Address = replicate 20 2,
     tb_Receiver = replicate 20 3, tb_Gas = 5, tb_Nonce = -1, tb_Event = [7], tb_Opt = [],
     tb_State = [8, 9], tb_Data = [1, 2, 3], tb_Expire = 3000, tb_Height = 0, tb_Index = 0,
     tb_BlockHash = replicate 32 0, tb_Timestamp = 12, tb_Public = replicate 33 4,
     tb_Signature = [5, 6]\<rparr>\<rparr>"

definition sample_header :: BlockHeader where
  "sample_header = \<lparr>bh_Timestamp = 1000, bh_PrevBlockHash = replicate 32 1,
     bh_BlockHash = replicate 32 2, bh_MerkleRoot = replicate 32 3, bh_Height = 1,
     bh_PublicKey = replicate 33 4, bh_Params = [9, 9], bh_GasLimit = 0\<rparr>"

definition sample_block :: Block where
  "sample_block = \<lparr>blk_Header = sample_header, blk_Transactions = [sample_tx]\<rparr>"

lemma wf_sample_tx: "wf_tx sample_tx"
  by (simp add: wf_tx_def wf_body_def sample_tx_def in_i64_def)

lemma wf_sample_header: "wf_header sample_header"
  by (simp add: wf_header_def sample_header_def in_i64_def)

lemma wf_sample_block: "wf_block sample_block"
  using wf_sample_tx wf_sample_header by (simp add: wf_block_def sample_block_def)

end
