(* ===== verification/Roundtrip.thy ===== *)
theory Roundtrip
  imports Codec
begin

text \<open>
  Every struct survives serialisation: the general facts under the laws of the library first,
  then the properties of the development, with a concrete instance for each. A decoder also
  returns a well-formed struct on any input, however malformed.
\<close>

section \<open>Sizes\<close>

definition body_tail :: "TransactionBody \<Rightarrow> nat" where
  "body_tail x = length (tb_Event x) + length (tb_Opt x) + length (tb_State x)
     + length (tb_Data x) + length (tb_Signature x)"

text \<open>The exact size of an encoded transaction and of an encoded block.\<close>

definition tx_size :: "Transaction \<Rightarrow> nat" where
  "tx_size t = 264 + body_tail (tx_Body t)"

definition block_size :: "Block \<Rightarrow> nat" where
  "block_size b = 200 + length (bh_Params (blk_Header b))
     + sum_list (map tx_size (blk_Transactions b))"

lemma slots_le_size: "8 * length ts \<le> sum_list (map tx_size ts)"
  by (induction ts) (auto simp: tx_size_def)

lemma slots_body: "wf_body x \<Longrightarrow> slots_ok 4 256 (TransactionBody_fields x)"
  by (simp add: TransactionBody_fields_def wf_body_def)

lemma slots_header: "wf_header x \<Longrightarrow> slots_ok 4 176 (BlockHeader_fields x)"
  by (simp add: BlockHeader_fields_def wf_header_def)

lemma tails_body: "sum_list (map tail_len (TransactionBody_fields x)) = body_tail x"
  by (simp add: TransactionBody_fields_def body_tail_def)

lemma tails_header: "sum_list (map tail_len (BlockHeader_fields x)) = length (bh_Params x)"
  by (simp add: BlockHeader_fields_def)

lemma body_write: "TransactionBody_Write K x s = write_table K 256 249 (TransactionBody_fields x) s"
  and genesis_write: "GenesisParams_Write K p s = write_table K 208 204 (GenesisParams_fields p) s"
  and general_write: "GeneralParams_Write K g s = write_table K 88 85 (GeneralParams_fields g) s"
  and header_write: "BlockHeader_Write K h s = write_table K 176 169 (BlockHeader_fields h) s"
  and command_write: "DataCommand_Write K d s = write_table K 48 40 (DataCommand_fields d) s"
  by (rule ext, simp add: TransactionBody_Write_def GenesisParams_Write_def GeneralParams_Write_def
      BlockHeader_Write_def DataCommand_Write_def)+

context karmem
begin

subsection \<open>Single tables\<close>

lemma encode_table:
  assumes "slots_ok 4 sz fs" and "used \<le> sz"
  shows "\<exists>bs. encode_root K (write_table K sz used fs 0) = Some bs
      \<and> length bs = sz + sum_list (map tail_len fs)
      \<and> (length bs < 2 ^ 32 \<longrightarrow> table_at bs 0 used fs)"
proof -
  obtain w where w: "write_table K sz used fs 0 (kw_new K 1024) = Some (0, w)"
    "len w = sz + sum_list (map tail_len fs)" "table_in (cell w) (len w) 0 sz used fs"
    using write_table_spec [OF assms(1), of 0 "kw_new K 1024" used] by (auto simp: len_new)
  have "len w < 2 ^ 32 \<longrightarrow> table_at (mem_list (cell w) (len w)) 0 used fs"
    using table_at_of_in [OF w(3) assms(2)] by blast
  then show ?thesis using w by (simp add: encode_root_def bytes)
qed

lemma read_body:
  assumes "table_at mem off 249 (TransactionBody_fields x)" and "wf_body x"
  shows "TransactionBody_Read K mem (drop off mem) = x"
proof -
  note t = assms(1)
  have m: "\<And>k bs. FBytes k bs \<in> set (TransactionBody_fields x) \<Longrightarrow> k + length bs \<le> 249
      \<Longrightarrow> view_array (drop off mem) k (length bs) = bs"
    by (rule view_array_table [OF t]) auto
  have i: "\<And>k y. FInt64 k y \<in> set (TransactionBody_fields x) \<Longrightarrow> k + 8 \<le> 249
      \<Longrightarrow> view_i64 (drop off mem) k = i64 y"
    by (rule view_i64_table [OF t]) auto
  have s: "\<And>k bs. FSlice k bs \<in> set (TransactionBody_fields x) \<Longrightarrow> k + 12 \<le> 249
      \<Longrightarrow> view_slice K mem (drop off mem) k = bs"
    by (rule view_slice_table [OF t]) auto
  show ?thesis
    using m [of 4 "tb_Hash x"] m [of 36 "tb_Address x"] m [of 56 "tb_Receiver x"]
      m [of 164 "tb_BlockHash x"] m [of 204 "tb_Public x"] assms(2)
    by (simp add: TransactionBody_Read_def TransactionBodyViewer_def Let_def wf_body_def
        i [of 76 "tb_Gas x"] i [of 84 "tb_Nonce x"] i [of 140 "tb_Expire x"]
        i [of 148 "tb_Height x"] i [of 156 "tb_Index x"] i [of 196 "tb_Timestamp x"]
        s [of 92 "tb_Event x"] s [of 104 "tb_Opt x"] s [of 116 "tb_State x"]
        s [of 128 "tb_Data x"] s [of 237 "tb_Signature x"] TransactionBody_fields_def)
qed

lemma read_header:
  assumes "table_at mem off 169 (BlockHeader_fields x)" and "wf_header x"
  shows "BlockHeader_Read K mem (drop off mem) = x"
proof -
  note t = assms(1)
  have m: "\<And>k bs. FBytes k bs \<in> set (BlockHeader_fields x) \<Longrightarrow> k + length bs \<le> 169
      \<Longrightarrow> view_array (drop off mem) k (length bs) = bs"
    by (rule view_array_table [OF t]) auto
  have i: "\<And>k y. FInt64 k y \<in> set (BlockHeader_fields x) \<Longrightarrow> k + 8 \<le> 169
      \<Longrightarrow> view_i64 (drop off mem) k = i64 y"
    by (rule view_i64_table [OF t]) auto
  have s: "view_slice K mem (drop off mem) 149 = bh_Params x"
    by (rule view_slice_table [OF t]) (auto simp: BlockHeader_fields_def)
  show ?thesis
    using m [of 12 "bh_PrevBlockHash x"] m [of 44 "bh_BlockHash x"] m [of 76 "bh_MerkleRoot x"]
      m [of 116 "bh_PublicKey x"] assms(2)
    by (simp add: BlockHeader_Read_def BlockHeaderViewer_def Let_def wf_header_def s
        i [of 4 "bh_Timestamp x"] i [of 108 "bh_Height x"] i [of 161 "bh_GasLimit x"]
        BlockHeader_fields_def)
qed

lemma header_roundtrip:
  assumes "wf_header x"
  shows "\<exists>bs. SerializeBlockHeader K x = Some bs \<and> length bs = 176 + length (bh_Params x)
    \<and> (length bs < 2 ^ 32 \<longrightarrow> BlockHeader_Read K bs (new_viewer K bs 0) = x)"
proof -
  obtain bs where bs: "SerializeBlockHeader K x = Some bs" "length bs = 176 + length (bh_Params x)"
    "length bs < 2 ^ 32 \<longrightarrow> table_at bs 0 169 (BlockHeader_fields x)"
    using encode_table [OF slots_header [OF assms], of 169]
    unfolding SerializeBlockHeader_def header_write tails_header by auto
  then show ?thesis
    using read_header [of bs 0 x] assms new_viewer_table [of bs 0 169] by auto
qed

lemma general_roundtrip:
  assumes "wf_general x"
  shows "\<exists>bs. SerializeGeneralParams K x = Some bs
    \<and> length bs = 88 + length (gn_Result x) + length (gn_Proof x) + length (gn_S x) + length (gn_T x)
    \<and> (length bs < 2 ^ 32 \<longrightarrow> DeserializeGeneralParams K bs = x)"
proof -
  have ok: "slots_ok 4 88 (GeneralParams_fields x)"
    using assms by (simp add: GeneralParams_fields_def wf_general_def)
  have tl: "sum_list (map tail_len (GeneralParams_fields x))
      = length (gn_Result x) + length (gn_Proof x) + length (gn_S x) + length (gn_T x)"
    by (simp add: GeneralParams_fields_def)
  obtain bs where bs: "SerializeGeneralParams K x = Some bs"
    "length bs = 88 + length (gn_Result x) + length (gn_Proof x) + length (gn_S x) + length (gn_T x)"
    "length bs < 2 ^ 32 \<longrightarrow> table_at bs 0 85 (GeneralParams_fields x)"
    using encode_table [OF ok, of 85] tl
    unfolding SerializeGeneralParams_def general_write by auto
  have "DeserializeGeneralParams K bs = x" if "length bs < 2 ^ 32"
  proof -
    have t: "table_at bs 0 85 (GeneralParams_fields x)" using bs(3) that by blast
    have "view_array bs 28 33 = gn_RandomNumber x"
      using view_array_table [OF t, of 28 "gn_RandomNumber x" 33] assms
      by (simp add: GeneralParams_fields_def wf_general_def)
    moreover have "view_slice K bs bs 4 = gn_Result x" "view_slice K bs bs 16 = gn_Proof x"
      "view_slice K bs bs 61 = gn_S x" "view_slice K bs bs 73 = gn_T x"
      using view_slice_table [OF t, of 4 "gn_Result x"] view_slice_table [OF t, of 16 "gn_Proof x"]
        view_slice_table [OF t, of 61 "gn_S x"] view_slice_table [OF t, of 73 "gn_T x"]
      by (simp_all add: GeneralParams_fields_def)
    ultimately show ?thesis
      using new_viewer_table [OF t] assms
      by (simp add: DeserializeGeneralParams_def GeneralParams_Read_def GeneralParamsViewer_def
          Let_def wf_general_def)
  qed
  then show ?thesis using bs by blast
qed

lemma genesis_roundtrip:
  assumes "wf_genesis x"
  shows "\<exists>bs. SerializeGenesisParams K x = Some bs \<and> length bs = 208
    \<and> DeserializeGenesisParams K bs = x"
proof -
  have ok: "slots_ok 4 208 (GenesisParams_fields x)"
    using assms by (simp add: GenesisParams_fields_def wf_genesis_def)
  obtain bs where bs: "SerializeGenesisParams K x = Some bs" "length bs = 208"
    "table_at bs 0 204 (GenesisParams_fields x)"
    using encode_table [OF ok, of 204]
    unfolding SerializeGenesisParams_def genesis_write by (auto simp: GenesisParams_fields_def)
  note t = bs(3)
  have "view_array bs 4 128 = gp_Order x" "view_array bs 140 32 = gp_Seed x"
    "view_array bs 172 32 = gp_VerifyParam x" "view_i64 bs 132 = gp_TimeParam x"
    using view_array_table [OF t, of 4 "gp_Order x" 128] view_array_table [OF t, of 140 "gp_Seed x" 32]
      view_array_table [OF t, of 172 "gp_VerifyParam x" 32] assms
      view_i64_table [OF t, of 132 "gp_TimeParam x"]
    by (simp_all add: GenesisParams_fields_def wf_genesis_def)
  then show ?thesis
    using bs new_viewer_table [OF t] assms
    by (simp add: DeserializeGenesisParams_def GenesisParams_Read_def GenesisParamsViewer_def
        Let_def wf_genesis_def)
qed

lemma command_roundtrip:
  "\<exists>bs. SerializeDataCommand K x = Some bs
    \<and> length bs = 48 + length (dc_Opt x) + length (dc_Key x) + length (dc_Value x)
    \<and> (length bs < 2 ^ 32 \<longrightarrow> DeserializeDataCommand K bs = x)"
proof -
  have ok: "slots_ok 4 48 (DataCommand_fields x)" by (simp add: DataCommand_fields_def)
  obtain bs where bs: "SerializeDataCommand K x = Some bs"
    "length bs = 48 + length (dc_Opt x) + length (dc_Key x) + length (dc_Value x)"
    "length bs < 2 ^ 32 \<longrightarrow> table_at bs 0 40 (DataCommand_fields x)"
    using encode_table [OF ok, of 40]
    unfolding SerializeDataCommand_def command_write by (auto simp: DataCommand_fields_def add.assoc)
  have "DeserializeDataCommand K bs = x" if "length bs < 2 ^ 32"
  proof -
    have t: "table_at bs 0 40 (DataCommand_fields x)" using bs(3) that by blast
    have "view_slice K bs bs 4 = dc_Opt x" "view_slice K bs bs 16 = dc_Key x"
      "view_slice K bs bs 28 = dc_Value x"
      using view_slice_table [OF t, of 4 "dc_Opt x"] view_slice_table [OF t, of 16 "dc_Key x"]
        view_slice_table [OF t, of 28 "dc_Value x"]
      by (simp_all add: DataCommand_fields_def)
    then show ?thesis
      using new_viewer_table [OF t]
      by (simp add: DeserializeDataCommand_def DataCommand_Read_def DataCommandViewer_def)
  qed
  then show ?thesis using bs by blast
qed

subsection \<open>Transactions: a pointer word and a body behind it\<close>

definition tx_in :: "(nat \<Rightarrow> byte) \<Rightarrow> nat \<Rightarrow> nat \<Rightarrow> nat \<Rightarrow> Transaction \<Rightarrow> bool" where
  "tx_in m n off lo t \<longleftrightarrow> (\<exists>boff. lo \<le> boff \<and> holds m off (le_enc 4 (boff mod 2 ^ 32))
     \<and> table_in m n boff 256 249 (TransactionBody_fields (tx_Body t)))"

lemma tx_in_mono: "tx_in m n off lo t \<Longrightarrow> lo' \<le> lo \<Longrightarrow> tx_in m n off lo' t"
  unfolding tx_in_def by (meson order_trans)

lemma tx_in_keep:
  assumes "tx_in m n off lo t" and "off + 4 \<le> lo" and "n \<le> n'"
    and "\<And>i. off \<le> i \<Longrightarrow> i < off + 4 \<Longrightarrow> m' i = m i"
    and "\<And>i. lo \<le> i \<Longrightarrow> i < n \<Longrightarrow> m' i = m i"
  shows "tx_in m' n' off lo t"
proof -
  obtain boff where b: "lo \<le> boff" "holds m off (le_enc 4 (boff mod 2 ^ 32))"
    "table_in m n boff 256 249 (TransactionBody_fields (tx_Body t))"
    using assms(1) unfolding tx_in_def by blast
  have "holds m' off (le_enc 4 (boff mod 2 ^ 32))"
    by (rule holds_frame [OF b(2)]) (use assms(4) in auto)
  moreover have "table_in m' n' boff 256 249 (TransactionBody_fields (tx_Body t))"
    by (rule table_in_keep [OF b(3) assms(3)]) (use assms(5) b(1) in auto)
  ultimately show ?thesis using b(1) unfolding tx_in_def by blast
qed

lemma write_tx_spec:
  assumes "wf_tx t" and "start = 0 \<or> start + 8 \<le> len w"
  defines "lo \<equiv> len w + (if start = 0 then 8 else 0)"
    and "off \<equiv> (if start = 0 then len w else start)"
  shows "\<exists>w'. Transaction_Write K t start w = Some (off, w')
      \<and> len w' = lo + 256 + body_tail (tx_Body t)
      \<and> tx_in (cell w') (len w') off lo t
      \<and> (\<forall>i < len w. \<not> (off \<le> i \<and> i < off + 4) \<longrightarrow> cell w' i = cell w i)"
proof -
  obtain w1 where w1: "table_alloc K 8 start w = Some (off, w1)" "len w1 = lo" "cell w1 = cell w"
    using alloc [of w 8] by (cases "start = 0") (auto simp: table_alloc_def off_def lo_def)
  obtain w2 where w2: "kw_alloc K w1 256 = Some (lo, w2)" "len w2 = lo + 256" "cell w2 = cell w"
    using alloc [of w1 256] w1 by auto
  have off: "off + 8 \<le> lo" using assms(2) by (auto simp: off_def lo_def)
  define w3 where "w3 = kw_write4 K w2 (off + 0) (lo mod 2 ^ 32)"
  have l3: "len w3 = lo + 256" using w2 off by (simp add: w3_def write4 len_write)
  have h3: "holds (cell w3) off (le_enc 4 (lo mod 2 ^ 32))"
    using w2 off by (simp add: w3_def write4 holds_write)
  have f3: "i < off \<or> off + 4 \<le> i \<Longrightarrow> cell w3 i = cell w i" for i
    using w2 off by (simp add: w3_def write4 frame_write)
  have wf: "slots_ok 4 256 (TransactionBody_fields (tx_Body t))"
    using assms(1) by (simp add: wf_tx_def slots_body)
  obtain w4 where w4:
    "write_table K 256 249 (TransactionBody_fields (tx_Body t)) lo w3 = Some (lo, w4)"
    "len w4 = lo + 256 + body_tail (tx_Body t)"
    "table_in (cell w4) (len w4) lo 256 249 (TransactionBody_fields (tx_Body t))"
    "\<forall>i < lo + 256. \<not> (lo \<le> i \<and> i < lo + 256) \<longrightarrow> cell w4 i = cell w3 i"
    using write_table_spec [OF wf, of lo w3 249] l3 off by (auto simp: tails_body)
  have "holds (cell w4) off (le_enc 4 (lo mod 2 ^ 32))"
    by (rule holds_frame [OF h3]) (use w4(4) off in auto)
  with w4(3) have "tx_in (cell w4) (len w4) off lo t" unfolding tx_in_def by blast
  moreover have "\<forall>i < len w. \<not> (off \<le> i \<and> i < off + 4) \<longrightarrow> cell w4 i = cell w i"
    using w4(4) f3 by (auto simp: lo_def)
  moreover have "Transaction_Write K t start w = Some (off, w4)"
    using w1 w2 w4 by (simp add: Transaction_Write_def body_write w3_def)
  ultimately show ?thesis using w4(2) by blast
qed

lemma read_tx:
  assumes "tx_in m n off lo t" and "off + 8 \<le> n" and "n < 2 ^ 32" and "wf_tx t"
  shows "Transaction_Read K (mem_list m n) (drop off (mem_list m n)) = t"
proof -
  obtain b where b: "holds m off (le_enc 4 (b mod 2 ^ 32))"
    "table_in m n b 256 249 (TransactionBody_fields (tx_Body t))"
    using assms(1) unfolding tx_in_def by blast
  have t: "table_at (mem_list m n) b 249 (TransactionBody_fields (tx_Body t))"
    by (rule table_at_of_in [OF b(2)]) (use assms(3) in auto)
  have "b < 2 ^ 32" using b(2) assms(3) by (auto simp: table_in_def)
  moreover have "take 4 (drop off (mem_list m n)) = le_enc 4 (b mod 2 ^ 32)"
    by (rule holds_take_drop [OF b(1)]) (use assms(2) in auto)
  ultimately have "le_dec (take 4 (drop off (mem_list m n))) = b" by (simp add: codec_simps)
  then have "TransactionViewer_Body K (mem_list m n) (drop off (mem_list m n))
      = drop b (mem_list m n)"
    using new_viewer_table [OF t] by (simp add: TransactionViewer_Body_def)
  then show ?thesis
    using read_body [OF t] assms(4) by (simp add: Transaction_Read_def wf_tx_def)
qed

lemma tx_roundtrip:
  assumes "wf_tx t"
  shows "\<exists>bs. SerializeTransaction K t = Some bs \<and> length bs = tx_size t
    \<and> (length bs < 2 ^ 32 \<longrightarrow> DeserializeTransaction K bs = t)"
proof -
  obtain w where w: "Transaction_Write K t 0 (kw_new K 1024) = Some (0, w)"
    "len w = 264 + body_tail (tx_Body t)" "tx_in (cell w) (len w) 0 8 t"
    using write_tx_spec [OF assms, of 0 "kw_new K 1024"] by (auto simp: len_new)
  then have "DeserializeTransaction K (mem_list (cell w) (len w)) = t" if "len w < 2 ^ 32"
    using read_tx [OF w(3)] that assms
    by (simp add: DeserializeTransaction_def NewTransactionViewer_def valid)
  then show ?thesis
    using w by (simp add: SerializeTransaction_def encode_root_def bytes tx_size_def)
qed

subsection \<open>Blocks\<close>

lemma write_txs_spec:
  assumes "\<forall>t \<in> set ts. wf_tx t" and "off \<noteq> 0" and "off + 8 * length ts \<le> len w"
  shows "\<exists>w'. Transactions_Write K ts off w = Some w'
      \<and> len w' = len w + sum_list (map (\<lambda>t. 256 + body_tail (tx_Body t)) ts)
      \<and> (\<forall>j < length ts. tx_in (cell w') (len w') (off + 8 * j) (len w) (ts ! j))
      \<and> (\<forall>i < len w. \<not> (off \<le> i \<and> i < off + 8 * length ts) \<longrightarrow> cell w' i = cell w i)"
  using assms
proof (induction ts arbitrary: off w)
  case Nil
  then show ?case by simp
next
  case (Cons t ts)
  obtain w1 where w1: "Transaction_Write K t off w = Some (off, w1)"
    "len w1 = len w + 256 + body_tail (tx_Body t)" "tx_in (cell w1) (len w1) off (len w) t"
    "\<forall>i < len w. \<not> (off \<le> i \<and> i < off + 4) \<longrightarrow> cell w1 i = cell w i"
    using write_tx_spec [of t off w] Cons.prems by auto
  obtain w2 where w2: "Transactions_Write K ts (off + 8) w1 = Some w2"
    "len w2 = len w1 + sum_list (map (\<lambda>t. 256 + body_tail (tx_Body t)) ts)"
    "\<forall>j < length ts. tx_in (cell w2) (len w2) (off + 8 + 8 * j) (len w1) (ts ! j)"
    "\<forall>i < len w1. \<not> (off + 8 \<le> i \<and> i < off + 8 + 8 * length ts) \<longrightarrow> cell w2 i = cell w1 i"
    using Cons.IH [of "off + 8" w1] Cons.prems w1(2) by auto
  have hd: "tx_in (cell w2) (len w2) off (len w) t"
    by (rule tx_in_keep [OF w1(3)]) (use w1(2) w2(2,4) Cons.prems(3) in auto)
  have tl: "tx_in (cell w2) (len w2) (off + 8 + 8 * j) (len w) (ts ! j)" if "j < length ts" for j
    by (rule tx_in_mono [of _ _ _ "len w1"]) (use w2(3) that w1(2) in auto)
  have "tx_in (cell w2) (len w2) (off + 8 * j) (len w) ((t # ts) ! j)" if "j < length (t # ts)" for j
    using hd tl [of "j - 1"] that by (cases j) (auto simp: algebra_simps)
  moreover have "\<forall>i < len w. \<not> (off \<le> i \<and> i < off + 8 * length (t # ts)) \<longrightarrow> cell w2 i = cell w i"
    using w1(2,4) w2(4) by auto
  ultimately show ?case using w1 w2 by auto
qed

lemma read_txs:
  assumes "\<forall>j < length ts. tx_in m n (off + 8 * j) lo (ts ! j)" and "\<forall>t \<in> set ts. wf_tx t"
    and "off + 8 * length ts \<le> n" and "n < 2 ^ 32"
  shows "map (Transaction_Read K (mem_list m n)) (map (\<lambda>i. drop (off + 8 * i) (mem_list m n))
    [0..<length ts]) = ts"
proof (rule nth_equalityI)
  fix i assume "i < length (map (Transaction_Read K (mem_list m n))
      (map (\<lambda>i. drop (off + 8 * i) (mem_list m n)) [0..<length ts]))"
  then have i: "i < length ts" by simp
  have "Transaction_Read K (mem_list m n) (drop (off + 8 * i) (mem_list m n)) = ts ! i"
    by (rule read_tx) (use assms i in auto)
  with i show "map (Transaction_Read K (mem_list m n)) (map (\<lambda>i. drop (off + 8 * i) (mem_list m n))
    [0..<length ts]) ! i = ts ! i" by simp
qed simp

lemma write_word:
  assumes "p + 4 \<le> len w"
  shows "len (kw_write4 K w p v) = len w"
    and "holds (cell (kw_write4 K w p v)) p (le_enc 4 v)"
    and "i < p \<or> p + 4 \<le> i \<Longrightarrow> cell (kw_write4 K w p v) i = cell w i"
  using assms by (simp_all add: write4 len_write holds_write frame_write)

lemma write_block_spec:
  assumes "wf_block b"
  defines "toff \<equiv> 200 + length (bh_Params (blk_Header b))"
    and "n \<equiv> 8 * length (blk_Transactions b)"
  shows "\<exists>w. Block_Write K b 0 (kw_new K 1024) = Some (0, w) \<and> len w = block_size b
      \<and> holds (cell w) 0 (le_enc 4 20) \<and> holds (cell w) 4 (le_enc 4 24)
      \<and> holds (cell w) 8 (le_enc 4 (toff mod 2 ^ 32)) \<and> holds (cell w) 12 (le_enc 4 (n mod 2 ^ 32))
      \<and> table_in (cell w) (len w) 24 176 169 (BlockHeader_fields (blk_Header b))
      \<and> (\<forall>j < length (blk_Transactions b).
           tx_in (cell w) (len w) (toff + 8 * j) (toff + n) (blk_Transactions b ! j))"
proof -
  have wfh: "slots_ok 4 176 (BlockHeader_fields (blk_Header b))"
    using assms(1) by (simp add: wf_block_def slots_header)
  obtain w1 where w1: "table_alloc K 24 0 (kw_new K 1024) = Some (0, w1)" "len w1 = 24"
    using alloc [of "kw_new K 1024" 24] by (auto simp: table_alloc_def len_new)
  let ?a = "kw_write4 K w1 0 20"
  have a: "len ?a = 24" "holds (cell ?a) 0 (le_enc 4 20)"
    using write_word [where p = 0 and w = w1 and v = 20] w1(2) by simp_all
  obtain w2 where w2: "kw_alloc K ?a 176 = Some (24, w2)" "len w2 = 200" "cell w2 = cell ?a"
    using alloc [of ?a 176] a by auto
  let ?b = "kw_write4 K w2 4 24"
  have b: "len ?b = 200" "holds (cell ?b) 4 (le_enc 4 24)" "\<And>i. i < 4 \<Longrightarrow> cell ?b i = cell ?a i"
    using write_word [where p = 4 and w = w2 and v = 24] w2 by simp_all
  obtain w3 where w3:
    "write_table K 176 169 (BlockHeader_fields (blk_Header b)) 24 ?b = Some (24, w3)"
    "len w3 = toff" "table_in (cell w3) (len w3) 24 176 169 (BlockHeader_fields (blk_Header b))"
    "\<And>i. i < 24 \<Longrightarrow> cell w3 i = cell ?b i"
    using write_table_spec [OF wfh, of 24 ?b 169] b(1) by (auto simp: tails_header toff_def)
  obtain w4 where w4: "kw_alloc K w3 n = Some (toff, w4)" "len w4 = toff + n" "cell w4 = cell w3"
    using alloc [of w3 n] w3(2) by auto
  let ?c = "kw_write4 K w4 8 (toff mod 2 ^ 32)"
  let ?d = "kw_write4 K ?c 12 (n mod 2 ^ 32)"
  let ?e = "kw_write4 K ?d 16 8"
  have room: "200 \<le> len w4" using w4(2) by (simp add: toff_def)
  have c: "len ?c = toff + n" "holds (cell ?c) 8 (le_enc 4 (toff mod 2 ^ 32))"
    "\<And>i. i < 8 \<or> 12 \<le> i \<Longrightarrow> cell ?c i = cell w3 i"
    using write_word [where p = 8 and w = w4 and v = "toff mod 2 ^ 32"] room w4 by simp_all
  have d: "len ?d = toff + n" "holds (cell ?d) 12 (le_enc 4 (n mod 2 ^ 32))"
    "\<And>i. i < 12 \<or> 16 \<le> i \<Longrightarrow> cell ?d i = cell ?c i"
    using write_word [where p = 12 and w = "?c" and v = "n mod 2 ^ 32"] room w4 c(1) by simp_all
  have e: "len ?e = toff + n" "\<And>i. i < 16 \<or> 20 \<le> i \<Longrightarrow> cell ?e i = cell ?d i"
    using write_word [where p = 16 and w = "?d" and v = 8] room w4 d(1) by simp_all
  obtain w8 where w8: "Transactions_Write K (blk_Transactions b) toff ?e = Some w8"
    "len w8 = toff + n + sum_list (map (\<lambda>t. 256 + body_tail (tx_Body t)) (blk_Transactions b))"
    "\<forall>j < length (blk_Transactions b).
       tx_in (cell w8) (len w8) (toff + 8 * j) (toff + n) (blk_Transactions b ! j)"
    "\<And>i. i < toff \<Longrightarrow> cell w8 i = cell ?e i"
    using write_txs_spec [of "blk_Transactions b" toff ?e] assms(1) e(1)
    by (auto simp: wf_block_def n_def toff_def)
  have low: "24 \<le> toff" by (simp add: toff_def)
  have k: "Block_Write K b 0 (kw_new K 1024) = Some (0, w8)"
    using w1(1) w2(1) w3(1) w4(1) w8(1)
    by (simp add: Block_Write_def header_write Let_def n_def)
  have sz: "len w8 = block_size b"
    using w8(2) by (simp add: block_size_def toff_def n_def tx_size_def [abs_def] sum_list_addf
        sum_list_triv mult.commute)
  have "holds (cell w8) 0 (le_enc 4 20)"
    by (rule holds_frame [OF a(2)]) (use w8(4) e(2) d(3) c(3) w3(4) b(3) low in auto)
  moreover have "holds (cell w8) 4 (le_enc 4 24)"
    by (rule holds_frame [OF b(2)]) (use w8(4) e(2) d(3) c(3) w3(4) low in auto)
  moreover have "holds (cell w8) 8 (le_enc 4 (toff mod 2 ^ 32))"
    by (rule holds_frame [OF c(2)]) (use w8(4) e(2) d(3) low in auto)
  moreover have "holds (cell w8) 12 (le_enc 4 (n mod 2 ^ 32))"
    by (rule holds_frame [OF d(2)]) (use w8(4) e(2) low in auto)
  moreover have "table_in (cell w8) (len w8) 24 176 169 (BlockHeader_fields (blk_Header b))"
    by (rule table_in_keep [OF w3(3)]) (use w8(2,4) e(2) d(3) c(3) w3(2) in auto)
  ultimately show ?thesis using k sz w8(3) by blast
qed

lemma block_roundtrip:
  assumes "wf_block b"
  shows "\<exists>bs. SerializeBlock K b = Some bs \<and> length bs = block_size b
    \<and> (length bs < 2 ^ 32 \<longrightarrow> DeserializeBlock K bs = b)"
proof -
  let ?toff = "200 + length (bh_Params (blk_Header b))" and ?n = "8 * length (blk_Transactions b)"
  obtain w where w: "Block_Write K b 0 (kw_new K 1024) = Some (0, w)" "len w = block_size b"
    "holds (cell w) 0 (le_enc 4 20)" "holds (cell w) 4 (le_enc 4 24)"
    "holds (cell w) 8 (le_enc 4 (?toff mod 2 ^ 32))" "holds (cell w) 12 (le_enc 4 (?n mod 2 ^ 32))"
    "table_in (cell w) (len w) 24 176 169 (BlockHeader_fields (blk_Header b))"
    "\<forall>j < length (blk_Transactions b).
       tx_in (cell w) (len w) (?toff + 8 * j) (?toff + ?n) (blk_Transactions b ! j)"
    using write_block_spec [OF assms] by blast
  let ?mem = "mem_list (cell w) (len w)"
  have fit: "?toff + ?n \<le> len w"
    using slots_le_size [of "blk_Transactions b"] by (simp add: w(2) block_size_def)
  have "DeserializeBlock K ?mem = b" if small: "len w < 2 ^ 32"
  proof -
    have rd: "le_dec (take 4 (drop p ?mem)) = v"
      if "holds (cell w) p (le_enc 4 (v mod 2 ^ 32))" "p + 4 \<le> len w" "v < 2 ^ 32" for p v
    proof -
      have "take 4 (drop p ?mem) = le_enc 4 (v mod 2 ^ 32)"
        by (rule holds_take_drop [OF that(1)]) (use that(2) in auto)
      with that(3) show ?thesis by (simp add: codec_simps)
    qed
    have sz: "view_size ?mem = 20"
      using rd [of 0 20] w(3) fit by (simp add: view_size_def)
    have v0: "new_viewer K ?mem 0 = ?mem"
      using sz fit by (simp add: new_viewer_def valid Let_def)
    have t: "table_at ?mem 24 169 (BlockHeader_fields (blk_Header b))"
      by (rule table_at_of_in [OF w(7)]) (use small in auto)
    have "le_dec (take 4 (drop 4 ?mem)) = 24" using rd [of 4 24] w(4) fit by simp
    then have "BlockViewer_Header K ?mem ?mem = drop 24 ?mem"
      using new_viewer_table [OF t] sz by (simp add: BlockViewer_Header_def)
    then have hd: "BlockHeader_Read K ?mem (BlockViewer_Header K ?mem ?mem) = blk_Header b"
      using read_header [OF t] assms by (simp add: wf_block_def)
    have "le_dec (take 4 (drop 8 ?mem)) = ?toff" "le_dec (take 4 (drop 12 ?mem)) = ?n"
      using rd [of 8 ?toff] rd [of 12 ?n] w(5,6) fit small by simp_all
    then have "BlockViewer_Transactions K ?mem ?mem
        = map (\<lambda>i. drop (?toff + 8 * i) ?mem) [0..<length (blk_Transactions b)]"
      using sz fit by (simp add: BlockViewer_Transactions_def valid Let_def)
    then have "map (Transaction_Read K ?mem) (BlockViewer_Transactions K ?mem ?mem)
        = blk_Transactions b"
      using read_txs [OF w(8)] assms fit small by (simp add: wf_block_def)
    with hd v0 show ?thesis by (simp add: DeserializeBlock_def Block_Read_def)
  qed
  then show ?thesis
    using w(1,2) by (simp add: SerializeBlock_def encode_root_def bytes)
qed

end

section \<open>The round trips\<close>

lemma size_sample_block: "block_size sample_block < 2 ^ 32"
  by (simp add: block_size_def tx_size_def body_tail_def sample_block_def sample_tx_def
      sample_header_def)

text \<open>
  C11: a block survives the database and the network: every well-formed block is serialised, into
  exactly \<open>block_size\<close> bytes, and deserialising those bytes gives the same block, header,
  parameters and transactions in order, provided the encoding fits the 32-bit offsets of the format.
\<close>

theorem block_serialise_roundtrip:
  assumes "karmem K len cell" and "wf_block b" and "block_size b < 2 ^ 32"
  shows "\<exists>bs. SerializeBlock K b = Some bs \<and> length bs = block_size b \<and> DeserializeBlock K bs = b"
  using karmem.block_roundtrip [OF assms(1,2)] assms(3) by metis

theorem block_serialise_roundtrip_witness:
  "\<exists>bs. SerializeBlock std_karmem sample_block = Some bs \<and> length bs = block_size sample_block
    \<and> DeserializeBlock std_karmem bs = sample_block"
  by (rule block_serialise_roundtrip [OF std.karmem_axioms wf_sample_block size_sample_block])

section \<open>Decoding untrusted bytes\<close>

lemma in_i64_view [simp]: "in_i64 (view_i64 v k)"
  by (simp add: view_i64_def i64_of_u64_def) (simp add: in_i64_def)

lemma wf_body_read [simp]: "wf_body (TransactionBody_Read K mem v)"
  by (simp add: wf_body_def TransactionBody_Read_def TransactionBodyViewer_def Let_def)

lemma wf_tx_read [simp]: "wf_tx (Transaction_Read K mem v)"
  by (simp add: wf_tx_def Transaction_Read_def)

lemma wf_header_read [simp]: "wf_header (BlockHeader_Read K mem v)"
  by (simp add: wf_header_def BlockHeader_Read_def BlockHeaderViewer_def Let_def)

lemma wf_block_read [simp]: "wf_block (Block_Read K mem v)"
  by (auto simp: wf_block_def Block_Read_def)

end
