(* ===== verification/P2PMessages.thy ===== *)
theory P2PMessages
  imports Roundtrip
begin

text \<open>
  The messages nodes exchange (p2p/message_km.go): their codes, their structs, the generated
  writers and readers, the serialisers of utils for them, and their round trips. The null viewer
  of this package has 64 bytes; every table here fits into it.
\<close>

section \<open>Message codes\<close>

definition StatusCodePingMsg :: nat where "StatusCodePingMsg = 0"
definition StatusCodePongMsg :: nat where "StatusCodePongMsg = 1"
definition StatusCodeStatusMsg :: nat where "StatusCodeStatusMsg = 2"
definition StatusCodeBlockBodiesMsg :: nat where "StatusCodeBlockBodiesMsg = 8"
definition StatusCodeSyncStatusReq :: nat where "StatusCodeSyncStatusReq = 17"
definition StatusCodeSyncStatusMsg :: nat where "StatusCodeSyncStatusMsg = 18"
definition StatusCodeSyncGetBlocksMsg :: nat where "StatusCodeSyncGetBlocksMsg = 19"
definition StatusCodeSyncBlocksMsg :: nat where "StatusCodeSyncBlocksMsg = 20"
definition StatusCodeTimeSyncReq :: nat where "StatusCodeTimeSyncReq = 23"
definition StatusCodeTimeSyncRsp :: nat where "StatusCodeTimeSyncRsp = 24"

lemmas status_codes = StatusCodePingMsg_def StatusCodePongMsg_def StatusCodeStatusMsg_def
  StatusCodeBlockBodiesMsg_def StatusCodeSyncStatusReq_def StatusCodeSyncStatusMsg_def
  StatusCodeSyncGetBlocksMsg_def StatusCodeSyncBlocksMsg_def StatusCodeTimeSyncReq_def
  StatusCodeTimeSyncRsp_def

section \<open>Structs\<close>

record SyncStatusMsg =
  ss_LatestHeight :: int
  ss_LatestHash :: bytes
  ss_BufferedStartHeight :: int
  ss_BufferedEndHeight :: int

record TimeSyncMsg =
  ts_Code :: int
  ts_ReqTime :: int
  ts_RecReqTime :: int
  ts_RspTime :: int
  ts_RecRspTime :: int

record Message =
  msg_Code :: nat
  msg_Size :: nat
  msg_Payload :: bytes
  msg_ReceiveAt :: int

record BroadcastMessage =
  bm_ID :: bytes
  bm_Data :: bytes

definition wf_status :: "SyncStatusMsg \<Rightarrow> bool" where
  "wf_status x \<longleftrightarrow> length (ss_LatestHash x) = 32 \<and> in_i64 (ss_LatestHeight x)
     \<and> in_i64 (ss_BufferedStartHeight x) \<and> in_i64 (ss_BufferedEndHeight x)"

definition wf_time :: "TimeSyncMsg \<Rightarrow> bool" where
  "wf_time x \<longleftrightarrow> -128 \<le> ts_Code x \<and> ts_Code x < 128 \<and> in_i64 (ts_ReqTime x)
     \<and> in_i64 (ts_RecReqTime x) \<and> in_i64 (ts_RspTime x) \<and> in_i64 (ts_RecRspTime x)"

definition wf_message :: "Message \<Rightarrow> bool" where
  "wf_message x \<longleftrightarrow> msg_Code x < 256 \<and> msg_Size x < 2 ^ 32 \<and> in_i64 (msg_ReceiveAt x)"

text \<open>The conversions between int8 and uint8.\<close>

definition u8_of_i8 :: "int \<Rightarrow> nat" where
  "u8_of_i8 x = nat (x mod 256)"

definition i8_of_u8 :: "nat \<Rightarrow> int" where
  "i8_of_u8 v = (int v + 128) mod 256 - 128"

lemma u8_of_i8_bound: "u8_of_i8 x < 256"
  by (simp add: u8_of_i8_def nat_less_iff)

lemma i8_roundtrip: "-128 \<le> x \<Longrightarrow> x < 128 \<Longrightarrow> i8_of_u8 (u8_of_i8 x) = x"
  by (simp add: i8_of_u8_def u8_of_i8_def mod_add_left_eq)

section \<open>Writers\<close>

definition SyncStatusMsg_fields :: "SyncStatusMsg \<Rightarrow> field list" where
  "SyncStatusMsg_fields x =
     [FInt64 4 (ss_LatestHeight x), FBytes 12 (ss_LatestHash x),
      FInt64 44 (ss_BufferedStartHeight x), FInt64 52 (ss_BufferedEndHeight x)]"

definition SyncStatusMsg_Write ::
    "'w karmem_ops \<Rightarrow> SyncStatusMsg \<Rightarrow> nat \<Rightarrow> 'w \<Rightarrow> (nat \<times> 'w) option" where
  "SyncStatusMsg_Write K x start = write_table K 64 60 (SyncStatusMsg_fields x) start"

definition TimeSyncMsg_fields :: "TimeSyncMsg \<Rightarrow> field list" where
  "TimeSyncMsg_fields x =
     [FUint8 4 (u8_of_i8 (ts_Code x)), FInt64 5 (ts_ReqTime x), FInt64 13 (ts_RecReqTime x),
      FInt64 21 (ts_RspTime x), FInt64 29 (ts_RecRspTime x)]"

definition TimeSyncMsg_Write ::
    "'w karmem_ops \<Rightarrow> TimeSyncMsg \<Rightarrow> nat \<Rightarrow> 'w \<Rightarrow> (nat \<times> 'w) option" where
  "TimeSyncMsg_Write K x start = write_table K 40 37 (TimeSyncMsg_fields x) start"

definition Message_fields :: "Message \<Rightarrow> field list" where
  "Message_fields x =
     [FUint8 4 (msg_Code x), FUint32 5 (msg_Size x), FSlice 9 (msg_Payload x),
      FInt64 21 (msg_ReceiveAt x)]"

definition Message_Write ::
    "'w karmem_ops \<Rightarrow> Message \<Rightarrow> nat \<Rightarrow> 'w \<Rightarrow> (nat \<times> 'w) option" where
  "Message_Write K x start = write_table K 32 29 (Message_fields x) start"

definition BroadcastMessage_fields :: "BroadcastMessage \<Rightarrow> field list" where
  "BroadcastMessage_fields x = [FSlice 4 (bm_ID x), FSlice 16 (bm_Data x)]"

definition BroadcastMessage_Write ::
    "'w karmem_ops \<Rightarrow> BroadcastMessage \<Rightarrow> nat \<Rightarrow> 'w \<Rightarrow> (nat \<times> 'w) option" where
  "BroadcastMessage_Write K x start = write_table K 32 28 (BroadcastMessage_fields x) start"

section \<open>Viewers and readers\<close>

definition null_viewer64 :: "'w karmem_ops \<Rightarrow> bytes" where
  "null_viewer64 K = kr_null64 K"

definition new_viewer64 :: "'w karmem_ops \<Rightarrow> bytes \<Rightarrow> nat \<Rightarrow> bytes" where
  "new_viewer64 K mem off =
     (if \<not> kr_valid K mem off 8 then null_viewer64 K
      else let v = drop off mem in
        if \<not> kr_valid K mem off (view_size v) then null_viewer64 K else v)"

definition SyncStatusMsgViewer :: "bytes \<Rightarrow> SyncStatusMsg" where
  "SyncStatusMsgViewer v =
     \<lparr>ss_LatestHeight = view_i64 v 4, ss_LatestHash = view_array v 12 32,
      ss_BufferedStartHeight = view_i64 v 44, ss_BufferedEndHeight = view_i64 v 52\<rparr>"

definition SyncStatusMsg_Read :: "bytes \<Rightarrow> SyncStatusMsg" where
  "SyncStatusMsg_Read v =
     (let x = SyncStatusMsgViewer v in x\<lparr>ss_LatestHash := copy_array 32 (ss_LatestHash x)\<rparr>)"

definition TimeSyncMsgViewer :: "bytes \<Rightarrow> TimeSyncMsg" where
  "TimeSyncMsgViewer v =
     \<lparr>ts_Code = i8_of_u8 (view_uint v 4 1), ts_ReqTime = view_i64 v 5,
      ts_RecReqTime = view_i64 v 13, ts_RspTime = view_i64 v 21, ts_RecRspTime = view_i64 v 29\<rparr>"

definition TimeSyncMsg_Read :: "bytes \<Rightarrow> TimeSyncMsg" where
  "TimeSyncMsg_Read v = TimeSyncMsgViewer v"

definition MessageViewer :: "'w karmem_ops \<Rightarrow> bytes \<Rightarrow> bytes \<Rightarrow> Message" where
  "MessageViewer K mem v =
     \<lparr>msg_Code = view_uint v 4 1, msg_Size = view_uint v 5 4,
      msg_Payload = view_slice K mem v 9, msg_ReceiveAt = view_i64 v 21\<rparr>"

definition Message_Read :: "'w karmem_ops \<Rightarrow> bytes \<Rightarrow> bytes \<Rightarrow> Message" where
  "Message_Read K mem v = MessageViewer K mem v"

definition BroadcastMessageViewer :: "'w karmem_ops \<Rightarrow> bytes \<Rightarrow> bytes \<Rightarrow> BroadcastMessage" where
  "BroadcastMessageViewer K mem v =
     \<lparr>bm_ID = view_slice K mem v 4, bm_Data = view_slice K mem v 16\<rparr>"

definition BroadcastMessage_Read :: "'w karmem_ops \<Rightarrow> bytes \<Rightarrow> bytes \<Rightarrow> BroadcastMessage" where
  "BroadcastMessage_Read K mem v = BroadcastMessageViewer K mem v"

section \<open>New values and resets\<close>

definition null_reader64 :: bytes where
  "null_reader64 = replicate 64 0"

definition NewSyncStatusMsg :: SyncStatusMsg where
  "NewSyncStatusMsg = \<lparr>ss_LatestHeight = 0, ss_LatestHash = replicate 32 0, ss_BufferedStartHeight = 0, ss_BufferedEndHeight = 0\<rparr>"

definition SyncStatusMsg_Reset :: "'w karmem_ops \<Rightarrow> SyncStatusMsg" where
  "SyncStatusMsg_Reset K = SyncStatusMsg_Read (null_viewer64 K)"

definition NewTimeSyncMsg :: TimeSyncMsg where
  "NewTimeSyncMsg = \<lparr>ts_Code = 0, ts_ReqTime = 0, ts_RecReqTime = 0, ts_RspTime = 0, ts_RecRspTime = 0\<rparr>"

definition TimeSyncMsg_Reset :: "'w karmem_ops \<Rightarrow> TimeSyncMsg" where
  "TimeSyncMsg_Reset K = TimeSyncMsg_Read (null_viewer64 K)"

definition NewMessage :: Message where
  "NewMessage = \<lparr>msg_Code = 0, msg_Size = 0, msg_Payload = [], msg_ReceiveAt = 0\<rparr>"

definition Message_Reset :: "'w karmem_ops \<Rightarrow> Message" where
  "Message_Reset K = Message_Read K null_reader64 (null_viewer64 K)"

definition NewBroadcastMessage :: BroadcastMessage where
  "NewBroadcastMessage = \<lparr>bm_ID = [], bm_Data = []\<rparr>"

definition BroadcastMessage_Reset :: "'w karmem_ops \<Rightarrow> BroadcastMessage" where
  "BroadcastMessage_Reset K = BroadcastMessage_Read K null_reader64 (null_viewer64 K)"

text \<open>The height that a reset status has, and a status that was too short to read.\<close>

lemma null_status_height:
  assumes "null_viewer64 K = slice_header addr 64 @ rest" and "addr < 2 ^ 64" and "12 \<le> addr mod 2 ^ 32"
  shows "ss_LatestHeight (SyncStatusMsg_Reset K) = int (addr div 2 ^ 32) + 2 ^ 38"
  using null_i64 [OF assms(2) _ assms(3), of 64 rest]
  by (simp add: SyncStatusMsg_Reset_def SyncStatusMsg_Read_def SyncStatusMsgViewer_def assms(1) Let_def)

section \<open>Serialising and deserialising\<close>

definition SerializeStatusMsg :: "'w karmem_ops \<Rightarrow> SyncStatusMsg \<Rightarrow> bytes option" where
  "SerializeStatusMsg K m = encode_root K (SyncStatusMsg_Write K m 0)"

definition SerializeTimeSyncMsg :: "'w karmem_ops \<Rightarrow> TimeSyncMsg \<Rightarrow> bytes option" where
  "SerializeTimeSyncMsg K m = encode_root K (TimeSyncMsg_Write K m 0)"

definition SerializeBroadcastMessage :: "'w karmem_ops \<Rightarrow> BroadcastMessage \<Rightarrow> bytes option" where
  "SerializeBroadcastMessage K m = encode_root K (BroadcastMessage_Write K m 0)"

definition DeserializeStatusMsg :: "'w karmem_ops \<Rightarrow> bytes \<Rightarrow> SyncStatusMsg" where
  "DeserializeStatusMsg K mem = SyncStatusMsg_Read (new_viewer64 K mem 0)"

definition DeserializeTimeSyncMsg :: "'w karmem_ops \<Rightarrow> bytes \<Rightarrow> TimeSyncMsg" where
  "DeserializeTimeSyncMsg K mem = TimeSyncMsg_Read (new_viewer64 K mem 0)"

definition DeserializeBroadcastMessage :: "'w karmem_ops \<Rightarrow> bytes \<Rightarrow> BroadcastMessage" where
  "DeserializeBroadcastMessage K mem = BroadcastMessage_Read K mem (new_viewer64 K mem 0)"

text \<open>The framing of p2p/peer.go puts a message's code, payload and size into a \<open>Message\<close>.\<close>

definition SerializeMessage :: "'w karmem_ops \<Rightarrow> Message \<Rightarrow> bytes option" where
  "SerializeMessage K m = encode_root K (Message_Write K m 0)"

definition DeserializeMessage :: "'w karmem_ops \<Rightarrow> bytes \<Rightarrow> Message" where
  "DeserializeMessage K mem = Message_Read K mem (new_viewer64 K mem 0)"

section \<open>Round trips\<close>

context karmem
begin

lemma new_viewer64_table:
  "table_at mem off used fs \<Longrightarrow> 8 \<le> used \<Longrightarrow> new_viewer64 K mem off = drop off mem"
  using view_size_table [of mem off used fs]
  by (auto simp: new_viewer64_def valid Let_def table_at_def)

lemma status_roundtrip:
  assumes "wf_status x"
  shows "\<exists>bs. SerializeStatusMsg K x = Some bs \<and> DeserializeStatusMsg K bs = x"
proof -
  have ok: "slots_ok 4 64 (SyncStatusMsg_fields x)"
    using assms by (simp add: SyncStatusMsg_fields_def wf_status_def)
  obtain bs where bs: "SerializeStatusMsg K x = Some bs"
    "table_at bs 0 60 (SyncStatusMsg_fields x)"
    using encode_table [OF ok, of 60] unfolding SerializeStatusMsg_def SyncStatusMsg_Write_def
    by (auto simp: SyncStatusMsg_fields_def)
  note t = bs(2)
  have i: "view_i64 bs k = y" if "FInt64 k y \<in> set (SyncStatusMsg_fields x)" "k + 8 \<le> 60"
    "in_i64 y" for k y
    using view_i64_table [OF t _ that(1,2)] that(3) by simp
  have "view_i64 bs 4 = ss_LatestHeight x"
    by (rule i) (use assms in \<open>auto simp: SyncStatusMsg_fields_def wf_status_def\<close>)
  moreover have "view_i64 bs 44 = ss_BufferedStartHeight x"
    by (rule i) (use assms in \<open>auto simp: SyncStatusMsg_fields_def wf_status_def\<close>)
  moreover have "view_i64 bs 52 = ss_BufferedEndHeight x"
    by (rule i) (use assms in \<open>auto simp: SyncStatusMsg_fields_def wf_status_def\<close>)
  moreover have "view_array bs 12 32 = ss_LatestHash x"
    using view_array_table [OF t _ _ _, of 12 "ss_LatestHash x" 32] assms
    by (simp add: SyncStatusMsg_fields_def wf_status_def)
  ultimately show ?thesis
    using bs new_viewer64_table [OF t] assms
    by (simp add: DeserializeStatusMsg_def SyncStatusMsg_Read_def SyncStatusMsgViewer_def
        Let_def wf_status_def)
qed

lemma time_roundtrip:
  assumes "wf_time x"
  shows "\<exists>bs. SerializeTimeSyncMsg K x = Some bs \<and> DeserializeTimeSyncMsg K bs = x"
proof -
  have ok: "slots_ok 4 40 (TimeSyncMsg_fields x)" by (simp add: TimeSyncMsg_fields_def)
  obtain bs where bs: "SerializeTimeSyncMsg K x = Some bs"
    "table_at bs 0 37 (TimeSyncMsg_fields x)"
    using encode_table [OF ok, of 37] unfolding SerializeTimeSyncMsg_def TimeSyncMsg_Write_def
    by (auto simp: TimeSyncMsg_fields_def)
  note t = bs(2)
  have i: "view_i64 bs k = y" if "FInt64 k y \<in> set (TimeSyncMsg_fields x)" "k + 8 \<le> 37"
    "in_i64 y" for k y
    using view_i64_table [OF t _ that(1,2)] that(3) by simp
  have "view_i64 bs 5 = ts_ReqTime x"
    by (rule i) (use assms in \<open>auto simp: TimeSyncMsg_fields_def wf_time_def\<close>)
  moreover have "view_i64 bs 13 = ts_RecReqTime x"
    by (rule i) (use assms in \<open>auto simp: TimeSyncMsg_fields_def wf_time_def\<close>)
  moreover have "view_i64 bs 21 = ts_RspTime x"
    by (rule i) (use assms in \<open>auto simp: TimeSyncMsg_fields_def wf_time_def\<close>)
  moreover have "view_i64 bs 29 = ts_RecRspTime x"
    by (rule i) (use assms in \<open>auto simp: TimeSyncMsg_fields_def wf_time_def\<close>)
  moreover have "view_uint bs 4 1 = u8_of_i8 (ts_Code x)"
    using view_uint_table [OF t, of 1 4 "u8_of_i8 (ts_Code x)"] u8_of_i8_bound [of "ts_Code x"]
    by (simp add: TimeSyncMsg_fields_def)
  ultimately show ?thesis
    using bs new_viewer64_table [OF t] assms
    by (simp add: DeserializeTimeSyncMsg_def TimeSyncMsg_Read_def TimeSyncMsgViewer_def
        wf_time_def i8_roundtrip)
qed

lemma message_roundtrip:
  assumes "wf_message x" and "length (msg_Payload x) + 32 < 2 ^ 32"
  shows "\<exists>bs. SerializeMessage K x = Some bs \<and> DeserializeMessage K bs = x"
proof -
  have ok: "slots_ok 4 32 (Message_fields x)" by (simp add: Message_fields_def)
  obtain bs where bs: "SerializeMessage K x = Some bs" "table_at bs 0 29 (Message_fields x)"
    using encode_table [OF ok, of 29] assms(2) unfolding SerializeMessage_def Message_Write_def
    by (auto simp: Message_fields_def)
  note t = bs(2)
  have "view_uint bs 4 1 = msg_Code x" "view_uint bs 5 4 = msg_Size x"
    "view_slice K bs bs 9 = msg_Payload x" "view_i64 bs 21 = msg_ReceiveAt x"
    using view_uint_table [OF t, of 1 4 "msg_Code x"] view_uint_table [OF t, of 4 5 "msg_Size x"]
      view_slice_table [OF t, of 9 "msg_Payload x"] view_i64_table [OF t, of 21 "msg_ReceiveAt x"]
      assms(1)
    by (simp_all add: Message_fields_def wf_message_def)
  then show ?thesis
    using bs new_viewer64_table [OF t]
    by (simp add: DeserializeMessage_def Message_Read_def MessageViewer_def)
qed

lemma broadcast_roundtrip:
  assumes "length (bm_ID x) + length (bm_Data x) + 32 < 2 ^ 32"
  shows "\<exists>bs. SerializeBroadcastMessage K x = Some bs \<and> DeserializeBroadcastMessage K bs = x"
proof -
  have ok: "slots_ok 4 32 (BroadcastMessage_fields x)" by (simp add: BroadcastMessage_fields_def)
  obtain bs where bs: "SerializeBroadcastMessage K x = Some bs"
    "table_at bs 0 28 (BroadcastMessage_fields x)"
    using encode_table [OF ok, of 28] assms
    unfolding SerializeBroadcastMessage_def BroadcastMessage_Write_def
    by (auto simp: BroadcastMessage_fields_def)
  note t = bs(2)
  have "view_slice K bs bs 4 = bm_ID x" "view_slice K bs bs 16 = bm_Data x"
    using view_slice_table [OF t, of 4 "bm_ID x"] view_slice_table [OF t, of 16 "bm_Data x"]
    by (simp_all add: BroadcastMessage_fields_def)
  then show ?thesis
    using bs new_viewer64_table [OF t]
    by (simp add: DeserializeBroadcastMessage_def BroadcastMessage_Read_def
        BroadcastMessageViewer_def)
qed

end

end
