(* ===== verification/PeerLink.thy ===== *)
theory PeerLink
  imports P2PMessages
begin

text \<open>
  p2p/peer.go: a connection between two nodes. Messages queue up to be sent, are framed as base64
  text closed by the byte 255, and are read back one frame at a time. The stream is the list of
  bytes that have been written and not yet read; whether a write fails is an argument.
\<close>

section \<open>Base64\<close>

text \<open>The standard alphabet, and Go's decoder: it returns the bytes of all complete groups before the first error.\<close>

definition b64_char :: "nat \<Rightarrow> byte" where
  "b64_char i = word_of_nat (if i < 26 then i + 65 else if i < 52 then i + 71 else if i < 62 then i - 4
     else if i = 62 then 43 else 47)"

definition b64_value :: "byte \<Rightarrow> nat option" where
  "b64_value c = (let n = unat c in
     if 65 \<le> n \<and> n \<le> 90 then Some (n - 65) else if 97 \<le> n \<and> n \<le> 122 then Some (n - 71)
     else if 48 \<le> n \<and> n \<le> 57 then Some (n + 4) else if n = 43 then Some 62 else if n = 47 then Some 63 else None)"

definition b64_pad :: byte where "b64_pad = 61"

fun b64_encode :: "bytes \<Rightarrow> bytes" where
  "b64_encode [] = []"
| "b64_encode [a] = [b64_char (unat a div 4), b64_char (unat a mod 4 * 16), b64_pad, b64_pad]"
| "b64_encode [a, b] = [b64_char (unat a div 4), b64_char (unat a mod 4 * 16 + unat b div 16),
     b64_char (unat b mod 16 * 4), b64_pad]"
| "b64_encode (a # b # c # rest) =
     b64_char (unat a div 4) # b64_char (unat a mod 4 * 16 + unat b div 16)
     # b64_char (unat b mod 16 * 4 + unat c div 64) # b64_char (unat c mod 64) # b64_encode rest"

definition b64_byte1 :: "nat \<Rightarrow> nat \<Rightarrow> byte" where "b64_byte1 v w = word_of_nat (v * 4 + w div 16)"
definition b64_byte2 :: "nat \<Rightarrow> nat \<Rightarrow> byte" where "b64_byte2 w x = word_of_nat (w mod 16 * 16 + x div 4)"
definition b64_byte3 :: "nat \<Rightarrow> nat \<Rightarrow> byte" where "b64_byte3 x y = word_of_nat (x mod 4 * 64 + y)"

fun b64_groups :: "bytes \<Rightarrow> bytes" where
  "b64_groups (a # b # c # d # rest) =
     (case (b64_value a, b64_value b) of
        (Some v, Some w) \<Rightarrow>
          if c = b64_pad then (if d = b64_pad then [b64_byte1 v w] else [])
          else (case b64_value c of
             None \<Rightarrow> []
           | Some x \<Rightarrow>
               if d = b64_pad then [b64_byte1 v w, b64_byte2 w x]
               else (case b64_value d of
                  None \<Rightarrow> []
                | Some y \<Rightarrow> b64_byte1 v w # b64_byte2 w x # b64_byte3 x y # b64_groups rest))
      | _ \<Rightarrow> [])"
| "b64_groups _ = []"

definition b64_decode :: "bytes \<Rightarrow> bytes" where
  "b64_decode src = b64_groups (filter (\<lambda>c. c \<noteq> 10 \<and> c \<noteq> 13) src)"

lemma unat_b64_char: "i < 64 \<Longrightarrow> unat (b64_char i) = (if i < 26 then i + 65 else if i < 52 then i + 71 else if i < 62 then i - 4
     else if i = 62 then 43 else 47)"
  by (simp add: b64_char_def unat_of_nat)

lemma b64_value_char [simp]: "i < 64 \<Longrightarrow> b64_value (b64_char i) = Some i"
proof -
  assume i: "i < 64"
  then consider "i < 26" | "26 \<le> i" "i < 52" | "52 \<le> i" "i < 62" | "i = 62" | "i = 63" by linarith
  then show ?thesis using unat_b64_char [OF i] by cases (auto simp: b64_value_def Let_def)
qed

lemma b64_char_clean: "i < 64 \<Longrightarrow> b64_char i \<noteq> 61 \<and> b64_char i \<noteq> 10 \<and> b64_char i \<noteq> 13 \<and> b64_char i \<noteq> 255"
  using unat_b64_char [of i] by (auto split: if_splits)

lemma byte_div [simp]: "unat (a :: byte) div 4 < 64" "unat a div 16 < 16" "unat a div 64 < 4"
proof -
  have "unat a < 64 * 4" "unat a < 16 * 16" "unat a < 4 * 64" by simp_all
  then show "unat a div 4 < 64" "unat a div 16 < 16" "unat a div 64 < 4" by (simp_all only: less_mult_imp_div_less)
qed

lemma byte_mix [simp]: "unat (a :: byte) mod 4 * 16 < 64" "unat a mod 16 * 4 < 64"
  "unat a mod 4 * 16 + unat (b :: byte) div 16 < 64" "unat a mod 16 * 4 + unat b div 64 < 64"
proof -
  have "unat a mod 4 < 4" "unat a mod 16 < 16" by simp_all
  then show "unat a mod 4 * 16 < 64" "unat a mod 16 * 4 < 64"
    "unat a mod 4 * 16 + unat b div 16 < 64" "unat a mod 16 * 4 + unat b div 64 < 64"
    using byte_div [of b] by linarith+
qed

lemma join_div: "(y :: nat) < k \<Longrightarrow> (x * k + y) div k = x" and join_mod: "(y :: nat) < k \<Longrightarrow> (x * k + y) mod k = y"
  by simp_all

lemma b64_bytes:
  "b64_byte1 (unat a div 4) (unat a mod 4 * 16 + unat b div 16) = a"
  "b64_byte1 (unat a div 4) (unat a mod 4 * 16) = a"
  "b64_byte2 (unat a mod 4 * 16 + unat b div 16) (unat b mod 16 * 4 + unat c div 64) = b"
  "b64_byte2 (unat a mod 4 * 16 + unat b div 16) (unat b mod 16 * 4) = b"
  "b64_byte3 (unat b mod 16 * 4 + unat c div 64) (unat c mod 64) = c"
proof -
  have "unat a div 4 * 4 + (unat a mod 4 * 16 + unat b div 16) div 16 = unat a"
    "unat a div 4 * 4 + (unat a mod 4 * 16) div 16 = unat a"
    "(unat a mod 4 * 16 + unat b div 16) mod 16 * 16 + (unat b mod 16 * 4 + unat c div 64) div 4 = unat b"
    "(unat a mod 4 * 16 + unat b div 16) mod 16 * 16 + (unat b mod 16 * 4) div 4 = unat b"
    "(unat b mod 16 * 4 + unat c div 64) mod 4 * 64 + unat c mod 64 = unat c"
    by (simp_all only: join_div join_mod byte_div) simp_all
  then show "b64_byte1 (unat a div 4) (unat a mod 4 * 16 + unat b div 16) = a"
    "b64_byte1 (unat a div 4) (unat a mod 4 * 16) = a"
    "b64_byte2 (unat a mod 4 * 16 + unat b div 16) (unat b mod 16 * 4 + unat c div 64) = b"
    "b64_byte2 (unat a mod 4 * 16 + unat b div 16) (unat b mod 16 * 4) = b"
    "b64_byte3 (unat b mod 16 * 4 + unat c div 64) (unat c mod 64) = c"
    by (simp_all add: b64_byte1_def b64_byte2_def b64_byte3_def)
qed

lemma b64_encode_clean: "x \<in> set (b64_encode bs) \<Longrightarrow> x \<noteq> 10 \<and> x \<noteq> 13 \<and> x \<noteq> 255"
  by (induction bs rule: b64_encode.induct) (auto simp: b64_char_clean b64_pad_def)

lemma b64_groups_encode: "b64_groups (b64_encode bs) = bs"
  by (induction bs rule: b64_encode.induct) (simp_all add: b64_bytes b64_char_clean b64_pad_def)

lemma b64_decode_encode [codec_simps]: "b64_decode (b64_encode bs) = bs"
proof -
  have "filter (\<lambda>c. c \<noteq> 10 \<and> c \<noteq> 13) (b64_encode bs) = b64_encode bs"
    using b64_encode_clean by (intro filter_True) blast
  then show ?thesis by (simp add: b64_decode_def b64_groups_encode)
qed

section \<open>A connection\<close>

definition messageQueueCap :: nat where "messageQueueCap = 5000"

record P2PPeer =
  pp_msgQueue :: "Message list"
  pp_sendQueue :: "Message list"
  pp_stopped :: bool

definition NewP2PPeer :: P2PPeer where
  "NewP2PPeer = \<lparr>pp_msgQueue = [], pp_sendQueue = [], pp_stopped = False\<rparr>"

definition Send :: "nat \<Rightarrow> bytes \<Rightarrow> P2PPeer \<Rightarrow> P2PPeer outcome" where
  "Send msgCode payload p =
     bindO (chan_send messageQueueCap (pp_sendQueue p)
         \<lparr>msg_Code = msgCode, msg_Size = length payload mod 2 ^ 32, msg_Payload = payload, msg_ReceiveAt = 0\<rparr>)
       (\<lambda>q. Done (p\<lparr>pp_sendQueue := q\<rparr>))"

definition p2p_handle :: "Message \<Rightarrow> P2PPeer \<Rightarrow> P2PPeer outcome" where
  "p2p_handle msg p =
     (if msg_Code msg = StatusCodePingMsg then Send StatusCodePongMsg [] p
      else if msg_Code msg = StatusCodePongMsg then Done p
      else bindO (chan_send messageQueueCap (pp_msgQueue p) msg) (\<lambda>q. Done (p\<lparr>pp_msgQueue := q\<rparr>)))"

text \<open>A tick of the ping loop, which \<open>Run\<close> does not start.\<close>

definition pingLoop :: "P2PPeer \<Rightarrow> P2PPeer outcome" where
  "pingLoop p = (if pp_stopped p then Done p else Send StatusCodePingMsg [] p)"

text \<open>
  One iteration of the write loop: \<open>failure\<close> is the number of bytes of the frame that got out before
  a write error. One iteration of the read loop takes a frame, its delimiter included, off the stream.
\<close>

definition writeLoop :: "'w karmem_ops \<Rightarrow> nat option \<Rightarrow> P2PPeer \<times> bytes \<Rightarrow> (P2PPeer \<times> bytes) outcome" where
  "writeLoop K failure s =
     (case s of (p, stream) \<Rightarrow>
       if pp_stopped p then Done s
       else case pp_sendQueue p of
         [] \<Rightarrow> Blocks
       | msg # rest \<Rightarrow>
           (let p1 = p\<lparr>pp_sendQueue := rest\<rparr> in
            case SerializeMessage K msg of
              None \<Rightarrow> Done (p1, stream)
            | Some msgBytes \<Rightarrow>
                (let encodedPayload = b64_encode msgBytes @ [255] in
                 case failure of
                   Some n \<Rightarrow> Done (p1\<lparr>pp_stopped := True\<rparr>, stream @ take n encodedPayload)
                 | None \<Rightarrow> Done (p1, stream @ encodedPayload))))"

fun read_frame :: "bytes \<Rightarrow> (bytes \<times> bytes) option" where
  "read_frame [] = None"
| "read_frame (x # xs) = (if x = 255 then Some ([], xs) else map_option (\<lambda>(f, r). (x # f, r)) (read_frame xs))"

definition readLoop :: "'w karmem_ops \<Rightarrow> int \<Rightarrow> P2PPeer \<times> bytes \<Rightarrow> (P2PPeer \<times> bytes) outcome" where
  "readLoop K now s =
     (case s of (p, stream) \<Rightarrow>
       if pp_stopped p then Done s
       else case read_frame stream of
         None \<Rightarrow> Blocks
       | Some (dataBytes, rest) \<Rightarrow>
           (let msg = (DeserializeMessage K (b64_decode dataBytes))\<lparr>msg_ReceiveAt := now\<rparr>
            in bindO (p2p_handle msg p) (\<lambda>p'. Done (p', rest))))"

primrec write_steps :: "'w karmem_ops \<Rightarrow> nat \<Rightarrow> P2PPeer \<times> bytes \<Rightarrow> (P2PPeer \<times> bytes) outcome" where
  "write_steps K 0 s = Done s"
| "write_steps K (Suc n) s = bindO (writeLoop K None s) (write_steps K n)"

primrec read_steps :: "'w karmem_ops \<Rightarrow> int \<Rightarrow> nat \<Rightarrow> P2PPeer \<times> bytes \<Rightarrow> (P2PPeer \<times> bytes) outcome" where
  "read_steps K now 0 s = Done s"
| "read_steps K now (Suc n) s = bindO (readLoop K now s) (read_steps K now n)"

section \<open>Delivery\<close>

definition sendable :: "Message \<Rightarrow> bool" where
  "sendable m \<longleftrightarrow> wf_message m \<and> length (msg_Payload m) + 32 < 2 ^ 32"

definition frame :: "'w karmem_ops \<Rightarrow> Message \<Rightarrow> bytes" where
  "frame K m = b64_encode (the (SerializeMessage K m)) @ [255]"

definition delivered :: "Message \<Rightarrow> bool" where
  "delivered m \<longleftrightarrow> msg_Code m \<noteq> StatusCodePingMsg \<and> msg_Code m \<noteq> StatusCodePongMsg"

definition pong :: Message where
  "pong = \<lparr>msg_Code = StatusCodePongMsg, msg_Size = 0, msg_Payload = [], msg_ReceiveAt = 0\<rparr>"

lemma read_frame_append: "255 \<notin> set f \<Longrightarrow> read_frame (f @ 255 # rest) = Some (f, rest)"
  by (induction f) auto

context karmem
begin

lemma write_steps_spec:
  assumes "\<not> pp_stopped p" and "\<forall>m \<in> set ms. sendable m"
  shows "write_steps K (length ms) (p\<lparr>pp_sendQueue := ms\<rparr>, stream)
    = Done (p\<lparr>pp_sendQueue := []\<rparr>, stream @ concat (map (frame K) ms))"
  using assms(2)
proof (induction ms arbitrary: stream)
  case (Cons m ms)
  obtain bs where "SerializeMessage K m = Some bs"
    using message_roundtrip [of m] Cons.prems by (auto simp: sendable_def)
  then show ?case using Cons assms(1) by (simp add: writeLoop_def frame_def)
qed simp

lemma read_one:
  assumes "sendable m" and "\<not> pp_stopped q"
  shows "readLoop K now (q, frame K m @ rest) = bindO (p2p_handle (m\<lparr>msg_ReceiveAt := now\<rparr>) q) (\<lambda>p'. Done (p', rest))"
proof -
  obtain bs where bs: "SerializeMessage K m = Some bs" "DeserializeMessage K bs = m"
    using message_roundtrip [of m] assms(1) by (auto simp: sendable_def)
  have "255 \<notin> set (b64_encode bs)" using b64_encode_clean by blast
  then show ?thesis
    using assms(2) bs read_frame_append [of "b64_encode bs" rest]
    by (simp add: readLoop_def frame_def b64_decode_encode)
qed

lemma read_steps_spec:
  assumes "\<not> pp_stopped q" and "\<forall>m \<in> set ms. sendable m"
    and "length (pp_msgQueue q) + length ms \<le> messageQueueCap"
    and "length (pp_sendQueue q) + length ms \<le> messageQueueCap"
  shows "read_steps K now (length ms) (q, concat (map (frame K) ms) @ rest)
    = Done (q\<lparr>pp_msgQueue := pp_msgQueue q @ map (\<lambda>m. m\<lparr>msg_ReceiveAt := now\<rparr>) (filter delivered ms),
         pp_sendQueue := pp_sendQueue q @ map (\<lambda>_. pong) (filter (\<lambda>m. msg_Code m = StatusCodePingMsg) ms)\<rparr>, rest)"
  using assms
proof (induction ms arbitrary: q)
  case (Cons m ms)
  have ne: "StatusCodePongMsg \<noteq> StatusCodePingMsg" by (simp add: StatusCodePingMsg_def StatusCodePongMsg_def)
  have one: "readLoop K now (q, concat (map (frame K) (m # ms)) @ rest)
      = bindO (p2p_handle (m\<lparr>msg_ReceiveAt := now\<rparr>) q) (\<lambda>p'. Done (p', concat (map (frame K) ms) @ rest))"
    using read_one [of m q now "concat (map (frame K) ms) @ rest"] Cons.prems by simp
  consider "msg_Code m = StatusCodePingMsg" | "msg_Code m = StatusCodePongMsg" | "delivered m"
    by (auto simp: delivered_def)
  then show ?case
  proof cases
    case 1
    define q1 where "q1 = q\<lparr>pp_sendQueue := pp_sendQueue q @ [pong]\<rparr>"
    have "p2p_handle (m\<lparr>msg_ReceiveAt := now\<rparr>) q = Done q1"
      using 1 Cons.prems(4) by (simp add: p2p_handle_def Send_def chan_send_def q1_def pong_def)
    moreover have "\<not> delivered m" using 1 by (simp add: delivered_def)
    ultimately show ?thesis using 1 Cons.IH [of q1] Cons.prems one by (simp add: q1_def)
  next
    case 2
    have "p2p_handle (m\<lparr>msg_ReceiveAt := now\<rparr>) q = Done q"
      using 2 ne by (simp add: p2p_handle_def)
    moreover have "\<not> delivered m" using 2 by (simp add: delivered_def)
    ultimately show ?thesis using 2 ne Cons.IH [of q] Cons.prems one by simp
  next
    case 3
    define q1 where "q1 = q\<lparr>pp_msgQueue := pp_msgQueue q @ [m\<lparr>msg_ReceiveAt := now\<rparr>]\<rparr>"
    have "p2p_handle (m\<lparr>msg_ReceiveAt := now\<rparr>) q = Done q1"
      using 3 Cons.prems(3) by (simp add: p2p_handle_def chan_send_def q1_def delivered_def)
    moreover have "msg_Code m \<noteq> StatusCodePingMsg" using 3 by (simp add: delivered_def)
    ultimately show ?thesis using 3 Cons.IH [of q1] Cons.prems one by (simp add: q1_def)
  qed
qed simp

end

section \<open>Property\<close>

text \<open>C36: A connection delivers what is sent, in order and unchanged: writing out a queue of well-formed
  messages and reading the bytes at the other end puts exactly these messages, stamped with the time
  of receipt, into the receiver's queue, except that every ping is answered with a pong and pings
  and pongs are not passed on. What follows on the stream is untouched.\<close>

theorem connection_delivers:
  assumes "karmem K len cell" and "\<not> pp_stopped p" and "\<not> pp_stopped q"
    and "\<forall>m \<in> set (pp_sendQueue p). wf_message m \<and> length (msg_Payload m) + 32 < 2 ^ 32"
    and "length (pp_msgQueue q) + length (pp_sendQueue p) \<le> 5000"
    and "length (pp_sendQueue q) + length (pp_sendQueue p) \<le> 5000"
  shows "\<exists>wire. write_steps K (length (pp_sendQueue p)) (p, []) = Done (p\<lparr>pp_sendQueue := []\<rparr>, wire)
    \<and> read_steps K now (length (pp_sendQueue p)) (q, wire @ rest)
      = Done (q\<lparr>pp_msgQueue := pp_msgQueue q @ map (\<lambda>m. m\<lparr>msg_ReceiveAt := now\<rparr>)
             (filter (\<lambda>m. msg_Code m \<noteq> StatusCodePingMsg \<and> msg_Code m \<noteq> StatusCodePongMsg) (pp_sendQueue p)),
           pp_sendQueue := pp_sendQueue q @ map (\<lambda>_. pong) (filter (\<lambda>m. msg_Code m = StatusCodePingMsg) (pp_sendQueue p))\<rparr>, rest)"
proof -
  have f: "(\<lambda>m. msg_Code m \<noteq> StatusCodePingMsg \<and> msg_Code m \<noteq> StatusCodePongMsg) = delivered"
    by (simp add: fun_eq_iff delivered_def)
  have "\<forall>m \<in> set (pp_sendQueue p). sendable m" using assms(4) by (simp add: sendable_def)
  then show ?thesis
    using karmem.write_steps_spec [OF assms(1,2), of "pp_sendQueue p" "[]"] assms(5,6)
      karmem.read_steps_spec [OF assms(1,3), of "pp_sendQueue p" now rest]
    by (simp add: messageQueueCap_def f)
qed

lemma connection_delivers_witness:
  "\<exists>p wire q. bindO (Send StatusCodePingMsg [] NewP2PPeer) (Send StatusCodeSyncStatusReq [7, 255]) = Done p
    \<and> write_steps std_karmem 2 (p, []) = Done (p\<lparr>pp_sendQueue := []\<rparr>, wire)
    \<and> read_steps std_karmem 9 2 (NewP2PPeer, wire) = Done (q, []) \<and> pp_sendQueue q = [pong]
    \<and> map msg_Payload (pp_msgQueue q) = [[7, 255]]"
proof -
  define m1 m2 where "m1 = \<lparr>msg_Code = StatusCodePingMsg, msg_Size = 0, msg_Payload = [], msg_ReceiveAt = 0\<rparr>"
    and "m2 = \<lparr>msg_Code = StatusCodeSyncStatusReq, msg_Size = 2, msg_Payload = [7, 255], msg_ReceiveAt = 0\<rparr>"
  define p where "p = NewP2PPeer\<lparr>pp_sendQueue := [m1, m2]\<rparr>"
  have "bindO (Send StatusCodePingMsg [] NewP2PPeer) (Send StatusCodeSyncStatusReq [7, 255]) = Done p"
    by (simp add: Send_def NewP2PPeer_def chan_send_def messageQueueCap_def p_def m1_def m2_def)
  moreover have "wf_message m1" "wf_message m2"
    by (simp_all add: wf_message_def m1_def m2_def in_i64_def StatusCodePingMsg_def StatusCodeSyncStatusReq_def)
  moreover have c: "msg_Code m1 = StatusCodePingMsg" "msg_Code m2 \<noteq> StatusCodePingMsg" "msg_Code m2 \<noteq> StatusCodePongMsg"
    by (simp_all add: m1_def m2_def StatusCodePingMsg_def StatusCodePongMsg_def StatusCodeSyncStatusReq_def)
  ultimately show ?thesis
    using connection_delivers [OF std.karmem_axioms, of p NewP2PPeer 9 "[]"]
    by (simp add: p_def NewP2PPeer_def) (auto simp: m1_def m2_def numeral_2_eq_2)
qed

end
