(* ===== verification/Caches.thy ===== *)
theory Caches
  imports Prelude
begin

text \<open>
  The bounded caches of hashicorp/golang-lru, which block buffer, chain and peers keep. The
  library is not part of the repository: its operations are a record and its documented
  behaviour is the locale \<open>lru\<close>, over the cache's visible content. An added entry is there;
  other entries may be evicted, but are never invented or changed; a lookup changes nothing but
  the order in which entries are evicted.
\<close>

record ('c, 'k, 'v) lru_ops =
  lru_new :: "nat \<Rightarrow> 'c"
  lru_add :: "'c \<Rightarrow> 'k \<Rightarrow> 'v \<Rightarrow> 'c"
  lru_contains :: "'c \<Rightarrow> 'k \<Rightarrow> bool"
  lru_get :: "'c \<Rightarrow> 'k \<Rightarrow> 'v option \<times> 'c"

locale lru =
  fixes L :: "('c, 'k, 'v) lru_ops" and entries :: "'c \<Rightarrow> 'k \<Rightarrow> 'v option"
  assumes entries_new: "entries (lru_new L n) = (\<lambda>k. None)"
    and entries_add: "entries (lru_add L c k v) k = Some v"
    and entries_add_old: "k' \<noteq> k \<Longrightarrow> entries (lru_add L c k v) k' = Some w \<Longrightarrow> entries c k' = Some w"
    and contains: "lru_contains L c k \<longleftrightarrow> entries c k \<noteq> None"
    and get_value: "fst (lru_get L c k) = entries c k"
    and entries_get: "entries (snd (lru_get L c k)) = entries c"
begin

lemma entries_add_cases:
  "entries (lru_add L c k v) k' = Some w \<Longrightarrow> (k' = k \<and> w = v) \<or> (k' \<noteq> k \<and> entries c k' = Some w)"
  by (metis entries_add entries_add_old option.inject)

lemma contains_add [simp]: "lru_contains L (lru_add L c k v) k"
  by (simp add: contains entries_add)

lemma contains_add_old: "lru_contains L (lru_add L c k v) k' \<Longrightarrow> k' = k \<or> lru_contains L c k'"
  unfolding contains by (metis entries_add_cases not_None_eq)

text \<open>A property of all entries is kept by adding an entry that has it.\<close>

lemma all_entries_add:
  assumes "\<And>k w. entries c k = Some w \<Longrightarrow> P k w" and "P k v"
    and "entries (lru_add L c k v) k' = Some w"
  shows "P k' w"
  using entries_add_cases [OF assms(3)] assms(1,2) by blast

end

section \<open>An instance\<close>

text \<open>Most recently used entry first; adding to a full cache drops the last one.\<close>

type_synonym ('k, 'v) lru_list = "nat \<times> ('k \<times> 'v) list"

definition list_lru :: "(('k, 'v) lru_list, 'k, 'v) lru_ops" where
  "list_lru = \<lparr>
     lru_new = (\<lambda>n. (n, [])),
     lru_add = (\<lambda>(n, es) k v. (n, (k, v) # take (n - 1) (filter (\<lambda>e. fst e \<noteq> k) es))),
     lru_contains = (\<lambda>(n, es) k. k \<in> fst ` set es),
     lru_get = (\<lambda>(n, es) k. case map_of es k of
        None \<Rightarrow> (None, (n, es))
      | Some v \<Rightarrow> (Some v, (n, (k, v) # filter (\<lambda>e. fst e \<noteq> k) es)))\<rparr>"

definition list_entries :: "('k, 'v) lru_list \<Rightarrow> 'k \<Rightarrow> 'v option" where
  "list_entries c = map_of (snd c)"

lemma map_of_take: "map_of (take n es) k = Some v \<Longrightarrow> map_of es k = Some v"
proof (induction es arbitrary: n)
  case Nil
  then show ?case by simp
next
  case (Cons e es)
  then show ?case by (cases n) (auto split: if_splits)
qed

lemma map_of_filter_other: "k' \<noteq> k \<Longrightarrow> map_of (filter (\<lambda>e. fst e \<noteq> k) es) k' = map_of es k'"
  by (induction es) auto

interpretation list_lru: lru list_lru list_entries
proof
  fix n :: nat and c :: "('k, 'v) lru_list" and k k' :: 'k and v w :: 'v
  obtain m es where c: "c = (m, es)" by (cases c)
  show "list_entries (lru_new list_lru n) = (\<lambda>k. None)"
    by (simp add: list_lru_def list_entries_def)
  show "list_entries (lru_add list_lru c k v) k = Some v"
    by (simp add: list_lru_def list_entries_def c)
  show "lru_contains list_lru c k \<longleftrightarrow> list_entries c k \<noteq> None"
    by (auto simp: list_lru_def list_entries_def c map_of_eq_None_iff)
  show "fst (lru_get list_lru c k) = list_entries c k"
    by (simp add: list_lru_def list_entries_def c split: option.split)
  show "list_entries (snd (lru_get list_lru c k)) = list_entries c"
    by (auto simp: list_lru_def list_entries_def c fun_eq_iff map_of_filter_other split: option.split)
  assume "k' \<noteq> k" and "list_entries (lru_add list_lru c k v) k' = Some w"
  then have "map_of (take (m - 1) (filter (\<lambda>e. fst e \<noteq> k) es)) k' = Some w"
    by (simp add: list_lru_def list_entries_def c)
  then show "list_entries c k' = Some w"
    using map_of_filter_other [OF \<open>k' \<noteq> k\<close>, of es] map_of_take
    by (fastforce simp: list_entries_def c)
qed

end
