(* ===== verification/NodePeer.thy ===== *)
theory NodePeer
  imports PeerLink Caches Roundtrip
begin

text \<open>
  node/peer.go with the requests and answers of node/request.go and node/respond.go: what a node
  keeps about one peer, the queues towards it, and the encoded messages it sends.
\<close>

section \<open>State\<close>

definition StatusCodeGetBlockBodiesMsg :: nat where "StatusCodeGetBlockBodiesMsg = 7"
definition StatusCodePooledTransactionsMsg :: nat where "StatusCodePooledTransactionsMsg = 16"

definition maxKnownTxs :: nat where "maxKnownTxs = 32768"
definition maxKnownBlocks :: nat where "maxKnownBlocks = 1024"
definition maxQueuedTxs :: nat where "maxQueuedTxs = 4096"
definition maxQueuedTxAnns :: nat where "maxQueuedTxAnns = 4096"
definition maxQueuedBlocks :: nat where "maxQueuedBlocks = 4"
definition maxQueuedBlockAnns :: nat where "maxQueuedBlockAnns = 4"

record 'k Peer =
  pe_peer :: P2PPeer
  pe_peerID :: string
  pe_addr :: string
  pe_knownBlocks :: 'k
  pe_queuedBlocks :: "Block list"
  pe_queuedBlockAnns :: "bytes list"
  pe_knownTxs :: 'k
  pe_txBroadcast :: "Transaction list"
  pe_txAnnounce :: "bytes list"
  pe_markSynced :: bool

type_synonym 'k known_set = "('k, string, unit) lru_ops"

definition NewPeer :: "'k known_set \<Rightarrow> string \<Rightarrow> string \<Rightarrow> 'k Peer" where
  "NewPeer L peerId remoteMultAddr =
     \<lparr>pe_peer = NewP2PPeer, pe_peerID = peerId, pe_addr = remoteMultAddr, pe_knownBlocks = lru_new L maxKnownBlocks,
      pe_queuedBlocks = [], pe_queuedBlockAnns = [], pe_knownTxs = lru_new L maxKnownTxs, pe_txBroadcast = [],
      pe_txAnnounce = [], pe_markSynced = False\<rparr>"

section \<open>Operations\<close>

definition SetMarkSynced :: "bool \<Rightarrow> 'k Peer \<Rightarrow> 'k Peer" where
  "SetMarkSynced v p = p\<lparr>pe_markSynced := v\<rparr>"

definition MarkSynced :: "'k Peer \<Rightarrow> bool" where
  "MarkSynced p = pe_markSynced p"

definition MarkBlock :: "'k known_set \<Rightarrow> string \<Rightarrow> 'k Peer \<Rightarrow> 'k Peer" where
  "MarkBlock L blockHash p = p\<lparr>pe_knownBlocks := lru_add L (pe_knownBlocks p) blockHash ()\<rparr>"

definition MarkTransaction :: "'k known_set \<Rightarrow> string \<Rightarrow> 'k Peer \<Rightarrow> 'k Peer" where
  "MarkTransaction L txHash p = p\<lparr>pe_knownTxs := lru_add L (pe_knownTxs p) txHash ()\<rparr>"

definition KnownBlock :: "'k known_set \<Rightarrow> string \<Rightarrow> 'k Peer \<Rightarrow> bool" where
  "KnownBlock L blockHash p = lru_contains L (pe_knownBlocks p) blockHash"

definition KnownTransaction :: "'k known_set \<Rightarrow> string \<Rightarrow> 'k Peer \<Rightarrow> bool" where
  "KnownTransaction L txHash p = lru_contains L (pe_knownTxs p) txHash"

definition AsyncSendNewBlock :: "'k known_set \<Rightarrow> Block \<Rightarrow> 'k Peer \<Rightarrow> 'k Peer outcome" where
  "AsyncSendNewBlock L block p =
     (let p1 = MarkBlock L (hex_encode (bh_BlockHash (blk_Header block))) p
      in bindO (chan_send maxQueuedBlocks (pe_queuedBlocks p1) block) (\<lambda>q. Done (p1\<lparr>pe_queuedBlocks := q\<rparr>)))"

definition AsyncSendNewBlockHash :: "bytes \<Rightarrow> 'k Peer \<Rightarrow> 'k Peer outcome" where
  "AsyncSendNewBlockHash blockHash p =
     bindO (chan_send maxQueuedBlockAnns (pe_queuedBlockAnns p) blockHash) (\<lambda>q. Done (p\<lparr>pe_queuedBlockAnns := q\<rparr>))"

definition AsyncSendTransaction :: "'k known_set \<Rightarrow> Transaction \<Rightarrow> 'k Peer \<Rightarrow> 'k Peer outcome" where
  "AsyncSendTransaction L t p =
     (let p1 = MarkTransaction L (hex_encode (tb_Hash (tx_Body t))) p
      in bindO (chan_send maxQueuedTxs (pe_txBroadcast p1) t) (\<lambda>q. Done (p1\<lparr>pe_txBroadcast := q\<rparr>)))"

definition AsyncSendTxHash :: "bytes \<Rightarrow> 'k Peer \<Rightarrow> 'k Peer outcome" where
  "AsyncSendTxHash txHash p =
     bindO (chan_send maxQueuedTxAnns (pe_txAnnounce p) txHash) (\<lambda>q. Done (p\<lparr>pe_txAnnounce := q\<rparr>))"

definition Stopped :: "'k Peer \<Rightarrow> bool" where
  "Stopped p = pp_stopped (pe_peer p)"

definition peer_Send :: "nat \<Rightarrow> bytes \<Rightarrow> 'k Peer \<Rightarrow> 'k Peer outcome" where
  "peer_Send code payload p = bindO (Send code payload (pe_peer p)) (\<lambda>q. Done (p\<lparr>pe_peer := q\<rparr>))"

section \<open>Requests and answers\<close>

definition height_payload :: "int \<Rightarrow> bytes" where
  "height_payload height = le_enc 8 (u64_of_i64 height)"

text \<open>Reading it back; a payload that is too short panics.\<close>

definition payload_height :: "bytes \<Rightarrow> int outcome" where
  "payload_height payload =
     (if length payload < 8 then Panics else Done (i64_of_u64 (le_dec (take 8 payload))))"

definition requestBlockWithHash :: "bytes \<Rightarrow> 'k Peer \<Rightarrow> 'k Peer outcome" where
  "requestBlockWithHash blockHash p = peer_Send StatusCodeGetBlockBodiesMsg blockHash p"

definition requestSyncStatusMsg :: "int \<Rightarrow> 'k Peer \<Rightarrow> 'k Peer outcome" where
  "requestSyncStatusMsg height p = peer_Send StatusCodeSyncStatusReq (height_payload height) p"

definition requestSyncGetBlock :: "int \<Rightarrow> 'k Peer \<Rightarrow> 'k Peer outcome" where
  "requestSyncGetBlock height p = peer_Send StatusCodeSyncGetBlocksMsg (height_payload height) p"

text \<open>All answers serialise and send; a serialisation error sends nothing.\<close>

definition send_encoded :: "nat \<Rightarrow> bytes option \<Rightarrow> 'k Peer \<Rightarrow> 'k Peer outcome" where
  "send_encoded code encoded p = (case encoded of None \<Rightarrow> Done p | Some bs \<Rightarrow> peer_Send code bs p)"

definition respondGetBlockBodies :: "'w karmem_ops \<Rightarrow> Block \<Rightarrow> 'k Peer \<Rightarrow> 'k Peer outcome" where
  "respondGetBlockBodies K block p = send_encoded StatusCodeBlockBodiesMsg (SerializeBlock K block) p"

definition respondGetPooledTransaction :: "'w karmem_ops \<Rightarrow> Transaction \<Rightarrow> 'k Peer \<Rightarrow> 'k Peer outcome" where
  "respondGetPooledTransaction K t p = send_encoded StatusCodePooledTransactionsMsg (SerializeTransaction K t) p"

definition respondSyncGetBlock :: "'w karmem_ops \<Rightarrow> Block \<Rightarrow> 'k Peer \<Rightarrow> 'k Peer outcome" where
  "respondSyncGetBlock K block p = send_encoded StatusCodeSyncBlocksMsg (SerializeBlock K block) p"

definition respondGetSyncStatus :: "'w karmem_ops \<Rightarrow> SyncStatusMsg \<Rightarrow> 'k Peer \<Rightarrow> 'k Peer outcome" where
  "respondGetSyncStatus K msg p = send_encoded StatusCodeSyncStatusMsg (SerializeStatusMsg K msg) p"

lemma payload_height_of: "in_i64 h \<Longrightarrow> payload_height (height_payload h) = Done h"
  using le_dec_enc [of "u64_of_i64 h" 8] u64_of_i64_bound [of h]
  by (simp add: payload_height_def height_payload_def i64_of_u64_of_i64)

lemma Stopped_simps [simp]:
  "Stopped (SetMarkSynced v p) = Stopped p" "MarkSynced (SetMarkSynced v p) = v"
  by (simp_all add: Stopped_def SetMarkSynced_def MarkSynced_def)

end
