(* ===== verification/Calculator.thy ===== *)
theory Calculator
  imports Codec
begin

text \<open>
  crypto/calculator.go: the verifiable delay function and the goroutine that evaluates it. The
  big integers of the code are never negative here, so they are natural numbers; the time
  parameter is the one of the genesis block, which is not negative either.
\<close>

section \<open>State\<close>

record Calculator =
  c_seedChannel :: "nat list"
  c_prevProofChannel :: "nat list"
  c_resultChannel :: "nat list"
  c_proofChannel :: "nat list"
  c_proofParam :: nat
  c_order :: nat
  c_timeParam :: nat
  c_prevSeed :: nat
  c_seed :: nat
  c_proof :: nat
  c_changed :: bool

text \<open>sync.Once: only the first call creates the instance.\<close>

definition CalculatorInitialization ::
    "Calculator option \<Rightarrow> nat \<Rightarrow> nat \<Rightarrow> nat \<Rightarrow> Calculator option" where
  "CalculatorInitialization inst pp ord t =
     (case inst of
        Some c \<Rightarrow> Some c
      | None \<Rightarrow> Some \<lparr>c_seedChannel = [], c_prevProofChannel = [], c_resultChannel = [],
          c_proofChannel = [], c_proofParam = pp, c_order = ord, c_timeParam = t,
          c_prevSeed = 0, c_seed = 0, c_proof = 0, c_changed = False\<rparr>)"

definition calc_chan_cap :: nat where
  "calc_chan_cap = 32"

section \<open>The delay function\<close>

text \<open>big.Int.Exp: without a modulus when the modulus is zero.\<close>

definition big_Exp :: "nat \<Rightarrow> nat \<Rightarrow> nat \<Rightarrow> nat" where
  "big_Exp x y m = (if m = 0 then x ^ y else x ^ y mod m)"

text \<open>
  The loop of \<open>calculate\<close>: \<open>changed\<close> says what the shared flag reads in each round; dividing by
  a zero parameter panics.
\<close>

fun calc_rounds ::
    "Calculator \<Rightarrow> nat \<Rightarrow> (nat \<Rightarrow> bool) \<Rightarrow> nat \<Rightarrow> nat \<Rightarrow> nat \<Rightarrow> nat \<Rightarrow> nat \<Rightarrow> (nat \<times> nat) option outcome" where
  "calc_rounds c seed changed 0 round result pi r = Done (Some (result, pi))"
| "calc_rounds c seed changed (Suc n) round result pi r =
     (if changed round then Done None
      else if c_order c = 0 then Panics
      else if c_proofParam c = 0 then Panics
      else let result' = result * result mod c_order c;
               tmp = 2 * r;
               b = tmp div c_proofParam c;
               r' = tmp mod c_proofParam c;
               g = big_Exp seed b (c_order c);
               pi' = pi * pi * g mod c_order c
           in calc_rounds c seed changed n (Suc round) result' pi' r')"

definition calculate :: "Calculator \<Rightarrow> (nat \<Rightarrow> bool) \<Rightarrow> nat \<Rightarrow> (nat \<times> nat) option outcome" where
  "calculate c changed seed = calc_rounds c seed changed (c_timeParam c) 0 seed 1 1"

definition Verify_vdf :: "Calculator \<Rightarrow> nat \<Rightarrow> nat \<Rightarrow> nat \<Rightarrow> bool outcome" where
  "Verify_vdf c seed pi result =
     (let r = big_Exp 2 (c_timeParam c) (c_proofParam c);
          h = big_Exp pi (c_proofParam c) (c_order c);
          s = big_Exp seed r (c_order c)
      in if c_order c = 0 then Panics else Done (result = h * s mod c_order c))"

section \<open>Handlers\<close>

text \<open>
  Each handler as it runs when nothing comes between its statements. \<open>AppendNewSeed\<close> sends on two bounded channels while
  it holds the lock, \<open>run\<close> receives a seed before it takes the lock, and the results pass without any lock: the
  theory CalculatorRuns has the same statements one by one, and relates the two.
\<close>

text \<open>The condition both guards share: a seed that is current, or verifies against the current one.\<close>

definition VerifyBlockVDF :: "Calculator \<Rightarrow> nat \<Rightarrow> nat \<Rightarrow> bool outcome" where
  "VerifyBlockVDF c seed proof =
     (if c_prevSeed c = seed \<or> c_seed c = seed then Done True
      else if c_seed c \<noteq> 0 then Verify_vdf c (c_seed c) proof seed
      else Done False)"

definition AppendNewSeed :: "nat \<Rightarrow> nat \<Rightarrow> Calculator \<Rightarrow> Calculator outcome" where
  "AppendNewSeed seed proof c =
     (if c_prevSeed c = seed \<or> c_seed c = seed then Done c
      else bindO (if c_seed c \<noteq> 0
                  then bindO (Verify_vdf c (c_seed c) proof seed) (\<lambda>ok. Done (\<not> ok))
                  else Done False)
       (\<lambda>rejected. if rejected then Done c
          else bindO (chan_send calc_chan_cap (c_seedChannel c) seed)
            (\<lambda>q. bindO (chan_send calc_chan_cap (c_prevProofChannel c) proof)
              (\<lambda>q'. Done (c\<lparr>c_changed := True, c_seedChannel := q, c_prevProofChannel := q'\<rparr>)))))"

definition GetSeedParams :: "Calculator \<Rightarrow> ((nat \<times> nat) \<times> Calculator) outcome" where
  "GetSeedParams c =
     (case c_resultChannel c of
        [] \<Rightarrow> Done ((c_seed c, c_proof c), c)
      | s # rs \<Rightarrow> (case c_proofChannel c of
            [] \<Rightarrow> Blocks
          | p # ps \<Rightarrow> Done ((s, p), c\<lparr>c_resultChannel := rs, c_proofChannel := ps\<rparr>)))"

text \<open>
  One iteration of \<open>run\<close>, in the two parts between which others may act: taking the next seed
  under the lock, and delivering what \<open>calculate\<close> returned.
\<close>

definition run_take :: "Calculator \<Rightarrow> (nat \<times> Calculator) outcome" where
  "run_take c =
     (case c_seedChannel c of
        [] \<Rightarrow> Blocks
      | s # ss \<Rightarrow> (case c_prevProofChannel c of
            [] \<Rightarrow> Blocks
          | p # ps \<Rightarrow> Done (s, c\<lparr>c_seedChannel := ss, c_changed := False, c_prevSeed := c_seed c,
                c_seed := s, c_proof := p, c_prevProofChannel := ps\<rparr>)))"

definition run_deliver :: "(nat \<times> nat) option \<Rightarrow> Calculator \<Rightarrow> Calculator outcome" where
  "run_deliver out c =
     (case out of
        None \<Rightarrow> Done c
      | Some (result, pi) \<Rightarrow>
          bindO (chan_send calc_chan_cap (c_resultChannel c) result)
            (\<lambda>q. bindO (chan_send calc_chan_cap (c_proofChannel c) pi)
              (\<lambda>q'. Done (c\<lparr>c_resultChannel := q, c_proofChannel := q'\<rparr>))))"

section \<open>Parameters\<close>

text \<open>big.Int.Bytes: big-endian without leading zeros; SetBytes reads it back.\<close>

definition be_dec :: "bytes \<Rightarrow> nat" where
  "be_dec bs = le_dec (rev bs)"

function big_Bytes_le :: "nat \<Rightarrow> bytes" where
  "big_Bytes_le n = (if n = 0 then [] else word_of_nat (n mod 256) # big_Bytes_le (n div 256))"
  by pat_completeness auto
termination by (relation "measure id") auto

declare big_Bytes_le.simps [simp del]

definition big_Bytes :: "nat \<Rightarrow> bytes" where
  "big_Bytes n = rev (big_Bytes_le n)"

lemma le_dec_big_Bytes_le: "le_dec (big_Bytes_le n) = n"
proof (induction n rule: big_Bytes_le.induct)
  case (1 n)
  then show ?case
    by (cases "n = 0") (simp_all add: big_Bytes_le.simps [of n] big_Bytes_le.simps [of 0])
qed

lemma be_dec_big_Bytes [codec_simps]: "be_dec (big_Bytes n) = n"
  by (simp add: be_dec_def big_Bytes_def le_dec_big_Bytes_le)

lemma length_big_Bytes_le:
  "256 ^ k \<le> n \<Longrightarrow> n < 256 ^ Suc k \<Longrightarrow> length (big_Bytes_le n) = Suc k"
proof (induction k arbitrary: n)
  case 0
  then show ?case by (simp add: big_Bytes_le.simps [of n] big_Bytes_le.simps [of 0])
next
  case (Suc k)
  then have "256 ^ k \<le> n div 256" and "n div 256 < 256 ^ Suc k" by auto
  moreover have "n \<noteq> 0" using Suc.prems(1) by (metis not_one_le_zero one_le_power le_trans numeral_le_iff semiring_norm(68) one_le_numeral)
  ultimately show ?case using Suc.IH [of "n div 256"] by (simp add: big_Bytes_le.simps [of n])
qed

lemma length_big_Bytes: "256 ^ k \<le> n \<Longrightarrow> n < 256 ^ Suc k \<Longrightarrow> length (big_Bytes n) = Suc k"
  by (simp add: big_Bytes_def length_big_Bytes_le)


text \<open>
  Three random primes: 512, 512 and 256 bits. The generator is an argument: the primes it
  returns, or an error.
\<close>

definition GenerateParams ::
    "string + nat \<Rightarrow> string + nat \<Rightarrow> string + nat \<Rightarrow> string + nat \<times> nat" where
  "GenerateParams p q pp =
     (case p of Inl e \<Rightarrow> Inl e
      | Inr p \<Rightarrow> (case q of Inl e \<Rightarrow> Inl e
      | Inr q \<Rightarrow> (case pp of Inl e \<Rightarrow> Inl e
      | Inr pp \<Rightarrow> Inr (p * q, pp))))"

definition GenerateGenesisParams ::
    "string + nat \<Rightarrow> string + nat \<Rightarrow> string + nat \<Rightarrow> string + nat
       \<Rightarrow> (string + GenesisParams) outcome" where
  "GenerateGenesisParams p q pp sd =
     (case GenerateParams p q pp of
        Inl e \<Rightarrow> Done (Inl e)
      | Inr (ord, pp) \<Rightarrow> (case sd of
          Inl e \<Rightarrow> Done (Inl e)
        | Inr sd \<Rightarrow>
            bindO (to_array 128 (big_Bytes ord))
              (\<lambda>Order. bindO (to_array 32 (big_Bytes pp))
                (\<lambda>VerifyParam. bindO (to_array 32 (big_Bytes sd))
                  (\<lambda>Seed. Done (Inr \<lparr>gp_Order = Order, gp_TimeParam = 10000000,
                     gp_Seed = Seed, gp_VerifyParam = VerifyParam\<rparr>))))))"

section \<open>What the delay function computes\<close>

lemma mod_mult3: "a * a * g mod n = (a mod n) * (a mod n) * (g mod n) mod (n::nat)"
proof -
  have "(a mod n) * (a mod n) * (g mod n) mod n = ((a mod n) * (a mod n) mod n) * (g mod n) mod n"
    by (rule mod_mult_left_eq [symmetric])
  also have "(a mod n) * (a mod n) mod n = a * a mod n" by (simp only: mod_mult_eq)
  finally show ?thesis by (simp only: mod_mult_eq)
qed

lemma calc_rounds_spec:
  assumes "\<And>i. \<not> changed i" and ord: "0 < c_order c" and l: "1 < c_proofParam c"
    and "result mod c_order c = seed ^ 2 ^ k mod c_order c"
    and "pi mod c_order c = seed ^ (2 ^ k div c_proofParam c) mod c_order c"
    and "r = 2 ^ k mod c_proofParam c" and "0 < n"
  shows "calc_rounds c seed changed n round result pi r =
     Done (Some (seed ^ 2 ^ (k + n) mod c_order c,
       seed ^ (2 ^ (k + n) div c_proofParam c) mod c_order c))"
  using assms(4-7)
proof (induction n arbitrary: round result pi r k)
  case 0
  then show ?case by simp
next
  case (Suc n)
  define N l where "N = c_order c" and "l = c_proofParam c"
  define result' where "result' = result * result mod N"
  define g where "g = big_Exp seed (2 * r div l) N"
  define pi' where "pi' = pi * pi * g mod N"
  have step: "calc_rounds c seed changed (Suc n) round result pi r =
      calc_rounds c seed changed n (Suc round) result' pi' (2 * r mod l)"
    using assms(1) ord l by (simp add: Let_def result'_def pi'_def g_def N_def l_def)
  have "result' = (result mod N) * (result mod N) mod N" by (simp add: result'_def mod_mult_eq)
  also have "\<dots> = seed ^ 2 ^ k * seed ^ 2 ^ k mod N" using Suc.prems(1) by (simp add: N_def mod_mult_eq)
  also have "\<dots> = seed ^ 2 ^ Suc k mod N" by (simp add: power_add [symmetric] mult_2)
  finally have res: "result' = seed ^ 2 ^ Suc k mod N" .
  have div: "2 ^ Suc k div l = 2 ^ k div l + 2 ^ k div l + 2 * r div l"
  proof -
    define q :: nat where "q = 2 ^ k div l"
    have "l * q + r = 2 ^ k" using Suc.prems(3) unfolding q_def l_def by (simp only: mult_div_mod_eq)
    then have "2 ^ Suc k = 2 * r + l * (q + q)" by (simp add: algebra_simps flip: mult_2)
    then show ?thesis using l unfolding q_def [symmetric] by (simp add: l_def)
  qed
  have "pi' = (pi mod N) * (pi mod N) * (g mod N) mod N"
    unfolding pi'_def by (rule mod_mult3)
  also have "\<dots> = (seed ^ (2 ^ k div l) mod N) * (seed ^ (2 ^ k div l) mod N)
      * (seed ^ (2 * r div l) mod N) mod N"
    using Suc.prems(2) ord by (simp add: N_def l_def g_def big_Exp_def)
  also have "\<dots> = seed ^ (2 ^ k div l) * seed ^ (2 ^ k div l) * seed ^ (2 * r div l) mod N"
    by (rule mod_mult3 [symmetric])
  also have "\<dots> = seed ^ (2 ^ Suc k div l) mod N" unfolding div by (simp add: power_add)
  finally have pi: "pi' = seed ^ (2 ^ Suc k div l) mod N" .
  have r: "2 * r mod l = 2 ^ Suc k mod l" using Suc.prems(3) by (simp add: l_def mod_mult_right_eq)
  show ?case
  proof (cases "n = 0")
    case True
    then show ?thesis unfolding step using res pi by (simp add: N_def l_def)
  next
    case False
    then show ?thesis unfolding step
      using Suc.IH [of result' "Suc k" pi' "2 * r mod l" "Suc round"] res pi r
      by (simp add: N_def l_def)
  qed
qed

lemma calculate_spec:
  assumes "\<And>i. \<not> changed i" and "0 < c_order c" and "1 < c_proofParam c" and "0 < c_timeParam c"
  shows "calculate c changed seed = Done (Some (seed ^ 2 ^ c_timeParam c mod c_order c,
     seed ^ (2 ^ c_timeParam c div c_proofParam c) mod c_order c))"
  unfolding calculate_def
  using calc_rounds_spec [of changed c seed seed 0 1 1 "c_timeParam c" 0] assms by simp

lemma Verify_vdf_spec:
  "0 < c_order c \<Longrightarrow> 0 < c_proofParam c \<Longrightarrow> Verify_vdf c seed pi result =
     Done (result = pi ^ c_proofParam c * seed ^ (2 ^ c_timeParam c mod c_proofParam c) mod c_order c)"
  by (simp add: Verify_vdf_def big_Exp_def Let_def mod_mult_eq)

lemma Verify_vdf_complete:
  assumes "0 < c_order c" and "0 < c_proofParam c"
    and "pi = seed ^ (2 ^ c_timeParam c div c_proofParam c) mod c_order c"
  shows "Verify_vdf c seed pi (seed ^ 2 ^ c_timeParam c mod c_order c) = Done True"
proof -
  let ?l = "c_proofParam c" and ?t = "2 ^ c_timeParam c :: nat" and ?N = "c_order c"
  have "pi ^ ?l * seed ^ (?t mod ?l) mod ?N = (seed ^ (?t div ?l)) ^ ?l * seed ^ (?t mod ?l) mod ?N"
    unfolding assms(3) by (metis mod_mult_left_eq power_mod)
  also have "\<dots> = seed ^ (?t div ?l * ?l + ?t mod ?l) mod ?N"
    by (simp only: power_mult [symmetric] power_add)
  also have "\<dots> = seed ^ ?t mod ?N" by simp
  finally show ?thesis using assms(1,2) by (simp add: Verify_vdf_spec)
qed

section \<open>The goroutine and its clients as a step relation\<close>

text \<open>
  The calculator together with the seed it is working on, if any. Each operation is one step, which exists only
  when the operation finishes; CalculatorRuns takes the operations apart and says how far that is what the code does.
\<close>

inductive calc_step :: "Calculator \<times> nat option \<Rightarrow> Calculator \<times> nat option \<Rightarrow> bool" where
  step_append: "AppendNewSeed s p c = Done c' \<Longrightarrow> calc_step (c, busy) (c', busy)"
| step_take: "run_take c = Done (s, c') \<Longrightarrow> calc_step (c, None) (c', Some s)"
| step_deliver: "calculate c ch s = Done out \<Longrightarrow> run_deliver out c = Done c' \<Longrightarrow>
    calc_step (c, Some s) (c', None)"
| step_get: "GetSeedParams c = Done (r, c') \<Longrightarrow> calc_step (c, busy) (c', busy)"

inductive calc_reach :: "Calculator \<Rightarrow> Calculator \<times> nat option \<Rightarrow> bool" for c0 where
  reach_init: "calc_reach c0 (c0, None)"
| reach_step: "calc_reach c0 s \<Longrightarrow> calc_step s s' \<Longrightarrow> calc_reach c0 s'"

lemma Verify_vdf_cong:
  "c_order c' = c_order c \<Longrightarrow> c_proofParam c' = c_proofParam c \<Longrightarrow> c_timeParam c' = c_timeParam c \<Longrightarrow>
     Verify_vdf c' = Verify_vdf c"
  by (simp add: Verify_vdf_def fun_eq_iff)

lemma calc_rounds_unchanged:
  "calc_rounds c seed changed n round result pi r = Done (Some x) \<Longrightarrow>
     calc_rounds c seed (\<lambda>_. False) n round result pi r = Done (Some x)"
  by (induction n arbitrary: round result pi r) (auto simp: Let_def split: if_splits)

text \<open>Whatever the flag did meanwhile, a result that is not abandoned is the right one.\<close>

lemma calculate_result:
  assumes "calculate c changed seed = Done (Some (r, p))"
    and "0 < c_order c" and "1 < c_proofParam c" and "0 < c_timeParam c"
  shows "r = seed ^ 2 ^ c_timeParam c mod c_order c" and "Verify_vdf c seed p r = Done True"
proof -
  have "calculate c (\<lambda>_. False) seed = Done (Some (r, p))"
    using assms(1) unfolding calculate_def by (rule calc_rounds_unchanged)
  then have rp: "r = seed ^ 2 ^ c_timeParam c mod c_order c"
    "p = seed ^ (2 ^ c_timeParam c div c_proofParam c) mod c_order c"
    using calculate_spec [of "\<lambda>_. False" c seed] assms(2-4) by simp_all
  show "r = seed ^ 2 ^ c_timeParam c mod c_order c" by (rule rp)
  show "Verify_vdf c seed p r = Done True"
    unfolding rp(1) by (rule Verify_vdf_complete) (use assms(2-4) rp(2) in auto)
qed

section \<open>Properties\<close>

text \<open>C16: The delay function is complete: with the parameters of a genesis block and no new seed
  arriving, \<open>calculate\<close> returns seed^(2^t) mod n together with a proof that \<open>Verify\<close> accepts
  for it.\<close>

theorem vdf_output_verifies:
  assumes "0 < c_order c" and "1 < c_proofParam c" and "0 < c_timeParam c"
  shows "\<exists>pi. calculate c (\<lambda>_. False) seed
        = Done (Some (seed ^ (2 ^ c_timeParam c) mod c_order c, pi))
      \<and> Verify_vdf c seed pi (seed ^ (2 ^ c_timeParam c) mod c_order c) = Done True"
  using calculate_spec [of "\<lambda>_. False" c seed] Verify_vdf_complete [of c] assms by auto

definition sample_calc :: Calculator where
  "sample_calc = \<lparr>c_seedChannel = [], c_prevProofChannel = [], c_resultChannel = [],
     c_proofChannel = [], c_proofParam = 3, c_order = 77, c_timeParam = 4,
     c_prevSeed = 0, c_seed = 0, c_proof = 0, c_changed = False\<rparr>"

lemma vdf_output_verifies_witness:
  "\<exists>pi. calculate sample_calc (\<lambda>_. False) 5 = Done (Some (5 ^ (2 ^ 4) mod 77, pi))
      \<and> Verify_vdf sample_calc 5 pi (5 ^ (2 ^ 4) mod 77) = Done True"
  using vdf_output_verifies [of sample_calc 5] by (simp add: sample_calc_def)

text \<open>What a block's seed is checked against: besides the current and the previous seed,
  exactly one value passes for each proof, pi^l * seed^(2^t mod l) mod n. It is the result of the
  delay function for the proof that \<open>calculate\<close> gives; but since l is fixed in the genesis
  block, every other proof has an accepted value as well, which takes no delay to compute.\<close>

theorem vdf_accepted_values:
  assumes "0 < c_order c" and "1 < c_proofParam c" and "c_seed c \<noteq> 0"
  shows "VerifyBlockVDF c v pi = Done (v \<in> {c_prevSeed c, c_seed c,
     pi ^ c_proofParam c * c_seed c ^ (2 ^ c_timeParam c mod c_proofParam c) mod c_order c})"
  using assms by (auto simp: VerifyBlockVDF_def Verify_vdf_spec)

lemma vdf_accepted_values_witness:
  "VerifyBlockVDF (sample_calc\<lparr>c_seed := 5\<rparr>) 40 2 = Done True"
  using vdf_accepted_values [of "sample_calc\<lparr>c_seed := 5\<rparr>" 40 2] by (simp add: sample_calc_def)

text \<open>Generating the parameters of a chain never panics: the product of two 512-bit primes
  with their two top bits set, as the generator returns them, fills the 128 bytes of the field, and
  reading the fields back as integers gives the parameters.\<close>

theorem genesis_params_fit:
  assumes "3 * 2 ^ 510 \<le> p" and "p < 2 ^ 512" and "3 * 2 ^ 510 \<le> q" and "q < 2 ^ 512"
    and "2 ^ 255 \<le> pp" and "pp < 2 ^ 256" and "2 ^ 255 \<le> sd" and "sd < 2 ^ 256"
  shows "\<exists>g. GenerateGenesisParams (Inr p) (Inr q) (Inr pp) (Inr sd) = Done (Inr g)
      \<and> wf_genesis g \<and> be_dec (gp_Order g) = p * q \<and> be_dec (gp_VerifyParam g) = pp
      \<and> be_dec (gp_Seed g) = sd"
proof -
  have "(3 * 2 ^ 510) * (3 * 2 ^ 510) \<le> p * q" using assms(1,3) by (rule mult_le_mono)
  then have "256 ^ 127 \<le> p * q" by (rule order_trans [rotated]) simp
  moreover have "p * q < 2 ^ 512 * 2 ^ 512"
    using assms(2,4) by (intro mult_less_le_imp_less) (use assms(3) in auto)
  then have "p * q < 256 ^ Suc 127" by (rule less_le_trans) simp
  ultimately have n: "length (big_Bytes (p * q)) = 128" using length_big_Bytes [of 127] by simp
  have small: "length (big_Bytes x) = 32" if "2 ^ 255 \<le> x" "x < 2 ^ 256" for x
  proof -
    have "256 ^ 31 \<le> x" using that(1) by (rule order_trans [rotated]) simp
    moreover have "x < 256 ^ Suc 31" using that(2) by (rule less_le_trans) simp
    ultimately show ?thesis using length_big_Bytes [of 31] by simp
  qed
  show ?thesis
    using n small [OF assms(5,6)] small [OF assms(7,8)]
    by (simp add: GenerateGenesisParams_def GenerateParams_def wf_genesis_def in_i64_def be_dec_big_Bytes)
qed

end
