(* ===== verification/Buffer.thy ===== *)
theory Buffer
  imports Roundtrip Caches Calculator
begin

text \<open>
  core/buffer.go: the view of the blocks that are not yet in the database, with one selected block
  per height. The buffer shares the channel of popped blocks with the chain, and the calculator
  with everyone; both are passed along. Each handler runs under the update lock, so an iteration
  of a goroutine is one step; the second goroutine receives outside the lock, so it has two.
\<close>

section \<open>State\<close>

definition maxKnownBlock :: nat where "maxKnownBlock = 2048"
definition maxProcessedBlock :: nat where "maxProcessedBlock = 2048"
definition maxQueueBlock :: nat where "maxQueueBlock = 1024"
definition maxBufferSize :: int where "maxBufferSize = 12"

definition bufferChanSize :: nat where "bufferChanSize = 128"

record 'c BlockBuffer =
  bf_blockChan :: "Block list"
  bf_secondChan :: "Block list"
  bf_blockMark :: "string \<Rightarrow> nat option"
  bf_selectedBlock :: "int \<Rightarrow> Block option"
  bf_knownBlocks :: 'c
  bf_processedBlocks :: 'c
  bf_latestBlockHash :: string
  bf_latestBlockHeight :: int
  bf_latestBlock :: Block
  bf_bufferedHeight :: int
  bf_bufferFull :: bool

type_synonym 'c lru_set = "('c, string, unit) lru_ops"

definition NewBlockBuffer :: "'c lru_set \<Rightarrow> Block \<Rightarrow> 'c BlockBuffer" where
  "NewBlockBuffer L latest =
     \<lparr>bf_blockChan = [], bf_secondChan = [], bf_blockMark = (\<lambda>_. None),
      bf_selectedBlock = (\<lambda>_. None), bf_knownBlocks = lru_new L maxKnownBlock,
      bf_processedBlocks = lru_new L maxProcessedBlock, bf_latestBlockHash = BlockHash latest,
      bf_latestBlockHeight = blk_Height latest, bf_latestBlock = latest,
      bf_bufferedHeight = blk_Height latest, bf_bufferFull = False\<rparr>"

section \<open>Comparing blocks\<close>

definition compareBlock :: "Block \<Rightarrow> Block \<Rightarrow> Block \<times> bool" where
  "compareBlock origin block =
     (if PrevBlockHash block \<noteq> PrevBlockHash origin then (origin, False)
      else if length (blk_Transactions origin) = length (blk_Transactions block)
      then (if bh_Timestamp (blk_Header origin) < bh_Timestamp (blk_Header block)
            then (origin, False) else (block, True))
      else if length (blk_Transactions origin) > length (blk_Transactions block) then (origin, False)
      else (block, True))"

fun selectBlockFromList :: "Block list \<Rightarrow> Block option" where
  "selectBlockFromList [] = None"
| "selectBlockFromList (b # bs) = Some (foldl (\<lambda>result c. fst (compareBlock result c)) b bs)"

section \<open>Updating the view\<close>

text \<open>
  The loop ends when the height passes \<open>buffered\<close>; the increment wraps, so it need not end.
\<close>

partial_function (option) tree_view_loop ::
    "int \<Rightarrow> (int \<Rightarrow> Block option) \<Rightarrow> int \<Rightarrow> (int \<Rightarrow> Block option) option" where
  "tree_view_loop buffered selected height =
     (if height > buffered then Some selected
      else let height' = i64 (height + 1)
           in tree_view_loop buffered (selected(height' := None)) height')"

definition updateTreeView :: "int \<Rightarrow> 'c BlockBuffer \<Rightarrow> 'c BlockBuffer outcome" where
  "updateTreeView start b =
     (case tree_view_loop start (bf_selectedBlock b) start of
        None \<Rightarrow> Diverges
      | Some sel \<Rightarrow> Done (b\<lparr>bf_bufferedHeight := start, bf_selectedBlock := sel\<rparr>))"

section \<open>Popping and the priority leaf\<close>

text \<open>A height without a selected block makes the pop dereference nil.\<close>

definition PopSelectedBlock :: "'c BlockBuffer \<Rightarrow> (Block \<times> 'c BlockBuffer) outcome" where
  "PopSelectedBlock b =
     (let height = i64 (bf_latestBlockHeight b + 1) in
      case bf_selectedBlock b height of
        None \<Rightarrow> Panics
      | Some selected \<Rightarrow> Done (selected,
          b\<lparr>bf_latestBlockHash := BlockHash selected, bf_latestBlockHeight := height,
            bf_latestBlock := selected,
            bf_selectedBlock := (bf_selectedBlock b)(i64 (height - 1) := None)\<rparr>))"

fun leaf_scan :: "(int \<Rightarrow> Block option) \<Rightarrow> int \<Rightarrow> nat \<Rightarrow> int \<Rightarrow> Block option" where
  "leaf_scan selected nowHeight 0 height = None"
| "leaf_scan selected nowHeight (Suc n) height =
     (if selected height \<noteq> None \<and> height < nowHeight then selected height
      else leaf_scan selected nowHeight n (height - 1))"

definition GetPriorityLeaf :: "'c BlockBuffer \<Rightarrow> int \<Rightarrow> Block" where
  "GetPriorityLeaf b nowHeight =
     (case leaf_scan (bf_selectedBlock b) nowHeight
        (nat (bf_bufferedHeight b - bf_latestBlockHeight b)) (bf_bufferedHeight b) of
        Some leaf \<Rightarrow> leaf
      | None \<Rightarrow> bf_latestBlock b)"

definition AppendBlock :: "Block \<Rightarrow> 'c BlockBuffer \<Rightarrow> 'c BlockBuffer outcome" where
  "AppendBlock block b =
     bindO (chan_send maxQueueBlock (bf_blockChan b) block) (\<lambda>q. Done (b\<lparr>bf_blockChan := q\<rparr>))"

section \<open>Handling a block\<close>

text \<open>The state a handler works on: the buffer, the channel of popped blocks, the calculator.\<close>

type_synonym 'c view_state = "'c BlockBuffer \<times> Block list \<times> Calculator"

text \<open>The seed and proof of the delay function that a block carries.\<close>

definition block_seed :: "'w karmem_ops \<Rightarrow> Block \<Rightarrow> nat \<times> nat" where
  "block_seed K block =
     (let params = DeserializeGeneralParams K (bh_Params (blk_Header block))
      in (be_dec (gn_Result params), be_dec (gn_Proof params)))"

definition select_block :: "Block \<Rightarrow> 'c BlockBuffer \<Rightarrow> 'c BlockBuffer outcome" where
  "select_block block b =
     (let h = blk_Height block;
          (chosen, replaced) = (case bf_selectedBlock b h of
             None \<Rightarrow> (block, True)
           | Some selected \<Rightarrow> compareBlock selected block);
          b' = b\<lparr>bf_selectedBlock := (bf_selectedBlock b)(h \<mapsto> chosen)\<rparr>
      in if replaced then updateTreeView h b' else Done b')"

definition pop_block :: "Block \<Rightarrow> 'c BlockBuffer \<Rightarrow> Block list \<Rightarrow> ('c BlockBuffer \<times> Block list) outcome" where
  "pop_block block b popChan =
     (if i64 (blk_Height block - bf_latestBlockHeight b) > maxBufferSize
      then bindO (PopSelectedBlock b) (\<lambda>(selected, b').
             bindO (chan_send bufferChanSize popChan selected)
               (\<lambda>popChan'. Done (b'\<lparr>bf_bufferFull := True\<rparr>, popChan')))
      else Done (b, popChan))"

text \<open>The part both goroutines share: a block whose predecessor is in the view.\<close>

definition accept_block ::
    "'c lru_set \<Rightarrow> 'w karmem_ops \<Rightarrow> Block \<Rightarrow> 'c view_state \<Rightarrow> 'c view_state outcome" where
  "accept_block L K block s =
     (case s of (b, popChan, calc) \<Rightarrow>
       let b1 = b\<lparr>bf_processedBlocks := lru_add L (bf_processedBlocks b) (BlockHash block) ()\<rparr>;
           (seed, proof) = block_seed K block
       in bindO (VerifyBlockVDF calc seed proof) (\<lambda>ok.
          if \<not> ok then Done (b1, popChan, calc)
          else bindO (select_block block b1) (\<lambda>b2.
               bindO (pop_block block b2 popChan) (\<lambda>(b3, popChan').
               bindO (AppendNewSeed seed proof calc) (\<lambda>calc'. Done (b3, popChan', calc'))))))"

text \<open>The predecessor is neither the latest block nor the selected block of the height below.\<close>

definition orphan :: "'c BlockBuffer \<Rightarrow> Block \<Rightarrow> bool" where
  "orphan b block \<longleftrightarrow> PrevBlockHash block \<noteq> BlockHash (bf_latestBlock b)
     \<and> (case bf_selectedBlock b (i64 (blk_Height block - 1)) of
          None \<Rightarrow> True
        | Some prevHeightBlock \<Rightarrow> PrevBlockHash block \<noteq> BlockHash prevHeightBlock)"

text \<open>
  A block without a known place waits in the second queue, unless its predecessor was processed and
  lost; a full queue blocks the sender, which holds the lock.
\<close>

definition second_or_drop :: "'c lru_set \<Rightarrow> Block \<Rightarrow> 'c BlockBuffer \<Rightarrow> 'c BlockBuffer outcome" where
  "second_or_drop L block b =
     (if \<not> lru_contains L (bf_processedBlocks b) (PrevBlockHash block)
      then bindO (chan_send maxQueueBlock (bf_secondChan b) block)
             (\<lambda>q. Done (b\<lparr>bf_secondChan := q\<rparr>))
      else Done (b\<lparr>bf_processedBlocks := lru_add L (bf_processedBlocks b) (BlockHash block) ()\<rparr>))"

definition Process_block ::
    "'c lru_set \<Rightarrow> 'w karmem_ops \<Rightarrow> Block \<Rightarrow> 'c view_state \<Rightarrow> 'c view_state outcome" where
  "Process_block L K block s =
     (case s of (b, popChan, calc) \<Rightarrow>
       if blk_Height block \<le> bf_latestBlockHeight b then Done s
       else if lru_contains L (bf_knownBlocks b) (BlockHash block) then Done s
       else let b1 = b\<lparr>bf_knownBlocks := lru_add L (bf_knownBlocks b) (BlockHash block) ()\<rparr> in
         if orphan b1 block
         then bindO (second_or_drop L block b1) (\<lambda>b2. Done (b2, popChan, calc))
         else accept_block L K block (b1, popChan, calc))"

definition secondProcess_block ::
    "'c lru_set \<Rightarrow> 'w karmem_ops \<Rightarrow> Block \<Rightarrow> 'c view_state \<Rightarrow> 'c view_state outcome" where
  "secondProcess_block L K block s =
     (case s of (b, popChan, calc) \<Rightarrow>
       if blk_Height block \<le> bf_latestBlockHeight b then Done s
       else if orphan b block
       then bindO (second_or_drop L block b) (\<lambda>b2. Done (b2, popChan, calc))
       else accept_block L K block (b, popChan, calc))"

text \<open>One iteration of \<open>Process\<close>; nothing to receive means waiting.\<close>

definition Process :: "'c lru_set \<Rightarrow> 'w karmem_ops \<Rightarrow> 'c view_state \<Rightarrow> 'c view_state outcome" where
  "Process L K s =
     (case s of (b, popChan, calc) \<Rightarrow>
       (case bf_blockChan b of
          [] \<Rightarrow> Blocks
        | block # rest \<Rightarrow> Process_block L K block (b\<lparr>bf_blockChan := rest\<rparr>, popChan, calc)))"

text \<open>The two halves of an iteration of \<open>secondProcess\<close>: the receive, and the handling under the lock.\<close>

definition second_receive :: "'c view_state \<Rightarrow> (Block \<times> 'c view_state) outcome" where
  "second_receive s =
     (case s of (b, popChan, calc) \<Rightarrow>
       (case bf_secondChan b of
          [] \<Rightarrow> Blocks
        | block # rest \<Rightarrow> Done (block, (b\<lparr>bf_secondChan := rest\<rparr>, popChan, calc))))"

definition secondProcess :: "'c lru_set \<Rightarrow> 'w karmem_ops \<Rightarrow> 'c view_state \<Rightarrow> 'c view_state outcome" where
  "secondProcess L K s = bindO (second_receive s) (\<lambda>(block, s'). secondProcess_block L K block s')"

section \<open>The loop of the view\<close>

lemma tree_view_loop_once:
  assumes "in_i64 h" and "h < 2 ^ 63 - 1"
  shows "tree_view_loop h sel h = Some (sel(h + 1 := None))"
proof -
  have "i64 (h + 1) = h + 1" using assms by (intro i64_id) (auto simp: in_i64_def)
  then show ?thesis by (simp add: tree_view_loop.simps [of h])
qed

text \<open>At the largest height the incremented height is never above it.\<close>

lemma tree_view_loop_diverges: "tree_view_loop (2 ^ 63 - 1) sel h = None \<or> h > 2 ^ 63 - 1"
proof (cases "tree_view_loop (2 ^ 63 - 1) sel h")
  case (Some sel')
  then have "2 ^ 63 - 1 = (2 ^ 63 - 1 :: int) \<longrightarrow> h > 2 ^ 63 - 1"
  proof (rule tree_view_loop.raw_induct [of "\<lambda>b s h _. b = 2 ^ 63 - 1 \<longrightarrow> h > 2 ^ 63 - 1", rotated])
    fix loop buffered and height :: int and selected y
    assume IH: "\<And>b s h y. loop b s h = Some y \<Longrightarrow> b = 2 ^ 63 - 1 \<longrightarrow> h > 2 ^ 63 - 1"
      and step: "(if height > buffered then Some selected
        else let height' = i64 (height + 1) in loop buffered (selected(height' := None)) height') = Some y"
    show "buffered = 2 ^ 63 - 1 \<longrightarrow> height > 2 ^ 63 - 1"
    proof (intro impI, rule ccontr)
      assume b: "buffered = 2 ^ 63 - 1" and h: "\<not> 2 ^ 63 - 1 < height"
      then have "loop buffered (selected(i64 (height + 1) := None)) (i64 (height + 1)) = Some y"
        using step by (simp add: Let_def)
      then have "i64 (height + 1) > 2 ^ 63 - 1" using IH b by blast
      moreover have "in_i64 (i64 (height + 1))" by simp
      ultimately show False by (simp add: in_i64_def)
    qed
  qed
  then show ?thesis by simp
qed simp

lemma updateTreeView_ok:
  "in_i64 h \<Longrightarrow> h < 2 ^ 63 - 1 \<Longrightarrow> updateTreeView h b =
     Done (b\<lparr>bf_bufferedHeight := h, bf_selectedBlock := (bf_selectedBlock b)(h + 1 := None)\<rparr>)"
  by (simp add: updateTreeView_def tree_view_loop_once)

lemma updateTreeView_Done:
  assumes "updateTreeView h b = Done b'" and "in_i64 h"
  shows "h < 2 ^ 63 - 1 \<and>
    b' = b\<lparr>bf_bufferedHeight := h, bf_selectedBlock := (bf_selectedBlock b)(h + 1 := None)\<rparr>"
proof (cases "h < 2 ^ 63 - 1")
  case True
  then show ?thesis using assms updateTreeView_ok [of h b] by simp
next
  case False
  then have h: "h = 2 ^ 63 - 1" using assms(2) by (simp add: in_i64_def)
  have "tree_view_loop h (bf_selectedBlock b) h = None"
    using tree_view_loop_diverges [of "bf_selectedBlock b" h] h by simp
  then show ?thesis using assms(1) by (simp add: updateTreeView_def)
qed

section \<open>Priority\<close>

text \<open>More transactions win; with equally many, the earlier timestamp.\<close>

definition beats :: "Block \<Rightarrow> Block \<Rightarrow> bool" where
  "beats x y \<longleftrightarrow> length (blk_Transactions x) > length (blk_Transactions y)
     \<or> length (blk_Transactions x) = length (blk_Transactions y)
        \<and> bh_Timestamp (blk_Header x) < bh_Timestamp (blk_Header y)"

lemma compareBlock_fst:
  "PrevBlockHash y = PrevBlockHash x \<Longrightarrow> fst (compareBlock x y) = (if beats x y then x else y)"
  by (auto simp: compareBlock_def beats_def)

lemma compareBlock_kept: "compareBlock x y = (z, False) \<Longrightarrow> z = x"
  by (auto simp: compareBlock_def split: if_splits)

lemma compareBlock_replaced:
  "compareBlock x y = (z, True) \<Longrightarrow> z = y \<and> PrevBlockHash y = PrevBlockHash x"
  by (auto simp: compareBlock_def split: if_splits)

lemma not_beats_trans: "\<not> beats x y \<Longrightarrow> \<not> beats y z \<Longrightarrow> \<not> beats x z"
  by (auto simp: beats_def)

lemma fold_best:
  assumes "\<forall>c \<in> set bs. PrevBlockHash c = PrevBlockHash b"
  shows "foldl (\<lambda>r c. fst (compareBlock r c)) b bs \<in> set (b # bs)
    \<and> (\<forall>c \<in> set (b # bs). \<not> beats c (foldl (\<lambda>r c. fst (compareBlock r c)) b bs))"
  using assms
proof (induction bs arbitrary: b)
  case Nil
  then show ?case by (simp add: beats_def)
next
  case (Cons x bs)
  define r where "r = fst (compareBlock b x)"
  have r: "r = (if beats b x then b else x)" unfolding r_def
    by (rule compareBlock_fst) (use Cons.prems in simp)
  have "\<forall>c \<in> set bs. PrevBlockHash c = PrevBlockHash r" using Cons.prems by (auto simp: r)
  then have IH: "foldl (\<lambda>r c. fst (compareBlock r c)) r bs \<in> set (r # bs)"
    "\<forall>c \<in> set (r # bs). \<not> beats c (foldl (\<lambda>r c. fst (compareBlock r c)) r bs)"
    using Cons.IH by blast+
  have "\<not> beats b r" "\<not> beats x r" by (auto simp: r beats_def)
  then have "\<not> beats b (foldl (\<lambda>r c. fst (compareBlock r c)) r bs)"
    "\<not> beats x (foldl (\<lambda>r c. fst (compareBlock r c)) r bs)"
    using IH(2) not_beats_trans by fastforce+
  then show ?case using IH by (auto simp: r_def [symmetric]) (auto simp: r split: if_splits)
qed

section \<open>The view invariant\<close>

text \<open>
  \<open>ht\<close> gives the height of the block with a hash; a block is consistent with it when its own height
  and that of its predecessor are as they should be.
\<close>

definition consistent :: "(string \<Rightarrow> int) \<Rightarrow> Block \<Rightarrow> bool" where
  "consistent ht b \<longleftrightarrow> in_i64 (blk_Height b) \<and> ht (BlockHash b) = blk_Height b
     \<and> ht (PrevBlockHash b) = blk_Height b - 1"

definition links :: "Block \<Rightarrow> Block \<Rightarrow> bool" where
  "links p b \<longleftrightarrow> PrevBlockHash b = BlockHash p \<and> blk_Height b = blk_Height p + 1"

definition view_inv :: "(string \<Rightarrow> int) \<Rightarrow> 'c BlockBuffer \<Rightarrow> bool" where
  "view_inv ht b \<longleftrightarrow>
     (\<forall>x \<in> set (bf_blockChan b) \<union> set (bf_secondChan b). consistent ht x)
     \<and> in_i64 (bf_latestBlockHeight b) \<and> blk_Height (bf_latestBlock b) = bf_latestBlockHeight b
     \<and> ht (BlockHash (bf_latestBlock b)) = bf_latestBlockHeight b
     \<and> bf_selectedBlock b (bf_latestBlockHeight b) \<in> {None, Some (bf_latestBlock b)}
     \<and> (\<forall>h x. bf_latestBlockHeight b < h \<longrightarrow> bf_selectedBlock b h = Some x \<longrightarrow>
          blk_Height x = h \<and> ht (BlockHash x) = h \<and> in_i64 h)
     \<and> (\<forall>x. bf_selectedBlock b (bf_latestBlockHeight b + 1) = Some x \<longrightarrow> links (bf_latestBlock b) x)
     \<and> (\<forall>h x y. bf_latestBlockHeight b < h \<longrightarrow> bf_selectedBlock b h = Some x
          \<longrightarrow> bf_selectedBlock b (h + 1) = Some y \<longrightarrow> links x y)"

lemma view_inv_new:
  "in_i64 (blk_Height g) \<Longrightarrow> ht (BlockHash g) = blk_Height g \<Longrightarrow> view_inv ht (NewBlockBuffer L g)"
  by (simp add: view_inv_def NewBlockBuffer_def)

text \<open>Only the queues, the selection and the latest block matter.\<close>

lemma view_inv_cong:
  assumes "view_inv ht b" and "bf_selectedBlock b' = bf_selectedBlock b"
    and "bf_latestBlock b' = bf_latestBlock b" and "bf_latestBlockHeight b' = bf_latestBlockHeight b"
    and "\<forall>x \<in> set (bf_blockChan b') \<union> set (bf_secondChan b'). consistent ht x"
  shows "view_inv ht b'"
  using assms by (simp add: view_inv_def)

lemma view_inv_queues:
  "view_inv ht b \<Longrightarrow> \<forall>x \<in> set (bf_blockChan b) \<union> set (bf_secondChan b). consistent ht x"
  by (simp add: view_inv_def)

text \<open>A block that is no orphan extends the view at its height.\<close>

lemma not_orphan_links:
  assumes inv: "view_inv ht b" and c: "consistent ht x" and h: "bf_latestBlockHeight b < blk_Height x"
    and "\<not> orphan b x"
  shows "(blk_Height x = bf_latestBlockHeight b + 1 \<longrightarrow> links (bf_latestBlock b) x)
    \<and> (bf_latestBlockHeight b + 1 < blk_Height x \<longrightarrow>
         (\<exists>p. bf_selectedBlock b (blk_Height x - 1) = Some p \<and> links p x))"
proof -
  have "i64 (blk_Height x - 1) = blk_Height x - 1"
    using c h inv by (intro i64_id) (auto simp: consistent_def view_inv_def in_i64_def)
  then consider "PrevBlockHash x = BlockHash (bf_latestBlock b)"
    | p where "bf_selectedBlock b (blk_Height x - 1) = Some p" "PrevBlockHash x = BlockHash p"
    using assms(4) by (auto simp: orphan_def split: option.splits)
  then show ?thesis
  proof cases
    case 1
    then have "blk_Height x - 1 = bf_latestBlockHeight b"
      using c inv by (metis (mono_tags) consistent_def view_inv_def)
    then show ?thesis using 1 inv by (simp add: links_def view_inv_def)
  next
    case (2 p)
    show ?thesis
    proof (cases "blk_Height x - 1 = bf_latestBlockHeight b")
      case True
      then have "p = bf_latestBlock b" using inv 2(1) by (simp add: view_inv_def)
      then show ?thesis using 2(2) True inv by (simp add: links_def view_inv_def)
    next
      case False
      then have "bf_latestBlockHeight b < blk_Height x - 1" using h by simp
      then have "blk_Height p = blk_Height x - 1" using inv 2(1) unfolding view_inv_def by blast
      then show ?thesis using 2 False by (simp add: links_def)
    qed
  qed
qed

text \<open>Selecting: either nothing visible changes, or the block takes its height and the next is cleared.\<close>

lemma select_block_cases:
  assumes "select_block x b = Done b'" and "in_i64 (blk_Height x)"
  shows "(\<exists>y. bf_selectedBlock b (blk_Height x) = Some y \<and> b' = b)
    \<or> (b' = b\<lparr>bf_bufferedHeight := blk_Height x,
          bf_selectedBlock := (bf_selectedBlock b)(blk_Height x \<mapsto> x, blk_Height x + 1 := None)\<rparr>)"
proof (cases "bf_selectedBlock b (blk_Height x)")
  case None
  then show ?thesis using assms(1) updateTreeView_Done [OF _ assms(2)]
    by (fastforce simp: select_block_def Let_def)
next
  case (Some y)
  obtain z r where z: "compareBlock y x = (z, r)" by (cases "compareBlock y x")
  show ?thesis
  proof (cases r)
    case True
    then have "z = x" using z compareBlock_replaced [of y x z] by simp
    then show ?thesis using assms(1) updateTreeView_Done [OF _ assms(2)] Some z True
      by (fastforce simp: select_block_def Let_def)
  next
    case False
    then have "z = y" using z compareBlock_kept [of y x z] by simp
    then have "b' = b" using assms(1) Some z False
      by (auto simp: select_block_def Let_def fun_upd_idem)
    then show ?thesis using Some by blast
  qed
qed

lemma view_inv_select:
  assumes inv: "view_inv ht b" and c: "consistent ht x" and h: "bf_latestBlockHeight b < blk_Height x"
    and o: "\<not> orphan b x" and s: "select_block x b = Done b'"
  shows "view_inv ht b'"
proof -
  have i: "in_i64 (blk_Height x)" using c by (simp add: consistent_def)
  define H L where "H = blk_Height x" and "L = bf_latestBlockHeight b"
  note ext = not_orphan_links [OF inv c h o, folded H_def L_def]
  from select_block_cases [OF s i] show ?thesis
  proof
    assume "\<exists>y. bf_selectedBlock b (blk_Height x) = Some y \<and> b' = b"
    then show ?thesis using inv by blast
  next
    assume b': "b' = b\<lparr>bf_bufferedHeight := blk_Height x,
          bf_selectedBlock := (bf_selectedBlock b)(blk_Height x \<mapsto> x, blk_Height x + 1 := None)\<rparr>"
    have sel: "bf_selectedBlock b' = (bf_selectedBlock b)(H \<mapsto> x, H + 1 := None)"
      "bf_latestBlock b' = bf_latestBlock b" "bf_latestBlockHeight b' = L"
      "bf_blockChan b' = bf_blockChan b" "bf_secondChan b' = bf_secondChan b"
      by (simp_all add: b' H_def L_def)
    have LH: "L < H" using h by (simp add: H_def L_def)
    have x: "blk_Height x = H" "ht (BlockHash x) = H" "in_i64 H"
      using c by (simp_all add: H_def consistent_def)
    have "\<forall>h y. L < h \<longrightarrow> bf_selectedBlock b' h = Some y \<longrightarrow>
        blk_Height y = h \<and> ht (BlockHash y) = h \<and> in_i64 h"
      using inv x unfolding sel view_inv_def L_def [symmetric] by simp
    moreover have "\<forall>y. bf_selectedBlock b' (L + 1) = Some y \<longrightarrow> links (bf_latestBlock b) y"
      using inv ext LH unfolding sel view_inv_def L_def [symmetric] by auto
    moreover have "\<forall>h y z. L < h \<longrightarrow> bf_selectedBlock b' h = Some y
        \<longrightarrow> bf_selectedBlock b' (h + 1) = Some z \<longrightarrow> links y z"
    proof (intro allI impI)
      fix h y z assume a: "L < h" "bf_selectedBlock b' h = Some y" "bf_selectedBlock b' (h + 1) = Some z"
      show "links y z"
      proof (cases "h + 1 = H")
        case True
        then have "z = x" "bf_selectedBlock b (H - 1) = Some y" using a by (auto simp: sel split: if_splits)
        then show ?thesis using ext True a(1) by auto
      next
        case False
        then have "h \<noteq> H" "bf_selectedBlock b h = Some y" "bf_selectedBlock b (h + 1) = Some z"
          using a by (auto simp: sel split: if_splits)
        then show ?thesis using inv a(1) unfolding view_inv_def L_def [symmetric] by blast
      qed
    qed
    ultimately show ?thesis
      using inv LH unfolding view_inv_def sel L_def [symmetric] by simp
  qed
qed

lemma PopSelected_cases:
  assumes inv: "view_inv ht b" and p: "PopSelectedBlock b = Done (x, b')"
    and m: "bf_latestBlockHeight b < 2 ^ 63 - 1"
  shows "view_inv ht b' \<and> links (bf_latestBlock b) x \<and> bf_latestBlock b' = x"
proof -
  define L where "L = bf_latestBlockHeight b"
  have w: "i64 (L + 1) = L + 1" "i64 L = L"
    using inv m by (auto simp: view_inv_def L_def in_i64_def intro!: i64_id)
  have x: "bf_selectedBlock b (L + 1) = Some x"
    and b': "b' = b\<lparr>bf_latestBlockHash := BlockHash x, bf_latestBlockHeight := L + 1,
      bf_latestBlock := x, bf_selectedBlock := (bf_selectedBlock b)(L := None)\<rparr>"
    using p w by (auto simp: PopSelectedBlock_def Let_def L_def split: option.splits)
  have lx: "links (bf_latestBlock b) x" using inv x by (simp add: view_inv_def L_def)
  have hx: "blk_Height x = L + 1" "ht (BlockHash x) = L + 1" "in_i64 (L + 1)"
    using inv x unfolding view_inv_def L_def [symmetric] by auto
  have adj: "\<And>h y z. L < h \<Longrightarrow> bf_selectedBlock b h = Some y \<Longrightarrow> bf_selectedBlock b (h + 1) = Some z
      \<Longrightarrow> links y z"
    and hts: "\<And>h y. L < h \<Longrightarrow> bf_selectedBlock b h = Some y \<Longrightarrow>
      blk_Height y = h \<and> ht (BlockHash y) = h \<and> in_i64 h"
    using inv unfolding view_inv_def L_def [symmetric] by blast+
  have "links x z" if "bf_selectedBlock b (L + 1 + 1) = Some z" for z
    by (rule adj [OF _ x that]) simp
  moreover have "links y z" if "L + 1 < h" "bf_selectedBlock b h = Some y"
      "bf_selectedBlock b (h + 1) = Some z" for h y z
    by (rule adj [OF _ that(2,3)]) (use that in simp)
  moreover have "blk_Height y = h \<and> ht (BlockHash y) = h \<and> in_i64 h"
    if "L + 1 < h" "bf_selectedBlock b h = Some y" for h y
    by (rule hts [OF _ that(2)]) (use that in simp)
  ultimately have "view_inv ht b'"
    using view_inv_queues [OF inv] x hx unfolding view_inv_def b' by simp
  then show ?thesis using lx by (simp add: b')
qed

lemma pop_block_cases:
  assumes "pop_block x b pc = Done (b', pc')"
  shows "(b' = b \<and> pc' = pc) \<or> (\<exists>y b1. PopSelectedBlock b = Done (y, b1)
     \<and> b' = b1\<lparr>bf_bufferFull := True\<rparr> \<and> pc' = pc @ [y])"
  using assms by (auto simp: pop_block_def outcome_simps split: if_splits prod.splits)

text \<open>The blocks a step adds to the channel of popped blocks.\<close>

definition new_pops :: "'c view_state \<Rightarrow> 'c view_state \<Rightarrow> Block list" where
  "new_pops s s' = (case (s, s') of ((_, pc, _), (_, pc', _)) \<Rightarrow> drop (length pc) pc')"

fun chain_from :: "Block \<Rightarrow> Block list \<Rightarrow> bool" where
  "chain_from p [] \<longleftrightarrow> True"
| "chain_from p (b # bs) \<longleftrightarrow> links p b \<and> chain_from b bs"

lemma chain_from_snoc: "chain_from p (bs @ [b]) \<longleftrightarrow> chain_from p bs \<and> links (last (p # bs)) b"
  by (induction bs arbitrary: p) auto

text \<open>
  What a handler does to the view: the invariant stays, and at most one block is popped, which
  extends the latest block and takes its place.
\<close>

definition step_ok :: "(string \<Rightarrow> int) \<Rightarrow> 'c view_state \<Rightarrow> 'c view_state \<Rightarrow> bool" where
  "step_ok ht s s' \<longleftrightarrow> view_inv ht (fst s') \<and>
     (new_pops s s' = [] \<and> bf_latestBlock (fst s') = bf_latestBlock (fst s)
      \<or> (\<exists>y. new_pops s s' = [y] \<and> links (bf_latestBlock (fst s)) y \<and> bf_latestBlock (fst s') = y))"

lemma step_ok_same: "view_inv ht b' \<Longrightarrow> bf_latestBlock b' = bf_latestBlock b \<Longrightarrow>
    step_ok ht (b, pc, c) (b', pc, c')"
  by (simp add: step_ok_def new_pops_def)

lemma accept_step_ok:
  assumes inv: "view_inv ht b" and c: "consistent ht x" and h: "bf_latestBlockHeight b < blk_Height x"
    and o: "\<not> orphan b x" and a: "accept_block L K x (b, pc, calc) = Done s'"
  shows "step_ok ht (b, pc, calc) s'"
proof -
  define b1 where "b1 = b\<lparr>bf_processedBlocks := lru_add L (bf_processedBlocks b) (BlockHash x) ()\<rparr>"
  have inv1: "view_inv ht b1" and o1: "\<not> orphan b1 x" and l1: "bf_latestBlock b1 = bf_latestBlock b"
    "bf_latestBlockHeight b1 = bf_latestBlockHeight b"
    using inv o by (simp_all add: b1_def view_inv_def orphan_def)
  obtain seed pf where sp: "block_seed K x = (seed, pf)" by (cases "block_seed K x")
  obtain ok where ok: "VerifyBlockVDF calc seed pf = Done ok"
    using a by (auto simp: accept_block_def b1_def [symmetric] sp outcome_simps)
  show ?thesis
  proof (cases ok)
    case False
    then have "s' = (b1, pc, calc)" using a ok by (simp add: accept_block_def b1_def [symmetric] sp)
    then show ?thesis using step_ok_same [OF inv1 l1(1)] by simp
  next
    case True
    then obtain b2 b3 pc' calc' where steps: "select_block x b1 = Done b2"
      "pop_block x b2 pc = Done (b3, pc')" "s' = (b3, pc', calc')"
      using a ok by (auto simp: accept_block_def b1_def [symmetric] sp outcome_simps)
    have inv2: "view_inv ht b2" by (rule view_inv_select [OF inv1 c _ o1 steps(1)]) (use h l1 in simp)
    have l2: "bf_latestBlock b2 = bf_latestBlock b" "bf_latestBlockHeight b2 = bf_latestBlockHeight b"
      using select_block_cases [OF steps(1)] c l1 by (auto simp: consistent_def)
    have m: "bf_latestBlockHeight b2 < 2 ^ 63 - 1" using h c l2 by (simp add: consistent_def in_i64_def)
    from pop_block_cases [OF steps(2)] show ?thesis
    proof
      assume "b3 = b2 \<and> pc' = pc"
      then show ?thesis using step_ok_same [OF inv2 l2(1)] steps(3) by simp
    next
      assume "\<exists>y b1. PopSelectedBlock b2 = Done (y, b1) \<and> b3 = b1\<lparr>bf_bufferFull := True\<rparr> \<and> pc' = pc @ [y]"
      then obtain y b4 where y: "PopSelectedBlock b2 = Done (y, b4)" "b3 = b4\<lparr>bf_bufferFull := True\<rparr>"
        "pc' = pc @ [y]" by blast
      have i4: "view_inv ht b4" and l4: "links (bf_latestBlock b2) y" "bf_latestBlock b4 = y"
        using PopSelected_cases [OF inv2 y(1) m] by simp_all
      have "view_inv ht b3"
        by (rule view_inv_cong [OF i4]) (use view_inv_queues [OF i4] in \<open>simp_all add: y(2)\<close>)
      then show ?thesis using y l2 l4 steps(3) by (simp add: step_ok_def new_pops_def)
    qed
  qed
qed

lemma second_or_drop_inv:
  assumes "second_or_drop L x b = Done b'" and "view_inv ht b" and "consistent ht x"
  shows "view_inv ht b' \<and> bf_latestBlock b' = bf_latestBlock b"
  using assms by (auto simp: second_or_drop_def outcome_simps view_inv_def split: if_splits)

lemma secondProcess_step_ok:
  assumes "secondProcess_block L K x (b, pc, calc) = Done s'" and "view_inv ht b" and "consistent ht x"
  shows "step_ok ht (b, pc, calc) s'"
proof (cases "blk_Height x \<le> bf_latestBlockHeight b")
  case True
  then show ?thesis using assms(1) step_ok_same [OF assms(2) refl] by (auto simp: secondProcess_block_def)
next
  case False
  show ?thesis
  proof (cases "orphan b x")
    case True
    then obtain b2 where "second_or_drop L x b = Done b2" "s' = (b2, pc, calc)"
      using assms(1) False by (auto simp: secondProcess_block_def outcome_simps)
    then show ?thesis using second_or_drop_inv assms(2,3) step_ok_same by blast
  next
    case o: False
    then have "accept_block L K x (b, pc, calc) = Done s'"
      using assms(1) False by (simp add: secondProcess_block_def)
    then show ?thesis using accept_step_ok [OF assms(2,3) _ o] False by simp
  qed
qed

lemma Process_step_ok:
  assumes "Process_block L K x (b, pc, calc) = Done s'" and "view_inv ht b" and "consistent ht x"
  shows "step_ok ht (b, pc, calc) s'"
proof (cases "blk_Height x \<le> bf_latestBlockHeight b \<or> lru_contains L (bf_knownBlocks b) (BlockHash x)")
  case True
  then have "s' = (b, pc, calc)" using assms(1) by (auto simp: Process_block_def split: if_splits)
  then show ?thesis using assms(2) step_ok_same by blast
next
  case False
  define b1 where "b1 = b\<lparr>bf_knownBlocks := lru_add L (bf_knownBlocks b) (BlockHash x) ()\<rparr>"
  have inv: "view_inv ht b1" "bf_latestBlockHeight b1 = bf_latestBlockHeight b"
    "bf_latestBlock b1 = bf_latestBlock b"
    using assms(2) by (simp_all add: b1_def view_inv_def)
  have "secondProcess_block L K x (b1, pc, calc) = Done s'"
    using assms(1) False inv(2)
    by (simp add: Process_block_def secondProcess_block_def b1_def [symmetric])
  then have "step_ok ht (b1, pc, calc) s'" using secondProcess_step_ok inv(1) assms(3) by blast
  then show ?thesis using inv(3) by (cases s') (simp add: step_ok_def new_pops_def)
qed

section \<open>Histories\<close>

text \<open>
  The goroutines, the senders of blocks, the chain that consumes popped blocks and whoever else uses
  the calculator, in any interleaving. A history is the state, the block the second goroutine has
  received but not handled, and all blocks popped so far. \<open>good\<close> restricts the blocks that arrive.
\<close>

inductive view_step :: "'c lru_set \<Rightarrow> 'w karmem_ops \<Rightarrow> (Block \<Rightarrow> bool)
    \<Rightarrow> 'c view_state \<times> Block option \<times> Block list \<Rightarrow> 'c view_state \<times> Block option \<times> Block list \<Rightarrow> bool"
  for L K good where
  vs_append: "good x \<Longrightarrow> AppendBlock x b = Done b' \<Longrightarrow>
    view_step L K good ((b, pc, c), held, out) ((b', pc, c), held, out)"
| vs_process: "Process L K s = Done s' \<Longrightarrow>
    view_step L K good (s, held, out) (s', held, out @ new_pops s s')"
| vs_receive: "second_receive s = Done (x, s') \<Longrightarrow>
    view_step L K good (s, None, out) (s', Some x, out)"
| vs_second: "secondProcess_block L K x s = Done s' \<Longrightarrow>
    view_step L K good (s, Some x, out) (s', None, out @ new_pops s s')"
| vs_consume: "view_step L K good ((b, x # pc, c), held, out) ((b, pc, c), held, out)"
| vs_calculator: "view_step L K good ((b, pc, c), held, out) ((b, pc, c'), held, out)"

inductive view_reach :: "'c lru_set \<Rightarrow> 'w karmem_ops \<Rightarrow> (Block \<Rightarrow> bool) \<Rightarrow> Block \<Rightarrow> Calculator
    \<Rightarrow> 'c view_state \<times> Block option \<times> Block list \<Rightarrow> bool"
  for L K good g c0 where
  view_start: "view_reach L K good g c0 ((NewBlockBuffer L g, [], c0), None, [])"
| view_next: "view_reach L K good g c0 s \<Longrightarrow> view_step L K good s s' \<Longrightarrow> view_reach L K good g c0 s'"

inductive_cases view_stepE: "view_step L K good (s, held, out) (s', held', out')"

definition history_inv :: "(string \<Rightarrow> int) \<Rightarrow> Block \<Rightarrow> 'c view_state \<times> Block option \<times> Block list \<Rightarrow> bool" where
  "history_inv ht g h = (case h of (s, held, out) \<Rightarrow>
     view_inv ht (fst s) \<and> (\<forall>x. held = Some x \<longrightarrow> consistent ht x)
     \<and> chain_from g out \<and> bf_latestBlock (fst s) = last (g # out))"

lemma history_step_ok:
  assumes "step_ok ht s s'" and "chain_from g out" and "bf_latestBlock (fst s) = last (g # out)"
  shows "view_inv ht (fst s') \<and> chain_from g (out @ new_pops s s')
    \<and> bf_latestBlock (fst s') = last (g # out @ new_pops s s')"
  using assms by (auto simp: step_ok_def chain_from_snoc)

lemma history_inv_step:
  assumes "view_step L K (consistent ht) h h'" and "history_inv ht g h"
  shows "history_inv ht g h'"
  using assms
proof (cases rule: view_step.cases)
  case (vs_append x b b' pc c held out)
  then show ?thesis using assms(2)
    by (auto simp: AppendBlock_def outcome_simps history_inv_def view_inv_def)
next
  case (vs_process s s' held out)
  obtain b pc c where s: "s = (b, pc, c)" by (cases s)
  obtain x rest where x: "bf_blockChan b = x # rest"
    "Process_block L K x (b\<lparr>bf_blockChan := rest\<rparr>, pc, c) = Done s'"
    using vs_process(3) by (auto simp: s Process_def split: list.splits)
  have i: "view_inv ht b" using assms(2) by (simp add: history_inv_def vs_process(1) s)
  then have i1: "view_inv ht (b\<lparr>bf_blockChan := rest\<rparr>)" and cx: "consistent ht x"
    by (auto simp: view_inv_def x(1))
  have "step_ok ht (b\<lparr>bf_blockChan := rest\<rparr>, pc, c) s'" by (rule Process_step_ok [OF x(2) i1 cx])
  then have "step_ok ht s s'" by (cases s') (simp add: s step_ok_def new_pops_def)
  then show ?thesis using assms(2) history_step_ok [of ht s s' g out] vs_process
    by (simp add: history_inv_def)
next
  case (vs_receive s x s' out)
  obtain b pc c where s: "s = (b, pc, c)" by (cases s)
  obtain rest where r: "bf_secondChan b = x # rest" "s' = (b\<lparr>bf_secondChan := rest\<rparr>, pc, c)"
    using vs_receive(3) by (auto simp: s second_receive_def split: list.splits)
  have i: "view_inv ht b" and h: "chain_from g out" "bf_latestBlock b = last (g # out)"
    using assms(2) by (simp_all add: history_inv_def vs_receive(1) s)
  have "view_inv ht (b\<lparr>bf_secondChan := rest\<rparr>)" and "consistent ht x"
    using view_inv_queues [OF i] by (auto intro!: view_inv_cong [OF i] simp: r(1))
  then show ?thesis using h r(2) by (simp add: vs_receive(2) history_inv_def)
next
  case (vs_second x s s' out)
  obtain b pc c where s: "s = (b, pc, c)" by (cases s)
  have "step_ok ht s s'" unfolding s
    by (rule secondProcess_step_ok) (use vs_second assms(2) in \<open>auto simp: s history_inv_def\<close>)
  then show ?thesis using assms(2) history_step_ok [of ht s s' g out] vs_second
    by (simp add: history_inv_def)
qed (use assms(2) in \<open>auto simp: history_inv_def\<close>)

lemma history_inv_reach:
  assumes "view_reach L K (consistent ht) g c0 h" and "in_i64 (blk_Height g)"
    and "ht (BlockHash g) = blk_Height g"
  shows "history_inv ht g h"
  using assms(1)
proof induction
  case view_start
  show ?case using view_inv_new [of g ht L] assms(2,3) by (simp add: history_inv_def) (simp add: NewBlockBuffer_def)
next
  case (view_next s s')
  then show ?case using history_inv_step by blast
qed

section \<open>A replaced block\<close>

text \<open>Handling blocks one after the other.\<close>

definition run_blocks ::
    "'c lru_set \<Rightarrow> 'w karmem_ops \<Rightarrow> Block list \<Rightarrow> 'c view_state \<Rightarrow> 'c view_state outcome" where
  "run_blocks L K xs s = foldl (\<lambda>m x. bindO m (Process_block L K x)) (Done s) xs"

lemma run_blocks_Nil: "run_blocks L K [] s = Done s"
  by (simp add: run_blocks_def)

lemma run_blocks_snoc: "run_blocks L K (xs @ [x]) s = bindO (run_blocks L K xs s) (Process_block L K x)"
  by (simp add: run_blocks_def)

lemma run_blocks_append: "run_blocks L K (xs @ ys) s = bindO (run_blocks L K xs s) (run_blocks L K ys)"
proof (induction ys rule: rev_induct)
  case Nil
  show ?case by (cases "run_blocks L K xs s") (simp_all add: run_blocks_Nil)
next
  case (snoc y ys)
  then show ?case
    by (simp only: append_assoc [symmetric] run_blocks_snoc bindO_assoc)
qed

text \<open>A block that carries the seed the calculator already has.\<close>

definition settled :: "'w karmem_ops \<Rightarrow> Calculator \<Rightarrow> Block \<Rightarrow> bool" where
  "settled K calc x \<longleftrightarrow> (case block_seed K x of (seed, proof) \<Rightarrow> c_seed calc = seed \<or> c_prevSeed calc = seed)"

text \<open>A block whose seed the calculator confirms takes its height.\<close>

lemma accept_verified:
  assumes "block_seed K x = (seed, pf)" and "VerifyBlockVDF calc seed pf = Done True"
    and "AppendNewSeed seed pf calc = Done calc'" and "in_i64 (blk_Height x)" and "blk_Height x < 2 ^ 63 - 1"
    and "case bf_selectedBlock b (blk_Height x) of None \<Rightarrow> True | Some y \<Rightarrow> compareBlock y x = (x, True)"
  shows "accept_block L K x (b, pc, calc) =
     bindO (pop_block x (b\<lparr>bf_processedBlocks := lru_add L (bf_processedBlocks b) (BlockHash x) (),
         bf_bufferedHeight := blk_Height x,
         bf_selectedBlock := (bf_selectedBlock b)(blk_Height x \<mapsto> x, blk_Height x + 1 := None)\<rparr>) pc)
       (\<lambda>(b3, pc'). Done (b3, pc', calc'))"
proof -
  have "select_block x (b\<lparr>bf_processedBlocks := lru_add L (bf_processedBlocks b) (BlockHash x) ()\<rparr>)
    = Done (b\<lparr>bf_processedBlocks := lru_add L (bf_processedBlocks b) (BlockHash x) (),
         bf_bufferedHeight := blk_Height x,
         bf_selectedBlock := (bf_selectedBlock b)(blk_Height x \<mapsto> x, blk_Height x + 1 := None)\<rparr>)"
    using assms(4-6) by (auto simp: select_block_def Let_def updateTreeView_ok split: option.splits)
  then show ?thesis by (simp add: accept_block_def assms(1-3) bind_def)
qed

text \<open>A run of blocks \<open>T 1\<close>, \<open>T 2\<close>, ... on top of the latest block \<open>T 0\<close>.\<close>

definition run_of :: "(nat \<Rightarrow> Block) \<Rightarrow> nat \<Rightarrow> bool" where
  "run_of T n \<longleftrightarrow> (\<forall>i < n. links (T i) (T (Suc i))) \<and> inj_on (\<lambda>i. BlockHash (T i)) {0..n}
     \<and> in_i64 (blk_Height (T 0)) \<and> blk_Height (T 0) + int n < 2 ^ 63 - 1"

lemma run_of_height: "run_of T n \<Longrightarrow> i \<le> n \<Longrightarrow> blk_Height (T i) = blk_Height (T 0) + int i"
proof (induction i)
  case (Suc i)
  then have "links (T i) (T (Suc i))" by (simp add: run_of_def)
  then show ?case using Suc by (simp add: links_def)
qed simp

lemma run_of_i64: "run_of T n \<Longrightarrow> 0 \<le> j \<Longrightarrow> j \<le> int n \<Longrightarrow> in_i64 (blk_Height (T 0) + j)"
  by (auto simp: run_of_def in_i64_def)

definition tower_view :: "(nat \<Rightarrow> Block) \<Rightarrow> nat \<Rightarrow> int \<Rightarrow> Block option" where
  "tower_view T n h = (if blk_Height (T 0) < h \<and> h \<le> blk_Height (T 0) + int n
     then Some (T (nat (h - blk_Height (T 0)))) else None)"

definition tower :: "'c lru_set \<Rightarrow> (nat \<Rightarrow> Block) \<Rightarrow> nat \<Rightarrow> 'c BlockBuffer \<Rightarrow> bool" where
  "tower L T n b \<longleftrightarrow> bf_latestBlock b = T 0 \<and> bf_latestBlockHeight b = blk_Height (T 0)
     \<and> bf_selectedBlock b = tower_view T n
     \<and> (\<forall>k. lru_contains L (bf_knownBlocks b) k \<longrightarrow> (\<exists>i \<in> {1..n}. k = BlockHash (T i)))"

lemma tower_view_Suc:
  "(tower_view T n)(blk_Height (T 0) + int (Suc n) \<mapsto> T (Suc n), blk_Height (T 0) + int (Suc n) + 1 := None)
     = tower_view T (Suc n)"
  by (rule ext) (auto simp: tower_view_def nat_add_distrib)

text \<open>One more block of a run, in general: it is taken, and popping is up to its height.\<close>

lemma Process_verified:
  assumes "block_seed K x = (seed, pf)" and "VerifyBlockVDF calc seed pf = Done True"
    and "AppendNewSeed seed pf calc = Done calc'" and "in_i64 (blk_Height x)" and "blk_Height x < 2 ^ 63 - 1"
    and "bf_latestBlockHeight b < blk_Height x" and "\<not> lru_contains L (bf_knownBlocks b) (BlockHash x)"
    and "\<not> orphan b x"
    and "case bf_selectedBlock b (blk_Height x) of None \<Rightarrow> True | Some y \<Rightarrow> compareBlock y x = (x, True)"
  shows "\<exists>kn pr. (kn = lru_add L (bf_knownBlocks b) (BlockHash x) ()) \<and>
    Process_block L K x (b, pc, calc) =
     bindO (pop_block x (b\<lparr>bf_knownBlocks := kn, bf_processedBlocks := pr,
         bf_bufferedHeight := blk_Height x,
         bf_selectedBlock := (bf_selectedBlock b)(blk_Height x \<mapsto> x, blk_Height x + 1 := None)\<rparr>) pc)
       (\<lambda>(b3, pc'). Done (b3, pc', calc'))"
proof -
  define kn where "kn = lru_add L (bf_knownBlocks b) (BlockHash x) ()"
  have o: "\<not> orphan (b\<lparr>bf_knownBlocks := kn\<rparr>) x" using assms(8) by (simp add: orphan_def)
  have "Process_block L K x (b, pc, calc) = accept_block L K x (b\<lparr>bf_knownBlocks := kn\<rparr>, pc, calc)"
    using assms(6,7) o by (simp add: Process_block_def kn_def)
  then show ?thesis
    using accept_verified [OF assms(1-5), of "b\<lparr>bf_knownBlocks := kn\<rparr>" L pc] assms(9)
    by (auto simp: kn_def [symmetric])
qed

lemma Process_settled:
  assumes "settled K calc x" and "in_i64 (blk_Height x)" and "blk_Height x < 2 ^ 63 - 1"
    and "bf_latestBlockHeight b < blk_Height x" and "\<not> lru_contains L (bf_knownBlocks b) (BlockHash x)"
    and "\<not> orphan b x"
    and "case bf_selectedBlock b (blk_Height x) of None \<Rightarrow> True | Some y \<Rightarrow> compareBlock y x = (x, True)"
  shows "\<exists>kn pr. (kn = lru_add L (bf_knownBlocks b) (BlockHash x) ()) \<and>
    Process_block L K x (b, pc, calc) =
     bindO (pop_block x (b\<lparr>bf_knownBlocks := kn, bf_processedBlocks := pr,
         bf_bufferedHeight := blk_Height x,
         bf_selectedBlock := (bf_selectedBlock b)(blk_Height x \<mapsto> x, blk_Height x + 1 := None)\<rparr>) pc)
       (\<lambda>(b3, pc'). Done (b3, pc', calc))"
proof -
  obtain seed pf where sp: "block_seed K x = (seed, pf)" by (cases "block_seed K x")
  have "VerifyBlockVDF calc seed pf = Done True" "AppendNewSeed seed pf calc = Done calc"
    using assms(1) by (auto simp: settled_def sp VerifyBlockVDF_def AppendNewSeed_def)
  then show ?thesis by (rule Process_verified [OF sp _ _ assms(2-7)])
qed

text \<open>The caches of the buffer: sets of hashes.\<close>

locale seen_cache = lru L entries
  for L :: "('c, string, unit) lru_ops" and entries
begin

lemma tower_extend:
  assumes t: "tower L T n b" and r: "run_of T m" and n: "n < m" "n < 12" and s: "settled K calc (T (Suc n))"
  shows "\<exists>b'. Process_block L K (T (Suc n)) (b, pc, calc) = Done (b', pc, calc) \<and> tower L T (Suc n) b'"
proof -
  let ?x = "T (Suc n)" and ?H = "blk_Height (T 0)"
  have h: "blk_Height ?x = ?H + int (Suc n)" by (rule run_of_height [OF r]) (use n in simp)
  have i: "in_i64 (?H + int (Suc n))" by (rule run_of_i64 [OF r]) (use n in auto)
  have i': "i64 (?H + int n) = ?H + int n" by (rule i64_id [OF run_of_i64 [OF r]]) (use n in auto)
  have m: "?H + int (Suc n) < 2 ^ 63 - 1" using r n by (simp add: run_of_def)
  have new: "\<not> lru_contains L (bf_knownBlocks b) (BlockHash ?x)"
  proof
    assume "lru_contains L (bf_knownBlocks b) (BlockHash ?x)"
    then obtain j where "j \<in> {1..n}" "BlockHash ?x = BlockHash (T j)" using t by (auto simp: tower_def)
    then show False using r n inj_onD [of "\<lambda>i. BlockHash (T i)" "{0..m}" "Suc n" j] by (auto simp: run_of_def)
  qed
  have l: "links (T n) ?x" using r n by (simp add: run_of_def)
  have "\<not> orphan b ?x"
  proof (cases n)
    case 0
    then show ?thesis using l t by (simp add: orphan_def tower_def links_def)
  next
    case (Suc k)
    have "blk_Height ?x - 1 = ?H + int n" using h by simp
    then have "i64 (blk_Height ?x - 1) = ?H + int n" using i' by simp
    then have "bf_selectedBlock b (i64 (blk_Height ?x - 1)) = Some (T n)"
      using t Suc by (simp add: tower_def tower_view_def nat_add_distrib)
    then show ?thesis using l by (simp add: orphan_def links_def)
  qed
  moreover have "bf_selectedBlock b (blk_Height ?x) = None"
    using t h by (simp add: tower_def tower_view_def)
  ultimately obtain kn pr where p: "kn = lru_add L (bf_knownBlocks b) (BlockHash ?x) ()"
    "Process_block L K ?x (b, pc, calc) =
     bindO (pop_block ?x (b\<lparr>bf_knownBlocks := kn, bf_processedBlocks := pr,
         bf_bufferedHeight := blk_Height ?x,
         bf_selectedBlock := (bf_selectedBlock b)(blk_Height ?x \<mapsto> ?x, blk_Height ?x + 1 := None)\<rparr>) pc)
       (\<lambda>(b3, pc'). Done (b3, pc', calc))"
    using Process_settled [OF s, of b L pc] new i m h t by (auto simp: tower_def)
  define b' where "b' = b\<lparr>bf_knownBlocks := kn, bf_processedBlocks := pr, bf_bufferedHeight := blk_Height ?x,
      bf_selectedBlock := tower_view T (Suc n)\<rparr>"
  have "pop_block ?x b' pc = Done (b', pc)"
    using n t h i64_id [of "int (Suc n)"]
    by (simp add: pop_block_def b'_def tower_def maxBufferSize_def in_i64_def)
  moreover have sel: "bf_selectedBlock b = tower_view T n" using t by (simp add: tower_def)
  have sv: "(bf_selectedBlock b)(blk_Height ?x \<mapsto> ?x, blk_Height ?x + 1 := None) = tower_view T (Suc n)"
    unfolding sel h by (rule tower_view_Suc)
  ultimately have "Process_block L K ?x (b, pc, calc) = Done (b', pc, calc)"
    using p(2) unfolding sv b'_def [symmetric] by simp
  moreover have "tower L T (Suc n) b'"
  proof -
    have "\<exists>i \<in> {1..Suc n}. k = BlockHash (T i)" if "lru_contains L kn k" for k
    proof -
      have "k = BlockHash ?x \<or> lru_contains L (bf_knownBlocks b) k"
        using that contains_add_old unfolding p(1) by metis
      then show ?thesis using t by (force simp: tower_def)
    qed
    then show ?thesis using t by (simp add: tower_def b'_def)
  qed
  ultimately show ?thesis by blast
qed

text \<open>
  A better block for the first height of a run of twelve: it is selected, the second height is
  emptied, and the rest of the run stays in the view. The next two blocks of the run then pop the
  new first block and the empty second height.
\<close>

lemma replaced_run_panics:
  assumes r: "run_of T 14" and s: "\<forall>i \<in> {1..14}. settled K calc (T i)"
    and R: "links (T 0) R" "settled K calc R" "compareBlock (T 1) R = (R, True)"
      "\<forall>i \<in> {0..14}. BlockHash (T i) \<noteq> BlockHash R"
    and t: "tower L T 12 b" and pc: "length pc < bufferChanSize"
  shows "run_blocks L K [R, T 13, T 14] (b, pc, calc) = Panics"
proof -
  define H where "H = blk_Height (T 0)"
  have hT: "\<And>i. i \<le> 14 \<Longrightarrow> blk_Height (T i) = H + int i" unfolding H_def by (rule run_of_height [OF r])
  have hR: "blk_Height R = H + 1" using R(1) by (simp add: links_def H_def)
  have i: "\<And>j. 0 \<le> j \<Longrightarrow> j \<le> 14 \<Longrightarrow> i64 (H + j) = H + j \<and> in_i64 (H + j)"
    using run_of_i64 [OF r] by (simp add: H_def)
  have m: "H + 14 < 2 ^ 63 - 1" using r by (simp add: run_of_def H_def)
  have inj: "\<And>i j. i \<le> 14 \<Longrightarrow> j \<le> 14 \<Longrightarrow> BlockHash (T i) = BlockHash (T j) \<Longrightarrow> i = j"
    using r by (auto simp: run_of_def inj_on_def)
  have lk: "\<And>i. i < 14 \<Longrightarrow> links (T i) (T (Suc i))" using r by (simp add: run_of_def)
  note tw = t [unfolded tower_def, folded H_def]
  have sel: "bf_selectedBlock b (H + 1) = Some (T 1)" "bf_selectedBlock b (H + 12) = Some (T 12)"
    "bf_selectedBlock b (H + 13) = None"
    using tw by (auto simp: tower_view_def H_def)
  \<comment> \<open>the better block\<close>
  have "\<not> lru_contains L (bf_knownBlocks b) (BlockHash R)" using tw R(4) by force
  moreover have "\<not> orphan b R" using tw R(1) by (simp add: orphan_def links_def)
  ultimately obtain kn pr where p1: "kn = lru_add L (bf_knownBlocks b) (BlockHash R) ()"
    "Process_block L K R (b, pc, calc) =
     bindO (pop_block R (b\<lparr>bf_knownBlocks := kn, bf_processedBlocks := pr, bf_bufferedHeight := H + 1,
         bf_selectedBlock := (bf_selectedBlock b)(H + 1 \<mapsto> R, H + 1 + 1 := None)\<rparr>) pc)
       (\<lambda>(b3, pc'). Done (b3, pc', calc))"
    using Process_settled [OF R(2), of b L pc] R(3) hR i [of 1] m tw sel(1) by auto
  define b1 where "b1 = b\<lparr>bf_knownBlocks := kn, bf_processedBlocks := pr, bf_bufferedHeight := H + 1,
         bf_selectedBlock := (bf_selectedBlock b)(H + 1 \<mapsto> R, H + 1 + 1 := None)\<rparr>"
  have "pop_block R b1 pc = Done (b1, pc)"
    using tw hR i64_id [of 1] by (simp add: pop_block_def b1_def maxBufferSize_def in_i64_def)
  then have P1: "Process_block L K R (b, pc, calc) = Done (b1, pc, calc)"
    using p1(2) by (simp add: b1_def)
  have kn1: "lru_contains L (bf_knownBlocks b1) k \<Longrightarrow> k = BlockHash R \<or> (\<exists>i \<in> {1..12}. k = BlockHash (T i))" for k
    using contains_add_old [of "bf_knownBlocks b" "BlockHash R" "()" k] tw unfolding b1_def p1(1) by auto
  have b1: "bf_latestBlock b1 = T 0" "bf_latestBlockHeight b1 = H"
    "bf_selectedBlock b1 = (bf_selectedBlock b)(H + 1 \<mapsto> R, H + 2 := None)"
    using tw by (simp_all add: b1_def add.commute)
  \<comment> \<open>height 13: the better block is popped\<close>
  have new13: "\<not> lru_contains L (bf_knownBlocks b1) (BlockHash (T 13))"
  proof
    assume "lru_contains L (bf_knownBlocks b1) (BlockHash (T 13))"
    then obtain i where "i \<in> {1..12}" "BlockHash (T 13) = BlockHash (T i)"
      using kn1 [of "BlockHash (T 13)"] R(4) inj [of 13 13] by fastforce
    then show False using inj [of 13 i] by simp
  qed
  have e13: "blk_Height (T 13) - 1 = H + 12" using hT [of 13] by simp
  have "i64 (blk_Height (T 13) - 1) = H + 12" unfolding e13 using i [of 12] by simp
  then have "\<not> orphan b1 (T 13)" using lk [of 12] sel(2) by (simp add: orphan_def b1 links_def)
  then obtain kn2 pr2 where p2: "kn2 = lru_add L (bf_knownBlocks b1) (BlockHash (T 13)) ()"
    "Process_block L K (T 13) (b1, pc, calc) =
     bindO (pop_block (T 13) (b1\<lparr>bf_knownBlocks := kn2, bf_processedBlocks := pr2, bf_bufferedHeight := H + 13,
         bf_selectedBlock := (bf_selectedBlock b1)(H + 13 \<mapsto> T 13, H + 13 + 1 := None)\<rparr>) pc)
       (\<lambda>(b3, pc'). Done (b3, pc', calc))"
    using Process_settled [of K calc "T 13" b1 L pc] s new13 hT [of 13] i [of 13] m b1 sel(3) by auto
  define b2 where "b2 = b1\<lparr>bf_knownBlocks := kn2, bf_processedBlocks := pr2, bf_bufferedHeight := H + 13,
      bf_selectedBlock := (bf_selectedBlock b1)(H + 13 \<mapsto> T 13, H + 13 + 1 := None)\<rparr>"
  define b3 where "b3 = b2\<lparr>bf_latestBlockHash := BlockHash R, bf_latestBlockHeight := H + 1,
      bf_latestBlock := R, bf_selectedBlock := (bf_selectedBlock b2)(H := None), bf_bufferFull := True\<rparr>"
  have "PopSelectedBlock b2 = Done (R, b3\<lparr>bf_bufferFull := bf_bufferFull b2\<rparr>)"
    using i [of 1] i [of 0] by (simp add: PopSelectedBlock_def Let_def b2_def b3_def b1)
  then have "pop_block (T 13) b2 pc = Done (b3, pc @ [R])"
    using hT [of 13] pc i64_id [of 13]
    by (simp add: pop_block_def b2_def b1 maxBufferSize_def in_i64_def chan_send_def) (simp add: b3_def b2_def)
  then have P2: "Process_block L K (T 13) (b1, pc, calc) = Done (b3, pc @ [R], calc)"
    using p2(2) by (simp add: b2_def)
  \<comment> \<open>height 14: the second height is empty\<close>
  have new14: "\<not> lru_contains L (bf_knownBlocks b3) (BlockHash (T 14))"
  proof
    assume "lru_contains L (bf_knownBlocks b3) (BlockHash (T 14))"
    then have "BlockHash (T 14) = BlockHash (T 13) \<or> lru_contains L (bf_knownBlocks b1) (BlockHash (T 14))"
      using contains_add_old [of "bf_knownBlocks b1" "BlockHash (T 13)" "()"] unfolding b3_def b2_def p2(1) by simp
    then obtain i where "i \<in> {1..12}" "BlockHash (T 14) = BlockHash (T i)"
      using kn1 [of "BlockHash (T 14)"] R(4) inj [of 14 13] by fastforce
    then show False using inj [of 14 i] by simp
  qed
  have b3: "bf_latestBlock b3 = R" "bf_latestBlockHeight b3 = H + 1"
    "bf_selectedBlock b3 (H + 13) = Some (T 13)" "bf_selectedBlock b3 (H + 14) = None"
    "bf_selectedBlock b3 (H + 2) = None"
    by (simp_all add: b3_def b2_def b1)
  have e14: "blk_Height (T 14) - 1 = H + 13" using hT [of 14] by simp
  have "i64 (blk_Height (T 14) - 1) = H + 13" unfolding e14 using i [of 13] by simp
  then have "\<not> orphan b3 (T 14)" using lk [of 13] by (simp add: orphan_def b3 links_def)
  then obtain kn3 pr3 where p3: "Process_block L K (T 14) (b3, pc @ [R], calc) =
     bindO (pop_block (T 14) (b3\<lparr>bf_knownBlocks := kn3, bf_processedBlocks := pr3, bf_bufferedHeight := H + 14,
         bf_selectedBlock := (bf_selectedBlock b3)(H + 14 \<mapsto> T 14, H + 14 + 1 := None)\<rparr>) (pc @ [R]))
       (\<lambda>(b3, pc'). Done (b3, pc', calc))"
    using Process_settled [of K calc "T 14" b3 L "pc @ [R]"] s new14 hT [of 14] i [of 14] m b3 by auto
  have "pop_block (T 14) (b3\<lparr>bf_knownBlocks := kn3, bf_processedBlocks := pr3, bf_bufferedHeight := H + 14,
         bf_selectedBlock := (bf_selectedBlock b3)(H + 14 \<mapsto> T 14, H + 14 + 1 := None)\<rparr>) (pc @ [R]) = Panics"
    using hT [of 14] i64_id [of 13] i [of 2] b3 b3(5) [unfolded add.commute [of H 2]]
    by (simp add: pop_block_def maxBufferSize_def in_i64_def PopSelectedBlock_def Let_def)
  then show ?thesis using P1 P2 p3 by (simp add: run_blocks_def)
qed

text \<open>Without a replacement the thirteenth block pops the first one.\<close>

lemma tower_pop:
  assumes r: "run_of T 13" and s: "settled K calc (T 13)"
    and t: "tower L T 12 b" and pc: "length pc < bufferChanSize"
  shows "\<exists>b'. Process_block L K (T 13) (b, pc, calc) = Done (b', pc @ [T 1], calc)
    \<and> bf_latestBlock b' = T 1 \<and> bf_bufferFull b'"
proof -
  define H where "H = blk_Height (T 0)"
  have hT: "\<And>i. i \<le> 13 \<Longrightarrow> blk_Height (T i) = H + int i" unfolding H_def by (rule run_of_height [OF r])
  have i: "\<And>j. 0 \<le> j \<Longrightarrow> j \<le> 13 \<Longrightarrow> i64 (H + j) = H + j \<and> in_i64 (H + j)"
    using run_of_i64 [OF r] by (simp add: H_def)
  have m: "H + 13 < 2 ^ 63 - 1" using r by (simp add: run_of_def H_def)
  have inj: "\<And>i j. i \<le> 13 \<Longrightarrow> j \<le> 13 \<Longrightarrow> BlockHash (T i) = BlockHash (T j) \<Longrightarrow> i = j"
    using r by (auto simp: run_of_def inj_on_def)
  have l: "links (T 12) (T 13)" using r by (auto simp: run_of_def dest: spec [of _ 12])
  note tw = t [unfolded tower_def, folded H_def]
  have sel: "bf_selectedBlock b (H + 1) = Some (T 1)" "bf_selectedBlock b (H + 12) = Some (T 12)"
    "bf_selectedBlock b (H + 13) = None"
    using tw by (auto simp: tower_view_def H_def)
  have new: "\<not> lru_contains L (bf_knownBlocks b) (BlockHash (T 13))"
  proof
    assume "lru_contains L (bf_knownBlocks b) (BlockHash (T 13))"
    then obtain i where "i \<in> {1..12}" "BlockHash (T 13) = BlockHash (T i)" using tw by blast
    then show False using inj [of 13 i] by simp
  qed
  have e: "blk_Height (T 13) - 1 = H + 12" using hT [of 13] by simp
  have "i64 (blk_Height (T 13) - 1) = H + 12" unfolding e using i [of 12] by simp
  then have "\<not> orphan b (T 13)" using l sel(2) tw by (simp add: orphan_def links_def)
  then obtain kn pr where p: "Process_block L K (T 13) (b, pc, calc) =
     bindO (pop_block (T 13) (b\<lparr>bf_knownBlocks := kn, bf_processedBlocks := pr, bf_bufferedHeight := H + 13,
         bf_selectedBlock := (bf_selectedBlock b)(H + 13 \<mapsto> T 13, H + 13 + 1 := None)\<rparr>) pc)
       (\<lambda>(b3, pc'). Done (b3, pc', calc))"
    using Process_settled [OF s, of b L pc] new hT [of 13] i [of 13] m tw sel(3) by auto
  define b2 where "b2 = b\<lparr>bf_knownBlocks := kn, bf_processedBlocks := pr, bf_bufferedHeight := H + 13,
      bf_selectedBlock := (bf_selectedBlock b)(H + 13 \<mapsto> T 13, H + 13 + 1 := None)\<rparr>"
  define b3 where "b3 = b2\<lparr>bf_latestBlockHash := BlockHash (T 1), bf_latestBlockHeight := H + 1,
      bf_latestBlock := T 1, bf_selectedBlock := (bf_selectedBlock b2)(H := None), bf_bufferFull := True\<rparr>"
  have "PopSelectedBlock b2 = Done (T 1, b3\<lparr>bf_bufferFull := bf_bufferFull b2\<rparr>)"
    using i [of 1] i [of 0] tw sel(1) by (simp add: PopSelectedBlock_def Let_def b2_def b3_def)
  then have "pop_block (T 13) b2 pc = Done (b3, pc @ [T 1])"
    using hT [of 13] pc i64_id [of 13] tw
    by (simp add: pop_block_def b2_def maxBufferSize_def in_i64_def chan_send_def) (simp add: b3_def b2_def)
  then have "Process_block L K (T 13) (b, pc, calc) = Done (b3, pc @ [T 1], calc)"
    using p unfolding b2_def [symmetric] by simp
  then show ?thesis by (simp add: b3_def)
qed

lemma tower_run:
  assumes r: "run_of T m" and s: "\<forall>i \<in> {1..m}. settled K calc (T i)" and "n \<le> m" and "n \<le> 12"
  shows "\<exists>b. run_blocks L K (map T [1..<Suc n]) (NewBlockBuffer L (T 0), pc, calc) = Done (b, pc, calc)
    \<and> tower L T n b"
  using assms(3,4)
proof (induction n)
  case 0
  have "tower_view T 0 = (\<lambda>_. None)" by (auto simp: tower_view_def fun_eq_iff)
  then show ?case
    by (simp add: run_blocks_Nil NewBlockBuffer_def tower_def contains entries_new)
next
  case (Suc n)
  then obtain b where b: "run_blocks L K (map T [1..<Suc n]) (NewBlockBuffer L (T 0), pc, calc) = Done (b, pc, calc)"
    "tower L T n b" by auto
  obtain b' where "Process_block L K (T (Suc n)) (b, pc, calc) = Done (b', pc, calc)" "tower L T (Suc n) b'"
    using tower_extend [OF b(2) r, of K calc pc] s Suc.prems by auto
  then show ?case using b(1) by (auto simp: run_blocks_snoc)
qed

end

interpretation list_seen: seen_cache list_lru list_entries
  by unfold_locales

section \<open>A flood of orphans\<close>

text \<open>
  Blocks whose predecessor nobody knows, with different hashes, arriving at a buffer that has
  nothing but its latest block.
\<close>

definition orphans :: "Block \<Rightarrow> Block list \<Rightarrow> bool" where
  "orphans g xs \<longleftrightarrow> distinct (map BlockHash xs)
     \<and> (\<forall>x \<in> set xs. blk_Height g < blk_Height x \<and> PrevBlockHash x \<noteq> BlockHash g)"

definition flooded :: "'c lru_set \<Rightarrow> Block \<Rightarrow> Block list \<Rightarrow> Block list \<Rightarrow> 'c BlockBuffer \<Rightarrow> bool" where
  "flooded L g seen queue b \<longleftrightarrow> bf_secondChan b = queue \<and> bf_latestBlock b = g
     \<and> bf_latestBlockHeight b = blk_Height g \<and> bf_selectedBlock b = (\<lambda>_. None)
     \<and> bf_processedBlocks b = lru_new L maxProcessedBlock
     \<and> (\<forall>k. lru_contains L (bf_knownBlocks b) k \<longrightarrow> k \<in> BlockHash ` set seen)"

context seen_cache
begin

lemma flooded_orphan: "flooded L g seen q b \<Longrightarrow> orphans g [x] \<Longrightarrow> orphan b x"
  by (simp add: flooded_def orphans_def orphan_def)

lemma flooded_second:
  assumes "flooded L g seen q b" and "orphans g [x]"
  shows "second_or_drop L x b
    = (if length q < maxQueueBlock then Done (b\<lparr>bf_secondChan := q @ [x]\<rparr>) else Blocks)"
  using assms by (simp add: second_or_drop_def flooded_def contains entries_new chan_send_def)

lemma flooded_Process:
  assumes f: "flooded L g seen q b" and x: "orphans g [x]" and new: "BlockHash x \<notin> BlockHash ` set seen"
    and q: "length q < maxQueueBlock"
  shows "\<exists>b'. Process_block L K x (b, pc, calc) = Done (b', pc, calc) \<and> flooded L g (seen @ [x]) (q @ [x]) b'"
proof -
  define b1 where "b1 = b\<lparr>bf_knownBlocks := lru_add L (bf_knownBlocks b) (BlockHash x) ()\<rparr>"
  have f1: "flooded L g (seen @ [x]) q b1"
    using f contains_add_old [of "bf_knownBlocks b" "BlockHash x" "()"] by (auto simp: flooded_def b1_def)
  have "Process_block L K x (b, pc, calc) = Done (b1\<lparr>bf_secondChan := q @ [x]\<rparr>, pc, calc)"
    using f x new q flooded_orphan [OF f1 x] flooded_second [OF f1 x]
    by (auto simp: Process_block_def b1_def [symmetric] flooded_def orphans_def)
  moreover have "flooded L g (seen @ [x]) (q @ [x]) (b1\<lparr>bf_secondChan := q @ [x]\<rparr>)"
    using f1 by (simp add: flooded_def)
  ultimately show ?thesis by blast
qed

lemma flood:
  "orphans g xs \<Longrightarrow> length xs \<le> maxQueueBlock \<Longrightarrow>
     \<exists>b. run_blocks L K xs (NewBlockBuffer L g, pc, calc) = Done (b, pc, calc) \<and> flooded L g xs xs b"
proof (induction xs rule: rev_induct)
  case Nil
  show ?case by (simp add: run_blocks_Nil flooded_def NewBlockBuffer_def contains entries_new)
next
  case (snoc x xs)
  have o: "orphans g xs" "orphans g [x]" "BlockHash x \<notin> BlockHash ` set xs"
    using snoc.prems(1) by (auto simp: orphans_def)
  obtain b where b: "run_blocks L K xs (NewBlockBuffer L g, pc, calc) = Done (b, pc, calc)" "flooded L g xs xs b"
    using snoc.IH [OF o(1)] snoc.prems(2) by auto
  then show ?case using flooded_Process [OF b(2) o(2,3), of K pc calc] snoc.prems(2)
    by (auto simp: run_blocks_snoc)
qed

lemma flood_blocks:
  assumes o: "orphans g (x # xs @ [y])" and n: "Suc (length xs) = maxQueueBlock"
  shows "\<exists>s1 s2 s3. run_blocks L K (x # xs) (NewBlockBuffer L g, pc, calc) = Done s1
    \<and> second_receive s1 = Done (x, s2) \<and> Process_block L K y s2 = Done s3
    \<and> secondProcess_block L K x s3 = Blocks"
proof -
  have o': "orphans g (x # xs)" "orphans g [x]" "orphans g [y]" "BlockHash y \<notin> BlockHash ` set (x # xs)"
    using o by (auto simp: orphans_def)
  obtain b where b: "run_blocks L K (x # xs) (NewBlockBuffer L g, pc, calc) = Done (b, pc, calc)"
    "flooded L g (x # xs) (x # xs) b"
    using flood [OF o'(1), of K pc calc] n by auto
  have r: "second_receive (b, pc, calc) = Done (x, (b\<lparr>bf_secondChan := xs\<rparr>, pc, calc))"
    using b(2) by (simp add: second_receive_def flooded_def)
  have f2: "flooded L g (x # xs) xs (b\<lparr>bf_secondChan := xs\<rparr>)" using b(2) by (simp add: flooded_def)
  obtain b3 where b3: "Process_block L K y (b\<lparr>bf_secondChan := xs\<rparr>, pc, calc) = Done (b3, pc, calc)"
    "flooded L g ((x # xs) @ [y]) (xs @ [y]) b3"
    using flooded_Process [OF f2 o'(3,4), of K pc calc] n by auto
  have "secondProcess_block L K x (b3, pc, calc) = Blocks"
    using flooded_orphan [OF b3(2) o'(2)] flooded_second [OF b3(2) o'(2)] b3(2) o'(2) n
    by (simp add: secondProcess_block_def flooded_def orphans_def)
  then show ?thesis using b(1) r b3(1) by blast
qed

end

section \<open>Runs are histories\<close>

lemma select_block_chan: "select_block x b = Done b' \<Longrightarrow> bf_blockChan b' = bf_blockChan b"
  by (auto simp: select_block_def updateTreeView_def Let_def split: if_splits option.splits prod.splits)

lemma pop_block_chan: "pop_block x b pc = Done (b', pc') \<Longrightarrow>
    bf_blockChan b' = bf_blockChan b \<and> (\<exists>out. pc' = pc @ out)"
  by (drule pop_block_cases) (auto simp: PopSelectedBlock_def Let_def split: option.splits)

lemma accept_block_chan:
  assumes "accept_block L K x (b, pc, c) = Done (b', pc', c')"
  shows "bf_blockChan b' = bf_blockChan b \<and> (\<exists>out. pc' = pc @ out)"
proof -
  obtain seed pf where sp: "block_seed K x = (seed, pf)" by (cases "block_seed K x")
  obtain ok where ok: "VerifyBlockVDF c seed pf = Done ok"
    using assms by (auto simp: accept_block_def sp outcome_simps Let_def)
  show ?thesis
  proof (cases ok)
    case True
    then obtain b2 b3 pc2 where "select_block x (b\<lparr>bf_processedBlocks :=
        lru_add L (bf_processedBlocks b) (BlockHash x) ()\<rparr>) = Done b2"
      "pop_block x b2 pc = Done (b3, pc2)" "b' = b3" "pc' = pc2"
      using assms ok by (auto simp: accept_block_def sp outcome_simps Let_def)
    then show ?thesis using select_block_chan pop_block_chan by fastforce
  qed (use assms ok in \<open>auto simp: accept_block_def sp Let_def\<close>)
qed

lemma second_or_drop_chan: "second_or_drop L x b = Done b' \<Longrightarrow> bf_blockChan b' = bf_blockChan b"
  by (auto simp: second_or_drop_def outcome_simps split: if_splits)

lemma Process_block_chan:
  assumes "Process_block L K x (b, pc, c) = Done (b', pc', c')"
  shows "bf_blockChan b' = bf_blockChan b \<and> (\<exists>out. pc' = pc @ out)"
proof (cases "blk_Height x \<le> bf_latestBlockHeight b \<or> lru_contains L (bf_knownBlocks b) (BlockHash x)")
  case True
  then show ?thesis using assms by (auto simp: Process_block_def split: if_splits)
next
  case False
  define b1 where "b1 = b\<lparr>bf_knownBlocks := lru_add L (bf_knownBlocks b) (BlockHash x) ()\<rparr>"
  have c1: "bf_blockChan b1 = bf_blockChan b" by (simp add: b1_def)
  have "(if orphan b1 x then bindO (second_or_drop L x b1) (\<lambda>b2. Done (b2, pc, c))
      else accept_block L K x (b1, pc, c)) = Done (b', pc', c')"
    using assms False by (simp add: Process_block_def b1_def Let_def cong: if_cong split del: if_split)
  then show ?thesis
    using accept_block_chan [of L K x b1 pc c b' pc' c'] second_or_drop_chan [of L x b1 b'] c1
    by (auto simp: outcome_simps split: if_splits)
qed

lemma run_reach:
  assumes "\<forall>x \<in> set xs. good x"
    and "run_blocks L K xs (NewBlockBuffer L g, [], c0) = Done (b, pc, c)"
  shows "view_reach L K good g c0 ((b, pc, c), None, pc) \<and> bf_blockChan b = []"
  using assms
proof (induction xs arbitrary: b pc c rule: rev_induct)
  case Nil
  then show ?case using view_start by (auto simp: run_blocks_Nil NewBlockBuffer_def)
next
  case (snoc x xs)
  obtain b1 pc1 c1 where s1: "run_blocks L K xs (NewBlockBuffer L g, [], c0) = Done (b1, pc1, c1)"
    "Process_block L K x (b1, pc1, c1) = Done (b, pc, c)"
    using snoc.prems(2) by (auto simp: run_blocks_snoc outcome_simps)
  have IH: "view_reach L K good g c0 ((b1, pc1, c1), None, pc1)" "bf_blockChan b1 = []"
    using snoc.IH [OF _ s1(1)] snoc.prems(1) by auto
  obtain out where k: "bf_blockChan b = []" "pc = pc1 @ out"
    using Process_block_chan [OF s1(2)] IH(2) by auto
  have "AppendBlock x b1 = Done (b1\<lparr>bf_blockChan := [x]\<rparr>)"
    by (simp add: AppendBlock_def IH(2) chan_send_def maxQueueBlock_def)
  then have "view_step L K good ((b1, pc1, c1), None, pc1) ((b1\<lparr>bf_blockChan := [x]\<rparr>, pc1, c1), None, pc1)"
    using snoc.prems(1) by (intro vs_append) auto
  with IH(1) have "view_reach L K good g c0 ((b1\<lparr>bf_blockChan := [x]\<rparr>, pc1, c1), None, pc1)"
    by (rule view_next)
  moreover have "b1\<lparr>bf_blockChan := []\<rparr> = b1" using IH(2) by (cases b1) simp
  then have "Process L K (b1\<lparr>bf_blockChan := [x]\<rparr>, pc1, c1) = Done (b, pc, c)"
    using s1(2) by (simp add: Process_def)
  ultimately have "view_reach L K good g c0 ((b, pc, c), None,
      pc1 @ new_pops (b1\<lparr>bf_blockChan := [x]\<rparr>, pc1, c1) (b, pc, c))"
    by (blast intro: view_next vs_process)
  then show ?case using k by (simp add: new_pops_def)
qed

section \<open>Sample blocks\<close>

definition test_block :: "byte \<Rightarrow> byte \<Rightarrow> int \<Rightarrow> int \<Rightarrow> Block" where
  "test_block hash prev height timestamp =
     \<lparr>blk_Header = \<lparr>bh_Timestamp = timestamp, bh_PrevBlockHash = replicate 32 prev,
        bh_BlockHash = replicate 32 hash, bh_MerkleRoot = replicate 32 0, bh_Height = height,
        bh_PublicKey = replicate 33 0, bh_Params = [], bh_GasLimit = 0\<rparr>,
      blk_Transactions = []\<rparr>"

lemma test_block_sels [simp]:
  "BlockHash (test_block a p h t) = hex_encode (replicate 32 a)"
  "PrevBlockHash (test_block a p h t) = hex_encode (replicate 32 p)"
  "blk_Height (test_block a p h t) = h"
  "bh_Timestamp (blk_Header (test_block a p h t)) = t"
  "blk_Transactions (test_block a p h t) = []"
  by (simp_all add: test_block_def BlockHash_def PrevBlockHash_def)

lemma seed_test_block [simp]: "block_seed std_karmem (test_block a p h t) = (0, 0)"
  by (simp add: block_seed_def DeserializeGeneralParams_def GeneralParams_Read_def new_viewer_def
      std_karmem_def test_block_def GeneralParamsViewer_def view_slice_def view_size_def
      null_viewer_def Let_def be_dec_def le_dec.simps)

lemma test_vdf [simp]: "VerifyBlockVDF sample_calc 0 0 = Done True" "AppendNewSeed 0 0 sample_calc = Done sample_calc"
  by (simp_all add: VerifyBlockVDF_def AppendNewSeed_def sample_calc_def)

lemma test_settled: "settled std_karmem sample_calc (test_block a p h t)"
  by (simp add: settled_def) (simp add: sample_calc_def)

definition test_run :: "nat \<Rightarrow> Block" where
  "test_run i = test_block (word_of_nat (Suc i)) (word_of_nat i) (int i) 10"

lemma test_run_of: "run_of test_run 14"
proof -
  have "inj_on (\<lambda>i. BlockHash (test_run i)) {0..14}"
  proof (rule inj_onI)
    fix i j :: nat assume ij: "i \<in> {0..14}" "j \<in> {0..14}" "BlockHash (test_run i) = BlockHash (test_run j)"
    then have w: "(word_of_nat i :: byte) = word_of_nat j" by (simp add: test_run_def)
    have u: "unat (word_of_nat k :: byte) = k" if "k \<in> {0..14}" for k
    proof -
      have "k < 256" using that by simp
      then show ?thesis by (simp add: unat_of_nat)
    qed
    show "i = j" using w u [OF ij(1)] u [OF ij(2)] by metis
  qed
  moreover have "links (test_run i) (test_run (Suc i))" for i by (simp add: test_run_def links_def)
  moreover have "blk_Height (test_run 0) = 0" by (simp add: test_run_def)
  ultimately show ?thesis unfolding run_of_def by (intro conjI allI impI) (simp_all add: in_i64_def)
qed

section \<open>Properties\<close>

text \<open>C8: Whatever the interleaving of the two goroutines with the senders of blocks, the consumer of
  popped blocks and the other users of the calculator, the blocks the buffer pops form a hash chain
  of consecutive heights on top of the block it started from, and its latest block is the last one
  popped, as long as the blocks that arrive have the heights their hashes stand for.\<close>

theorem buffer_pops_chain:
  assumes "view_reach L K (consistent ht) g c0 ((b, popChan, calc), held, popped)"
    and "in_i64 (blk_Height g)" and "ht (BlockHash g) = blk_Height g"
  shows "chain_from g popped \<and> bf_latestBlock b = last (g # popped)
    \<and> bf_latestBlockHeight b = blk_Height (last (g # popped))"
  using history_inv_reach [OF assms] by (auto simp: history_inv_def view_inv_def)

lemma test_run_13:
  "\<exists>b. run_blocks list_lru std_karmem (map test_run [1..<13] @ [test_run 13])
     (NewBlockBuffer list_lru (test_run 0), [], sample_calc) = Done (b, [test_run 1], sample_calc)"
proof -
  have r: "run_of test_run 13" using test_run_of by (auto simp: run_of_def inj_on_def)
  have s: "settled std_karmem sample_calc (test_run i)" for i by (simp add: test_run_def test_settled)
  obtain b where b: "run_blocks list_lru std_karmem (map test_run [1..<13])
      (NewBlockBuffer list_lru (test_run 0), [], sample_calc) = Done (b, [], sample_calc)"
      "tower list_lru test_run 12 b"
    using list_seen.tower_run [OF r, of std_karmem sample_calc 12 "[]"] s by auto
  then show ?thesis
    using list_seen.tower_pop [OF r s b(2), of "[]"]
    by (auto simp: run_blocks_append bufferChanSize_def) (auto simp: run_blocks_def)
qed

lemma buffer_pops_chain_witness:
  "\<exists>b. view_reach list_lru std_karmem (consistent (\<lambda>h. int (le_dec (take 1 (the (hex_decode h)))) - 1)) (test_run 0)
      sample_calc ((b, [test_run 1], sample_calc), None, [test_run 1])
    \<and> chain_from (test_run 0) [test_run 1] \<and> bf_latestBlock b = test_run 1"
proof -
  let ?ht = "\<lambda>h. int (le_dec (take 1 (the (hex_decode h)))) - 1"
  obtain b where b: "run_blocks list_lru std_karmem (map test_run [1..<13] @ [test_run 13])
      (NewBlockBuffer list_lru (test_run 0), [], sample_calc) = Done (b, [test_run 1], sample_calc)"
    using test_run_13 by blast
  have "consistent ?ht (test_run i)" if "i \<in> {0..13}" for i
  proof -
    have u: "unat (word_of_nat k :: byte) = k" if "k \<le> 14" for k
    proof -
      have "k < 256" using that by simp
      then show ?thesis by (simp add: unat_of_nat)
    qed
    have w: "unat (word_of_nat i :: byte) = i" "unat (word_of_nat (Suc i) :: byte) = Suc i"
      using that by (auto simp del: of_nat_Suc intro!: u)
    have d: "int (le_dec (take 1 (replicate 32 w))) = int (unat w)" for w :: byte
      by (simp add: le_dec.simps)
    have h: "?ht (hex_encode (replicate 32 w)) = int (unat w) - 1" for w :: byte
      using d [of w] by simp
    have "?ht (BlockHash (test_run i)) = int i" "?ht (PrevBlockHash (test_run i)) = int i - 1"
      unfolding test_run_def test_block_sels h w by simp_all
    moreover have "blk_Height (test_run i) = int i" by (simp add: test_run_def)
    ultimately show ?thesis using that by (simp add: consistent_def in_i64_def)
  qed
  then have c: "\<forall>x \<in> set (map test_run [1..<13] @ [test_run 13]). consistent ?ht x" by auto
  have r: "view_reach list_lru std_karmem (consistent ?ht) (test_run 0) sample_calc
      ((b, [test_run 1], sample_calc), None, [test_run 1])"
    using run_reach [OF c b] by blast
  have "blk_Height (test_run 0) = 0" "?ht (BlockHash (test_run 0)) = 0"
    by (simp_all add: test_run_def le_dec.simps)
  then show ?thesis
    using r buffer_pops_chain [OF r] by (auto simp: in_i64_def intro!: exI [of _ b])
qed

text \<open>Selecting from a list of blocks with the same predecessor gives one of them that no other
  beats, more transactions counting first and the earlier timestamp second.\<close>

theorem selected_block_is_best:
  assumes "bs \<noteq> []" and "\<forall>c \<in> set bs. PrevBlockHash c = PrevBlockHash (hd bs)"
  shows "\<exists>r. selectBlockFromList bs = Some r \<and> r \<in> set bs \<and> (\<forall>c \<in> set bs. \<not> beats c r)"
  using assms fold_best [of "tl bs" "hd bs"] by (cases bs) auto

lemma selected_block_is_best_witness:
  "\<exists>r. selectBlockFromList [test_block 2 1 1 10, test_block 3 1 1 5] = Some r \<and> \<not> beats (test_block 3 1 1 5) r"
  using selected_block_is_best [of "[test_block 2 1 1 10, test_block 3 1 1 5]"] by auto

text \<open>C26: Clearing the view after a replacement ends for every height but the largest one, empties the
  height after the replaced block and no other, and makes it the highest of the view; at the largest
  height the loop never ends, with the lock held.\<close>

theorem update_tree_view:
  assumes "in_i64 h"
  shows "updateTreeView h b = (if h = 2 ^ 63 - 1 then Diverges
    else Done (b\<lparr>bf_bufferedHeight := h, bf_selectedBlock := (bf_selectedBlock b)(h + 1 := None)\<rparr>))"
proof (cases "h = 2 ^ 63 - 1")
  case True
  then show ?thesis using tree_view_loop_diverges [of "bf_selectedBlock b" h]
    by (simp add: updateTreeView_def)
next
  case False
  then have "h < 2 ^ 63 - 1" using assms by (simp add: in_i64_def)
  then show ?thesis using updateTreeView_ok [OF assms] by simp
qed

lemma update_tree_view_witness:
  "updateTreeView (2 ^ 63 - 1) (NewBlockBuffer list_lru (test_block 1 0 0 0)) = Diverges"
  using update_tree_view [of "2 ^ 63 - 1"] by (simp add: in_i64_def)

text \<open>C14: A late better block for the first height of a full view makes the node panic: with twelve
  heights in the view, a sibling of the first block that wins the comparison empties the second
  height but leaves the others, the thirteenth block still extends the view and pops the sibling,
  and the fourteenth pops the empty height. It needs no block with a wrong height or hash, and
  holds for every cache implementation.\<close>

theorem late_sibling_panics:
  assumes "seen_cache L entries" and "run_of T 14" and "\<forall>i \<in> {1..14}. settled K calc (T i)"
    and "links (T 0) R" and "settled K calc R" and "compareBlock (T 1) R = (R, True)"
    and "\<forall>i \<in> {0..14}. BlockHash (T i) \<noteq> BlockHash R"
  shows "run_blocks L K (map T [1..<13] @ [R, T 13, T 14]) (NewBlockBuffer L (T 0), [], calc) = Panics"
proof -
  obtain b where b: "run_blocks L K (map T [1..<13]) (NewBlockBuffer L (T 0), [], calc) = Done (b, [], calc)"
    "tower L T 12 b"
    using seen_cache.tower_run [OF assms(1-3), of 12 "[]"] by auto
  have "run_blocks L K [R, T 13, T 14] (b, [], calc) = Panics"
    by (rule seen_cache.replaced_run_panics [OF assms b(2)]) (simp add: bufferChanSize_def)
  then show ?thesis using b(1) by (simp add: run_blocks_append)
qed

lemma late_sibling_panics_witness:
  "run_blocks list_lru std_karmem (map test_run [1..<13] @ [test_block 200 1 1 5, test_run 13, test_run 14])
     (NewBlockBuffer list_lru (test_run 0), [], sample_calc) = Panics"
proof (rule late_sibling_panics [OF list_seen.seen_cache_axioms test_run_of])
  show "\<forall>i \<in> {0..14}. BlockHash (test_run i) \<noteq> BlockHash (test_block 200 1 1 5)"
  proof
    fix i :: nat assume "i \<in> {0..14}"
    then have "unat (word_of_nat (Suc i) :: byte) = Suc i" "Suc i \<noteq> 200" by (simp_all only: unat_of_nat) auto
    moreover have "unat (200 :: byte) = 200" by simp
    ultimately have "(word_of_nat (Suc i) :: byte) \<noteq> 200" by metis
    then show "BlockHash (test_run i) \<noteq> BlockHash (test_block 200 1 1 5)" by (simp add: test_run_def)
  qed
qed (simp_all add: test_settled test_run_def links_def compareBlock_def)

text \<open>C15: Blocks with unknown predecessors deadlock the buffer: when 1024 of them fill the second
  queue and one more arrives after the second goroutine has received the first, that goroutine
  blocks on putting it back, holding the lock, while it is the only receiver of the queue.\<close>

theorem orphan_flood_deadlocks:
  assumes "seen_cache L entries" and "orphans g (x # xs @ [y])" and "length xs = 1023"
  shows "\<exists>s1 s2 s3. run_blocks L K (x # xs) (NewBlockBuffer L g, popChan, calc) = Done s1
    \<and> second_receive s1 = Done (x, s2) \<and> Process_block L K y s2 = Done s3
    \<and> secondProcess_block L K x s3 = Blocks"
  using seen_cache.flood_blocks [OF assms(1,2)] assms(3) by (simp add: maxQueueBlock_def)

text \<open>Different hashes from the two bytes of a number.\<close>

definition orphan_no :: "nat \<Rightarrow> Block" where
  "orphan_no i = (let b = test_block 0 9 1 0 in
     b\<lparr>blk_Header := (blk_Header b)\<lparr>bh_BlockHash := le_enc 32 i\<rparr>\<rparr>)"

lemma orphans_no: "n < 2 ^ 16 \<Longrightarrow> orphans (test_block 1 0 0 0) (map orphan_no [0..<n])"
proof -
  assume n: "n < 2 ^ 16"
  have h: "BlockHash (orphan_no i) = hex_encode (le_enc 32 i)" for i
    by (simp add: orphan_no_def BlockHash_def Let_def)
  have p: "PrevBlockHash (orphan_no i) = hex_encode (replicate 32 9)" "blk_Height (orphan_no i) = 1" for i
    by (simp_all add: orphan_no_def PrevBlockHash_def Let_def) (simp_all add: test_block_def)
  have "i = j" if "i < 2 ^ 16" "j < 2 ^ 16" "le_enc 32 i = le_enc 32 j" for i j
  proof -
    have "i < 256 ^ 32" "j < 256 ^ 32" using that(1,2) by simp_all
    then show ?thesis using le_dec_enc that(3) by metis
  qed
  then have "inj_on (\<lambda>i. BlockHash (orphan_no i)) {0..<n}" using n by (auto simp: inj_on_def h)
  then have "distinct (map (\<lambda>i. BlockHash (orphan_no i)) [0..<n])" by (simp add: distinct_map)
  then show ?thesis by (auto simp: orphans_def p comp_def)
qed

lemma upt_ends: "[0..<Suc (Suc n)] = 0 # [1..<Suc n] @ [Suc n]"
  by (simp add: upt_conv_Cons)

lemma orphan_flood_deadlocks_witness:
  "\<exists>xs s1 s2 s3. length xs = 1023 \<and> run_blocks list_lru std_karmem (orphan_no 0 # xs)
      (NewBlockBuffer list_lru (test_block 1 0 0 0), [], sample_calc) = Done s1
    \<and> second_receive s1 = Done (orphan_no 0, s2) \<and> Process_block list_lru std_karmem (orphan_no 1024) s2 = Done s3
    \<and> secondProcess_block list_lru std_karmem (orphan_no 0) s3 = Blocks"
proof -
  define xs where "xs = map orphan_no [1..<Suc 1023]"
  have "orphans (test_block 1 0 0 0) (map orphan_no [0..<Suc (Suc 1023)])" by (rule orphans_no, simp)
  then have o: "orphans (test_block 1 0 0 0) (orphan_no 0 # xs @ [orphan_no (Suc 1023)])"
    unfolding upt_ends xs_def by (simp only: list.map map_append)
  have len: "length xs = 1023" by (simp add: xs_def del: upt_Suc)
  have "Suc 1023 = (1024 :: nat)" by simp
  then show ?thesis
    using orphan_flood_deadlocks [OF list_seen.seen_cache_axioms o len, of std_karmem "[]" sample_calc] len
    by metis
qed

text \<open>The scan returns the selected block of the greatest height below the given one.\<close>

lemma leaf_scan_None: "leaf_scan sel now n h = None \<Longrightarrow> h - int n < k \<Longrightarrow> k \<le> h \<Longrightarrow> k < now \<Longrightarrow> sel k = None"
proof (induction n arbitrary: h)
  case (Suc n)
  then show ?case by (cases "k = h") (auto split: if_splits)
qed simp

lemma leaf_scan_Some: "leaf_scan sel now n h = Some x \<Longrightarrow>
    \<exists>k. h - int n < k \<and> k \<le> h \<and> k < now \<and> sel k = Some x
      \<and> (\<forall>k'. k < k' \<longrightarrow> k' \<le> h \<longrightarrow> k' < now \<longrightarrow> sel k' = None)"
proof (induction n arbitrary: h)
  case (Suc n)
  show ?case
  proof (cases "sel h \<noteq> None \<and> h < now")
    case True
    then show ?thesis using Suc.prems by (intro exI [of _ h]) auto
  next
    case False
    then have "leaf_scan sel now n (h - 1) = Some x" using Suc.prems by auto
    from Suc.IH [OF this] obtain k where k: "h - 1 - int n < k" "k \<le> h - 1" "k < now" "sel k = Some x"
      "\<forall>k'. k < k' \<longrightarrow> k' \<le> h - 1 \<longrightarrow> k' < now \<longrightarrow> sel k' = None" by blast
    have "sel k' = None" if "k < k'" "k' \<le> h" "k' < now" for k'
      using that k(5) False by (cases "k' = h") auto
    then show ?thesis using k by (intro exI [of _ k]) auto
  qed
qed simp

text \<open>The priority leaf below a height is the selected block of the greatest height of the view
  below it, and the latest block when the view has none there; so a node never builds its block on
  one of the new height or above.\<close>

theorem priority_leaf:
  "(\<exists>k. bf_latestBlockHeight b < k \<and> k \<le> bf_bufferedHeight b \<and> k < now
       \<and> bf_selectedBlock b k = Some (GetPriorityLeaf b now)
       \<and> (\<forall>k'. k < k' \<longrightarrow> k' \<le> bf_bufferedHeight b \<longrightarrow> k' < now \<longrightarrow> bf_selectedBlock b k' = None))
   \<or> (GetPriorityLeaf b now = bf_latestBlock b
       \<and> (\<forall>k. bf_latestBlockHeight b < k \<longrightarrow> k \<le> bf_bufferedHeight b \<longrightarrow> k < now \<longrightarrow>
            bf_selectedBlock b k = None))"
proof -
  define n where "n = nat (bf_bufferedHeight b - bf_latestBlockHeight b)"
  have n: "bf_bufferedHeight b - int n = min (bf_latestBlockHeight b) (bf_bufferedHeight b)"
    by (simp add: n_def)
  show ?thesis
  proof (cases "leaf_scan (bf_selectedBlock b) now n (bf_bufferedHeight b)")
    case None
    then show ?thesis using leaf_scan_None [OF None] n
      by (auto simp: GetPriorityLeaf_def n_def [symmetric])
  next
    case (Some x)
    then show ?thesis using leaf_scan_Some [OF Some] n
      by (fastforce simp: GetPriorityLeaf_def n_def [symmetric] min_def split: if_splits)
  qed
qed

end
