(* ===== verification/Store.thy ===== *)
theory Store
  imports Codec
begin

text \<open>
  The key-value store: the database interface of interfaces/db_interface.go, its LevelDB
  implementation in utils/leveldb.go over the goleveldb library, and the keys of
  utils/dbtools.go under which blocks, heights, transactions and data live.
\<close>

section \<open>goleveldb and the wrapper\<close>

datatype db_error = ErrNotFound | ErrBatchLength | ErrStore string

text \<open>What was put into a write batch, in order.\<close>

datatype batch_op = BatchPut bytes bytes | BatchDelete bytes

record 'd leveldb_ops =
  ld_Get :: "'d \<Rightarrow> bytes \<Rightarrow> db_error + bytes"
  ld_Put :: "'d \<Rightarrow> bytes \<Rightarrow> bytes \<Rightarrow> db_error option \<times> 'd"
  ld_Delete :: "'d \<Rightarrow> bytes \<Rightarrow> db_error option \<times> 'd"
  ld_Write :: "'d \<Rightarrow> batch_op list \<Rightarrow> db_error option \<times> 'd"

text \<open>The interface the chain is written against.\<close>

record 'd db_ops =
  db_Get :: "'d \<Rightarrow> bytes \<Rightarrow> db_error + bytes"
  db_Insert :: "'d \<Rightarrow> bytes \<Rightarrow> bytes \<Rightarrow> db_error option \<times> 'd"
  db_Remove :: "'d \<Rightarrow> bytes \<Rightarrow> db_error option \<times> 'd"
  db_BatchInsert :: "'d \<Rightarrow> bytes list \<Rightarrow> bytes list \<Rightarrow> db_error option \<times> 'd"
  db_BatchDelete :: "'d \<Rightarrow> bytes list \<Rightarrow> db_error option \<times> 'd"

definition LevelDB_Get :: "'d leveldb_ops \<Rightarrow> 'd \<Rightarrow> bytes \<Rightarrow> db_error + bytes" where
  "LevelDB_Get L d k = ld_Get L d k"

definition LevelDB_Insert :: "'d leveldb_ops \<Rightarrow> 'd \<Rightarrow> bytes \<Rightarrow> bytes \<Rightarrow> db_error option \<times> 'd" where
  "LevelDB_Insert L d k v = ld_Put L d k v"

definition LevelDB_Remove :: "'d leveldb_ops \<Rightarrow> 'd \<Rightarrow> bytes \<Rightarrow> db_error option \<times> 'd" where
  "LevelDB_Remove L d k = ld_Delete L d k"

definition LevelDB_BatchInsert ::
    "'d leveldb_ops \<Rightarrow> 'd \<Rightarrow> bytes list \<Rightarrow> bytes list \<Rightarrow> db_error option \<times> 'd" where
  "LevelDB_BatchInsert L d ks vs =
     (if length ks \<noteq> length vs then (Some ErrBatchLength, d)
      else ld_Write L d (map (\<lambda>(k, v). BatchPut k v) (zip ks vs)))"

definition LevelDB_BatchDelete :: "'d leveldb_ops \<Rightarrow> 'd \<Rightarrow> bytes list \<Rightarrow> db_error option \<times> 'd" where
  "LevelDB_BatchDelete L d ks = ld_Write L d (map BatchDelete ks)"

definition LevelDB :: "'d leveldb_ops \<Rightarrow> 'd db_ops" where
  "LevelDB L = \<lparr>db_Get = LevelDB_Get L, db_Insert = LevelDB_Insert L, db_Remove = LevelDB_Remove L,
     db_BatchInsert = LevelDB_BatchInsert L, db_BatchDelete = LevelDB_BatchDelete L\<rparr>"

section \<open>The laws of the library and of the interface\<close>

fun apply_batch :: "(bytes \<rightharpoonup> bytes) \<Rightarrow> batch_op list \<Rightarrow> (bytes \<rightharpoonup> bytes)" where
  "apply_batch m [] = m"
| "apply_batch m (BatchPut k v # ops) = apply_batch (m(k \<mapsto> v)) ops"
| "apply_batch m (BatchDelete k # ops) = apply_batch (m(k := None)) ops"

text \<open>goleveldb on a working disk is a map from keys to values, and a batch is applied in order.\<close>

locale leveldb =
  fixes L :: "'d leveldb_ops" and content :: "'d \<Rightarrow> bytes \<rightharpoonup> bytes"
  assumes ld_get: "ld_Get L d k = (case content d k of None \<Rightarrow> Inl ErrNotFound | Some v \<Rightarrow> Inr v)"
    and ld_put: "fst (ld_Put L d k v) = None" "content (snd (ld_Put L d k v)) = (content d)(k \<mapsto> v)"
    and ld_delete: "fst (ld_Delete L d k) = None" "content (snd (ld_Delete L d k)) = (content d)(k := None)"
    and ld_write: "fst (ld_Write L d ops) = None" "content (snd (ld_Write L d ops)) = apply_batch (content d) ops"

text \<open>What the chain relies on.\<close>

locale db_interface =
  fixes D :: "'d db_ops" and content :: "'d \<Rightarrow> bytes \<rightharpoonup> bytes"
  assumes db_get: "db_Get D d k = (case content d k of None \<Rightarrow> Inl ErrNotFound | Some v \<Rightarrow> Inr v)"
    and db_insert: "content (snd (db_Insert D d k v)) = (content d)(k \<mapsto> v)"
    and db_remove: "content (snd (db_Remove D d k)) = (content d)(k := None)"
    and db_batch_insert: "length ks = length vs \<Longrightarrow>
      content (snd (db_BatchInsert D d ks vs)) = (content d)(ks [\<mapsto>] vs)"
    and db_batch_mismatch: "length ks \<noteq> length vs \<Longrightarrow> db_BatchInsert D d ks vs = (Some ErrBatchLength, d)"
    and db_batch_delete: "content (snd (db_BatchDelete D d ks)) = (content d) |` (- set ks)"
begin

lemma db_get_Inr [simp]: "db_Get D d k = Inr v \<longleftrightarrow> content d k = Some v"
  by (simp add: db_get split: option.split)

lemma db_get_Inl: "db_Get D d k = Inl e \<longleftrightarrow> content d k = None \<and> e = ErrNotFound"
  by (auto simp: db_get split: option.split)

lemma get_after_insert: "db_Get D (snd (db_Insert D d k v)) k' = (if k' = k then Inr v else db_Get D d k')"
  by (simp add: db_get db_insert)

end

lemma apply_batch_puts: "apply_batch m (map (\<lambda>(k, v). BatchPut k v) (zip ks vs))
    = (if length ks = length vs then m(ks [\<mapsto>] vs) else apply_batch m (map (\<lambda>(k, v). BatchPut k v) (zip ks vs)))"
proof (cases "length ks = length vs")
  case True
  then show ?thesis by (induction ks vs arbitrary: m rule: list_induct2) auto
qed simp

lemma apply_batch_deletes: "apply_batch m (map BatchDelete ks) = m |` (- set ks)"
proof (induction ks arbitrary: m)
  case Nil
  then show ?case by (simp add: restrict_map_def fun_eq_iff)
next
  case (Cons k ks)
  then show ?case by (auto simp: restrict_map_def fun_eq_iff)
qed

text \<open>The wrapper keeps the library's promises: it implements the interface.\<close>

sublocale leveldb \<subseteq> db: db_interface "LevelDB L" content
proof
  fix d k v and ks vs :: "bytes list"
  show "db_Get (LevelDB L) d k = (case content d k of None \<Rightarrow> Inl ErrNotFound | Some v \<Rightarrow> Inr v)"
    by (simp add: LevelDB_def LevelDB_Get_def ld_get)
  show "content (snd (db_Insert (LevelDB L) d k v)) = (content d)(k \<mapsto> v)"
    by (simp add: LevelDB_def LevelDB_Insert_def ld_put)
  show "content (snd (db_Remove (LevelDB L) d k)) = (content d)(k := None)"
    by (simp add: LevelDB_def LevelDB_Remove_def ld_delete)
  show "content (snd (db_BatchDelete (LevelDB L) d ks)) = (content d) |` (- set ks)"
    by (simp add: LevelDB_def LevelDB_BatchDelete_def ld_write apply_batch_deletes)
  show "db_BatchInsert (LevelDB L) d ks vs = (Some ErrBatchLength, d)" if "length ks \<noteq> length vs"
    using that by (simp add: LevelDB_def LevelDB_BatchInsert_def)
  show "content (snd (db_BatchInsert (LevelDB L) d ks vs)) = (content d)(ks [\<mapsto>] vs)"
    if "length ks = length vs"
    using that apply_batch_puts [of "content d" ks vs]
    by (simp add: LevelDB_def LevelDB_BatchInsert_def ld_write)
qed

text \<open>A store that is the map itself shows that the laws can hold.\<close>

definition map_leveldb :: "(bytes \<rightharpoonup> bytes) leveldb_ops" where
  "map_leveldb = \<lparr>
     ld_Get = (\<lambda>d k. case d k of None \<Rightarrow> Inl ErrNotFound | Some v \<Rightarrow> Inr v),
     ld_Put = (\<lambda>d k v. (None, d(k \<mapsto> v))),
     ld_Delete = (\<lambda>d k. (None, d(k := None))),
     ld_Write = (\<lambda>d ops. (None, apply_batch d ops))\<rparr>"

interpretation map_db: leveldb map_leveldb "\<lambda>d. d"
  by unfold_locales (simp_all add: map_leveldb_def)

section \<open>Keys\<close>

definition BlockHash2DBKey :: "bytes \<Rightarrow> bytes" where
  "BlockHash2DBKey hash = bytes_of_string ''block#'' @ hash"

definition BlockHeight2DBKey :: "int \<Rightarrow> bytes" where
  "BlockHeight2DBKey height = bytes_of_string ''block#'' @ bytes_of_string (format_int height)"

definition TxHash2DBKey :: "bytes \<Rightarrow> bytes" where
  "TxHash2DBKey hash = bytes_of_string ''tx#'' @ hash"

definition DataAddressKey2DBKey :: "bytes \<Rightarrow> bytes \<Rightarrow> bytes" where
  "DataAddressKey2DBKey address key =
     bytes_of_string (''data#'' @ hex_encode address @ ''#'' @ string_of_bytes key)"

definition latest_key :: bytes where
  "latest_key = bytes_of_string ''latest''"

text \<open>Every key the node writes, as a value: what is stored under it and for whom.\<close>

datatype db_key = BlockKey bytes | HeightKey int | TxKey bytes | DataKey bytes bytes | LatestKey

fun db_key_bytes :: "db_key \<Rightarrow> bytes" where
  "db_key_bytes (BlockKey h) = BlockHash2DBKey h"
| "db_key_bytes (HeightKey n) = BlockHeight2DBKey n"
| "db_key_bytes (TxKey h) = TxHash2DBKey h"
| "db_key_bytes (DataKey a k) = DataAddressKey2DBKey a k"
| "db_key_bytes LatestKey = latest_key"

fun wf_key :: "db_key \<Rightarrow> bool" where
  "wf_key (BlockKey h) \<longleftrightarrow> length h = 32"
| "wf_key (HeightKey n) \<longleftrightarrow> in_i64 n"
| "wf_key (TxKey h) \<longleftrightarrow> length h = 32"
| "wf_key (DataKey a k) \<longleftrightarrow> length a = 20"
| "wf_key LatestKey \<longleftrightarrow> True"

lemma bytes_Cons: "bytes_of_string (c # cs) = byte_of_char c # bytes_of_string cs"
  by (simp add: bytes_of_string_def)

lemma byte_of_char_inject: "byte_of_char c = byte_of_char d \<longleftrightarrow> c = d"
  by (metis char_of_byte_of_char)

lemma append_hash_inject:
  assumes "c \<notin> set xs" and "c \<notin> set xs'" and "xs @ c # ys = xs' @ c # ys'"
  shows "xs = xs' \<and> ys = ys'"
  using assms
proof (induction xs arbitrary: xs')
  case Nil
  then show ?case by (cases xs') auto
next
  case (Cons x xs)
  then show ?case by (cases xs') auto
qed

lemma data_key_inject:
  "DataAddressKey2DBKey a k = DataAddressKey2DBKey a' k' \<longleftrightarrow> a = a' \<and> k = k'"
proof
  assume "DataAddressKey2DBKey a k = DataAddressKey2DBKey a' k'"
  then have "hex_encode a @ CHR ''#'' # string_of_bytes k = hex_encode a' @ CHR ''#'' # string_of_bytes k'"
    by (simp add: DataAddressKey2DBKey_def inj_bytes_of_string)
  then have "hex_encode a = hex_encode a' \<and> string_of_bytes k = string_of_bytes k'"
    by (rule append_hash_inject [rotated 2]) simp_all
  then show "a = a' \<and> k = k'" by (metis hex_encode_inject bytes_of_string_of_bytes)
qed simp

lemma height_key_length: "in_i64 n \<Longrightarrow> length (BlockHeight2DBKey n) \<le> 26"
  using length_format_int [of n] by (simp add: BlockHeight2DBKey_def)

text \<open>The first characters tell the kinds of key apart; block and height keys differ in length.\<close>

lemma db_key_bytes_inject:
  assumes "wf_key x" and "wf_key y"
  shows "db_key_bytes x = db_key_bytes y \<longleftrightarrow> x = y"
proof -
  have len: "length (BlockHash2DBKey h) = 38" if "length h = 32" for h
    using that by (simp add: BlockHash2DBKey_def)
  have ne: "BlockHash2DBKey h \<noteq> BlockHeight2DBKey n" if "length h = 32" "in_i64 n" for h n
    using len [OF that(1)] height_key_length [OF that(2)] by auto
  note keys = BlockHash2DBKey_def BlockHeight2DBKey_def TxHash2DBKey_def latest_key_def bytes_Cons
    byte_of_char_inject
  show ?thesis
  proof (cases x)
    case (BlockKey h)
    with assms ne show ?thesis
      by (cases y) (auto simp: keys DataAddressKey2DBKey_def)
  next
    case (HeightKey n)
    show ?thesis
    proof (cases y)
      case (BlockKey h)
      with assms HeightKey ne [of h n] show ?thesis by auto
    next
      case (HeightKey m)
      with \<open>x = HeightKey n\<close> show ?thesis by (simp add: BlockHeight2DBKey_def inj_bytes_of_string)
    qed (use HeightKey in \<open>auto simp: keys DataAddressKey2DBKey_def\<close>)
  next
    case (TxKey h)
    then show ?thesis by (cases y) (auto simp: keys DataAddressKey2DBKey_def)
  next
    case (DataKey a k)
    show ?thesis
    proof (cases y)
      case (DataKey b l)
      with \<open>x = DataKey a k\<close> show ?thesis by (simp add: data_key_inject)
    qed (use DataKey in \<open>auto simp: keys DataAddressKey2DBKey_def\<close>)
  next
    case LatestKey
    then show ?thesis by (cases y) (auto simp: keys DataAddressKey2DBKey_def)
  qed
qed

end
