(* ===== verification/PubSub.thy ===== *)
theory PubSub
  imports Prelude
begin

text \<open>
  The event bus of pubsub/: publishers with a fixed table of websocket connections, one per topic,
  and the router that hands events to them. Connections are values of an arbitrary type; writing
  to one is the argument \<open>ws\<close>, which says whether the write succeeds.
\<close>

section \<open>Events and topics\<close>

record Event =
  ev_Type :: string
  ev_Hash :: string
  ev_Height :: string
  ev_Address :: string
  ev_Params :: "(string \<times> string) list"

definition toTopicStr :: "string \<Rightarrow> string \<Rightarrow> string" where
  "toTopicStr address eventType = address @ ''#'' @ eventType"

record EventRequest =
  rq_Address :: string
  rq_EventType :: string

section \<open>Publishers\<close>

definition connPoolSize :: nat where "connPoolSize = 128"

record 'n EventPublisher =
  ep_conns :: "'n option list"
  ep_count :: int

definition CreateNewEventPublisher :: "'n EventPublisher" where
  "CreateNewEventPublisher = \<lparr>ep_conns = replicate connPoolSize None, ep_count = 0\<rparr>"

definition Full :: "'n EventPublisher \<Rightarrow> bool" where
  "Full e \<longleftrightarrow> ep_count e \<ge> int connPoolSize"

fun select_from :: "'n option list \<Rightarrow> nat \<Rightarrow> int" where
  "select_from [] idx = -1"
| "select_from (None # cs) idx = int idx"
| "select_from (Some c # cs) idx = select_from cs (Suc idx)"

definition SelectPosition :: "'n EventPublisher \<Rightarrow> int" where
  "SelectPosition e = select_from (ep_conns e) 0"

definition AppendNewConnection :: "'n \<Rightarrow> 'n EventPublisher \<Rightarrow> 'n EventPublisher" where
  "AppendNewConnection conn e =
     (let pos = SelectPosition e in
      if pos \<noteq> -1
      then e\<lparr>ep_conns := (ep_conns e)[nat pos := Some conn], ep_count := ep_count e + 1\<rparr>
      else e)"

text \<open>
  Publishing writes to every connection in the table; one whose write fails is dropped. The first
  component lists the connections that were written to.
\<close>

fun publish_loop :: "('n \<Rightarrow> bytes \<Rightarrow> bool) \<Rightarrow> bytes \<Rightarrow> 'n option list \<Rightarrow> int \<Rightarrow> 'n list \<times> 'n option list \<times> int" where
  "publish_loop ws data [] count = ([], [], count)"
| "publish_loop ws data (None # cs) count =
     (let (out, cs', count') = publish_loop ws data cs count in (out, None # cs', count'))"
| "publish_loop ws data (Some c # cs) count =
     (if \<not> ws c data
      then let (out, cs', count') = publish_loop ws data cs (count - 1) in (out, None # cs', count')
      else let (out, cs', count') = publish_loop ws data cs count in (c # out, Some c # cs', count'))"

definition Publish :: "('n \<Rightarrow> bytes \<Rightarrow> bool) \<Rightarrow> bytes \<Rightarrow> 'n EventPublisher \<Rightarrow> 'n list \<times> 'n EventPublisher" where
  "Publish ws data e =
     (let (out, cs, count) = publish_loop ws data (ep_conns e) (ep_count e)
      in (out, e\<lparr>ep_conns := cs, ep_count := count\<rparr>))"

section \<open>The router\<close>

definition publishChanSize :: nat where "publishChanSize = 256"

record 'n EventRouter =
  er_publishMap :: "string \<Rightarrow> 'n EventPublisher option"
  er_publishChan :: "Event list"

definition CreateNewEventRouter :: "'n EventRouter option \<Rightarrow> 'n EventRouter" where
  "CreateNewEventRouter inst =
     (case inst of Some r \<Rightarrow> r | None \<Rightarrow> \<lparr>er_publishMap = (\<lambda>_. None), er_publishChan = []\<rparr>)"

definition AppendEvent :: "Event \<Rightarrow> 'n EventRouter \<Rightarrow> 'n EventRouter outcome" where
  "AppendEvent event r =
     bindO (chan_send publishChanSize (er_publishChan r) event) (\<lambda>q. Done (r\<lparr>er_publishChan := q\<rparr>))"

text \<open>One iteration of the router's loop: who was written to, and the router afterwards.\<close>

definition router_Process ::
    "('n \<Rightarrow> bytes \<Rightarrow> bool) \<Rightarrow> (Event \<Rightarrow> bytes option) \<Rightarrow> 'n EventRouter \<Rightarrow> ('n list \<times> 'n EventRouter) outcome" where
  "router_Process ws marshal r =
     (case er_publishChan r of
        [] \<Rightarrow> Blocks
      | event # rest \<Rightarrow>
         (let r1 = r\<lparr>er_publishChan := rest\<rparr>; topic = toTopicStr (ev_Address event) (ev_Type event)
          in case er_publishMap r1 topic of
               None \<Rightarrow> Done ([], r1)
             | Some publisher \<Rightarrow>
                 (case marshal event of
                    None \<Rightarrow> Done ([], r1)
                  | Some eventData \<Rightarrow>
                      (let (out, p') = Publish ws eventData publisher
                       in Done (out, r1\<lparr>er_publishMap := (er_publishMap r1)(topic \<mapsto> p')\<rparr>)))))"

text \<open>
  A subscription. The upgraded connection is \<open>None\<close> when the upgrade fails, which dereferences nil;
  the request is \<open>None\<close> when the message does not parse. The boolean says whether the connection
  was kept.
\<close>

definition HandleConnect ::
    "'n option \<Rightarrow> EventRequest option \<Rightarrow> 'n EventRouter \<Rightarrow> (bool \<times> 'n EventRouter) outcome" where
  "HandleConnect conn request r =
     (case conn of
        None \<Rightarrow> Panics
      | Some c \<Rightarrow>
         (case request of
            None \<Rightarrow> Done (False, r)
          | Some req \<Rightarrow>
              if rq_Address req = [] \<or> rq_EventType req = [] then Done (False, r)
              else
                (let topic = toTopicStr (rq_Address req) (rq_EventType req);
                     m = (case er_publishMap r topic of
                            None \<Rightarrow> (er_publishMap r)(topic \<mapsto> CreateNewEventPublisher)
                          | Some _ \<Rightarrow> er_publishMap r);
                     publisher = the (m topic)
                 in if Full publisher then Done (False, r\<lparr>er_publishMap := m\<rparr>)
                    else Done (True, r\<lparr>er_publishMap := m(topic \<mapsto> AppendNewConnection c publisher)\<rparr>))))"

section \<open>The invariant of a publisher\<close>

definition connected :: "'n EventPublisher \<Rightarrow> 'n list" where
  "connected e = map the (filter (\<lambda>c. c \<noteq> None) (ep_conns e))"

definition pub_inv :: "'n EventPublisher \<Rightarrow> bool" where
  "pub_inv e \<longleftrightarrow> length (ep_conns e) = connPoolSize \<and> ep_count e = int (length (connected e))"

lemma pub_inv_new: "pub_inv CreateNewEventPublisher" and connected_new: "connected CreateNewEventPublisher = []"
  by (simp_all add: pub_inv_def connected_def CreateNewEventPublisher_def)

lemma select_from_spec:
  "(select_from cs i = -1 \<and> None \<notin> set cs) \<or>
   (\<exists>xs ys. cs = xs @ None # ys \<and> None \<notin> set xs \<and> select_from cs i = int (i + length xs))"
proof (induction cs arbitrary: i)
  case (Cons c cs)
  show ?case
  proof (cases c)
    case None
    then show ?thesis by (intro disjI2 exI [of _ "[]"] exI [of _ cs]) simp
  next
    case (Some d)
    from Cons.IH [of "Suc i"] show ?thesis
    proof
      assume "select_from cs (Suc i) = -1 \<and> None \<notin> set cs"
      then show ?thesis by (simp add: Some)
    next
      assume "\<exists>xs ys. cs = xs @ None # ys \<and> None \<notin> set xs \<and> select_from cs (Suc i) = int (Suc i + length xs)"
      then obtain xs ys where "cs = xs @ None # ys" "None \<notin> set xs" "select_from cs (Suc i) = int (Suc i + length xs)"
        by blast
      then show ?thesis by (intro disjI2 exI [of _ "c # xs"] exI [of _ ys]) (simp add: Some)
    qed
  qed
qed simp

lemma filter_full: "None \<notin> set cs \<Longrightarrow> filter (\<lambda>c. c \<noteq> None) cs = cs"
  by (rule filter_True) (metis)

lemma AppendNewConnection_spec:
  assumes "pub_inv e" and "\<not> Full e"
  shows "pub_inv (AppendNewConnection c e) \<and>
    (\<exists>xs ys. connected e = xs @ ys \<and> connected (AppendNewConnection c e) = xs @ c # ys)"
proof -
  have n: "length (connected e) < connPoolSize" using assms by (simp add: pub_inv_def Full_def)
  from select_from_spec [of "ep_conns e" 0] show ?thesis
  proof
    assume a: "select_from (ep_conns e) 0 = -1 \<and> None \<notin> set (ep_conns e)"
    then have "length (connected e) = length (ep_conns e)" by (simp add: connected_def filter_full del: not_None_eq)
    then show ?thesis using n assms(1) by (simp add: pub_inv_def)
  next
    assume "\<exists>xs ys. ep_conns e = xs @ None # ys \<and> None \<notin> set xs \<and>
        select_from (ep_conns e) 0 = int (0 + length xs)"
    then obtain xs ys where s: "ep_conns e = xs @ None # ys" "select_from (ep_conns e) 0 = int (length xs)"
      by auto
    then have e': "AppendNewConnection c e = e\<lparr>ep_conns := xs @ Some c # ys, ep_count := ep_count e + 1\<rparr>"
      by (simp add: AppendNewConnection_def SelectPosition_def Let_def)
    then show ?thesis using assms(1) s(1)
      by (auto simp: pub_inv_def connected_def)
  qed
qed

lemma publish_loop_spec:
  "publish_loop ws data cs n = (out, cs', n') \<Longrightarrow>
     out = filter (\<lambda>c. ws c data) (map the (filter (\<lambda>c. c \<noteq> None) cs))
     \<and> map the (filter (\<lambda>c. c \<noteq> None) cs') = out \<and> length cs' = length cs
     \<and> n' = n - int (length (filter (\<lambda>c. c \<noteq> None) cs)) + int (length out)"
proof (induction ws data cs n arbitrary: out cs' n' rule: publish_loop.induct)
  case (1 ws data count)
  then show ?case by simp
next
  case (2 ws data cs count)
  obtain o1 c1 n1 where "publish_loop ws data cs count = (o1, c1, n1)" by (cases "publish_loop ws data cs count") auto
  then show ?case using 2 by auto
next
  case (3 ws data c cs count)
  show ?case
  proof (cases "ws c data")
    case True
    obtain o1 c1 n1 where p: "publish_loop ws data cs count = (o1, c1, n1)" by (cases "publish_loop ws data cs count") auto
    then show ?thesis using 3(2) [OF _ p] 3(3) True by auto
  next
    case False
    obtain o1 c1 n1 where p: "publish_loop ws data cs (count - 1) = (o1, c1, n1)" by (cases "publish_loop ws data cs (count - 1)") auto
    then show ?thesis using 3(1) [OF _ p] 3(3) False by auto
  qed
qed

lemma Publish_spec:
  assumes "Publish ws data e = (out, e')"
  shows "out = filter (\<lambda>c. ws c data) (connected e) \<and> connected e' = out
    \<and> (pub_inv e \<longrightarrow> pub_inv e')"
proof -
  obtain cs n where p: "publish_loop ws data (ep_conns e) (ep_count e) = (out, cs, n)"
    "e' = e\<lparr>ep_conns := cs, ep_count := n\<rparr>"
    using assms by (auto simp: Publish_def Let_def split: prod.splits)
  show ?thesis using publish_loop_spec [OF p(1)] by (auto simp: p(2) connected_def pub_inv_def)
qed

section \<open>The router's invariant and histories\<close>

definition router_inv :: "'n EventRouter \<Rightarrow> bool" where
  "router_inv r \<longleftrightarrow> (\<forall>t p. er_publishMap r t = Some p \<longrightarrow> pub_inv p) \<and> length (er_publishChan r) \<le> publishChanSize"

definition subscribers :: "'n EventRouter \<Rightarrow> string \<Rightarrow> 'n list" where
  "subscribers r t = (case er_publishMap r t of None \<Rightarrow> [] | Some p \<Rightarrow> connected p)"

inductive router_step :: "('n \<Rightarrow> bytes \<Rightarrow> bool) \<Rightarrow> (Event \<Rightarrow> bytes option) \<Rightarrow> 'n EventRouter \<Rightarrow> 'n EventRouter \<Rightarrow> bool"
  for ws marshal where
  rs_event: "AppendEvent ev r = Done r' \<Longrightarrow> router_step ws marshal r r'"
| rs_process: "router_Process ws marshal r = Done (out, r') \<Longrightarrow> router_step ws marshal r r'"
| rs_connect: "HandleConnect conn req r = Done (kept, r') \<Longrightarrow> router_step ws marshal r r'"

inductive router_reach :: "('n \<Rightarrow> bytes \<Rightarrow> bool) \<Rightarrow> (Event \<Rightarrow> bytes option) \<Rightarrow> 'n EventRouter \<Rightarrow> bool"
  for ws marshal where
  rr_init: "router_reach ws marshal (CreateNewEventRouter None)"
| rr_step: "router_reach ws marshal r \<Longrightarrow> router_step ws marshal r r' \<Longrightarrow> router_reach ws marshal r'"

lemma router_inv_connect:
  assumes "HandleConnect conn req r = Done (kept, r')" and "router_inv r"
  shows "router_inv r' \<and> (kept \<longrightarrow> (\<exists>c q. conn = Some c \<and> req = Some q \<and>
     c \<in> set (subscribers r' (toTopicStr (rq_Address q) (rq_EventType q)))))"
proof -
  obtain c where c: "conn = Some c" using assms(1) by (cases conn) (auto simp: HandleConnect_def)
  show ?thesis
  proof (cases req)
    case None
    then show ?thesis using assms c by (auto simp: HandleConnect_def)
  next
    case (Some q)
    show ?thesis
    proof (cases "rq_Address q = [] \<or> rq_EventType q = []")
      case True
      then show ?thesis using assms c Some by (auto simp: HandleConnect_def)
    next
      case False
      define t where "t = toTopicStr (rq_Address q) (rq_EventType q)"
      define m where "m = (case er_publishMap r t of
          None \<Rightarrow> (er_publishMap r)(t \<mapsto> CreateNewEventPublisher) | Some _ \<Rightarrow> er_publishMap r)"
      obtain p where p: "m t = Some p" "pub_inv p"
        using assms(2) pub_inv_new by (cases "er_publishMap r t") (auto simp: m_def router_inv_def)
      have m: "\<forall>t' p'. m t' = Some p' \<longrightarrow> pub_inv p'"
        using assms(2) pub_inv_new by (cases "er_publishMap r t") (auto simp: m_def router_inv_def)
      have r': "(kept, r') = (if Full p then (False, r\<lparr>er_publishMap := m\<rparr>)
          else (True, r\<lparr>er_publishMap := m(t \<mapsto> AppendNewConnection c p)\<rparr>))"
        using assms(1) c Some False p(1)
        by (simp add: HandleConnect_def Let_def t_def [symmetric] m_def [symmetric] split: if_splits)
      show ?thesis
        using r' m assms(2) AppendNewConnection_spec [OF p(2), of c] c Some
        by (auto simp: router_inv_def subscribers_def t_def [symmetric] split: if_splits)
    qed
  qed
qed

lemma router_inv_process:
  assumes "router_Process ws marshal r = Done (out, r')" and "router_inv r"
  shows "router_inv r'"
  using assms
  by (auto simp: router_Process_def Let_def router_inv_def dest!: Publish_spec
      split: list.splits option.splits prod.splits if_splits)

lemma router_inv_event: "AppendEvent ev r = Done r' \<Longrightarrow> router_inv r \<Longrightarrow> router_inv r'"
  by (auto simp: AppendEvent_def outcome_simps router_inv_def)

lemma router_reach_inv: "router_reach ws marshal r \<Longrightarrow> router_inv r"
proof (induction rule: router_reach.induct)
  case rr_init
  show ?case by (simp add: router_inv_def CreateNewEventRouter_def)
next
  case (rr_step r r')
  then show ?case
    by (auto elim!: router_step.cases dest: router_inv_event router_inv_process router_inv_connect)
qed

text \<open>What a subscription does: it takes a place in the table of its topic if there is one.\<close>

lemma connected_le: "pub_inv p \<Longrightarrow> length (connected p) \<le> connPoolSize"
  by (metis connected_def length_filter_le length_map pub_inv_def)

lemma connect_spec:
  assumes "router_inv r" and "rq_Address q \<noteq> []" and "rq_EventType q \<noteq> []"
  defines "t \<equiv> toTopicStr (rq_Address q) (rq_EventType q)"
  shows "\<exists>r'. HandleConnect (Some c) (Some q) r = Done (length (subscribers r t) < connPoolSize, r')
    \<and> (if length (subscribers r t) < connPoolSize
       then \<exists>xs ys. subscribers r t = xs @ ys \<and> subscribers r' t = xs @ c # ys
       else subscribers r' t = subscribers r t)
    \<and> (\<forall>t'. t' \<noteq> t \<longrightarrow> subscribers r' t' = subscribers r t')"
proof -
  define m where "m = (case er_publishMap r t of
      None \<Rightarrow> (er_publishMap r)(t \<mapsto> CreateNewEventPublisher) | Some _ \<Rightarrow> er_publishMap r)"
  obtain p where p: "m t = Some p" "pub_inv p" "connected p = subscribers r t"
    using assms(1) pub_inv_new connected_new by (cases "er_publishMap r t") (auto simp: m_def router_inv_def subscribers_def)
  have m: "m t' = er_publishMap r t'" if "t' \<noteq> t" for t' using that by (simp add: m_def split: option.split)
  have full: "Full p \<longleftrightarrow> \<not> length (subscribers r t) < connPoolSize" using p(2,3) by (auto simp: Full_def pub_inv_def)
  have h: "HandleConnect (Some c) (Some q) r = (if Full p then Done (False, r\<lparr>er_publishMap := m\<rparr>)
      else Done (True, r\<lparr>er_publishMap := m(t \<mapsto> AppendNewConnection c p)\<rparr>))"
    using assms(2,3) p(1) by (simp add: HandleConnect_def Let_def t_def [symmetric] m_def [symmetric])
  show ?thesis
  proof (cases "Full p")
    case True
    then show ?thesis using h full m p by (auto simp: subscribers_def)
  next
    case False
    then show ?thesis using h full m p AppendNewConnection_spec [OF p(2) False, of c] by (auto simp: subscribers_def)
  qed
qed

text \<open>A table that has lost a connection has a place.\<close>

lemma connect_free_place:
  assumes "router_inv r" and "router_inv r'" and "length (subscribers r' t) < length (subscribers r t)"
    and "rq_Address q \<noteq> []" and "rq_EventType q \<noteq> []" and "t = toTopicStr (rq_Address q) (rq_EventType q)"
  shows "\<exists>r''. HandleConnect (Some c) (Some q) r' = Done (True, r'') \<and> c \<in> set (subscribers r'' t)"
proof -
  have "length (subscribers r t) \<le> connPoolSize"
    using assms(1) connected_le by (cases "er_publishMap r t") (auto simp: subscribers_def router_inv_def)
  then show ?thesis using connect_spec [OF assms(2,4,5), of c] assms(3,6) by fastforce
qed

lemma router_Process_spec:
  assumes "router_inv r" and "er_publishChan r = ev # rest" and "marshal ev = Some data"
  defines "t \<equiv> toTopicStr (ev_Address ev) (ev_Type ev)"
  shows "\<exists>r'. router_Process ws marshal r = Done (filter (\<lambda>c. ws c data) (subscribers r t), r')
    \<and> subscribers r' t = filter (\<lambda>c. ws c data) (subscribers r t)
    \<and> (\<forall>t'. t' \<noteq> t \<longrightarrow> subscribers r' t' = subscribers r t')"
proof (cases "er_publishMap r t")
  case None
  then show ?thesis using assms(2,3)
    by (simp add: router_Process_def Let_def t_def [symmetric] subscribers_def)
next
  case (Some p)
  obtain out p' where p: "Publish ws data p = (out, p')" by (cases "Publish ws data p")
  have "pub_inv p" using assms(1) Some by (auto simp: router_inv_def)
  then have "out = filter (\<lambda>c. ws c data) (connected p)" "connected p' = out" "pub_inv p'"
    using Publish_spec [OF p] by blast+
  then show ?thesis using assms(2,3) Some p
    by (simp add: router_Process_def Let_def t_def [symmetric] subscribers_def)
qed

section \<open>Properties\<close>

text \<open>C27: In every state the event bus can reach: a subscription is accepted exactly if its topic has fewer than 128
  subscribers, an accepted one takes a place in the table of its topic, a refused one changes no table; the
  next event of a topic is written to exactly the topic's subscribers whose connection works, in the order of
  the table, and those whose connection fails are dropped, nobody else is, so that a place freed this way is
  given to the next one who subscribes; and the publisher's counter is the number of its connections.\<close>

theorem events_reach_subscribers:
  assumes "router_reach ws marshal r"
  shows "(\<forall>c q t. rq_Address q \<noteq> [] \<and> rq_EventType q \<noteq> [] \<and> t = toTopicStr (rq_Address q) (rq_EventType q) \<longrightarrow>
      (\<exists>r'. HandleConnect (Some c) (Some q) r = Done (length (subscribers r t) < 128, r')
        \<and> (if length (subscribers r t) < 128
           then \<exists>xs ys. subscribers r t = xs @ ys \<and> subscribers r' t = xs @ c # ys
           else subscribers r' t = subscribers r t)
        \<and> (\<forall>t'. t' \<noteq> t \<longrightarrow> subscribers r' t' = subscribers r t')))
    \<and> (\<forall>ev rest data t. er_publishChan r = ev # rest \<and> marshal ev = Some data \<and> t = toTopicStr (ev_Address ev) (ev_Type ev) \<longrightarrow>
      (\<exists>out r'. router_Process ws marshal r = Done (out, r')
        \<and> out = filter (\<lambda>c. ws c data) (subscribers r t)
        \<and> subscribers r' t = out
        \<and> (\<forall>t'. t' \<noteq> t \<longrightarrow> subscribers r' t' = subscribers r t')
        \<and> (length out < length (subscribers r t) \<longrightarrow>
            (\<forall>c q. rq_Address q \<noteq> [] \<and> rq_EventType q \<noteq> [] \<and> t = toTopicStr (rq_Address q) (rq_EventType q) \<longrightarrow>
              (\<exists>r''. HandleConnect (Some c) (Some q) r' = Done (True, r'') \<and> c \<in> set (subscribers r'' t))))))
    \<and> (\<forall>t p. er_publishMap r t = Some p \<longrightarrow> ep_count p = int (length (subscribers r t)) \<and> ep_count p \<le> 128)"
    (is "?connect \<and> ?publish \<and> ?count")
proof (intro conjI)
  have cap: "connPoolSize = 128" by (simp add: connPoolSize_def)
  have i: "router_inv r" by (rule router_reach_inv [OF assms])
  show ?connect using connect_spec [OF i] unfolding cap by blast
  show ?count using i connected_le unfolding router_inv_def cap by (fastforce simp: subscribers_def pub_inv_def)
  show ?publish
  proof (intro allI impI, elim conjE)
    fix ev rest data t
    assume e: "er_publishChan r = ev # rest" "marshal ev = Some data" and t: "t = toTopicStr (ev_Address ev) (ev_Type ev)"
    obtain r' where r': "router_Process ws marshal r = Done (filter (\<lambda>c. ws c data) (subscribers r t), r')"
      "subscribers r' t = filter (\<lambda>c. ws c data) (subscribers r t)" "\<forall>t'. t' \<noteq> t \<longrightarrow> subscribers r' t' = subscribers r t'"
      using router_Process_spec [where ws = ws and marshal = marshal and ev = ev, OF i e] t by auto
    show "\<exists>out r'. router_Process ws marshal r = Done (out, r')
        \<and> out = filter (\<lambda>c. ws c data) (subscribers r t) \<and> subscribers r' t = out
        \<and> (\<forall>t'. t' \<noteq> t \<longrightarrow> subscribers r' t' = subscribers r t')
        \<and> (length out < length (subscribers r t) \<longrightarrow>
            (\<forall>c q. rq_Address q \<noteq> [] \<and> rq_EventType q \<noteq> [] \<and> t = toTopicStr (rq_Address q) (rq_EventType q) \<longrightarrow>
              (\<exists>r''. HandleConnect (Some c) (Some q) r' = Done (True, r'') \<and> c \<in> set (subscribers r'' t))))"
      using r' connect_free_place [OF i router_inv_process [OF r'(1) i], of t] by auto
  qed
qed

definition sample_event :: Event where
  "sample_event = \<lparr>ev_Type = ''data'', ev_Hash = ''00'', ev_Height = ''1'', ev_Address = ''ab'', ev_Params = []\<rparr>"

lemma sample_router:
  "\<exists>r. router_reach (\<lambda>c d. c < 5) (\<lambda>e. Some [1]) r \<and> er_publishChan r = [sample_event]
     \<and> subscribers r ''ab#data'' = [3, 7 :: nat]"
proof -
  let ?ws = "\<lambda>c d. c < (5 :: nat)" and ?mar = "\<lambda>e. Some [1] :: bytes option"
  let ?q = "Some \<lparr>rq_Address = ''ab'', rq_EventType = ''data''\<rparr>"
  define r0 :: "nat EventRouter" where "r0 = CreateNewEventRouter None"
  define p where "p = AppendNewConnection (3::nat) CreateNewEventPublisher"
  define r1 where "r1 = r0\<lparr>er_publishMap := [''ab#data'' \<mapsto> p]\<rparr>"
  define p2 where "p2 = AppendNewConnection (7::nat) p"
  define r2 where "r2 = r1\<lparr>er_publishMap := [''ab#data'' \<mapsto> p2]\<rparr>"
  define r3 where "r3 = r2\<lparr>er_publishChan := [sample_event]\<rparr>"
  have rep: "replicate connPoolSize None = None # None # replicate 126 None"
    by (simp add: connPoolSize_def numeral_eq_Suc)
  have pp: "p = \<lparr>ep_conns = Some 3 # None # replicate 126 None, ep_count = 1\<rparr>"
    by (simp add: p_def AppendNewConnection_def SelectPosition_def CreateNewEventPublisher_def rep Let_def)
  have pp2: "p2 = \<lparr>ep_conns = Some 3 # Some 7 # replicate 126 None, ep_count = 2\<rparr>"
    by (simp add: p2_def pp AppendNewConnection_def SelectPosition_def Let_def)
  have "HandleConnect (Some 3) ?q r0 = Done (True, r1)"
    by (simp add: HandleConnect_def r0_def r1_def CreateNewEventRouter_def toTopicStr_def p_def Full_def
        CreateNewEventPublisher_def connPoolSize_def)
  moreover have "HandleConnect (Some 7) ?q r1 = Done (True, r2)"
    by (simp add: HandleConnect_def r2_def r1_def toTopicStr_def p2_def pp Full_def connPoolSize_def)
  moreover have "AppendEvent sample_event r2 = Done r3"
    by (simp add: AppendEvent_def r3_def r2_def r1_def r0_def CreateNewEventRouter_def chan_send_def
        publishChanSize_def)
  ultimately have "router_reach ?ws ?mar r3"
    using rr_init [of ?ws ?mar, folded r0_def] by (meson rr_step rs_connect rs_event)
  moreover have "er_publishChan r3 = [sample_event]" by (simp add: r3_def)
  moreover have "subscribers r3 ''ab#data'' = [3, 7]"
    by (simp add: subscribers_def r3_def r2_def pp2 connected_def)
  ultimately show ?thesis by blast
qed

text \<open>Two subscribers, the connection of the second one fails; the place it leaves is taken by a third one.\<close>

lemma events_reach_subscribers_witness:
  "\<exists>r r' r''. router_Process (\<lambda>c d. c < 5) (\<lambda>e. Some [1]) r = Done ([3 :: nat], r')
     \<and> HandleConnect (Some 4) (Some \<lparr>rq_Address = ''ab'', rq_EventType = ''data''\<rparr>) r' = Done (True, r'')
     \<and> 4 \<in> set (subscribers r'' ''ab#data'')"
proof -
  let ?q = "\<lparr>rq_Address = ''ab'', rq_EventType = ''data''\<rparr>"
  obtain r where r: "router_reach (\<lambda>c d. c < 5) (\<lambda>e. Some [1]) r" "er_publishChan r = [sample_event]"
    "subscribers r ''ab#data'' = [3, 7 :: nat]"
    using sample_router by blast
  have t: "''ab#data'' = toTopicStr (ev_Address sample_event) (ev_Type sample_event)"
    "''ab#data'' = toTopicStr (rq_Address ?q) (rq_EventType ?q)" "rq_Address ?q \<noteq> []" "rq_EventType ?q \<noteq> []"
    by (simp_all add: toTopicStr_def sample_event_def)
  have e: "er_publishChan r = [sample_event] \<and> Some [1] = Some [1] \<and> ''ab#data'' = toTopicStr (ev_Address sample_event) (ev_Type sample_event)"
    using r(2) t(1) by blast
  note pub = events_reach_subscribers [OF r(1), THEN conjunct2, THEN conjunct1, THEN spec, THEN spec, THEN spec, THEN spec, THEN mp, OF e]
  obtain out r' where o: "router_Process (\<lambda>c d. c < 5) (\<lambda>e. Some [1]) r = Done (out, r')"
    "out = filter (\<lambda>c. c < 5) (subscribers r ''ab#data'')"
    "length out < length (subscribers r ''ab#data'') \<longrightarrow> (\<forall>c q. rq_Address q \<noteq> [] \<and> rq_EventType q \<noteq> []
       \<and> ''ab#data'' = toTopicStr (rq_Address q) (rq_EventType q) \<longrightarrow>
       (\<exists>r''. HandleConnect (Some c) (Some q) r' = Done (True, r'') \<and> c \<in> set (subscribers r'' ''ab#data'')))"
    using pub by (elim exE conjE) (rule that)
  have "out = [3]" "length out < length (subscribers r ''ab#data'')" using o(2) r(3) by simp_all
  moreover from o(3) [THEN mp, OF this(2), THEN spec [of _ 4], THEN spec [of _ ?q], THEN mp, OF conjI [OF t(3) conjI [OF t(4,2)]]]
  have "\<exists>r''. HandleConnect (Some 4) (Some ?q) r' = Done (True, r'') \<and> 4 \<in> set (subscribers r'' ''ab#data'')" .
  ultimately show ?thesis using o(1) by (elim exE conjE) (intro exI conjI, simp_all)
qed

end
