(* ===== verification/DataProcessor.thy ===== *)
theory DataProcessor
  imports Store PubSub
begin

text \<open>
  core/data.go: the goroutine that carries out the set and append commands of transactions on the
  database and announces them on the event bus. The database is the chain's own, so it is passed
  along. encoding/json is an argument with the laws of the locale \<open>json\<close>; a map of strings is an
  association list with its keys in the order of the encoding.
\<close>

section \<open>JSON\<close>

type_synonym jmap = "(string \<times> string) list"

record json_ops =
  js_map :: "bytes \<Rightarrow> jmap option"
  js_array :: "bytes \<Rightarrow> jmap list option"
  js_marshal :: "jmap list \<Rightarrow> bytes option"

section \<open>The code\<close>

definition taskChannelSize :: nat where "taskChannelSize = 10240"

record DataTask =
  dt_Type :: string
  dt_Hash :: bytes
  dt_Height :: int
  dt_Address :: bytes
  dt_Key :: bytes
  dt_Value :: bytes

record DataProcessor =
  dp_taskChannel :: "DataTask list"

definition NewDataProcessor :: DataProcessor where
  "NewDataProcessor = \<lparr>dp_taskChannel = []\<rparr>"

definition task_key :: "DataTask \<Rightarrow> bytes" where
  "task_key task = DataAddressKey2DBKey (dt_Address task) (dt_Key task)"

definition data_event :: "DataTask \<Rightarrow> bytes \<Rightarrow> Event" where
  "data_event task val =
     \<lparr>ev_Type = ''data'', ev_Hash = hex_encode (dt_Hash task), ev_Height = format_int (dt_Height task),
      ev_Address = hex_encode (dt_Address task),
      ev_Params = [(''key'', string_of_bytes (dt_Key task)), (''value'', string_of_bytes val)]\<rparr>"

definition marshalled :: "json_ops \<Rightarrow> jmap list \<Rightarrow> bytes" where
  "marshalled J ms = (case js_marshal J ms of None \<Rightarrow> [] | Some bs \<Rightarrow> bs)"

text \<open>The value of the announcement is computed from the command's; what is stored is the command's.\<close>

definition setData ::
    "json_ops \<Rightarrow> 'd db_ops \<Rightarrow> DataTask \<Rightarrow> 'd \<times> 'n EventRouter \<Rightarrow> ('d \<times> 'n EventRouter) outcome" where
  "setData J D task s =
     (case s of (d, router) \<Rightarrow>
       let val = (case js_map J (dt_Value task) of
                    None \<Rightarrow> dt_Value task
                  | Some mapValue \<Rightarrow> marshalled J [mapValue]);
           d' = snd (db_Insert D d (task_key task) (dt_Value task))
       in bindO (AppendEvent (data_event task val) router) (\<lambda>router'. Done (d', router')))"

definition appendData ::
    "json_ops \<Rightarrow> 'd db_ops \<Rightarrow> DataTask \<Rightarrow> 'd \<times> 'n EventRouter \<Rightarrow> ('d \<times> 'n EventRouter) outcome" where
  "appendData J D task s =
     (case s of (d, router) \<Rightarrow>
       (case js_map J (dt_Value task) of
          None \<Rightarrow> Done s
        | Some mapValue \<Rightarrow>
           (case (case db_Get D d (task_key task) of
                    Inl _ \<Rightarrow> Some []
                  | Inr val \<Rightarrow> js_array J val) of
              None \<Rightarrow> Done s
            | Some mapArray \<Rightarrow>
               (case js_marshal J (mapArray @ [mapValue]) of
                  None \<Rightarrow> Done s
                | Some val \<Rightarrow>
                   (let d' = snd (db_Insert D d (task_key task) val)
                    in bindO (AppendEvent (data_event task val) router)
                         (\<lambda>router'. Done (d', router')))))))"

text \<open>What \<open>Run\<close> does with one task, and one iteration of its loop.\<close>

definition run_task ::
    "json_ops \<Rightarrow> 'd db_ops \<Rightarrow> DataTask \<Rightarrow> 'd \<times> 'n EventRouter \<Rightarrow> ('d \<times> 'n EventRouter) outcome" where
  "run_task J D task s =
     (if dt_Type task = ''set'' then setData J D task s
      else if dt_Type task = ''append'' then
        (case js_map J (dt_Value task) of None \<Rightarrow> Done s | Some _ \<Rightarrow> appendData J D task s)
      else Done s)"

definition dp_Run ::
    "json_ops \<Rightarrow> 'd db_ops \<Rightarrow> DataProcessor \<Rightarrow> 'd \<times> 'n EventRouter
       \<Rightarrow> (DataProcessor \<times> 'd \<times> 'n EventRouter) outcome" where
  "dp_Run J D dp s =
     (case dp_taskChannel dp of
        [] \<Rightarrow> Blocks
      | task # rest \<Rightarrow> bindO (run_task J D task s) (\<lambda>s'. Done (dp\<lparr>dp_taskChannel := rest\<rparr>, s')))"

definition run_tasks ::
    "json_ops \<Rightarrow> 'd db_ops \<Rightarrow> DataTask list \<Rightarrow> 'd \<times> 'n EventRouter \<Rightarrow> ('d \<times> 'n EventRouter) outcome" where
  "run_tasks J D tasks s = foldl (\<lambda>m t. bindO m (run_task J D t)) (Done s) tasks"

section \<open>The laws of JSON\<close>

text \<open>
  \<open>ok\<close> holds of the maps the decoder produces. Arrays of them survive encoding; an object with at
  least one member is no array.
\<close>

locale json =
  fixes J :: json_ops and ok :: "jmap \<Rightarrow> bool"
  assumes map_ok: "js_map J v = Some m \<Longrightarrow> ok m"
    and array_ok: "js_array J v = Some ms \<Longrightarrow> m \<in> set ms \<Longrightarrow> ok m"
    and marshal_array: "\<forall>m \<in> set ms. ok m \<Longrightarrow> ms \<noteq> [] \<Longrightarrow> \<exists>bs. js_marshal J ms = Some bs \<and> js_array J bs = Some ms"
    and object_no_array: "js_map J v = Some m \<Longrightarrow> m \<noteq> [] \<Longrightarrow> js_array J v = None"

text \<open>An instance with a single object, \<open>1\<close>, and arrays of it.\<close>

definition tiny_json :: json_ops where
  "tiny_json = \<lparr>
     js_map = (\<lambda>v. if v = [1] then Some [(''a'', ''b'')] else None),
     js_array = (\<lambda>v. case v of
         [] \<Rightarrow> None
       | b # bs \<Rightarrow> if b = 2 \<and> list_all (\<lambda>x. x = 1) bs then Some (map (\<lambda>_. [(''a'', ''b'')]) bs) else None),
     js_marshal = (\<lambda>ms. Some (2 # map (\<lambda>_. 1) ms))\<rparr>"

interpretation tiny: json tiny_json "\<lambda>m. m = [(''a'', ''b'')]"
proof
  fix v m ms
  show "js_map tiny_json v = Some m \<Longrightarrow> m = [(''a'', ''b'')]"
    by (auto simp: tiny_json_def split: if_splits)
  show "js_array tiny_json v = Some ms \<Longrightarrow> m \<in> set ms \<Longrightarrow> m = [(''a'', ''b'')]"
    by (auto simp: tiny_json_def split: list.splits if_splits)
  show "\<forall>m \<in> set ms. m = [(''a'', ''b'')] \<Longrightarrow> ms \<noteq> [] \<Longrightarrow>
      \<exists>bs. js_marshal tiny_json ms = Some bs \<and> js_array tiny_json bs = Some ms"
    by (auto simp: tiny_json_def list_all_iff intro!: map_idI)
  show "js_map tiny_json v = Some m \<Longrightarrow> m \<noteq> [] \<Longrightarrow> js_array tiny_json v = None"
    by (auto simp: tiny_json_def split: if_splits)
qed

section \<open>What tasks do to the store\<close>

text \<open>A data store: the database with the laws of the interface, and JSON.\<close>

locale data_store = json J ok + db_interface D content
  for J ok and D :: "'d db_ops" and content
begin

lemma setData_spec:
  "setData J D task (d, r) = Done (d', r') \<Longrightarrow> content d' = (content d)(task_key task \<mapsto> dt_Value task)"
  by (auto simp: setData_def Let_def outcome_simps db_insert)

lemma appendData_cases:
  assumes "appendData J D task (d, r) = Done (d', r')"
  shows "(d' = d \<and> r' = r) \<or> (\<exists>m ms bs. js_map J (dt_Value task) = Some m
      \<and> (case content d (task_key task) of None \<Rightarrow> ms = [] | Some v \<Rightarrow> js_array J v = Some ms)
      \<and> js_marshal J (ms @ [m]) = Some bs \<and> js_array J bs = Some (ms @ [m])
      \<and> content d' = (content d)(task_key task \<mapsto> bs))"
proof (cases "js_map J (dt_Value task)")
  case None
  then show ?thesis using assms by (simp add: appendData_def)
next
  case (Some m)
  define arr where "arr = (case db_Get D d (task_key task) of Inl _ \<Rightarrow> Some [] | Inr val \<Rightarrow> js_array J val)"
  show ?thesis
  proof (cases arr)
    case None
    then show ?thesis using assms Some by (simp add: appendData_def arr_def [symmetric])
  next
    case (Some ms)
    have ms: "case content d (task_key task) of None \<Rightarrow> ms = [] | Some v \<Rightarrow> js_array J v = Some ms"
      using Some by (auto simp: arr_def db_get split: option.splits)
    then have "\<forall>x \<in> set (ms @ [m]). ok x"
      using array_ok map_ok [OF \<open>js_map J (dt_Value task) = Some m\<close>]
      by (auto split: option.splits)
    then obtain bs where bs: "js_marshal J (ms @ [m]) = Some bs" "js_array J bs = Some (ms @ [m])"
      using marshal_array [of "ms @ [m]"] by auto
    then have "content d' = (content d)(task_key task \<mapsto> bs)"
      using assms Some \<open>js_map J (dt_Value task) = Some m\<close>
      by (auto simp: appendData_def arr_def [symmetric] Let_def outcome_simps db_insert)
    then show ?thesis using bs ms \<open>js_map J (dt_Value task) = Some m\<close> by blast
  qed
qed

lemma run_task_frame:
  "run_task J D task (d, r) = Done (d', r') \<Longrightarrow> k \<noteq> task_key task \<Longrightarrow> content d' k = content d k"
  using setData_spec appendData_cases [of task d r d' r']
  by (fastforce simp: run_task_def split: if_splits option.splits)

text \<open>Appending when there is room on the event channel.\<close>

lemma appendData_Done:
  assumes "js_map J (dt_Value task) = Some m"
    and "case content d (task_key task) of None \<Rightarrow> ms = [] | Some v \<Rightarrow> js_array J v = Some ms"
    and "length (er_publishChan r) < publishChanSize"
  shows "\<exists>d' r' bs. appendData J D task (d, r) = Done (d', r') \<and> js_array J bs = Some (ms @ [m])
    \<and> content d' = (content d)(task_key task \<mapsto> bs)
    \<and> length (er_publishChan r') = Suc (length (er_publishChan r))"
proof -
  have "\<forall>x \<in> set (ms @ [m]). ok x"
    using assms(2) array_ok map_ok [OF assms(1)] by (auto split: option.splits)
  then obtain bs where bs: "js_marshal J (ms @ [m]) = Some bs" "js_array J bs = Some (ms @ [m])"
    using marshal_array [of "ms @ [m]"] by auto
  have "(case db_Get D d (task_key task) of Inl _ \<Rightarrow> Some [] | Inr val \<Rightarrow> js_array J val) = Some ms"
    using assms(2) by (simp add: db_get split: option.splits)
  then show ?thesis using assms(1,3) bs
    by (intro exI [of _ "snd (db_Insert D d (task_key task) bs)"] exI [of _ bs])
      (auto simp: appendData_def Let_def AppendEvent_def chan_send_def db_insert)
qed

lemma appends_accumulate:
  assumes "\<forall>t \<in> set tasks. dt_Type t = ''append'' \<and> task_key t = k"
    and "map (\<lambda>t. js_map J (dt_Value t)) tasks = map Some ms"
    and "length (er_publishChan r) + length tasks \<le> publishChanSize" and "content d k = None"
    and "tasks \<noteq> []"
  shows "\<exists>d' r' bs. run_tasks J D tasks (d, r) = Done (d', r')
    \<and> content d' = (content d)(k \<mapsto> bs) \<and> js_array J bs = Some ms
    \<and> length (er_publishChan r') = length (er_publishChan r) + length tasks"
  using assms
proof (induction tasks arbitrary: ms rule: rev_induct)
  case Nil
  then show ?case by simp
next
  case (snoc t ts)
  obtain ns m where ms: "ms = ns @ [m]" "map (\<lambda>t. js_map J (dt_Value t)) ts = map Some ns"
    "js_map J (dt_Value t) = Some m"
  proof -
    have "length ms = Suc (length ts)" using snoc.prems(2) by (metis length_append_singleton length_map)
    then obtain ns m where "ms = ns @ [m]" by (cases ms rule: rev_cases) auto
    then show ?thesis using snoc.prems(2) that by auto
  qed
  have t: "dt_Type t = ''append''" "task_key t = k" using snoc.prems(1) by auto
  show ?case
  proof (cases "ts = []")
    case True
    then have ns: "ns = []" using ms(2) by simp
    obtain d' r' bs where "appendData J D t (d, r) = Done (d', r')" "js_array J bs = Some ([] @ [m])"
      "content d' = (content d)(k \<mapsto> bs)" "length (er_publishChan r') = Suc (length (er_publishChan r))"
      using appendData_Done [OF ms(3), where d = d and ms = "[]" and r = r] t(2) snoc.prems(3,4) by auto
    then show ?thesis using True ns ms t by (auto simp: run_tasks_def run_task_def fun_upd_def)
  next
    case False
    obtain d1 r1 b1 where 1: "run_tasks J D ts (d, r) = Done (d1, r1)" "content d1 = (content d)(k \<mapsto> b1)"
      "js_array J b1 = Some ns" "length (er_publishChan r1) = length (er_publishChan r) + length ts"
    proof -
      have a: "\<forall>t \<in> set ts. dt_Type t = ''append'' \<and> task_key t = k" using snoc.prems(1) by simp
      have n: "length (er_publishChan r) + length ts \<le> publishChanSize" using snoc.prems(3) by simp
      show thesis using snoc.IH [OF a ms(2) n snoc.prems(4) False] that by blast
    qed
    obtain d' r' bs where 2: "appendData J D t (d1, r1) = Done (d', r')" "js_array J bs = Some (ns @ [m])"
      "content d' = (content d1)(k \<mapsto> bs)" "length (er_publishChan r') = Suc (length (er_publishChan r1))"
      using appendData_Done [OF ms(3), where d = d1 and ms = ns and r = r1] t(2) 1 snoc.prems(3) by auto
    show ?thesis
      by (intro exI [of _ d'] exI [of _ r'] exI [of _ bs])
        (use 1 2 ms t in \<open>simp add: run_tasks_def run_task_def\<close>)
  qed
qed

end

interpretation tiny_store: data_store tiny_json "\<lambda>m. m = [(''a'', ''b'')]" "LevelDB map_leveldb" "\<lambda>d. d"
  by unfold_locales

section \<open>Properties\<close>

text \<open>Append commands accumulate: on a fresh key, a sequence of appends of JSON objects leaves the
  array of exactly those objects in their order, touches no other key, and announces every one of
  them, whenever the event channel has room for the announcements.\<close>

theorem appends_build_array:
  assumes "json J ok" and "db_interface D content"
    and "\<forall>t \<in> set tasks. dt_Type t = ''append'' \<and> dt_Address t = a \<and> dt_Key t = k"
    and "map (\<lambda>t. js_map J (dt_Value t)) tasks = map Some ms" and "tasks \<noteq> []"
    and "length (er_publishChan r) + length tasks \<le> publishChanSize"
    and "content d (DataAddressKey2DBKey a k) = None"
  shows "\<exists>d' r' bs. run_tasks J D tasks (d, r) = Done (d', r')
    \<and> content d' = (content d)(DataAddressKey2DBKey a k \<mapsto> bs) \<and> js_array J bs = Some ms
    \<and> length (er_publishChan r') = length (er_publishChan r) + length tasks"
  using data_store.appends_accumulate [OF data_store.intro [OF assms(1,2)], of tasks "DataAddressKey2DBKey a k" ms r d]
    assms(3-7) by (auto simp: task_key_def)

definition append_task :: DataTask where
  "append_task = \<lparr>dt_Type = ''append'', dt_Hash = [], dt_Height = 1, dt_Address = [7], dt_Key = [8],
     dt_Value = [1]\<rparr>"

lemma appends_build_array_witness:
  "\<exists>d' r' bs. run_tasks tiny_json (LevelDB map_leveldb) [append_task, append_task]
      (\<lambda>_. None, CreateNewEventRouter None :: nat EventRouter) = Done (d', r')
    \<and> js_array tiny_json bs = Some [[(''a'', ''b'')], [(''a'', ''b'')]]
    \<and> d' (DataAddressKey2DBKey [7] [8]) = Some bs"
  using appends_build_array [OF tiny.json_axioms map_db.db.db_interface_axioms,
      of "[append_task, append_task]" "[7]" "[8]" "[[(''a'', ''b'')], [(''a'', ''b'')]]"
         "CreateNewEventRouter None :: nat EventRouter" "\<lambda>_. None"]
  by (fastforce simp: append_task_def tiny_json_def CreateNewEventRouter_def publishChanSize_def)

text \<open>A set command stores the value of the command as it stands. When that is a JSON object with
  a member, a later append to the same key changes nothing and announces nothing, because the
  stored object is no array, although the set announced the array.\<close>

theorem append_after_set_is_lost:
  assumes "json J ok" and "db_interface D content"
    and "dt_Type t1 = ''set''" and "dt_Type t2 = ''append''" and "task_key t2 = task_key t1"
    and "js_map J (dt_Value t1) = Some m" and "m \<noteq> []" and "length (er_publishChan r) < publishChanSize"
  shows "\<exists>d' r'. run_tasks J D [t1, t2] (d, r) = Done (d', r') \<and> run_tasks J D [t1] (d, r) = Done (d', r')
    \<and> content d' = (content d)(task_key t1 \<mapsto> dt_Value t1)
    \<and> er_publishChan r' = er_publishChan r @ [data_event t1 (marshalled J [m])]"
proof -
  define d' where "d' = snd (db_Insert D d (task_key t1) (dt_Value t1))"
  define r' where "r' = r\<lparr>er_publishChan := er_publishChan r @ [data_event t1 (marshalled J [m])]\<rparr>"
  have 1: "run_task J D t1 (d, r) = Done (d', r')"
    using assms(3,6,8) by (simp add: run_task_def setData_def Let_def AppendEvent_def chan_send_def d'_def r'_def)
  have c: "content d' = (content d)(task_key t1 \<mapsto> dt_Value t1)"
    using db_interface.db_insert [OF assms(2)] by (simp add: d'_def)
  then have "db_Get D d' (task_key t2) = Inr (dt_Value t1)"
    using db_interface.db_get [OF assms(2)] assms(5) by simp
  moreover have "js_array J (dt_Value t1) = None"
    using json.object_no_array [OF assms(1)] assms(6,7) by blast
  ultimately have "run_task J D t2 (d', r') = Done (d', r')"
    using assms(4) by (simp add: run_task_def appendData_def split: option.split)
  then show ?thesis using 1 c by (simp add: run_tasks_def r'_def)
qed

lemma append_after_set_is_lost_witness:
  "\<exists>d' r'. run_tasks tiny_json (LevelDB map_leveldb) [append_task\<lparr>dt_Type := ''set''\<rparr>, append_task]
      (\<lambda>_. None, CreateNewEventRouter None :: nat EventRouter) = Done (d', r')
    \<and> d' (DataAddressKey2DBKey [7] [8]) = Some [1]"
  using append_after_set_is_lost [OF tiny.json_axioms map_db.db.db_interface_axioms,
      of "append_task\<lparr>dt_Type := ''set''\<rparr>" append_task "[(''a'', ''b'')]"
         "CreateNewEventRouter None :: nat EventRouter" "\<lambda>_. None"]
  by (auto simp: append_task_def tiny_json_def CreateNewEventRouter_def publishChanSize_def task_key_def)

text \<open>A command of one address and key never changes what is stored for another address or another
  key, nor any block, transaction or height of the chain in the same database.\<close>

theorem data_tasks_stay_apart:
  assumes "json J ok" and "db_interface D content" and "length (dt_Address t) = 20"
    and "run_task J D t (d, r) = Done (d', r')" and "wf_key k"
    and "k \<noteq> DataKey (dt_Address t) (dt_Key t)"
  shows "content d' (db_key_bytes k) = content d (db_key_bytes k)"
proof -
  have "db_key_bytes k \<noteq> task_key t"
    using db_key_bytes_inject [of k "DataKey (dt_Address t) (dt_Key t)"] assms(3,5,6) by (auto simp: task_key_def)
  then show ?thesis
    using data_store.run_task_frame [OF data_store.intro [OF assms(1,2)] assms(4)] by blast
qed

lemma data_tasks_stay_apart_witness:
  "\<exists>d' r'. run_task tiny_json (LevelDB map_leveldb) (append_task\<lparr>dt_Address := replicate 20 1\<rparr>)
      ([db_key_bytes LatestKey \<mapsto> [5]], CreateNewEventRouter None :: nat EventRouter) = Done (d', r')
    \<and> d' (db_key_bytes LatestKey) = Some [5]"
proof -
  let ?t = "append_task\<lparr>dt_Address := replicate 20 1\<rparr>" and ?d = "[db_key_bytes LatestKey \<mapsto> [5]]"
  have "db_key_bytes LatestKey \<noteq> db_key_bytes (DataKey (replicate 20 1) [8])"
    by (subst db_key_bytes_inject) simp_all
  then have "task_key ?t \<noteq> latest_key" by (simp add: task_key_def append_task_def)
  then have c: "case ?d (task_key ?t) of None \<Rightarrow> [] = [] | Some v \<Rightarrow> js_array tiny_json v = Some []"
    by simp
  have m: "js_map tiny_json (dt_Value ?t) = Some [(''a'', ''b'')]"
    by (simp add: append_task_def tiny_json_def)
  have q: "length (er_publishChan (CreateNewEventRouter None :: nat EventRouter)) < publishChanSize"
    by (simp add: CreateNewEventRouter_def publishChanSize_def)
  obtain d' r' where "appendData tiny_json (LevelDB map_leveldb) ?t
      (?d, CreateNewEventRouter None :: nat EventRouter) = Done (d', r')"
    using tiny_store.appendData_Done [where task = ?t and d = ?d and ms = "[]", OF m c q] by blast
  then have r: "run_task tiny_json (LevelDB map_leveldb) ?t
      (?d, CreateNewEventRouter None :: nat EventRouter) = Done (d', r')"
    using m by (simp add: run_task_def) (simp add: append_task_def)
  then show ?thesis
    using data_tasks_stay_apart [OF tiny.json_axioms map_db.db.db_interface_axioms _ r, of LatestKey] by auto
qed

end
