(* ===== verification/TxPool.thy ===== *)
theory TxPool
  imports Store
begin

text \<open>
  core/txpool.go. The pool asks the chain whether it has a transaction already; that interface is
  the locale \<open>tx_lookup\<close>. The order in which the map is ranged over is an argument: the library
  promises every key once, and no order.
\<close>

section \<open>State and simple operations\<close>

definition maxTxPackageCount :: nat where "maxTxPackageCount = 10000"
definition maxTxPoolSize :: int where "maxTxPoolSize = 20480"
definition txQueueSize :: nat where "txQueueSize = 10240"

record TxPool =
  tp_txQueue :: "string list"
  tp_txs :: "string \<Rightarrow> Transaction option"
  tp_count :: int

definition NewTxPool :: "TxPool option \<Rightarrow> TxPool" where
  "NewTxPool inst = (case inst of Some p \<Rightarrow> p
     | None \<Rightarrow> \<lparr>tp_txQueue = [], tp_txs = (\<lambda>_. None), tp_count = 0\<rparr>)"

definition tx_hash_hex :: "Transaction \<Rightarrow> string" where
  "tx_hash_hex t = hex_encode (tb_Hash (tx_Body t))"

definition Add :: "Transaction \<Rightarrow> TxPool \<Rightarrow> TxPool" where
  "Add t pool =
     (if tp_count pool > maxTxPoolSize then pool
      else pool\<lparr>tp_txs := (tp_txs pool)(tx_hash_hex t \<mapsto> t), tp_count := tp_count pool + 1\<rparr>)"

definition Contain :: "string \<Rightarrow> TxPool \<Rightarrow> bool" where
  "Contain hash pool \<longleftrightarrow> tp_txs pool hash \<noteq> None"

definition Get :: "string \<Rightarrow> TxPool \<Rightarrow> Transaction option" where
  "Get hash pool = tp_txs pool hash"

definition delete_tx :: "string \<Rightarrow> TxPool \<Rightarrow> TxPool" where
  "delete_tx h pool = pool\<lparr>tp_txs := (tp_txs pool)(h := None), tp_count := tp_count pool - 1\<rparr>"

definition RemoveTx :: "bytes \<Rightarrow> TxPool \<Rightarrow> TxPool" where
  "RemoveTx hash pool =
     (let txHash = hex_encode hash in
      if tp_txs pool txHash = None then pool else delete_tx txHash pool)"

section \<open>Packaging\<close>

fun range_txs :: "string list \<Rightarrow> string list \<Rightarrow> string list outcome" where
  "range_txs [] q = Done q"
| "range_txs (k # ks) q =
     (if length q \<ge> maxTxPackageCount then Done q
      else bindO (chan_send txQueueSize q k) (range_txs ks))"

text \<open>
  The loop over the queue: rounds left, transactions counted, the result so far. \<open>get\<close> is
  the chain's GetTransactionByHash; it may change the chain's caches. The transaction is \<open>None\<close>
  when it is not found.
\<close>

fun package_loop ::
    "('ch \<Rightarrow> bytes \<Rightarrow> (Transaction option \<times> 'ch)) \<Rightarrow> nat \<Rightarrow> nat \<Rightarrow> Transaction list \<Rightarrow> TxPool \<Rightarrow> 'ch
       \<Rightarrow> (Transaction list \<times> TxPool \<times> 'ch) outcome" where
  "package_loop get 0 count result pool ch = Done (result, pool, ch)"
| "package_loop get (Suc n) count result pool ch =
     (case tp_txQueue pool of
        [] \<Rightarrow> Done (result, pool, ch)
      | txHash # rest \<Rightarrow>
          if count > maxTxPackageCount then Done (result, pool, ch)
          else let pool1 = pool\<lparr>tp_txQueue := rest\<rparr> in
            (case hex_decode txHash of
               None \<Rightarrow> package_loop get n count result pool1 ch
             | Some commonHash \<Rightarrow>
                (case tp_txs pool1 txHash of
                   None \<Rightarrow> package_loop get n count result pool1 ch
                 | Some val \<Rightarrow>
                     bindO (to_array 32 commonHash) (\<lambda>h.
                       case get ch h of
                         (Some tx, ch1) \<Rightarrow> package_loop get n count result (delete_tx txHash pool1) ch1
                       | (None, ch1) \<Rightarrow>
                           package_loop get n (Suc count) (result @ [val]) (delete_tx txHash pool1) ch1))))"

definition Package ::
    "('ch \<Rightarrow> bytes \<Rightarrow> (Transaction option \<times> 'ch)) \<Rightarrow> string list \<Rightarrow> TxPool \<Rightarrow> 'ch
       \<Rightarrow> (Transaction list \<times> TxPool \<times> 'ch) outcome" where
  "Package get order pool ch =
     bindO (range_txs order (tp_txQueue pool))
       (\<lambda>q. package_loop get maxTxPackageCount 0 [] (pool\<lparr>tp_txQueue := q\<rparr>) ch)"

section \<open>Invariant\<close>

text \<open>
  Every transaction is stored under its own hash, and the counter is at least the number of
  transactions.
\<close>

definition pool_inv :: "TxPool \<Rightarrow> bool" where
  "pool_inv pool \<longleftrightarrow> (\<forall>k t. tp_txs pool k = Some t \<longrightarrow> k = tx_hash_hex t \<and> length (tb_Hash (tx_Body t)) = 32)
     \<and> finite (dom (tp_txs pool)) \<and> int (card (dom (tp_txs pool))) \<le> tp_count pool"

lemma pool_inv_new: "pool_inv (NewTxPool None)"
  by (simp add: pool_inv_def NewTxPool_def)

lemma pool_inv_queue [simp]: "pool_inv (pool\<lparr>tp_txQueue := q\<rparr>) = pool_inv pool"
  by (simp add: pool_inv_def)

lemma pool_inv_Add:
  assumes "pool_inv pool" and "length (tb_Hash (tx_Body t)) = 32"
  shows "pool_inv (Add t pool)"
proof -
  have "card (insert (tx_hash_hex t) (dom (tp_txs pool))) \<le> Suc (card (dom (tp_txs pool)))"
    by (rule card_insert_le_m1) simp_all
  then show ?thesis using assms by (auto simp: pool_inv_def Add_def)
qed

lemma pool_inv_delete:
  assumes "pool_inv pool" and "tp_txs pool h \<noteq> None"
  shows "pool_inv (delete_tx h pool)"
proof -
  have f: "finite (dom (tp_txs pool))" "h \<in> dom (tp_txs pool)" using assms by (auto simp: pool_inv_def)
  have "card (dom (tp_txs pool) - {h}) = card (dom (tp_txs pool)) - 1" "0 < card (dom (tp_txs pool))"
    using f by (auto simp: card_gt_0_iff)
  then show ?thesis using assms(1) by (auto simp: pool_inv_def delete_tx_def split: if_splits)
qed

lemma pool_inv_RemoveTx: "pool_inv pool \<Longrightarrow> pool_inv (RemoveTx h pool)"
  using pool_inv_delete by (simp add: RemoveTx_def Let_def)

section \<open>The interface of the chain\<close>

text \<open>A lookup finds exactly the transactions on the chain, and looking does not change which these are.\<close>

locale tx_lookup =
  fixes get :: "'ch \<Rightarrow> bytes \<Rightarrow> (Transaction option \<times> 'ch)" and on_chain :: "'ch \<Rightarrow> bytes \<Rightarrow> bool"
    and chain_ok :: "'ch \<Rightarrow> bool"
  assumes get_found: "chain_ok ch \<Longrightarrow> length h = 32 \<Longrightarrow> fst (get ch h) \<noteq> None \<longleftrightarrow> on_chain ch h"
    and get_keeps: "chain_ok ch \<Longrightarrow> length h = 32 \<Longrightarrow> on_chain (snd (get ch h)) = on_chain ch"
    and get_ok: "chain_ok ch \<Longrightarrow> length h = 32 \<Longrightarrow> chain_ok (snd (get ch h))"
begin

lemma package_loop_spec:
  assumes "pool_inv pool" and "chain_ok ch" and "length (tp_txQueue pool) \<le> n"
    and "count + n \<le> maxTxPackageCount"
  shows "\<exists>new pool' ch'. package_loop get n count result pool ch = Done (result @ new, pool', ch')
    \<and> pool_inv pool' \<and> chain_ok ch' \<and> on_chain ch' = on_chain ch \<and> tp_txQueue pool' = []
    \<and> tp_txs pool' = (tp_txs pool) |` (- set (tp_txQueue pool))
    \<and> distinct (map tx_hash_hex new)
    \<and> set new = {t. \<exists>k \<in> set (tp_txQueue pool). tp_txs pool k = Some t \<and> \<not> on_chain ch (tb_Hash (tx_Body t))}"
  using assms
proof (induction n arbitrary: count result pool ch)
  case 0
  then show ?case by (auto simp: restrict_map_def)
next
  case (Suc n)
  show ?case
  proof (cases "tp_txQueue pool")
    case Nil
    then show ?thesis using Suc.prems by (auto simp: restrict_map_def fun_eq_iff)
  next
    case (Cons k rest)
    define pool1 where "pool1 = pool\<lparr>tp_txQueue := rest\<rparr>"
    have p1: "pool_inv pool1" "tp_txQueue pool1 = rest" "tp_txs pool1 = tp_txs pool"
      using Suc.prems(1) by (simp_all add: pool1_def)
    have room: "\<not> count > maxTxPackageCount" "length rest \<le> n" "count + n \<le> maxTxPackageCount"
      "Suc count + n \<le> maxTxPackageCount"
      using Suc.prems(3,4) Cons by auto
    show ?thesis
    proof (cases "tp_txs pool k")
      case None
      then have loop: "package_loop get (Suc n) count result pool ch = package_loop get n count result pool1 ch"
        using Cons room p1 by (simp add: pool1_def Let_def split: option.split)
      have s: "tp_txs pool |` (- set (tp_txQueue pool)) = tp_txs pool1 |` (- set (tp_txQueue pool1))"
        using None Cons by (auto simp: p1 restrict_map_def fun_eq_iff)
      show ?thesis
        using Suc.IH [of pool1 ch count result, OF p1(1) Suc.prems(2)] room p1 None Cons
        unfolding loop s by (auto simp: p1)
    next
      case (Some t)
      have k: "k = tx_hash_hex t" "length (tb_Hash (tx_Body t)) = 32"
        using Suc.prems(1) Some by (auto simp: pool_inv_def)
      define pool2 where "pool2 = delete_tx k pool1"
      have p2: "pool_inv pool2" "tp_txQueue pool2 = rest" "tp_txs pool2 = (tp_txs pool)(k := None)"
        using pool_inv_delete [of pool1 k] p1 Some by (simp_all add: pool2_def) (simp_all add: delete_tx_def p1)
      obtain f ch1 where g: "get ch (tb_Hash (tx_Body t)) = (f, ch1)" by (cases "get ch (tb_Hash (tx_Body t))")
      have f: "f \<noteq> None \<longleftrightarrow> on_chain ch (tb_Hash (tx_Body t))" "on_chain ch1 = on_chain ch" "chain_ok ch1"
        using get_found [OF Suc.prems(2) k(2)] get_keeps [OF Suc.prems(2) k(2)] get_ok [OF Suc.prems(2) k(2)]
          g by (metis fst_conv snd_conv)+
      have loop: "package_loop get (Suc n) count result pool ch =
          (case f of None \<Rightarrow> package_loop get n (Suc count) (result @ [t]) pool2 ch1
           | Some _ \<Rightarrow> package_loop get n count result pool2 ch1)"
        using Cons room Some k g p1
        by (simp add: pool1_def [symmetric] pool2_def Let_def tx_hash_hex_def split: option.split)
      have s: "tp_txs pool |` (- set (tp_txQueue pool)) = tp_txs pool2 |` (- set (tp_txQueue pool2))"
        using Cons by (auto simp: p2 restrict_map_def fun_eq_iff)
      have uniq: "t' = t" if "tp_txs pool k' = Some t'" "tx_hash_hex t' = tx_hash_hex t" for k' t'
        using that Suc.prems(1) Some k by (metis pool_inv_def option.inject)
      show ?thesis
      proof (cases f)
        case None
        obtain new pool' ch' where IH: "package_loop get n (Suc count) (result @ [t]) pool2 ch1
              = Done ((result @ [t]) @ new, pool', ch')"
          "pool_inv pool'" "chain_ok ch'" "on_chain ch' = on_chain ch1" "tp_txQueue pool' = []"
          "tp_txs pool' = (tp_txs pool2) |` (- set (tp_txQueue pool2))"
          "distinct (map tx_hash_hex new)"
          "set new = {t. \<exists>k \<in> set (tp_txQueue pool2). tp_txs pool2 k = Some t \<and> \<not> on_chain ch1 (tb_Hash (tx_Body t))}"
          using Suc.IH [of pool2 ch1 "Suc count" "result @ [t]", OF p2(1) f(3)] room p2(2) by auto
        have "set (t # new) = {t. \<exists>k \<in> set (tp_txQueue pool). tp_txs pool k = Some t
            \<and> \<not> on_chain ch (tb_Hash (tx_Body t))}"
        proof (rule set_eqI)
          fix x
          have "(\<exists>k' \<in> set rest. tp_txs pool2 k' = Some x) \<longleftrightarrow>
              (\<exists>k' \<in> set rest. tp_txs pool k' = Some x \<and> k' \<noteq> k)"
            by (auto simp: p2(3))
          moreover have "x \<noteq> t \<Longrightarrow> tp_txs pool k' = Some x \<Longrightarrow> k' \<noteq> k" for k'
            using \<open>tp_txs pool k = Some t\<close> by auto
          moreover have "\<not> on_chain ch (tb_Hash (tx_Body t))" using f(1) None by simp
          ultimately show "x \<in> set (t # new) \<longleftrightarrow> x \<in> {t. \<exists>k \<in> set (tp_txQueue pool). tp_txs pool k = Some t
            \<and> \<not> on_chain ch (tb_Hash (tx_Body t))}"
            using IH(8) \<open>tp_txs pool k = Some t\<close> f(2) Cons p2(2) by auto
        qed
        moreover have "tx_hash_hex t \<notin> tx_hash_hex ` set new"
        proof
          assume "tx_hash_hex t \<in> tx_hash_hex ` set new"
          then obtain u k' where u: "tx_hash_hex u = tx_hash_hex t" "tp_txs pool2 k' = Some u"
            using IH(8) by auto
          then have "k' \<noteq> k" "tp_txs pool k' = Some u" by (auto simp: p2(3) split: if_splits)
          then show False using u(1) k(1) Suc.prems(1) unfolding pool_inv_def by metis
        qed
        ultimately show ?thesis
          using IH f(2) None unfolding loop s
          by (intro exI [of _ "t # new"] exI [of _ pool'] exI [of _ ch']) auto
      next
        case (Some tx)
        obtain new pool' ch' where IH: "package_loop get n count result pool2 ch1 = Done (result @ new, pool', ch')"
          "pool_inv pool'" "chain_ok ch'" "on_chain ch' = on_chain ch1" "tp_txQueue pool' = []"
          "tp_txs pool' = (tp_txs pool2) |` (- set (tp_txQueue pool2))"
          "distinct (map tx_hash_hex new)"
          "set new = {t. \<exists>k \<in> set (tp_txQueue pool2). tp_txs pool2 k = Some t \<and> \<not> on_chain ch1 (tb_Hash (tx_Body t))}"
          using Suc.IH [of pool2 ch1 count result, OF p2(1) f(3)] room p2(2) by auto
        have "set new = {t. \<exists>k \<in> set (tp_txQueue pool). tp_txs pool k = Some t
            \<and> \<not> on_chain ch (tb_Hash (tx_Body t))}"
        proof (rule set_eqI)
          fix x
          have "(\<exists>k' \<in> set rest. tp_txs pool2 k' = Some x) \<longleftrightarrow>
              (\<exists>k' \<in> set rest. tp_txs pool k' = Some x \<and> k' \<noteq> k)"
            by (auto simp: p2(3))
          moreover have "x \<noteq> t \<Longrightarrow> tp_txs pool k' = Some x \<Longrightarrow> k' \<noteq> k" for k'
            using \<open>tp_txs pool k = Some t\<close> by auto
          moreover have "on_chain ch (tb_Hash (tx_Body t))" using f(1) Some by simp
          ultimately show "x \<in> set new \<longleftrightarrow> x \<in> {t. \<exists>k \<in> set (tp_txQueue pool). tp_txs pool k = Some t
            \<and> \<not> on_chain ch (tb_Hash (tx_Body t))}"
            using IH(8) \<open>tp_txs pool k = Some t\<close> f(2) Cons p2(2) by auto
        qed
        then show ?thesis
          using IH f(2) Some unfolding loop s
          by (intro exI [of _ new] exI [of _ pool'] exI [of _ ch']) auto
      qed
    qed
  qed
qed

lemma range_txs_spec:
  "length q + length ks \<le> maxTxPackageCount \<Longrightarrow> range_txs ks q = Done (q @ ks)"
proof (induction ks arbitrary: q)
  case (Cons k ks)
  then show ?case by (simp add: chan_send_def txQueueSize_def maxTxPackageCount_def)
qed simp

lemma range_txs_bound:
  "length q \<le> maxTxPackageCount \<Longrightarrow> \<exists>q'. range_txs ks q = Done (q @ q') \<and> length (q @ q') \<le> maxTxPackageCount
     \<and> set q' \<subseteq> set ks"
proof (induction ks arbitrary: q)
  case (Cons k ks)
  show ?case
  proof (cases "length q \<ge> maxTxPackageCount")
    case False
    then have "chan_send txQueueSize q k = Done (q @ [k])"
      by (simp add: chan_send_def txQueueSize_def maxTxPackageCount_def)
    moreover obtain q' where "range_txs ks (q @ [k]) = Done ((q @ [k]) @ q')"
      "length ((q @ [k]) @ q') \<le> maxTxPackageCount" "set q' \<subseteq> set ks"
      using Cons.IH [of "q @ [k]"] False by auto
    ultimately show ?thesis using False by (intro exI [of _ "k # q'"]) auto
  qed (use Cons.prems in auto)
qed simp

lemma package_drains:
  assumes "pool_inv pool" and "chain_ok ch"
    and "tp_txQueue pool = []" and "set order = dom (tp_txs pool)" and "length order \<le> 10000"
  shows "\<exists>txs pool' ch'. Package get order pool ch = Done (txs, pool', ch')
    \<and> set txs = {t. (\<exists>k. tp_txs pool k = Some t) \<and> \<not> on_chain ch (tb_Hash (tx_Body t))}
    \<and> distinct (map tx_hash_hex txs) \<and> tp_txs pool' = (\<lambda>_. None) \<and> tp_txQueue pool' = [] \<and> pool_inv pool' \<and> chain_ok ch'"
proof -
  have r: "range_txs order (tp_txQueue pool) = Done order"
    using range_txs_spec [of "[]" order] assms(3,5)
    by (simp add: maxTxPackageCount_def)
  obtain new pool' ch' where l: "package_loop get maxTxPackageCount 0 [] (pool\<lparr>tp_txQueue := order\<rparr>) ch
      = Done ([] @ new, pool', ch')" "pool_inv pool'" "chain_ok ch'" "tp_txQueue pool' = []"
    "tp_txs pool' = tp_txs pool |` (- set order)" "distinct (map tx_hash_hex new)"
    "set new = {t. \<exists>k \<in> set order. tp_txs pool k = Some t \<and> \<not> on_chain ch (tb_Hash (tx_Body t))}"
    using package_loop_spec [of "pool\<lparr>tp_txQueue := order\<rparr>" ch maxTxPackageCount 0 "[]"]
      assms(1,2,5) by (auto simp: maxTxPackageCount_def)
  have "tp_txs pool |` (- set order) = (\<lambda>_. None)" using assms(4) by (auto simp: restrict_map_def fun_eq_iff)
  moreover have "set new = {t. (\<exists>k. tp_txs pool k = Some t) \<and> \<not> on_chain ch (tb_Hash (tx_Body t))}"
    using l(7) assms(4) by (auto simp: dom_def)
  ultimately show ?thesis using r l by (auto simp: Package_def)
qed

end

section \<open>Properties\<close>

text \<open>The pool's counter counts additions, not transactions: adding one transaction again and again
  keeps a single entry but raises the counter, until after 20481 additions the pool accepts
  nothing any more.\<close>

theorem readding_fills_pool:
  assumes "n \<le> 20481"
  shows "tp_count ((Add t ^^ n) (NewTxPool None)) = int n
    \<and> (0 < n \<longrightarrow> tp_txs ((Add t ^^ n) (NewTxPool None)) = [tx_hash_hex t \<mapsto> t])
    \<and> (n = 20481 \<longrightarrow> (\<forall>u. Add u ((Add t ^^ n) (NewTxPool None)) = (Add t ^^ n) (NewTxPool None)))"
proof -
  have "tp_count ((Add t ^^ n) (NewTxPool None)) = int n
    \<and> tp_txs ((Add t ^^ n) (NewTxPool None)) = (if n = 0 then (\<lambda>_. None) else [tx_hash_hex t \<mapsto> t])"
    using assms
  proof (induction n)
    case 0
    then show ?case by (simp add: NewTxPool_def)
  next
    case (Suc n)
    then have "tp_count ((Add t ^^ n) (NewTxPool None)) = int n" "\<not> int n > maxTxPoolSize"
      by (auto simp: maxTxPoolSize_def)
    moreover define x where "x = (Add t ^^ n) (NewTxPool None)"
    ultimately have x: "tp_count x = int n" "\<not> tp_count x > maxTxPoolSize" by simp_all
    have "tp_txs x = (if n = 0 then (\<lambda>_. None) else [tx_hash_hex t \<mapsto> t])" using Suc by (simp add: x_def)
    then have "tp_count (Add t x) = int (Suc n) \<and> tp_txs (Add t x) = [tx_hash_hex t \<mapsto> t]"
      using x by (auto simp: Add_def fun_eq_iff)
    then show ?case by (simp add: x_def)
  qed
  then show ?thesis by (auto simp: Add_def maxTxPoolSize_def)
qed

lemma readding_fills_pool_witness:
  "Add sample_tx ((Add sample_tx ^^ 20481) (NewTxPool None)) = (Add sample_tx ^^ 20481) (NewTxPool None)"
  using readding_fills_pool [of 20481 sample_tx] by simp

end
