(* ===== verification/Merkle.thy ===== *)
theory Merkle
  imports Codec
begin

text \<open>
  core/merkle.go: the Merkle root of a list of transactions. SHA-256 is the argument \<open>sha\<close>.
  The loops are written as the code has them; \<open>tree_root\<close> is the textbook tree they are
  compared with.
\<close>

section \<open>The code\<close>

datatype node = Node (node_data: bytes) (node_left: "node option") (node_right: "node option")

definition zero_node :: node where
  "zero_node = Node [] None None"

definition mergeHash :: "(bytes \<Rightarrow> bytes) \<Rightarrow> node \<Rightarrow> node \<Rightarrow> bytes" where
  "mergeHash sha l r = sha (node_data l @ node_data r)"

text \<open>The inner loop: the level under construction, and the index \<open>j\<close> that goes up by two.\<close>

function level_loop ::
    "(bytes \<Rightarrow> bytes) \<Rightarrow> node list \<Rightarrow> nat \<Rightarrow> node list \<Rightarrow> nat \<Rightarrow> node list" where
  "level_loop sha nodes levelLength level j =
     (if j < levelLength then
        (let n = (if j + 1 \<ge> levelLength
                  then Node (mergeHash sha (nodes ! j) zero_node) (Some (nodes ! j)) (Some zero_node)
                  else Node (mergeHash sha (nodes ! j) (nodes ! (j + 1)))
                         (Some (nodes ! j)) (Some (nodes ! (j + 1))))
         in level_loop sha nodes levelLength (level[j div 2 := n]) (j + 2))
      else level)"
  by pat_completeness auto
termination by (relation "measure (\<lambda>(sha, nodes, m, level, j). m - j)") auto

declare level_loop.simps [simp del]

definition build_level :: "(bytes \<Rightarrow> bytes) \<Rightarrow> node list \<Rightarrow> node list" where
  "build_level sha nodes =
     (let levelLength = length nodes div 2 + (if length nodes mod 2 \<noteq> 0 then 1 else 0)
      in level_loop sha nodes levelLength (replicate levelLength zero_node) 0)"

text \<open>The outer loop, at most \<open>height\<close> times, left when a level has one node.\<close>

fun height_loop :: "(bytes \<Rightarrow> bytes) \<Rightarrow> nat \<Rightarrow> node list \<Rightarrow> node list" where
  "height_loop sha 0 nodes = nodes"
| "height_loop sha (Suc h) nodes =
     (let level = build_level sha nodes in
      if length level = 1 then level else height_loop sha h level)"

text \<open>The integer part of the binary logarithm.\<close>

fun log2 :: "nat \<Rightarrow> nat" where
  "log2 n = (if n < 2 then 0 else Suc (log2 (n div 2)))"

declare log2.simps [simp del]

definition BuildMerkleTree :: "(bytes \<Rightarrow> bytes) \<Rightarrow> Transaction list \<Rightarrow> bytes" where
  "BuildMerkleTree sha txs =
     (if length txs = 0 then replicate 32 0
      else let nodes = map (\<lambda>t. Node (tb_Hash (tx_Body t)) None None) txs;
               height = log2 (length txs) + 1
           in node_data (height_loop sha height nodes ! 0))"

section \<open>The textbook tree\<close>

text \<open>Adjacent nodes are hashed together, the last of an odd number alone, until one is left.\<close>

fun pair_up :: "(bytes \<Rightarrow> bytes) \<Rightarrow> bytes list \<Rightarrow> bytes list" where
  "pair_up sha (x # y # zs) = sha (x @ y) # pair_up sha zs"
| "pair_up sha [x] = [sha x]"
| "pair_up sha [] = []"

lemma length_pair_up [simp]: "length (pair_up sha xs) = (length xs + 1) div 2"
  by (induction sha xs rule: pair_up.induct) auto

function tree_root :: "(bytes \<Rightarrow> bytes) \<Rightarrow> bytes list \<Rightarrow> bytes" where
  "tree_root sha [] = []"
| "tree_root sha [x] = x"
| "tree_root sha (x # y # zs) = tree_root sha (pair_up sha (x # y # zs))"
  by pat_completeness auto
termination by (relation "measure (length \<circ> snd)") auto

lemma tree_root_step: "2 \<le> length xs \<Longrightarrow> tree_root sha xs = tree_root sha (pair_up sha xs)"
  by (cases "(sha, xs)" rule: tree_root.cases) simp_all

section \<open>One level\<close>

lemma length_level_loop [simp]:
  "length (level_loop sha nodes m level j) = length level"
proof (induction sha nodes m level j rule: level_loop.induct)
  case (1 sha nodes m level j)
  show ?case
    by (subst level_loop.simps) (use 1 in \<open>simp add: Let_def\<close>)
qed

lemma nth_pair_up: "i < (length xs + 1) div 2 \<Longrightarrow>
    pair_up sha xs ! i = sha (xs ! (2 * i) @ (if 2 * i + 1 < length xs then xs ! (2 * i + 1) else []))"
proof (induction sha xs arbitrary: i rule: pair_up.induct)
  case (1 sha x y zs)
  then show ?case by (cases i) auto
qed auto

lemma level_loop_done: "\<not> j < m \<Longrightarrow> level_loop sha nodes m level j = level"
  by (subst level_loop.simps) simp

lemma level_loop_nth:
  assumes "even j" and "length level = m" and "i < m"
  shows "node_data (level_loop sha nodes m level j ! i) =
     (if j \<le> 2 * i \<and> 2 * i < m
      then sha (node_data (nodes ! (2 * i)) @ (if 2 * i + 1 < m then node_data (nodes ! (2 * i + 1)) else []))
      else node_data (level ! i))"
  using assms
proof (induction sha nodes m level j rule: level_loop.induct)
  case (1 sha nodes m level j)
  define n where "n = (if j + 1 \<ge> m
      then Node (mergeHash sha (nodes ! j) zero_node) (Some (nodes ! j)) (Some zero_node)
      else Node (mergeHash sha (nodes ! j) (nodes ! (j + 1))) (Some (nodes ! j)) (Some (nodes ! (j + 1))))"
  show ?case
  proof (cases "j < m")
    case False
    then have "\<not> (j \<le> 2 * i \<and> 2 * i < m)" by simp
    then show ?thesis unfolding level_loop_done [OF False] by (simp only: if_False)
  next
    case True
    have loop: "level_loop sha nodes m level j = level_loop sha nodes m (level[j div 2 := n]) (j + 2)"
      by (subst level_loop.simps) (simp add: True n_def)
    have IH: "node_data (level_loop sha nodes m (level[j div 2 := n]) (j + 2) ! i) =
     (if j + 2 \<le> 2 * i \<and> 2 * i < m
      then sha (node_data (nodes ! (2 * i)) @ (if 2 * i + 1 < m then node_data (nodes ! (2 * i + 1)) else []))
      else node_data (level[j div 2 := n] ! i))"
      using "1.IH" [OF True n_def] "1.prems" by simp
    have data: "node_data n = sha (node_data (nodes ! j) @ (if j + 1 < m then node_data (nodes ! (j + 1)) else []))"
      by (simp add: n_def mergeHash_def zero_node_def)
    show ?thesis
    proof (cases "i = j div 2")
      case True
      with "1.prems"(1) have "2 * i = j" by simp
      with True \<open>j < m\<close> show ?thesis using "1.prems"(2,3) unfolding loop IH by (simp add: data)
    next
      case False
      then have "j + 2 \<le> 2 * i \<longleftrightarrow> j \<le> 2 * i" using "1.prems"(1) by (auto elim!: evenE)
      then show ?thesis unfolding loop IH using False by simp
    qed
  qed
qed

text \<open>
  The index ends at half the level it reads: the first half of the nodes is paired up, and the
  rest of the new level stays zero.
\<close>

definition half :: "nat \<Rightarrow> nat" where
  "half n = (n + 1) div 2"

lemma half_code: "n div 2 + (if n mod 2 \<noteq> 0 then 1 else 0) = half n"
  by (cases "even n") (auto simp: half_def elim!: evenE oddE)

lemma build_level_half:
  "build_level sha nodes =
     level_loop sha nodes (half (length nodes)) (replicate (half (length nodes)) zero_node) 0"
  unfolding build_level_def Let_def half_code by (rule refl)

lemma length_build_level [simp]: "length (build_level sha nodes) = half (length nodes)"
  by (simp add: build_level_half)

lemma half_le: "half n \<le> n"
  by (auto simp: half_def)

lemma build_level_data:
  "map node_data (build_level sha nodes) =
     (let m = half (length nodes); used = pair_up sha (take m (map node_data nodes))
      in used @ replicate (m - half m) [])"
proof -
  define m where "m = half (length nodes)"
  have m: "m \<le> length nodes" by (simp add: m_def half_le)
  have "map node_data (build_level sha nodes)
      = pair_up sha (take m (map node_data nodes)) @ replicate (m - half m) []"
  proof (rule nth_equalityI)
    show "length (map node_data (build_level sha nodes)) =
        length (pair_up sha (take m (map node_data nodes)) @ replicate (m - half m) [])"
      using m half_le [of m] by (simp add: m_def) (simp add: half_def)
  next
    fix i assume "i < length (map node_data (build_level sha nodes))"
    then have i: "i < m" by (simp add: m_def)
    have level: "map node_data (build_level sha nodes) ! i =
       (if 2 * i < m then sha (node_data (nodes ! (2 * i)) @
           (if 2 * i + 1 < m then node_data (nodes ! (2 * i + 1)) else [])) else [])"
      using i level_loop_nth [of 0 "replicate m zero_node" m i sha nodes]
      by (simp add: build_level_half m_def [symmetric] zero_node_def)
    show "map node_data (build_level sha nodes) ! i
        = (pair_up sha (take m (map node_data nodes)) @ replicate (m - half m) []) ! i"
    proof (cases "2 * i < m")
      case True
      then have h: "i < half m" by (auto simp: half_def)
      have len: "length (pair_up sha (take m (map node_data nodes))) = half m"
        using m by (simp add: half_def)
      have "pair_up sha (take m (map node_data nodes)) ! i =
          sha (node_data (nodes ! (2 * i)) @ (if 2 * i + 1 < m then node_data (nodes ! (2 * i + 1)) else []))"
        using nth_pair_up [of i "take m (map node_data nodes)" sha] h m True
        by (auto simp: half_def)
      then show ?thesis unfolding level nth_append len using h True by simp
    next
      case False
      then have h: "\<not> i < half m" by (auto simp: half_def)
      have len: "length (pair_up sha (take m (map node_data nodes))) = half m"
        using m by (simp add: half_def)
      show ?thesis unfolding level nth_append len using h False i by simp
    qed
  qed
  then show ?thesis by (simp add: Let_def m_def)
qed

section \<open>All levels\<close>

lemma half_less: "2 \<le> n \<Longrightarrow> half n < n"
  by (auto simp: half_def)

lemma half_pow: "n \<le> 2 ^ Suc h \<Longrightarrow> half n \<le> 2 ^ h"
  by (auto simp: half_def)

lemma less_log2: "n < 2 ^ (log2 n + 1)"
proof (induction n rule: log2.induct)
  case (1 n)
  show ?case
  proof (cases "n < 2")
    case False
    with 1 have "n div 2 < 2 ^ (log2 (n div 2) + 1)" by blast
    then show ?thesis using False by (simp add: log2.simps [of n])
  qed (simp add: log2.simps [of n])
qed

text \<open>
  Once a level has its real nodes in its first half, the loop computes the textbook tree over
  them, one hash on top.
\<close>

lemma height_loop_root:
  assumes "1 \<le> length nodes" and "length nodes \<le> 2 ^ Suc h"
    and "take (half (length nodes)) (map node_data nodes) = real"
  shows "\<exists>n. height_loop sha (Suc h) nodes = [n] \<and> node_data n = sha (tree_root sha real)"
  using assms
proof (induction h arbitrary: nodes real)
  case 0
  have half1: "half (length nodes) = 1" using 0 by (auto simp: half_def)
  then have "length real = 1" using 0(1,3) by auto
  then obtain x where x: "real = [x]" by (cases real) auto
  have "map node_data (build_level sha nodes) = [sha x]"
    unfolding build_level_data half1 Let_def using 0(3) x unfolding half1 by (simp add: half_def)
  then obtain y where "build_level sha nodes = [y]" "node_data y = sha x"
    by (cases "build_level sha nodes") auto
  then show ?case by (simp add: x)
next
  case (Suc h)
  define level where "level = build_level sha nodes"
  define m where "m = half (length nodes)"
  have real: "length real = m" using Suc.prems(3) half_le [of "length nodes"] by (auto simp: m_def)
  have data: "map node_data level = pair_up sha real @ replicate (m - half m) []"
    using build_level_data [of sha nodes] Suc.prems(3) by (simp add: Let_def m_def level_def)
  have len: "length level = m" by (simp add: level_def m_def)
  have m1: "1 \<le> m" using Suc.prems(1) by (simp add: m_def half_def)
  show ?case
  proof (cases "m = 1")
    case True
    then obtain x where x: "real = [x]" using real by (cases real) auto
    with data True have d: "map node_data level = [sha x]" by (simp add: half_def)
    then obtain y where "level = [y]" "node_data y = sha x" by (cases level) auto
    then show ?thesis using True len x by (simp add: level_def [symmetric] Let_def)
  next
    case False
    have "length level \<le> 2 ^ Suc h" using half_pow [of "length nodes" "Suc h"] Suc.prems(2)
      by (simp add: len m_def)
    moreover have "take (half (length level)) (map node_data level) = pair_up sha real"
      using real data by (simp add: len half_def)
    ultimately obtain n where "height_loop sha (Suc h) level = [n]"
        "node_data n = sha (tree_root sha (pair_up sha real))"
      using Suc.IH [of level "pair_up sha real"] m1 len by auto
    moreover have "tree_root sha real = tree_root sha (pair_up sha real)"
      by (rule tree_root_step) (use real m1 False in simp)
    moreover have "height_loop sha (Suc (Suc h)) nodes = height_loop sha (Suc h) level"
      using False len by (simp only: height_loop.simps(2) [of sha "Suc h"]) (simp add: level_def Let_def)
    ultimately show ?thesis by simp
  qed
qed

lemma root_first_half:
  assumes "txs \<noteq> []"
  shows "BuildMerkleTree sha txs =
     sha (tree_root sha (map (\<lambda>t. tb_Hash (tx_Body t)) (take ((length txs + 1) div 2) txs)))"
proof -
  define nodes where "nodes = map (\<lambda>t. Node (tb_Hash (tx_Body t)) None None) txs"
  have "take (half (length nodes)) (map node_data nodes)
      = map (\<lambda>t. tb_Hash (tx_Body t)) (take ((length txs + 1) div 2) txs)"
    by (simp add: nodes_def half_def take_map)
  moreover have "1 \<le> length nodes" using assms by (cases txs) (auto simp: nodes_def)
  moreover have "length nodes \<le> 2 ^ Suc (log2 (length txs))"
    using less_log2 [of "length txs"] by (simp add: nodes_def)
  ultimately obtain n where "height_loop sha (Suc (log2 (length txs))) nodes = [n]"
    "node_data n = sha (tree_root sha (map (\<lambda>t. tb_Hash (tx_Body t)) (take ((length txs + 1) div 2) txs)))"
    using height_loop_root by blast
  then show ?thesis using assms by (simp add: BuildMerkleTree_def nodes_def Let_def)
qed

lemma length_BuildMerkleTree:
  "(\<And>x. length (sha x) = 32) \<Longrightarrow> length (BuildMerkleTree sha txs) = 32"
  by (cases "txs = []") (simp_all add: root_first_half, simp add: BuildMerkleTree_def)

definition tx_hash_at :: "byte \<Rightarrow> Transaction" where
  "tx_hash_at b = \<lparr>tx_Body = (tx_Body sample_tx)\<lparr>tb_Hash := replicate 32 b\<rparr>\<rparr>"

text \<open>C24: The root the code computes is the textbook Merkle root over the first half (rounded up)
  of the transactions' hashes, hashed once more. So the tree is well defined for every list of
  transactions, and the transactions of the second half have no part in it.\<close>

theorem merkle_root_of_first_half:
  assumes "txs \<noteq> []"
  shows "BuildMerkleTree sha txs =
     sha (tree_root sha (map (\<lambda>t. tb_Hash (tx_Body t)) (take ((length txs + 1) div 2) txs)))"
  using assms by (rule root_first_half)

lemma merkle_root_of_first_half_witness:
  "BuildMerkleTree rev [tx_hash_at 1, tx_hash_at 2, tx_hash_at 3] =
     rev (rev (replicate 32 1 @ replicate 32 2))"
  by (subst merkle_root_of_first_half) (simp_all add: tx_hash_at_def)

end
