(* ===== verification/Chain.thy ===== *)
theory Chain
  imports Buffer DataProcessor TxPool Merkle
begin

text \<open>
  core/blockchain.go: the chain over the database, its caches, the block buffer and the queue of
  data tasks. What the code gets from outside (database, caches, serialisation, digest) is the
  environment; the singletons (transaction pool, calculator) are passed along, \<open>None\<close> while they
  are not created.
\<close>

section \<open>State\<close>

definition maxBlockCache :: nat where "maxBlockCache = 64"
definition maxTransactionCache :: nat where "maxTransactionCache = 40960"

record ('d, 'h, 'b, 't, 's, 'w) chain_env =
  ce_db :: "'d db_ops"
  ce_heights :: "('h, int, bytes) lru_ops"
  ce_blocks :: "('b, string, Block) lru_ops"
  ce_txs :: "('t, string, Transaction) lru_ops"
  ce_seen :: "'s lru_set"
  ce_karmem :: "'w karmem_ops"
  ce_sha :: "bytes \<Rightarrow> bytes"

record ('d, 'h, 'b, 't, 's) BlockChain =
  ch_db :: 'd
  ch_blockHeightMap :: 'h
  ch_blockCache :: 'b
  ch_txCache :: 't
  ch_latestBlock :: "Block option"
  ch_latestHeight :: int
  ch_bufferChan :: "Block list"
  ch_buffer :: "'s BlockBuffer option"
  ch_dp :: DataProcessor
  ch_genesisParams :: "GenesisParams option"
  ch_genesisTime :: int

text \<open>The chain with the two singletons its handlers change.\<close>

type_synonym ('d, 'h, 'b, 't, 's) chain_state =
  "('d, 'h, 'b, 't, 's) BlockChain \<times> TxPool option \<times> Calculator option"

section \<open>Reading\<close>

definition isPrevBlock :: "Block \<Rightarrow> Block \<Rightarrow> bool" where
  "isPrevBlock prev block \<longleftrightarrow> bh_BlockHash (blk_Header prev) = bh_PrevBlockHash (blk_Header block)"

definition writeBlockCache ::
    "('d, 'h, 'b, 't, 's, 'w) chain_env \<Rightarrow> Block \<Rightarrow> ('d, 'h, 'b, 't, 's) BlockChain
       \<Rightarrow> ('d, 'h, 'b, 't, 's) BlockChain" where
  "writeBlockCache E block ch =
     ch\<lparr>ch_blockHeightMap := lru_add (ce_heights E) (ch_blockHeightMap ch) (blk_Height block)
          (bh_BlockHash (blk_Header block)),
        ch_blockCache := lru_add (ce_blocks E) (ch_blockCache ch) (BlockHash block) block\<rparr>"

definition writeTxCache ::
    "('d, 'h, 'b, 't, 's, 'w) chain_env \<Rightarrow> Transaction \<Rightarrow> ('d, 'h, 'b, 't, 's) BlockChain
       \<Rightarrow> ('d, 'h, 'b, 't, 's) BlockChain" where
  "writeTxCache E t ch = ch\<lparr>ch_txCache := lru_add (ce_txs E) (ch_txCache ch) (tx_hash_hex t) t\<rparr>"

definition GetBlockByHash ::
    "('d, 'h, 'b, 't, 's, 'w) chain_env \<Rightarrow> bytes \<Rightarrow> ('d, 'h, 'b, 't, 's) BlockChain
       \<Rightarrow> (db_error + Block) \<times> ('d, 'h, 'b, 't, 's) BlockChain" where
  "GetBlockByHash E hash ch =
     (case lru_get (ce_blocks E) (ch_blockCache ch) (hex_encode hash) of
        (Some block, c) \<Rightarrow> (Inr block, ch\<lparr>ch_blockCache := c\<rparr>)
      | (None, c) \<Rightarrow>
          (case db_Get (ce_db E) (ch_db ch) (BlockHash2DBKey hash) of
             Inl err \<Rightarrow> (Inl err, ch\<lparr>ch_blockCache := c\<rparr>)
           | Inr byteBlockData \<Rightarrow>
               (let block = DeserializeBlock (ce_karmem E) byteBlockData
                in (Inr block, writeBlockCache E block (ch\<lparr>ch_blockCache := c\<rparr>)))))"

definition GetLatestBlock ::
    "('d, 'h, 'b, 't, 's, 'w) chain_env \<Rightarrow> ('d, 'h, 'b, 't, 's) BlockChain
       \<Rightarrow> ((db_error + Block) \<times> ('d, 'h, 'b, 't, 's) BlockChain) outcome" where
  "GetLatestBlock E ch =
     (case ch_latestBlock ch of
        Some b \<Rightarrow> Done (Inr b, ch)
      | None \<Rightarrow>
          (case db_Get (ce_db E) (ch_db ch) latest_key of
             Inl err \<Rightarrow> Done (Inl err, ch)
           | Inr latestBlockHash \<Rightarrow>
               bindO (to_array 32 latestBlockHash) (\<lambda>blockHash.
                 case GetBlockByHash E blockHash ch of
                   (Inl err, ch1) \<Rightarrow> Done (Inl err, ch1)
                 | (Inr block, ch1) \<Rightarrow>
                     Done (Inr block, ch1\<lparr>ch_latestBlock := Some block, ch_latestHeight := blk_Height block\<rparr>))))"

definition GetBlockByHeight ::
    "('d, 'h, 'b, 't, 's, 'w) chain_env \<Rightarrow> int \<Rightarrow> ('d, 'h, 'b, 't, 's) BlockChain
       \<Rightarrow> ((db_error + Block) \<times> ('d, 'h, 'b, 't, 's) BlockChain) outcome" where
  "GetBlockByHeight E height ch =
     (if height > ch_latestHeight ch \<and> ch_latestHeight ch \<noteq> -1
      then Done (Inl (ErrStore ''Block height error.''), ch)
      else case lru_get (ce_heights E) (ch_blockHeightMap ch) height of
        (Some blockHash, c) \<Rightarrow> Done (GetBlockByHash E blockHash (ch\<lparr>ch_blockHeightMap := c\<rparr>))
      | (None, c) \<Rightarrow>
          (let ch1 = ch\<lparr>ch_blockHeightMap := c\<rparr> in
           case db_Get (ce_db E) (ch_db ch1) (BlockHeight2DBKey height) of
             Inl err \<Rightarrow> Done (Inl err, ch1)
           | Inr blockHash \<Rightarrow>
               bindO (to_array 32 blockHash) (\<lambda>hash. Done (GetBlockByHash E hash ch1))))"

definition GetTransactionByHash ::
    "('d, 'h, 'b, 't, 's, 'w) chain_env \<Rightarrow> bytes \<Rightarrow> ('d, 'h, 'b, 't, 's) BlockChain
       \<Rightarrow> (db_error + Transaction) \<times> ('d, 'h, 'b, 't, 's) BlockChain" where
  "GetTransactionByHash E hash ch =
     (case lru_get (ce_txs E) (ch_txCache ch) (hex_encode hash) of
        (Some t, c) \<Rightarrow> (Inr t, ch\<lparr>ch_txCache := c\<rparr>)
      | (None, c) \<Rightarrow>
          (case db_Get (ce_db E) (ch_db ch) (TxHash2DBKey hash) of
             Inl err \<Rightarrow> (Inl err, ch\<lparr>ch_txCache := c\<rparr>)
           | Inr byteTransactionData \<Rightarrow>
               (let t = DeserializeTransaction (ce_karmem E) byteTransactionData
                in (Inr t, writeTxCache E t (ch\<lparr>ch_txCache := c\<rparr>)))))"

definition ReadAddressData ::
    "('d, 'h, 'b, 't, 's, 'w) chain_env \<Rightarrow> string \<Rightarrow> string \<Rightarrow> ('d, 'h, 'b, 't, 's) BlockChain
       \<Rightarrow> db_error + bytes" where
  "ReadAddressData E address key ch =
     (case hex_decode address of
        None \<Rightarrow> Inl (ErrStore ''encoding/hex'')
      | Some addr \<Rightarrow> db_Get (ce_db E) (ch_db ch) (DataAddressKey2DBKey addr (bytes_of_string key)))"

definition Height :: "('d, 'h, 'b, 't, 's) BlockChain \<Rightarrow> int" where
  "Height ch = ch_latestHeight ch"

definition BufferedHeight :: "('d, 'h, 'b, 't, 's) BlockChain \<Rightarrow> int" where
  "BufferedHeight ch = (case ch_buffer ch of None \<Rightarrow> 0 | Some b \<Rightarrow> bf_bufferedHeight b)"

definition BufferFull :: "('d, 'h, 'b, 't, 's) BlockChain \<Rightarrow> bool" where
  "BufferFull ch = (case ch_buffer ch of None \<Rightarrow> False | Some b \<Rightarrow> bf_bufferFull b)"

section \<open>Inserting\<close>

definition createBlockBuffer ::
    "('d, 'h, 'b, 't, 's, 'w) chain_env \<Rightarrow> Block \<Rightarrow> ('d, 'h, 'b, 't, 's) BlockChain
       \<Rightarrow> ('d, 'h, 'b, 't, 's) BlockChain" where
  "createBlockBuffer E latest ch = ch\<lparr>ch_buffer := Some (NewBlockBuffer (ce_seen E) latest)\<rparr>"

definition genesisInitialization ::
    "('d, 'h, 'b, 't, 's, 'w) chain_env \<Rightarrow> Block option
       \<Rightarrow> ('d, 'h, 'b, 't, 's) BlockChain \<times> Calculator option
       \<Rightarrow> ('d, 'h, 'b, 't, 's) BlockChain \<times> Calculator option" where
  "genesisInitialization E block s =
     (case s of (ch, calc) \<Rightarrow>
       (case block of
          None \<Rightarrow> (ch, calc)
        | Some block \<Rightarrow>
           (let genesisParams = DeserializeGenesisParams (ce_karmem E) (bh_Params (blk_Header block));
                pp = be_dec (gp_VerifyParam genesisParams);
                ord = be_dec (gp_Order genesisParams)
            in (ch\<lparr>ch_genesisParams := Some genesisParams, ch_genesisTime := bh_Timestamp (blk_Header block)\<rparr>,
                CalculatorInitialization calc pp ord (nat (gp_TimeParam genesisParams))))))"

text \<open>The copy of a transaction that is stored: it knows its place in the chain.\<close>

definition placed_tx :: "Block \<Rightarrow> nat \<Rightarrow> Transaction \<Rightarrow> Transaction" where
  "placed_tx block idx t =
     \<lparr>tx_Body = (tx_Body t)\<lparr>tb_Height := blk_Height block, tb_BlockHash := bh_BlockHash (blk_Header block),
        tb_Index := i64 (int idx)\<rparr>\<rparr>"

definition tx_task :: "'w karmem_ops \<Rightarrow> Block \<Rightarrow> Transaction \<Rightarrow> DataTask option" where
  "tx_task K block t =
     (if tb_Data (tx_Body t) = [] then None
      else let dc = DeserializeDataCommand K (tb_Data (tx_Body t));
               opt = string_of_bytes (dc_Opt dc)
           in if opt = ''set'' \<or> opt = ''append''
              then Some \<lparr>dt_Type = opt, dt_Hash = tb_Hash (tx_Body t), dt_Height = blk_Height block,
                     dt_Address = tb_Receiver (tx_Body t), dt_Key = dc_Key dc, dt_Value = dc_Value dc\<rparr>
              else None)"

text \<open>
  The loop over the transactions. It returns the keys and values written so far, and whether it got
  to the end: an encoding error leaves the function.
\<close>

fun insert_txs ::
    "'w karmem_ops \<Rightarrow> Block \<Rightarrow> nat \<Rightarrow> Transaction list \<Rightarrow> bytes list \<times> bytes list \<Rightarrow> TxPool option \<Rightarrow> DataProcessor
       \<Rightarrow> (bool \<times> (bytes list \<times> bytes list) \<times> TxPool option \<times> DataProcessor) outcome" where
  "insert_txs K block idx [] kv pool dp = Done (True, kv, pool, dp)"
| "insert_txs K block idx (t # ts) kv pool dp =
     (case pool of
        None \<Rightarrow> Panics
      | Some p \<Rightarrow>
         (let tx = placed_tx block idx t;
              pool1 = Some (RemoveTx (tb_Hash (tx_Body tx)) p)
          in case SerializeTransaction K tx of
               None \<Rightarrow> Done (False, kv, pool1, dp)
             | Some bs \<Rightarrow>
                 (let kv1 = (fst kv @ [TxHash2DBKey (tb_Hash (tx_Body tx))], snd kv @ [bs]) in
                  bindO (case tx_task K block tx of
                           None \<Rightarrow> Done dp
                         | Some task \<Rightarrow>
                             bindO (chan_send taskChannelSize (dp_taskChannel dp) task)
                               (\<lambda>q. Done (dp\<lparr>dp_taskChannel := q\<rparr>)))
                    (\<lambda>dp1. insert_txs K block (Suc idx) ts kv1 pool1 dp1))))"

text \<open>What is left to do once the block is known to extend the chain.\<close>

definition store_block ::
    "('d, 'h, 'b, 't, 's, 'w) chain_env \<Rightarrow> Block \<Rightarrow> ('d, 'h, 'b, 't, 's) chain_state
       \<Rightarrow> ('d, 'h, 'b, 't, 's) chain_state outcome" where
  "store_block E block s =
     (case s of (ch, pool, calc) \<Rightarrow>
       if blk_Height block \<le> ch_latestHeight ch then Done (ch, pool, calc)
       else let ch1 = writeBlockCache E block
                  (ch\<lparr>ch_latestBlock := Some block, ch_latestHeight := blk_Height block\<rparr>);
                hash = bh_BlockHash (blk_Header block)
         in case SerializeBlock (ce_karmem E) block of
              None \<Rightarrow> Done (ch1, pool, calc)
            | Some bs \<Rightarrow>
                bindO (insert_txs (ce_karmem E) block 0 (blk_Transactions block)
                    ([BlockHash2DBKey hash, latest_key, BlockHeight2DBKey (blk_Height block)], [bs, hash, hash])
                    pool (ch_dp ch1))
                (\<lambda>(finished, (keys, vals), pool1, dp1).
                   let ch2 = ch1\<lparr>ch_dp := dp1\<rparr> in
                   if \<not> finished then Done (ch2, pool1, calc)
                   else let ch3 = ch2\<lparr>ch_db := snd (db_BatchInsert (ce_db E) (ch_db ch2) keys vals)\<rparr> in
                     if blk_Height block = 0
                     then (case calc of
                             None \<Rightarrow> Panics
                           | Some c \<Rightarrow>
                               bindO (AppendNewSeed (be_dec (gp_Seed (DeserializeGenesisParams (ce_karmem E)
                                        (bh_Params (blk_Header block))))) 0 c)
                                 (\<lambda>c'. Done (ch3, pool1, Some c')))
                     else Done (ch3, pool1, calc)))"

definition insertBlock ::
    "('d, 'h, 'b, 't, 's, 'w) chain_env \<Rightarrow> Block \<Rightarrow> ('d, 'h, 'b, 't, 's) chain_state
       \<Rightarrow> ('d, 'h, 'b, 't, 's) chain_state outcome" where
  "insertBlock E block s =
     (case s of (ch, pool, calc) \<Rightarrow>
       (case GetBlockByHash E (bh_BlockHash (blk_Header block)) ch of
          (Inr _, ch1) \<Rightarrow> Done (ch1, pool, calc)
        | (Inl _, ch1) \<Rightarrow>
            bindO (GetLatestBlock E ch1) (\<lambda>(latest, ch2).
              if \<not> IsGenesisBlock block
              then (case latest of
                      Inl _ \<Rightarrow> Done (ch2, pool, calc)
                    | Inr latestBlock \<Rightarrow>
                        if \<not> isPrevBlock latestBlock block then Done (ch2, pool, calc)
                        else store_block E block (ch2, pool, calc))
              else (case genesisInitialization E (Some block) (createBlockBuffer E block ch2, calc) of
                      (ch3, calc1) \<Rightarrow> store_block E block (ch3, pool, calc1)))))"

definition AppendBlockTask ::
    "('d, 'h, 'b, 't, 's, 'w) chain_env \<Rightarrow> Block \<Rightarrow> ('d, 'h, 'b, 't, 's) chain_state
       \<Rightarrow> ('d, 'h, 'b, 't, 's) chain_state outcome" where
  "AppendBlockTask E block s =
     (if IsGenesisBlock block then insertBlock E block s
      else case s of (ch, pool, calc) \<Rightarrow>
        (case ch_buffer ch of
           None \<Rightarrow> Panics
         | Some b \<Rightarrow> bindO (AppendBlock block b) (\<lambda>b'. Done (ch\<lparr>ch_buffer := Some b'\<rparr>, pool, calc))))"

definition InsertBlock ::
    "Block \<Rightarrow> ('d, 'h, 'b, 't, 's) BlockChain \<Rightarrow> ('d, 'h, 'b, 't, 's) BlockChain outcome" where
  "InsertBlock block ch =
     bindO (chan_send bufferChanSize (ch_bufferChan ch) block) (\<lambda>q. Done (ch\<lparr>ch_bufferChan := q\<rparr>))"

definition BlockProcessRoutine ::
    "('d, 'h, 'b, 't, 's, 'w) chain_env \<Rightarrow> ('d, 'h, 'b, 't, 's) chain_state
       \<Rightarrow> ('d, 'h, 'b, 't, 's) chain_state outcome" where
  "BlockProcessRoutine E s =
     (case s of (ch, pool, calc) \<Rightarrow>
       (case ch_bufferChan ch of
          [] \<Rightarrow> Blocks
        | block # rest \<Rightarrow> insertBlock E block (ch\<lparr>ch_bufferChan := rest\<rparr>, pool, calc)))"

section \<open>Creating chains and blocks\<close>

definition NewBlockchain ::
    "('d, 'h, 'b, 't, 's, 'w) chain_env \<Rightarrow> 'd \<Rightarrow> Calculator option
       \<Rightarrow> (('d, 'h, 'b, 't, 's) BlockChain \<times> Calculator option) outcome" where
  "NewBlockchain E db calc =
     (let chain = \<lparr>ch_db = db, ch_blockHeightMap = lru_new (ce_heights E) maxBlockCache,
            ch_blockCache = lru_new (ce_blocks E) maxBlockCache,
            ch_txCache = lru_new (ce_txs E) maxTransactionCache, ch_latestBlock = None,
            ch_latestHeight = -1, ch_bufferChan = [], ch_buffer = None, ch_dp = NewDataProcessor,
            ch_genesisParams = None, ch_genesisTime = 0\<rparr>
      in bindO (GetLatestBlock E chain) (\<lambda>(latest, ch1).
           case latest of
             Inl _ \<Rightarrow> Done (ch1, calc)
           | Inr b \<Rightarrow>
               bindO (GetBlockByHeight E 0 (createBlockBuffer E b ch1)) (\<lambda>(genesis, ch2).
                 Done (genesisInitialization E (case genesis of Inl _ \<Rightarrow> None | Inr g \<Rightarrow> Some g) (ch2, calc)))))"

text \<open>
  A new block on the best leaf below the current height; \<open>pub\<close> is the configured public key. The
  header is hashed while its hash is zero.
\<close>

definition PackageNewBlock ::
    "('d, 'h, 'b, 't, 's, 'w) chain_env \<Rightarrow> string \<Rightarrow> Transaction list \<Rightarrow> int \<Rightarrow> GeneralParams \<Rightarrow> int
       \<Rightarrow> ('d, 'h, 'b, 't, 's) BlockChain \<Rightarrow> (string + Block) outcome" where
  "PackageNewBlock E pub txs timestamp params packageInterval ch =
     (case SerializeGeneralParams (ce_karmem E) params of
        None \<Rightarrow> Done (Inl ''Serialize params failed while package block.'')
      | Some paramsBytes \<Rightarrow>
         if packageInterval = 0 then Panics
         else let nowHeight = i64 (go_div (go_div (i64 (timestamp - ch_genesisTime ch)) 1000) packageInterval + 1)
         in case ch_buffer ch of
              None \<Rightarrow> Panics
            | Some buffer \<Rightarrow>
               (let bestBlock = GetPriorityLeaf buffer nowHeight in
                case hex_decode pub of
                  None \<Rightarrow> Done (Inl ''Get public key from config failed.'')
                | Some publicKey \<Rightarrow>
                    bindO (to_array 32 (BuildMerkleTree (ce_sha E) txs)) (\<lambda>merkleRoot.
                    bindO (to_array 33 publicKey) (\<lambda>key.
                      let header = \<lparr>bh_Timestamp = timestamp,
                            bh_PrevBlockHash = bh_BlockHash (blk_Header bestBlock),
                            bh_BlockHash = replicate 32 0, bh_MerkleRoot = merkleRoot,
                            bh_Height = i64 (blk_Height bestBlock + 1), bh_PublicKey = key,
                            bh_Params = paramsBytes, bh_GasLimit = 0\<rparr>
                      in case SerializeBlockHeader (ce_karmem E) header of
                           None \<Rightarrow> Done (Inl ''Serialize block header failed.'')
                         | Some byteBlockHeaderData \<Rightarrow>
                             bindO (to_array 32 (ce_sha E byteBlockHeaderData)) (\<lambda>blockHash.
                               Done (Inr \<lparr>blk_Header = header\<lparr>bh_BlockHash := blockHash\<rparr>,
                                          blk_Transactions = txs\<rparr>))))))"

definition genesis_block ::
    "('d, 'h, 'b, 't, 's, 'w) chain_env \<Rightarrow> int \<Rightarrow> bytes \<Rightarrow> bytes \<Rightarrow> Block option outcome" where
  "genesis_block E now publicKey paramsBytes =
     bindO (to_array 33 publicKey) (\<lambda>key.
       let header = \<lparr>bh_Timestamp = now, bh_PrevBlockHash = replicate 32 0, bh_BlockHash = replicate 32 0,
             bh_MerkleRoot = replicate 32 0, bh_Height = 0, bh_PublicKey = key, bh_Params = paramsBytes,
             bh_GasLimit = 0\<rparr>
       in case SerializeBlockHeader (ce_karmem E) header of
            None \<Rightarrow> Done None
          | Some byteBlockHeaderData \<Rightarrow>
              bindO (to_array 32 (ce_sha E byteBlockHeaderData)) (\<lambda>blockHash.
                Done (Some \<lparr>blk_Header = header\<lparr>bh_BlockHash := blockHash\<rparr>, blk_Transactions = []\<rparr>)))"

text \<open>\<open>params\<close> is what GenerateGenesisParams gave.\<close>

definition NewGenesisBlock ::
    "('d, 'h, 'b, 't, 's, 'w) chain_env \<Rightarrow> string \<Rightarrow> int \<Rightarrow> (string + GenesisParams) outcome
       \<Rightarrow> ('d, 'h, 'b, 't, 's) chain_state \<Rightarrow> ('d, 'h, 'b, 't, 's) chain_state outcome" where
  "NewGenesisBlock E pub now params s =
     (case s of (ch, pool, calc) \<Rightarrow>
       bindO (GetBlockByHeight E 0 ch) (\<lambda>(block, ch1).
         case block of
           Inr _ \<Rightarrow> Done (ch1, pool, calc)
         | Inl _ \<Rightarrow>
             (case hex_decode pub of
                None \<Rightarrow> Done (ch1, pool, calc)
              | Some publicKey \<Rightarrow>
                  bindO params (\<lambda>genesis.
                    case genesis of
                      Inl _ \<Rightarrow> Done (ch1, pool, calc)
                    | Inr genesisParams \<Rightarrow>
                        (case SerializeGenesisParams (ce_karmem E) genesisParams of
                           None \<Rightarrow> Done (ch1, pool, calc)
                         | Some paramsBytes \<Rightarrow>
                             bindO (genesis_block E now publicKey paramsBytes) (\<lambda>g.
                               case g of
                                 None \<Rightarrow> Done (ch1, pool, calc)
                               | Some g \<Rightarrow> AppendBlockTask E g (ch1, pool, calc)))))))"

end
