(* ===== verification/ChainStore.thy ===== *)
theory ChainStore
  imports Chain Roundtrip
begin

text \<open>
  What core/blockchain.go keeps: the abstract chain is the list of its blocks from genesis to tip.
  \<open>chain_content\<close> says which bytes that list puts under which database key, \<open>chain_inv\<close> that
  database, caches and latest block of the model agree with it, \<open>accepts\<close> which block may follow.
  The laws of what the chain is built on are the locale \<open>chain_world\<close>.
\<close>

section \<open>The abstract chain\<close>

abbreviation blk_hash :: "Block \<Rightarrow> bytes" where
  "blk_hash b \<equiv> bh_BlockHash (blk_Header b)"

abbreviation tx_hash :: "Transaction \<Rightarrow> bytes" where
  "tx_hash t \<equiv> tb_Hash (tx_Body t)"

definition tip_height :: "Block list \<Rightarrow> int" where
  "tip_height bs = (if bs = [] then -1 else blk_Height (last bs))"

text \<open>A new hash, a greater height, and either the tip's hash or no hash at all as the previous hash.\<close>

definition accepts :: "Block list \<Rightarrow> Block \<Rightarrow> bool" where
  "accepts bs b \<longleftrightarrow> blk_hash b \<notin> blk_hash ` set bs
     \<and> (IsGenesisBlock b \<or> (bs \<noteq> [] \<and> isPrevBlock (last bs) b)) \<and> tip_height bs < blk_Height b"

definition extend :: "Block list \<Rightarrow> Block \<Rightarrow> Block list" where
  "extend bs b = (if accepts bs b then bs @ [b] else bs)"

text \<open>A block as Go's types allow it, whose encoding fits the format.\<close>

definition fits :: "Block \<Rightarrow> bool" where
  "fits b \<longleftrightarrow> wf_block b \<and> block_size b < 2 ^ 32"

inductive chain_of :: "Block list \<Rightarrow> bool" where
  empty: "chain_of []"
| extended: "chain_of bs \<Longrightarrow> accepts bs b \<Longrightarrow> fits b \<Longrightarrow> chain_of (bs @ [b])"

lemma chain_of_extend: "chain_of bs \<Longrightarrow> fits b \<Longrightarrow> chain_of (extend bs b)"
  by (simp add: extend_def chain_of.extended)

lemma chain_heights:
  "chain_of bs \<Longrightarrow> sorted_wrt (<) (map (\<lambda>b. blk_Height b) bs) \<and> (\<forall>b \<in> set bs. 0 \<le> blk_Height b \<and> blk_Height b \<le> tip_height bs)"
proof (induction rule: chain_of.induct)
  case (extended bs b)
  have "blk_Height x < blk_Height b" if "x \<in> set bs" for x
    using extended that by (fastforce simp: accepts_def)
  moreover have "0 \<le> blk_Height b"
  proof -
    have "bs \<noteq> [] \<Longrightarrow> 0 \<le> blk_Height (last bs)" using extended.IH last_in_set by blast
    then have "-1 \<le> tip_height bs" by (cases "bs = []") (simp_all add: tip_height_def)
    then show ?thesis using extended.hyps(2) by (simp add: accepts_def)
  qed
  ultimately show ?case using extended.IH by (auto simp: sorted_wrt_append tip_height_def less_imp_le)
qed simp

lemma chain_fits: "chain_of bs \<Longrightarrow> \<forall>b \<in> set bs. fits b"
  by (induction rule: chain_of.induct) auto

lemma chain_distinct: "chain_of bs \<Longrightarrow> distinct (map (\<lambda>b. blk_hash b) bs)"
  by (induction rule: chain_of.induct) (auto simp: accepts_def)

lemma chain_hash_unique: "chain_of bs \<Longrightarrow> b \<in> set bs \<Longrightarrow> c \<in> set bs \<Longrightarrow> blk_hash b = blk_hash c \<Longrightarrow> b = c"
  using chain_distinct by (auto simp: distinct_map dest: inj_onD)

lemma chain_height_unique: "chain_of bs \<Longrightarrow> b \<in> set bs \<Longrightarrow> c \<in> set bs \<Longrightarrow> blk_Height b = blk_Height c \<Longrightarrow> b = c"
  using chain_heights [of bs] by (auto simp: strict_sorted_iff distinct_map dest: inj_onD)

text \<open>Every block but the first names its predecessor, unless it passes for a genesis block.\<close>

lemma chain_linked:
  "chain_of bs \<Longrightarrow> Suc i < length bs \<Longrightarrow> IsGenesisBlock (bs ! Suc i) \<or> isPrevBlock (bs ! i) (bs ! Suc i)"
proof (induction arbitrary: i rule: chain_of.induct)
  case (extended bs b)
  show ?case
  proof (cases "Suc i < length bs")
    case True
    then show ?thesis using extended.IH by (simp add: nth_append)
  next
    case False
    then have "Suc i = length bs" using extended.prems by simp
    then have "bs ! i = last bs" by (cases bs rule: rev_cases) auto
    then show ?thesis using extended.hyps(2) \<open>Suc i = length bs\<close> by (auto simp: nth_append accepts_def)
  qed
qed simp

section \<open>What is stored for it\<close>

fun placed_from :: "Block \<Rightarrow> nat \<Rightarrow> Transaction list \<Rightarrow> Transaction list" where
  "placed_from b i [] = []"
| "placed_from b i (t # ts) = placed_tx b i t # placed_from b (Suc i) ts"

definition chain_txs :: "Block list \<Rightarrow> Transaction list" where
  "chain_txs bs = concat (map (\<lambda>b. placed_from b 0 (blk_Transactions b)) bs)"

text \<open>The last placement of a transaction counts.\<close>

definition tx_at :: "Block list \<Rightarrow> bytes \<Rightarrow> Transaction option" where
  "tx_at bs h = find (\<lambda>t. tx_hash t = h) (rev (chain_txs bs))"

definition block_at :: "Block list \<Rightarrow> bytes \<Rightarrow> Block option" where
  "block_at bs h = find (\<lambda>b. blk_hash b = h) bs"

definition height_at :: "Block list \<Rightarrow> int \<Rightarrow> Block option" where
  "height_at bs n = find (\<lambda>b. blk_Height b = n) bs"

fun chain_content :: "'w karmem_ops \<Rightarrow> Block list \<Rightarrow> db_key \<Rightarrow> bytes option" where
  "chain_content K bs (BlockKey h) = Option.bind (block_at bs h) (SerializeBlock K)"
| "chain_content K bs (HeightKey n) = map_option (\<lambda>b. blk_hash b) (height_at bs n)"
| "chain_content K bs (TxKey h) = Option.bind (tx_at bs h) (SerializeTransaction K)"
| "chain_content K bs LatestKey = (if bs = [] then None else Some (blk_hash (last bs)))"
| "chain_content K bs (DataKey a k) = None"

fun chain_key :: "db_key \<Rightarrow> bool" where
  "chain_key (DataKey a k) = False"
| "chain_key k = wf_key k"

definition stored :: "'w karmem_ops \<Rightarrow> (bytes \<Rightarrow> bytes option) \<Rightarrow> Block list \<Rightarrow> bool" where
  "stored K m bs \<longleftrightarrow> (\<forall>k. chain_key k \<longrightarrow> m (db_key_bytes k) = chain_content K bs k)"

definition caches_ok ::
    "('h \<Rightarrow> int \<Rightarrow> bytes option) \<Rightarrow> ('b \<Rightarrow> string \<Rightarrow> Block option) \<Rightarrow> ('t \<Rightarrow> string \<Rightarrow> Transaction option)
       \<Rightarrow> Block list \<Rightarrow> ('d, 'h, 'b, 't, 's) BlockChain \<Rightarrow> bool" where
  "caches_ok eh eb et bs ch \<longleftrightarrow>
     (\<forall>n h. eh (ch_blockHeightMap ch) n = Some h \<longrightarrow> (\<exists>b \<in> set bs. blk_Height b = n \<and> blk_hash b = h))
   \<and> (\<forall>s b. eb (ch_blockCache ch) s = Some b \<longrightarrow> b \<in> set bs \<and> s = BlockHash b)
   \<and> (\<forall>s t. et (ch_txCache ch) s = Some t \<longrightarrow> t \<in> set (chain_txs bs) \<and> s = tx_hash_hex t)"

definition latest_ok :: "Block list \<Rightarrow> ('d, 'h, 'b, 't, 's) BlockChain \<Rightarrow> bool" where
  "latest_ok bs ch \<longleftrightarrow> (case ch_latestBlock ch of
       None \<Rightarrow> ch_latestHeight ch = -1
     | Some b \<Rightarrow> bs \<noteq> [] \<and> b = last bs \<and> ch_latestHeight ch = blk_Height b)"

definition chain_inv ::
    "('d, 'h, 'b, 't, 's, 'w) chain_env \<Rightarrow> ('d \<Rightarrow> bytes \<Rightarrow> bytes option)
       \<Rightarrow> ('h \<Rightarrow> int \<Rightarrow> bytes option) \<Rightarrow> ('b \<Rightarrow> string \<Rightarrow> Block option) \<Rightarrow> ('t \<Rightarrow> string \<Rightarrow> Transaction option)
       \<Rightarrow> Block list \<Rightarrow> ('d, 'h, 'b, 't, 's) BlockChain \<Rightarrow> bool" where
  "chain_inv E content eh eb et bs ch \<longleftrightarrow> chain_of bs \<and> stored (ce_karmem E) (content (ch_db ch)) bs
     \<and> caches_ok eh eb et bs ch \<and> latest_ok bs ch"

section \<open>General facts\<close>

lemma find_append: "find P (xs @ ys) = (case find P xs of None \<Rightarrow> find P ys | Some x \<Rightarrow> Some x)"
  by (induction xs) auto

lemma map_of_map_find: "map_of (map (\<lambda>x. (f x, g x)) xs) k = map_option g (find (\<lambda>x. f x = k) xs)"
  by (induction xs) auto

lemma find_False [simp]: "find (\<lambda>_. False) xs = None"
  by (induction xs) auto

lemma find_SomeD: "find P xs = Some x \<Longrightarrow> x \<in> set xs \<and> P x"
  by (induction xs) (auto split: if_splits)

lemma find_the:
  assumes "x \<in> set xs" and "P x" and "\<And>y. y \<in> set xs \<Longrightarrow> P y \<Longrightarrow> y = x"
  shows "find P xs = Some x"
proof (cases "find P xs")
  case None
  then show ?thesis using assms(1,2) by (auto simp: find_None_iff)
next
  case (Some y)
  then show ?thesis using find_SomeD [OF Some] assms(3) by blast
qed

lemma block_at_eq: "chain_of bs \<Longrightarrow> block_at bs h = Some b \<longleftrightarrow> b \<in> set bs \<and> blk_hash b = h"
  unfolding block_at_def using find_the [of b bs "\<lambda>b. blk_hash b = h"] chain_hash_unique [of bs] find_SomeD by fast

lemma height_at_eq: "chain_of bs \<Longrightarrow> height_at bs n = Some b \<longleftrightarrow> b \<in> set bs \<and> blk_Height b = n"
  unfolding height_at_def using find_the [of b bs "\<lambda>b. blk_Height b = n"] chain_height_unique [of bs] find_SomeD by fast

lemma tx_at_SomeD: "tx_at bs h = Some t \<Longrightarrow> t \<in> set (chain_txs bs) \<and> tx_hash t = h"
  unfolding tx_at_def using find_SomeD by fastforce

lemma tx_at_None: "tx_at bs h = None \<longleftrightarrow> h \<notin> tx_hash ` set (chain_txs bs)"
  by (auto simp: tx_at_def find_None_iff)

lemma placed_hash [simp]: "tx_hash (placed_tx b i t) = tx_hash t"
  by (simp add: placed_tx_def)

lemma placed_from_hashes: "map tx_hash (placed_from b i ts) = map tx_hash ts"
  by (induction ts arbitrary: i) auto

lemma placed_size [simp]: "tx_size (placed_tx b i t) = tx_size t"
  by (simp add: placed_tx_def tx_size_def body_tail_def)

lemma placed_wf: "wf_block b \<Longrightarrow> wf_tx t \<Longrightarrow> wf_tx (placed_tx b i t)"
  by (simp add: placed_tx_def wf_tx_def wf_body_def wf_block_def wf_header_def)

lemma placed_from_mem:
  "x \<in> set (placed_from b i ts) \<Longrightarrow> \<exists>j < length ts. x = placed_tx b (i + j) (ts ! j)"
proof (induction ts arbitrary: i)
  case (Cons t ts)
  then show ?case
    by (cases "x = placed_tx b i t") (force simp: nth_Cons', force simp: nth_Cons' dest!: Cons.IH intro: exI [of _ "Suc _"])
qed simp

lemma chain_tx_encodes:
  assumes "chain_of bs" and "t \<in> set (chain_txs bs)"
  shows "wf_tx t \<and> tx_size t < 2 ^ 32"
proof -
  obtain b where b: "b \<in> set bs" "t \<in> set (placed_from b 0 (blk_Transactions b))"
    using assms(2) by (auto simp: chain_txs_def)
  then obtain j where j: "j < length (blk_Transactions b)" "t = placed_tx b j (blk_Transactions b ! j)"
    using placed_from_mem by fastforce
  have f: "wf_block b" "block_size b < 2 ^ 32" using chain_fits [OF assms(1)] b(1) by (auto simp: fits_def)
  have m: "blk_Transactions b ! j \<in> set (blk_Transactions b)" using j by simp
  then have "tx_size (blk_Transactions b ! j) \<le> block_size b"
    using member_le_sum_list [of "tx_size (blk_Transactions b ! j)" "map tx_size (blk_Transactions b)"]
    by (simp add: block_size_def)
  then show ?thesis using f j m placed_wf [OF f(1)] by (auto simp: wf_block_def)
qed

section \<open>Writing a block\<close>

text \<open>The batch of one block, by key.\<close>

definition block_entries :: "'w karmem_ops \<Rightarrow> Block \<Rightarrow> bytes \<Rightarrow> (db_key \<times> bytes) list" where
  "block_entries K b v =
     [(BlockKey (blk_hash b), v), (LatestKey, blk_hash b), (HeightKey (blk_Height b), blk_hash b)]
     @ map (\<lambda>t. (TxKey (tx_hash t), the (SerializeTransaction K t))) (placed_from b 0 (blk_Transactions b))"

lemma map_of_db_keys:
  assumes "\<forall>(k, v) \<in> set es. wf_key k" and "wf_key k"
  shows "map_of (map (\<lambda>(k, v). (db_key_bytes k, v)) es) (db_key_bytes k) = map_of es k"
  using assms by (induction es) (auto simp: db_key_bytes_inject)

lemma block_entries_wf: "fits b \<Longrightarrow> \<forall>(k, v) \<in> set (block_entries K b w). wf_key k"
  using placed_from_mem [of _ b 0 "blk_Transactions b"]
  by (fastforce simp: block_entries_def fits_def wf_block_def wf_header_def wf_tx_def wf_body_def)

lemma tx_at_snoc: "tx_at (bs @ [b]) h =
  (case find (\<lambda>t. tx_hash t = h) (rev (placed_from b 0 (blk_Transactions b))) of None \<Rightarrow> tx_at bs h | Some t \<Rightarrow> Some t)"
  by (simp add: tx_at_def chain_txs_def find_append cong: option.case_cong)

lemma block_entries_lookup:
  assumes "accepts bs b" and "SerializeBlock K b = Some v" and "chain_key k"
    and "\<forall>t \<in> set (placed_from b 0 (blk_Transactions b)). SerializeTransaction K t \<noteq> None"
    and "\<forall>c \<in> set bs. blk_Height c < blk_Height b"
  shows "chain_content K (bs @ [b]) k =
    (case map_of (rev (block_entries K b v)) k of None \<Rightarrow> chain_content K bs k | Some w \<Rightarrow> Some w)"
proof (cases k)
  case (TxKey h)
  let ?P = "placed_from b 0 (blk_Transactions b)"
  have m: "map_of (rev (block_entries K b v)) k = map_option (\<lambda>t. the (SerializeTransaction K t)) (find (\<lambda>t. tx_hash t = h) (rev ?P))"
    by (simp add: block_entries_def rev_map map_of_map_find map_add_def TxKey split: option.split)
  show ?thesis
  proof (cases "find (\<lambda>t. tx_hash t = h) (rev ?P)")
    case None
    then show ?thesis unfolding m by (simp add: TxKey tx_at_snoc)
  next
    case (Some t)
    then have "t \<in> set ?P" using find_SomeD [OF Some] by simp
    then obtain w where "SerializeTransaction K t = Some w" using assms(4) by fastforce
    then show ?thesis unfolding m by (simp add: TxKey tx_at_snoc Some)
  qed
next
  case (BlockKey h)
  have "map_of (rev (block_entries K b v)) k = (if h = blk_hash b then Some v else None)"
    by (simp add: block_entries_def rev_map map_of_map_find map_add_def BlockKey)
  moreover have "block_at bs (blk_hash b) = None" using assms(1) unfolding block_at_def find_None_iff accepts_def by (metis image_eqI)
  ultimately show ?thesis using assms(2)
    by (cases "block_at bs h") (auto simp: BlockKey block_at_def find_append)
next
  case (HeightKey n)
  have "map_of (rev (block_entries K b v)) k = (if n = blk_Height b then Some (blk_hash b) else None)"
    by (simp add: block_entries_def rev_map map_of_map_find map_add_def HeightKey)
  moreover have "height_at bs (blk_Height b) = None" using assms(5) by (auto simp: height_at_def find_None_iff)
  ultimately show ?thesis
    by (cases "height_at bs n") (auto simp: HeightKey height_at_def find_append)
next
  case LatestKey
  have "map_of (rev (block_entries K b v)) k = Some (blk_hash b)"
    by (simp add: block_entries_def rev_map map_of_map_find map_add_def LatestKey)
  then show ?thesis by (simp add: LatestKey)
qed (use assms(3) in simp)

section \<open>The world of the chain\<close>

locale chain_world =
  fixes E :: "('d, 'h, 'b, 't, 's, 'w) chain_env" and len cell content eh eb et
  assumes karmem_ok: "karmem (ce_karmem E) len cell" and db_ok: "db_interface (ce_db E) content"
    and heights_ok: "lru (ce_heights E) eh" and blocks_ok: "lru (ce_blocks E) eb" and txs_ok: "lru (ce_txs E) et"
begin

definition inv :: "Block list \<Rightarrow> ('d, 'h, 'b, 't, 's) BlockChain \<Rightarrow> bool" where
  "inv bs ch \<longleftrightarrow> chain_inv E content eh eb et bs ch"

lemma block_bytes: "fits b \<Longrightarrow> \<exists>bs. SerializeBlock (ce_karmem E) b = Some bs \<and> DeserializeBlock (ce_karmem E) bs = b"
  using karmem.block_roundtrip [OF karmem_ok, of b] by (auto simp: fits_def)

lemma tx_bytes: "wf_tx t \<and> tx_size t < 2 ^ 32 \<Longrightarrow>
    \<exists>bs. SerializeTransaction (ce_karmem E) t = Some bs \<and> DeserializeTransaction (ce_karmem E) bs = t"
  using karmem.tx_roundtrip [OF karmem_ok, of t] by auto

lemma db_Get_key:
  assumes "inv bs ch" and "chain_key k"
  shows "db_Get (ce_db E) (ch_db ch) (db_key_bytes k) =
    (case chain_content (ce_karmem E) bs k of None \<Rightarrow> Inl ErrNotFound | Some v \<Rightarrow> Inr v)"
  using assms db_interface.db_get [OF db_ok, of "ch_db ch"]
  by (auto simp: inv_def chain_inv_def stored_def)

text \<open>The invariant does not see the order of the caches, nor buffers and queues.\<close>

lemma inv_caches:
  assumes "inv bs ch" and "ch_db ch' = ch_db ch" and "ch_latestBlock ch' = ch_latestBlock ch"
    and "ch_latestHeight ch' = ch_latestHeight ch"
    and "eh (ch_blockHeightMap ch') = eh (ch_blockHeightMap ch)" and "eb (ch_blockCache ch') = eb (ch_blockCache ch)"
    and "et (ch_txCache ch') = et (ch_txCache ch)"
  shows "inv bs ch'"
  using assms by (simp add: inv_def chain_inv_def caches_ok_def latest_ok_def cong: option.case_cong)

lemma inv_writeBlockCache:
  assumes "inv bs ch" and "b \<in> set bs"
  shows "inv bs (writeBlockCache E b ch)"
proof -
  let ?ch = "writeBlockCache E b ch"
  have h: "\<exists>c \<in> set bs. blk_Height c = n \<and> blk_hash c = h" if "eh (ch_blockHeightMap ?ch) n = Some h" for n h
    using lru.entries_add_cases [OF heights_ok, of "ch_blockHeightMap ch" "blk_Height b" "blk_hash b" n h] that assms
    by (auto simp: writeBlockCache_def inv_def chain_inv_def caches_ok_def)
  have c: "c \<in> set bs \<and> s = BlockHash c" if "eb (ch_blockCache ?ch) s = Some c" for s c
    using lru.entries_add_cases [OF blocks_ok, of "ch_blockCache ch" "BlockHash b" b s c] that assms
    by (auto simp: writeBlockCache_def inv_def chain_inv_def caches_ok_def)
  have "caches_ok eh eb et bs ?ch"
    using h c assms(1) unfolding caches_ok_def by (simp add: writeBlockCache_def inv_def chain_inv_def caches_ok_def)
  then show ?thesis
    using assms(1) by (simp add: inv_def chain_inv_def latest_ok_def writeBlockCache_def cong: option.case_cong)
qed

lemma GetBlockByHash_spec:
  assumes "inv bs ch" and "length h = 32"
  shows "\<exists>c1 c2. GetBlockByHash E h ch =
      (case block_at bs h of None \<Rightarrow> Inl ErrNotFound | Some b \<Rightarrow> Inr b,
       ch\<lparr>ch_blockHeightMap := c1, ch_blockCache := c2\<rparr>)
    \<and> inv bs (ch\<lparr>ch_blockHeightMap := c1, ch_blockCache := c2\<rparr>)"
proof -
  have chain: "chain_of bs" using assms(1) by (simp add: inv_def chain_inv_def)
  obtain r c where r: "lru_get (ce_blocks E) (ch_blockCache ch) (hex_encode h) = (r, c)" by force
  then have rc: "r = eb (ch_blockCache ch) (hex_encode h)" "eb c = eb (ch_blockCache ch)"
    using lru.get_value [OF blocks_ok] lru.entries_get [OF blocks_ok] by (metis fst_conv, metis snd_conv)
  define ch1 where "ch1 = ch\<lparr>ch_blockCache := c\<rparr>"
  have i1: "inv bs ch1" by (rule inv_caches [OF assms(1)]) (simp_all add: ch1_def rc)
  show ?thesis
  proof (cases r)
    case (Some b)
    then have "b \<in> set bs" "BlockHash b = hex_encode h"
      using rc assms(1) by (auto simp: inv_def chain_inv_def caches_ok_def)
    then have "block_at bs h = Some b" by (simp add: block_at_eq [OF chain] BlockHash_def)
    then show ?thesis
      using i1 Some r by (intro exI [of _ "ch_blockHeightMap ch"] exI [of _ c]) (simp add: GetBlockByHash_def ch1_def)
  next
    case None
    have g: "db_Get (ce_db E) (ch_db ch) (BlockHash2DBKey h) = (case chain_content (ce_karmem E) bs (BlockKey h) of
        None \<Rightarrow> Inl ErrNotFound | Some v \<Rightarrow> Inr v)"
      using db_Get_key [OF assms(1), of "BlockKey h"] assms(2) by simp
    show ?thesis
    proof (cases "block_at bs h")
      case (Some b)
      then have b: "b \<in> set bs" by (simp add: block_at_eq [OF chain])
      then obtain v where v: "SerializeBlock (ce_karmem E) b = Some v" "DeserializeBlock (ce_karmem E) v = b"
        using block_bytes chain_fits [OF chain] by blast
      have "GetBlockByHash E h ch = (Inr b, writeBlockCache E b ch1)"
        using r None g Some v by (simp add: GetBlockByHash_def ch1_def)
      moreover obtain c1 c2 where w: "writeBlockCache E b ch1 = ch\<lparr>ch_blockHeightMap := c1, ch_blockCache := c2\<rparr>"
        by (simp add: writeBlockCache_def ch1_def)
      moreover have "inv bs (ch\<lparr>ch_blockHeightMap := c1, ch_blockCache := c2\<rparr>)"
        using inv_writeBlockCache [OF i1 b] by (simp only: w)
      ultimately show ?thesis using Some by (intro exI [of _ c1] exI [of _ c2]) simp
    next
      case none: None
      then show ?thesis
        using i1 None r g by (intro exI [of _ "ch_blockHeightMap ch"] exI [of _ c]) (simp add: GetBlockByHash_def ch1_def)
    qed
  qed
qed

lemma hash_length: "inv bs ch \<Longrightarrow> b \<in> set bs \<Longrightarrow> length (blk_hash b) = 32 \<and> in_i64 (blk_Height b)"
  using chain_fits [of bs] by (auto simp: inv_def chain_inv_def fits_def wf_block_def wf_header_def)

lemma inv_chain: "inv bs ch \<Longrightarrow> chain_of bs"
  by (simp add: inv_def chain_inv_def)

lemma height_above_tip:
  assumes "inv bs ch" and "ch_latestHeight ch < n" and "ch_latestHeight ch \<noteq> -1"
  shows "height_at bs n = None"
proof (rule ccontr)
  assume "height_at bs n \<noteq> None"
  then obtain b where b: "b \<in> set bs" "blk_Height b = n" by (auto simp: height_at_eq [OF inv_chain [OF assms(1)]])
  have "tip_height bs = ch_latestHeight ch"
    using assms(1,3) by (auto simp: inv_def chain_inv_def latest_ok_def tip_height_def split: option.splits)
  then show False using b chain_heights [OF inv_chain [OF assms(1)]] assms(2) by fastforce
qed

lemma cached_height:
  "inv bs ch \<Longrightarrow> eh (ch_blockHeightMap ch) n = Some h \<Longrightarrow> \<exists>b \<in> set bs. blk_Height b = n \<and> blk_hash b = h"
  unfolding inv_def chain_inv_def caches_ok_def by blast

lemma cached_tx: "inv bs ch \<Longrightarrow> et (ch_txCache ch) s = Some t \<Longrightarrow> t \<in> set (chain_txs bs) \<and> s = tx_hash_hex t"
  unfolding inv_def chain_inv_def caches_ok_def by blast

lemma GetBlockByHeight_spec:
  assumes "inv bs ch" and "in_i64 n"
  shows "\<exists>r c1 c2. GetBlockByHeight E n ch = Done (r, ch\<lparr>ch_blockHeightMap := c1, ch_blockCache := c2\<rparr>)
    \<and> inv bs (ch\<lparr>ch_blockHeightMap := c1, ch_blockCache := c2\<rparr>)
    \<and> (case height_at bs n of None \<Rightarrow> \<exists>e. r = Inl e | Some b \<Rightarrow> r = Inr b)"
proof (cases "n > ch_latestHeight ch \<and> ch_latestHeight ch \<noteq> -1")
  case True
  then show ?thesis using assms(1) height_above_tip [OF assms(1)]
    by (intro exI [of _ "Inl (ErrStore ''Block height error.'')"] exI [of _ "ch_blockHeightMap ch"]
        exI [of _ "ch_blockCache ch"]) (simp add: GetBlockByHeight_def)
next
  case False
  have chain: "chain_of bs" using inv_chain [OF assms(1)] .
  obtain r c where r: "lru_get (ce_heights E) (ch_blockHeightMap ch) n = (r, c)" by force
  then have rc: "r = eh (ch_blockHeightMap ch) n" "eh c = eh (ch_blockHeightMap ch)"
    using lru.get_value [OF heights_ok] lru.entries_get [OF heights_ok] by (metis fst_conv, metis snd_conv)
  define ch1 where "ch1 = ch\<lparr>ch_blockHeightMap := c\<rparr>"
  have i1: "inv bs ch1" by (rule inv_caches [OF assms(1)]) (simp_all add: ch1_def rc)
  have found: "\<exists>r c1 c2. Done (GetBlockByHash E (blk_hash b) ch1) = Done (r, ch\<lparr>ch_blockHeightMap := c1, ch_blockCache := c2\<rparr>)
    \<and> inv bs (ch\<lparr>ch_blockHeightMap := c1, ch_blockCache := c2\<rparr>)
    \<and> (case height_at bs n of None \<Rightarrow> \<exists>e. r = Inl e | Some b \<Rightarrow> r = Inr b)"
    if b: "b \<in> set bs" "blk_Height b = n" for b
  proof -
    have "height_at bs n = Some b" "block_at bs (blk_hash b) = Some b"
      using b by (simp_all add: height_at_eq [OF chain] block_at_eq [OF chain])
    then show ?thesis using GetBlockByHash_spec [OF i1, of "blk_hash b"] hash_length [OF assms(1) b(1)]
      by (auto simp: ch1_def)
  qed
  show ?thesis
  proof (cases r)
    case (Some h)
    then obtain b where b: "b \<in> set bs" "blk_Height b = n" "blk_hash b = h"
      using rc cached_height [OF assms(1), of n h] by auto
    have "GetBlockByHeight E n ch = Done (GetBlockByHash E (blk_hash b) ch1)"
      using False Some r b(3) by (auto simp: GetBlockByHeight_def ch1_def)
    then show ?thesis using found [OF b(1,2)] by simp
  next
    case None
    have g: "db_Get (ce_db E) (ch_db ch) (BlockHeight2DBKey n) =
        (case height_at bs n of None \<Rightarrow> Inl ErrNotFound | Some b \<Rightarrow> Inr (blk_hash b))"
      using db_Get_key [OF assms(1), of "HeightKey n"] assms(2) by (simp split: option.split)
    show ?thesis
    proof (cases "height_at bs n")
      case (Some b)
      then have b: "b \<in> set bs" "blk_Height b = n" by (simp_all add: height_at_eq [OF chain])
      have "GetBlockByHeight E n ch = Done (GetBlockByHash E (blk_hash b) ch1)"
        using False None r g Some hash_length [OF assms(1) b(1)] by (auto simp: GetBlockByHeight_def ch1_def)
      then show ?thesis using found [OF b] by simp
    next
      case none: None
      have "GetBlockByHeight E n ch = Done (Inl ErrNotFound, ch1)"
        using False None r g none by (auto simp: GetBlockByHeight_def ch1_def)
      then show ?thesis using i1 none
        by (intro exI [of _ "Inl ErrNotFound"] exI [of _ c] exI [of _ "ch_blockCache ch"]) (simp add: ch1_def)
    qed
  qed
qed

lemma GetLatestBlock_spec:
  assumes "inv bs ch"
  shows "\<exists>c1 c2 ch'. GetLatestBlock E ch = Done (if bs = [] then Inl ErrNotFound else Inr (last bs), ch')
    \<and> inv bs ch' \<and> ch_latestHeight ch' = tip_height bs
    \<and> ch' = ch\<lparr>ch_latestBlock := (if bs = [] then None else Some (last bs)), ch_latestHeight := tip_height bs,
                ch_blockHeightMap := c1, ch_blockCache := c2\<rparr>"
proof (cases "ch_latestBlock ch")
  case (Some b)
  then have b: "bs \<noteq> []" "b = last bs" "ch_latestHeight ch = tip_height bs"
    using assms by (auto simp: inv_def chain_inv_def latest_ok_def tip_height_def)
  then show ?thesis
    using Some assms by (intro exI [of _ "ch_blockHeightMap ch"] exI [of _ "ch_blockCache ch"] exI [of _ ch]) (simp add: GetLatestBlock_def)
next
  case None
  have g: "db_Get (ce_db E) (ch_db ch) latest_key = (if bs = [] then Inl ErrNotFound else Inr (blk_hash (last bs)))"
    using db_Get_key [OF assms, of LatestKey] by simp
  show ?thesis
  proof (cases "bs = []")
    case True
    then show ?thesis using None g assms
      by (intro exI [of _ "ch_blockHeightMap ch"] exI [of _ "ch_blockCache ch"] exI [of _ ch])
        (auto simp: GetLatestBlock_def inv_def chain_inv_def latest_ok_def tip_height_def)
  next
    case False
    then have l: "last bs \<in> set bs" by simp
    have a: "block_at bs (blk_hash (last bs)) = Some (last bs)" using l by (simp add: block_at_eq [OF inv_chain [OF assms]])
    obtain c1 c2 where h: "GetBlockByHash E (blk_hash (last bs)) ch = (Inr (last bs), ch\<lparr>ch_blockHeightMap := c1, ch_blockCache := c2\<rparr>)"
      "inv bs (ch\<lparr>ch_blockHeightMap := c1, ch_blockCache := c2\<rparr>)"
      using GetBlockByHash_spec [OF assms, of "blk_hash (last bs)"] hash_length [OF assms l] a by auto
    let ?ch = "ch\<lparr>ch_blockHeightMap := c1, ch_blockCache := c2, ch_latestBlock := Some (last bs), ch_latestHeight := tip_height bs\<rparr>"
    have "GetLatestBlock E ch = Done (Inr (last bs), ?ch)"
      using None g False h hash_length [OF assms l] by (simp add: GetLatestBlock_def tip_height_def)
    moreover have "inv bs ?ch"
      using h(2) False by (simp add: inv_def chain_inv_def caches_ok_def latest_ok_def tip_height_def)
    ultimately show ?thesis using False by (intro exI [of _ c1] exI [of _ c2] exI [of _ ?ch]) simp
  qed
qed

lemma GetTransactionByHash_spec:
  assumes "inv bs ch" and "length h = 32"
  shows "\<exists>r c. GetTransactionByHash E h ch = (r, ch\<lparr>ch_txCache := c\<rparr>) \<and> inv bs (ch\<lparr>ch_txCache := c\<rparr>)
    \<and> (case r of Inl e \<Rightarrow> h \<notin> tx_hash ` set (chain_txs bs) | Inr t \<Rightarrow> t \<in> set (chain_txs bs) \<and> tx_hash t = h)"
proof -
  obtain r c where r: "lru_get (ce_txs E) (ch_txCache ch) (hex_encode h) = (r, c)" by force
  then have rc: "r = et (ch_txCache ch) (hex_encode h)" "et c = et (ch_txCache ch)"
    using lru.get_value [OF txs_ok] lru.entries_get [OF txs_ok] by (metis fst_conv, metis snd_conv)
  define ch1 where "ch1 = ch\<lparr>ch_txCache := c\<rparr>"
  have i1: "inv bs ch1" by (rule inv_caches [OF assms(1)]) (simp_all add: ch1_def rc)
  show ?thesis
  proof (cases r)
    case (Some t)
    then have "t \<in> set (chain_txs bs)" "tx_hash t = h"
      using rc cached_tx [OF assms(1), of "hex_encode h" t] by (auto simp: tx_hash_hex_def)
    then show ?thesis using i1 Some r
      by (intro exI [of _ "Inr t"] exI [of _ c]) (simp add: GetTransactionByHash_def ch1_def)
  next
    case None
    have g: "db_Get (ce_db E) (ch_db ch) (TxHash2DBKey h) = (case Option.bind (tx_at bs h) (SerializeTransaction (ce_karmem E)) of
        None \<Rightarrow> Inl ErrNotFound | Some v \<Rightarrow> Inr v)"
      using db_Get_key [OF assms(1), of "TxKey h"] assms(2) by simp
    show ?thesis
    proof (cases "tx_at bs h")
      case (Some t)
      then have t: "t \<in> set (chain_txs bs)" "tx_hash t = h" using tx_at_SomeD by blast+
      then obtain v where v: "SerializeTransaction (ce_karmem E) t = Some v" "DeserializeTransaction (ce_karmem E) v = t"
        using tx_bytes chain_tx_encodes [OF inv_chain [OF assms(1)]] by blast
      define c' where "c' = lru_add (ce_txs E) c (tx_hash_hex t) t"
      have "GetTransactionByHash E h ch = (Inr t, ch\<lparr>ch_txCache := c'\<rparr>)"
        using r None g Some v by (simp add: GetTransactionByHash_def writeTxCache_def c'_def)
      moreover have "u \<in> set (chain_txs bs) \<and> s = tx_hash_hex u" if "et c' s = Some u" for s u
        using lru.entries_add_cases [OF txs_ok, of c "tx_hash_hex t" t s u] that assms(1) t rc
        by (auto simp: c'_def inv_def chain_inv_def caches_ok_def)
      then have "inv bs (ch\<lparr>ch_txCache := c'\<rparr>)"
        using assms(1) by (simp add: inv_def chain_inv_def caches_ok_def latest_ok_def cong: option.case_cong)
      ultimately show ?thesis using t by (intro exI [of _ "Inr t"] exI [of _ c']) simp
    next
      case none: None
      then show ?thesis using r None g i1
        by (intro exI [of _ "Inl ErrNotFound"] exI [of _ c]) (simp add: GetTransactionByHash_def ch1_def tx_at_None [symmetric])
    qed
  qed
qed

subsection \<open>Inserting\<close>

lemma encodes: "fits b \<Longrightarrow> t \<in> set (placed_from b i (blk_Transactions b)) \<Longrightarrow> SerializeTransaction (ce_karmem E) t \<noteq> None"
proof -
  assume f: "fits b" and "t \<in> set (placed_from b i (blk_Transactions b))"
  then obtain j where "j < length (blk_Transactions b)" "t = placed_tx b (i + j) (blk_Transactions b ! j)"
    using placed_from_mem by blast
  then have "wf_tx t" using f placed_wf by (auto simp: fits_def wf_block_def)
  then show ?thesis using karmem.tx_roundtrip [OF karmem_ok] by force
qed

lemma insert_txs_spec:
  assumes "\<forall>t \<in> set (placed_from b i ts). SerializeTransaction (ce_karmem E) t \<noteq> None"
    and "length (dp_taskChannel dp) + length ts \<le> taskChannelSize"
  shows "insert_txs (ce_karmem E) b i ts (ks, vs) (Some p) dp =
    Done (True, (ks @ map (\<lambda>t. TxHash2DBKey (tx_hash t)) (placed_from b i ts),
                 vs @ map (\<lambda>t. the (SerializeTransaction (ce_karmem E) t)) (placed_from b i ts)),
          Some (fold (\<lambda>t. RemoveTx (tx_hash t)) ts p),
          dp\<lparr>dp_taskChannel := dp_taskChannel dp @ List.map_filter (tx_task (ce_karmem E) b) (placed_from b i ts)\<rparr>)"
  using assms
proof (induction ts arbitrary: i ks vs p dp)
  case Nil
  then show ?case by (simp add: List.map_filter_def)
next
  case (Cons t ts)
  let ?t = "placed_tx b i t"
  obtain w where w: "SerializeTransaction (ce_karmem E) ?t = Some w" using Cons.prems(1) by auto
  show ?case
  proof (cases "tx_task (ce_karmem E) b ?t")
    case None
    then show ?thesis using Cons.IH [of "Suc i" dp] Cons.prems w
      by (simp add: List.map_filter_def Let_def)
  next
    case (Some task)
    let ?dp = "dp\<lparr>dp_taskChannel := dp_taskChannel dp @ [task]\<rparr>"
    have "chan_send taskChannelSize (dp_taskChannel dp) task = Done (dp_taskChannel dp @ [task])"
      using Cons.prems(2) by (simp add: chan_send_def)
    then show ?thesis using Cons.IH [of "Suc i" ?dp] Cons.prems w Some
      by (simp add: List.map_filter_def Let_def)
  qed
qed

lemma zip_entries:
  "zip ([BlockHash2DBKey (blk_hash b), latest_key, BlockHeight2DBKey (blk_Height b)]
      @ map (\<lambda>t. TxHash2DBKey (tx_hash t)) (placed_from b 0 (blk_Transactions b)))
    ([v, blk_hash b, blk_hash b]
      @ map (\<lambda>t. the (SerializeTransaction K t)) (placed_from b 0 (blk_Transactions b)))
   = map (\<lambda>(k, v). (db_key_bytes k, v)) (block_entries K b v)"
proof -
  have "zip (map f xs) (map g xs) = map (\<lambda>x. (f x, g x)) xs" for f g and xs :: "Transaction list"
    by (induction xs) auto
  then show ?thesis by (simp add: block_entries_def comp_def)
qed

lemma stored_extend:
  assumes "stored (ce_karmem E) m bs" and "chain_of bs" and "accepts bs b" and "fits b"
    and "SerializeBlock (ce_karmem E) b = Some v"
  shows "stored (ce_karmem E)
    (m(([BlockHash2DBKey (blk_hash b), latest_key, BlockHeight2DBKey (blk_Height b)]
      @ map (\<lambda>t. TxHash2DBKey (tx_hash t)) (placed_from b 0 (blk_Transactions b)))
     [\<mapsto>] ([v, blk_hash b, blk_hash b]
      @ map (\<lambda>t. the (SerializeTransaction (ce_karmem E) t)) (placed_from b 0 (blk_Transactions b)))))
    (bs @ [b])" (is "stored _ ?m _")
  unfolding stored_def
proof (intro allI impI)
  fix k assume k: "chain_key k"
  then have wf: "wf_key k" by (cases k) auto
  have "\<forall>c \<in> set bs. blk_Height c < blk_Height b"
    using chain_heights [OF assms(2)] assms(3) by (fastforce simp: accepts_def)
  then have c: "chain_content (ce_karmem E) (bs @ [b]) k =
      (case map_of (rev (block_entries (ce_karmem E) b v)) k of None \<Rightarrow> chain_content (ce_karmem E) bs k | Some w \<Rightarrow> Some w)"
    using block_entries_lookup [OF assms(3,5) k] encodes [OF assms(4)] by blast
  have "\<forall>(k, v) \<in> set (rev (block_entries (ce_karmem E) b v)). wf_key k"
    using block_entries_wf [OF assms(4), of "ce_karmem E" v] by simp
  then have "map_of (map (\<lambda>(k, v). (db_key_bytes k, v)) (rev (block_entries (ce_karmem E) b v))) (db_key_bytes k)
      = map_of (rev (block_entries (ce_karmem E) b v)) k"
    using map_of_db_keys wf by blast
  then have "?m (db_key_bytes k) =
      (case map_of (rev (block_entries (ce_karmem E) b v)) k of None \<Rightarrow> m (db_key_bytes k) | Some w \<Rightarrow> Some w)"
    unfolding map_upds_def zip_entries map_add_def rev_map by simp
  then show "?m (db_key_bytes k) = chain_content (ce_karmem E) (bs @ [b]) k"
    using assms(1) k c by (simp add: stored_def cong: option.case_cong)
qed

lemma inv_tip:
  assumes "caches_ok eh eb et bs ch" and "chain_of bs" and "accepts bs b" and "fits b"
    and "stored (ce_karmem E) (content (ch_db ch')) (bs @ [b])"
    and "ch' = writeBlockCache E b (ch\<lparr>ch_latestBlock := Some b, ch_latestHeight := blk_Height b,
           ch_dp := dp, ch_db := d\<rparr>)"
  shows "inv (bs @ [b]) ch'"
proof -
  define ch1 where "ch1 = ch\<lparr>ch_latestBlock := Some b, ch_latestHeight := blk_Height b, ch_dp := dp, ch_db := d\<rparr>"
  have "chain_of (bs @ [b])" by (rule chain_of.extended [OF assms(2-4)])
  moreover have "caches_ok eh eb et (bs @ [b]) ch1"
    using assms(1) by (fastforce simp: caches_ok_def ch1_def chain_txs_def)
  moreover have "ch_db ch' = ch_db ch1" using assms(6) by (simp add: ch1_def writeBlockCache_def)
  ultimately have "inv (bs @ [b]) ch1"
    using assms(5) by (simp add: inv_def chain_inv_def latest_ok_def) (simp add: ch1_def)
  then show ?thesis
    using inv_writeBlockCache [of "bs @ [b]" ch1 b] assms(6) by (simp add: ch1_def)
qed

text \<open>What storing an accepted block does.\<close>

lemma store_block_spec:
  assumes "inv bs ch" and "ch_latestHeight ch = tip_height bs" and "accepts bs b" and "fits b"
    and "length (dp_taskChannel (ch_dp ch)) + length (blk_Transactions b) \<le> taskChannelSize"
    and "blk_Height b = 0 \<longrightarrow> (\<exists>c c'. calc = Some c \<and> AppendNewSeed (be_dec (gp_Seed
      (DeserializeGenesisParams (ce_karmem E) (bh_Params (blk_Header b))))) 0 c = Done c')"
  shows "\<exists>ch' calc'. store_block E b (ch, Some p, calc) =
      Done (ch', Some (fold (\<lambda>t. RemoveTx (tx_hash t)) (blk_Transactions b) p), calc')
    \<and> inv (bs @ [b]) ch' \<and> ch_latestHeight ch' = blk_Height b
    \<and> ch_dp ch' = (ch_dp ch)\<lparr>dp_taskChannel := dp_taskChannel (ch_dp ch)
        @ List.map_filter (tx_task (ce_karmem E) b) (placed_from b 0 (blk_Transactions b))\<rparr>
    \<and> ch_buffer ch' = ch_buffer ch \<and> ch_bufferChan ch' = ch_bufferChan ch \<and> ch_genesisTime ch' = ch_genesisTime ch"
proof -
  let ?K = "ce_karmem E" and ?P = "placed_from b 0 (blk_Transactions b)" and ?h = "blk_hash b"
  let ?ks = "[BlockHash2DBKey ?h, latest_key, BlockHeight2DBKey (blk_Height b)] @ map (\<lambda>t. TxHash2DBKey (tx_hash t)) ?P"
  have chain: "chain_of bs" and caches: "caches_ok eh eb et bs ch" and st: "stored ?K (content (ch_db ch)) bs"
    using assms(1) by (simp_all add: inv_def chain_inv_def)
  obtain v where v: "SerializeBlock ?K b = Some v" using block_bytes [OF assms(4)] by blast
  let ?vs = "[v, ?h, ?h] @ map (\<lambda>t. the (SerializeTransaction ?K t)) ?P"
  define dp where "dp = (ch_dp ch)\<lparr>dp_taskChannel := dp_taskChannel (ch_dp ch) @ List.map_filter (tx_task ?K b) ?P\<rparr>"
  define d where "d = snd (db_BatchInsert (ce_db E) (ch_db ch) ?ks ?vs)"
  define ch' where "ch' = writeBlockCache E b
    (ch\<lparr>ch_latestBlock := Some b, ch_latestHeight := blk_Height b, ch_dp := dp, ch_db := d\<rparr>)"
  have "content d = (content (ch_db ch))(?ks [\<mapsto>] ?vs)"
    unfolding d_def by (rule db_interface.db_batch_insert [OF db_ok]) simp
  then have "stored ?K (content (ch_db ch')) (bs @ [b])"
    using stored_extend [OF st chain assms(3,4) v] by (simp add: ch'_def writeBlockCache_def)
  then have i: "inv (bs @ [b]) ch'" by (rule inv_tip [OF caches chain assms(3,4) _ ch'_def])
  have txs: "insert_txs ?K b 0 (blk_Transactions b) ([BlockHash2DBKey ?h, latest_key, BlockHeight2DBKey (blk_Height b)], [v, ?h, ?h])
      (Some p) (ch_dp ch) = Done (True, (?ks, ?vs), Some (fold (\<lambda>t. RemoveTx (tx_hash t)) (blk_Transactions b) p), dp)"
    using insert_txs_spec [of b 0 "blk_Transactions b" "ch_dp ch"] encodes [OF assms(4)] assms(5) by (simp add: dp_def)
  have new: "\<not> blk_Height b \<le> ch_latestHeight ch" using assms(2,3) by (simp add: accepts_def)
  have "\<exists>calc'. store_block E b (ch, Some p, calc) =
      Done (ch', Some (fold (\<lambda>t. RemoveTx (tx_hash t)) (blk_Transactions b) p), calc')"
  proof (cases "blk_Height b = 0")
    case True
    then obtain c c' where c: "calc = Some c" "AppendNewSeed (be_dec (gp_Seed
        (DeserializeGenesisParams ?K (bh_Params (blk_Header b))))) 0 c = Done c'"
      using assms(6) by blast
    show ?thesis using new v txs True c
      by (intro exI [of _ "Some c'"]) (simp add: store_block_def writeBlockCache_def ch'_def d_def Let_def)
  next
    case False
    then show ?thesis using new v txs
      by (intro exI [of _ calc]) (simp add: store_block_def writeBlockCache_def ch'_def d_def Let_def)
  qed
  then obtain calc' where "store_block E b (ch, Some p, calc) =
      Done (ch', Some (fold (\<lambda>t. RemoveTx (tx_hash t)) (blk_Transactions b) p), calc')" by blast
  then show ?thesis using i
    by (intro exI [of _ ch'] exI [of _ calc']) (simp add: ch'_def writeBlockCache_def dp_def)
qed

lemma fresh_calculator:
  "\<exists>c c'. CalculatorInitialization None pp ord t = Some c \<and> AppendNewSeed s 0 c = Done c'"
  by (simp add: CalculatorInitialization_def AppendNewSeed_def chan_send_def calc_chan_cap_def)

lemma rejected_height:
  "ch_latestHeight ch = tip_height bs \<Longrightarrow> \<not> tip_height bs < blk_Height b \<Longrightarrow>
    store_block E b (ch, pool, calc) = Done (ch, pool, calc)"
  by (simp add: store_block_def)

lemma insertBlock_spec:
  assumes "inv bs ch" and "fits b" and "bs = [] \<longrightarrow> calc = None" and "ch_latestHeight ch = tip_height bs"
    and "accepts bs b \<longrightarrow> length (dp_taskChannel (ch_dp ch)) + length (blk_Transactions b) \<le> taskChannelSize"
  shows "\<exists>ch' pool' calc'. insertBlock E b (ch, Some p, calc) = Done (ch', pool', calc')
    \<and> inv (extend bs b) ch' \<and> ch_latestHeight ch' = tip_height (extend bs b)
    \<and> ch_bufferChan ch' = ch_bufferChan ch
    \<and> ch_buffer ch' = (if IsGenesisBlock b \<and> blk_hash b \<notin> blk_hash ` set bs
                        then Some (NewBlockBuffer (ce_seen E) b) else ch_buffer ch)
    \<and> ch_genesisTime ch' = (if IsGenesisBlock b \<and> blk_hash b \<notin> blk_hash ` set bs
                        then bh_Timestamp (blk_Header b) else ch_genesisTime ch)
    \<and> (if accepts bs b
       then pool' = Some (fold (\<lambda>t. RemoveTx (tx_hash t)) (blk_Transactions b) p)
         \<and> ch_dp ch' = (ch_dp ch)\<lparr>dp_taskChannel := dp_taskChannel (ch_dp ch)
             @ List.map_filter (tx_task (ce_karmem E) b) (placed_from b 0 (blk_Transactions b))\<rparr>
       else pool' = Some p \<and> ch_dp ch' = ch_dp ch \<and> ch_db ch' = ch_db ch)" (is "?goal")
proof -
  have chain: "chain_of bs" by (rule inv_chain [OF assms(1)])
  have len: "length (blk_hash b) = 32" using assms(2) by (simp add: fits_def wf_block_def wf_header_def)
  obtain c1 c2 where g: "GetBlockByHash E (blk_hash b) ch = (case block_at bs (blk_hash b) of None \<Rightarrow> Inl ErrNotFound
      | Some b \<Rightarrow> Inr b, ch\<lparr>ch_blockHeightMap := c1, ch_blockCache := c2\<rparr>)"
    "inv bs (ch\<lparr>ch_blockHeightMap := c1, ch_blockCache := c2\<rparr>)"
    using GetBlockByHash_spec [OF assms(1) len] by blast
  define ch1 where "ch1 = ch\<lparr>ch_blockHeightMap := c1, ch_blockCache := c2\<rparr>"
  show ?thesis
  proof (cases "blk_hash b \<in> blk_hash ` set bs")
    case True
    then obtain c where "block_at bs (blk_hash b) = Some c" using block_at_eq [OF chain] by auto
    then have "insertBlock E b (ch, Some p, calc) = Done (ch1, Some p, calc)"
      by (simp add: insertBlock_def g ch1_def)
    moreover have "\<not> accepts bs b" using True by (simp add: accepts_def)
    ultimately show ?thesis using True g(2) assms(4)
      by (intro exI [of _ ch1] exI [of _ "Some p"] exI [of _ calc]) (simp add: extend_def ch1_def)
  next
    case False
    then have new: "block_at bs (blk_hash b) = None" unfolding block_at_def find_None_iff by (metis image_eqI)
    obtain c3 c4 ch2 where l: "GetLatestBlock E ch1 = Done (if bs = [] then Inl ErrNotFound else Inr (last bs), ch2)"
      "inv bs ch2" "ch_latestHeight ch2 = tip_height bs"
      "ch2 = ch1\<lparr>ch_latestBlock := (if bs = [] then None else Some (last bs)), ch_latestHeight := tip_height bs,
         ch_blockHeightMap := c3, ch_blockCache := c4\<rparr>"
      using GetLatestBlock_spec [OF g(2)] unfolding ch1_def by blast
    have ch2: "ch_db ch2 = ch_db ch" "ch_dp ch2 = ch_dp ch" "ch_buffer ch2 = ch_buffer ch" "ch_bufferChan ch2 = ch_bufferChan ch"
      "ch_genesisTime ch2 = ch_genesisTime ch"
      by (simp_all add: l(4) ch1_def)
    define ok where "ok \<longleftrightarrow> IsGenesisBlock b \<or> bs \<noteq> [] \<and> isPrevBlock (last bs) b"
    define s where "s = (if IsGenesisBlock b then genesisInitialization E (Some b) (createBlockBuffer E b ch2, calc) else (ch2, calc))"
    obtain ch3 calc1 where s3: "s = (ch3, calc1)" by force
    have ins: "insertBlock E b (ch, Some p, calc) = (if ok then store_block E b (ch3, Some p, calc1) else Done (ch2, Some p, calc))"
      using s3 by (auto simp: insertBlock_def g ch1_def [symmetric] new l(1) ok_def s_def)
    have ch3: "ch_db ch3 = ch_db ch" "ch_dp ch3 = ch_dp ch" "ch_bufferChan ch3 = ch_bufferChan ch"
        "ch_buffer ch3 = (if IsGenesisBlock b then Some (NewBlockBuffer (ce_seen E) b) else ch_buffer ch)"
        "ch_latestHeight ch3 = tip_height bs" "inv bs ch3"
        "ch_genesisTime ch3 = (if IsGenesisBlock b then bh_Timestamp (blk_Header b) else ch_genesisTime ch)"
      using s3 ch2 l(2,3)
      by (auto simp: s_def genesisInitialization_def createBlockBuffer_def Let_def split: if_splits
          intro: inv_caches [OF l(2)])
    show ?thesis
    proof (cases "ok \<and> tip_height bs < blk_Height b")
      case True
      then have a: "accepts bs b" using False by (simp add: accepts_def ok_def)
      have zero: "blk_Height b = 0 \<longrightarrow> (\<exists>c c'. calc1 = Some c \<and> AppendNewSeed (be_dec (gp_Seed
          (DeserializeGenesisParams (ce_karmem E) (bh_Params (blk_Header b))))) 0 c = Done c')"
      proof
        assume "blk_Height b = 0"
        then have e: "bs = []" using True chain_heights [OF chain] last_in_set by (fastforce simp: tip_height_def split: if_splits)
        then show "\<exists>c c'. calc1 = Some c \<and> AppendNewSeed (be_dec (gp_Seed
            (DeserializeGenesisParams (ce_karmem E) (bh_Params (blk_Header b))))) 0 c = Done c'"
          using True s3 assms(3) fresh_calculator by (auto simp: ok_def s_def genesisInitialization_def Let_def)
      qed
      have room: "length (dp_taskChannel (ch_dp ch3)) + length (blk_Transactions b) \<le> taskChannelSize"
        using assms(5) a ch3(2) by simp
      have gen: "ch_buffer ch3 = (if IsGenesisBlock b \<and> blk_hash b \<notin> blk_hash ` set bs
          then Some (NewBlockBuffer (ce_seen E) b) else ch_buffer ch)" using ch3(4) False by simp
      show ?thesis
        using store_block_spec [OF ch3(6,5) a assms(2) room zero, of p] True a ch3(1-3,7) gen False
        by (auto simp: ins extend_def tip_height_def)
    next
      case rejected: False
      then have "\<not> accepts bs b" by (auto simp: accepts_def ok_def)
      moreover have "insertBlock E b (ch, Some p, calc) = Done (if ok then ch3 else ch2, Some p, if ok then calc1 else calc)"
        using rejected ch3(5) rejected_height [of ch3 bs b] ins by auto
      moreover have "\<not> ok \<Longrightarrow> \<not> IsGenesisBlock b" by (simp add: ok_def)
      ultimately show ?thesis using l(2,3) ch2 ch3 False
        by (intro exI [of _ "if ok then ch3 else ch2"] exI [of _ "Some p"] exI [of _ "if ok then calc1 else calc"])
          (simp add: extend_def)
    qed
  qed
qed

text \<open>Whenever inserting returns at all, whatever the queue and the singletons are, the chain is extended.\<close>

lemma insert_txs_Done:
  assumes "\<forall>t \<in> set (placed_from b i ts). SerializeTransaction (ce_karmem E) t \<noteq> None"
    and "insert_txs (ce_karmem E) b i ts (ks, vs) pool dp = Done r"
  shows "\<exists>pool' dp'. r = (True, (ks @ map (\<lambda>t. TxHash2DBKey (tx_hash t)) (placed_from b i ts),
       vs @ map (\<lambda>t. the (SerializeTransaction (ce_karmem E) t)) (placed_from b i ts)), pool', dp')"
  using assms
proof (induction ts arbitrary: i ks vs pool dp)
  case Nil
  then show ?case by auto
next
  case (Cons t ts)
  let ?t = "placed_tx b i t"
  obtain w where w: "SerializeTransaction (ce_karmem E) ?t = Some w" using Cons.prems(1) by auto
  obtain p where p: "pool = Some p" using Cons.prems(2) by (cases pool) auto
  obtain dp1 where "insert_txs (ce_karmem E) b (Suc i) ts (ks @ [TxHash2DBKey (tx_hash ?t)], vs @ [w])
      (Some (RemoveTx (tx_hash ?t) p)) dp1 = Done r"
    using Cons.prems(2) w p by (auto simp: Let_def bindO_Done_iff split: option.splits)
  then show ?case using Cons.IH [of "Suc i"] Cons.prems(1) w by fastforce
qed

lemma store_block_Done:
  assumes "inv bs ch" and "ch_latestHeight ch = tip_height bs" and "accepts bs b" and "fits b"
    and "store_block E b (ch, pool, calc) = Done (ch', pool', calc')"
  shows "inv (bs @ [b]) ch' \<and> ch_latestHeight ch' = blk_Height b"
proof -
  let ?K = "ce_karmem E" and ?P = "placed_from b 0 (blk_Transactions b)" and ?h = "blk_hash b"
  let ?ks = "[BlockHash2DBKey ?h, latest_key, BlockHeight2DBKey (blk_Height b)] @ map (\<lambda>t. TxHash2DBKey (tx_hash t)) ?P"
  have chain: "chain_of bs" and caches: "caches_ok eh eb et bs ch" and st: "stored ?K (content (ch_db ch)) bs"
    using assms(1) by (simp_all add: inv_def chain_inv_def)
  obtain v where v: "SerializeBlock ?K b = Some v" using block_bytes [OF assms(4)] by blast
  let ?vs = "[v, ?h, ?h] @ map (\<lambda>t. the (SerializeTransaction ?K t)) ?P"
  have new: "\<not> blk_Height b \<le> ch_latestHeight ch" using assms(2,3) by (simp add: accepts_def)
  let ?ch1 = "writeBlockCache E b (ch\<lparr>ch_latestBlock := Some b, ch_latestHeight := blk_Height b\<rparr>)"
  obtain r where r: "insert_txs ?K b 0 (blk_Transactions b) ([BlockHash2DBKey ?h, latest_key, BlockHeight2DBKey (blk_Height b)], [v, ?h, ?h])
      pool (ch_dp ?ch1) = Done r"
    using assms(5) new v by (auto simp: store_block_def Let_def bindO_Done_iff)
  then obtain pool1 dp where r': "r = (True, (?ks, ?vs), pool1, dp)"
    using insert_txs_Done [OF _ r] encodes [OF assms(4)] by auto
  define d where "d = snd (db_BatchInsert (ce_db E) (ch_db ch) ?ks ?vs)"
  define ch3 where "ch3 = writeBlockCache E b
    (ch\<lparr>ch_latestBlock := Some b, ch_latestHeight := blk_Height b, ch_dp := dp, ch_db := d\<rparr>)"
  have "insert_txs ?K b 0 (blk_Transactions b) ([BlockHash2DBKey ?h, latest_key, BlockHeight2DBKey (blk_Height b)], [v, ?h, ?h])
      pool (ch_dp ch) = Done (True, (?ks, ?vs), pool1, dp)"
    using r r' by (simp add: writeBlockCache_def)
  note txs = this
  note step = store_block_def writeBlockCache_def ch3_def d_def Let_def
  have "ch' = ch3"
  proof (cases "blk_Height b = 0")
    case True
    then obtain c where c: "calc = Some c"
      using assms(5) new v txs by (cases calc) (simp_all add: step)
    show ?thesis using assms(5) new v txs True c
      by (cases "AppendNewSeed (be_dec (gp_Seed (DeserializeGenesisParams ?K (bh_Params (blk_Header b))))) 0 c")
        (auto simp: step)
  next
    case False
    then show ?thesis using assms(5) new v txs by (simp add: step) auto
  qed
  have "content d = (content (ch_db ch))(?ks [\<mapsto>] ?vs)"
    unfolding d_def by (rule db_interface.db_batch_insert [OF db_ok]) simp
  then have "stored ?K (content (ch_db ch3)) (bs @ [b])"
    using stored_extend [OF st chain assms(3,4) v] by (simp add: ch3_def writeBlockCache_def)
  then have "inv (bs @ [b]) ch3" by (rule inv_tip [OF caches chain assms(3,4) _ ch3_def])
  then show ?thesis using \<open>ch' = ch3\<close> by (simp add: ch3_def writeBlockCache_def)
qed

lemma insertBlock_Done:
  assumes "inv bs ch" and "fits b" and "ch_latestHeight ch = tip_height bs"
    and "insertBlock E b (ch, pool, calc) = Done (ch', pool', calc')"
  shows "inv (extend bs b) ch' \<and> ch_latestHeight ch' = tip_height (extend bs b)"
proof -
  have chain: "chain_of bs" by (rule inv_chain [OF assms(1)])
  have len: "length (blk_hash b) = 32" using assms(2) by (simp add: fits_def wf_block_def wf_header_def)
  obtain c1 c2 where g: "GetBlockByHash E (blk_hash b) ch = (case block_at bs (blk_hash b) of None \<Rightarrow> Inl ErrNotFound
      | Some b \<Rightarrow> Inr b, ch\<lparr>ch_blockHeightMap := c1, ch_blockCache := c2\<rparr>)"
    "inv bs (ch\<lparr>ch_blockHeightMap := c1, ch_blockCache := c2\<rparr>)"
    using GetBlockByHash_spec [OF assms(1) len] by blast
  define ch1 where "ch1 = ch\<lparr>ch_blockHeightMap := c1, ch_blockCache := c2\<rparr>"
  show ?thesis
  proof (cases "blk_hash b \<in> blk_hash ` set bs")
    case True
    then obtain c where "block_at bs (blk_hash b) = Some c" using block_at_eq [OF chain] by auto
    then have "ch' = ch1" using assms(4) by (simp add: insertBlock_def g ch1_def)
    moreover have "\<not> accepts bs b" using True by (simp add: accepts_def)
    ultimately show ?thesis using g(2) assms(3) by (simp add: extend_def ch1_def)
  next
    case False
    then have new: "block_at bs (blk_hash b) = None" unfolding block_at_def find_None_iff by (metis image_eqI)
    obtain c3 c4 ch2 where l: "GetLatestBlock E ch1 = Done (if bs = [] then Inl ErrNotFound else Inr (last bs), ch2)"
      "inv bs ch2" "ch_latestHeight ch2 = tip_height bs"
      using GetLatestBlock_spec [OF g(2)] unfolding ch1_def by blast
    define ok where "ok \<longleftrightarrow> IsGenesisBlock b \<or> bs \<noteq> [] \<and> isPrevBlock (last bs) b"
    define s where "s = (if IsGenesisBlock b then genesisInitialization E (Some b) (createBlockBuffer E b ch2, calc) else (ch2, calc))"
    obtain ch3 calc1 where s3: "s = (ch3, calc1)" by force
    have ins: "insertBlock E b (ch, pool, calc) = (if ok then store_block E b (ch3, pool, calc1) else Done (ch2, pool, calc))"
      using s3 by (auto simp: insertBlock_def g ch1_def [symmetric] new l(1) ok_def s_def)
    have ch3: "ch_latestHeight ch3 = tip_height bs" "inv bs ch3"
      using s3 l(2,3)
      by (auto simp: s_def genesisInitialization_def createBlockBuffer_def Let_def split: if_splits
          intro: inv_caches [OF l(2)])
    show ?thesis
    proof (cases "ok \<and> tip_height bs < blk_Height b")
      case True
      then have a: "accepts bs b" using False by (simp add: accepts_def ok_def)
      have "store_block E b (ch3, pool, calc1) = Done (ch', pool', calc')" using True ins assms(4) by simp
      then show ?thesis using store_block_Done [OF ch3(2,1) a assms(2)] a by (simp add: extend_def tip_height_def)
    next
      case rejected: False
      then have "\<not> accepts bs b" by (auto simp: accepts_def ok_def)
      moreover have "ch' = ch3 \<or> ch' = ch2"
        using assms(4) ins rejected ch3(1) rejected_height [of ch3 bs b pool calc1] by (auto split: if_splits)
      ultimately show ?thesis using ch3 l(2,3) by (auto simp: extend_def)
    qed
  qed
qed

end

end
