(* ===== verification/ChainHistory.thy ===== *)
theory ChainHistory
  imports ChainStore
begin

text \<open>
  The life of a chain: a node starts on a database, blocks are inserted in any order, data tasks run
  and clients read. Every state of such a history is a chain in the sense of ChainStore; a restart
  finds it again; the packager never takes a transaction twice. The properties of the chain follow,
  with instances over a concrete database, caches and encoder.
\<close>

section \<open>Starting\<close>

context chain_world
begin

lemma fresh_inv:
  assumes "chain_of bs" and "stored (ce_karmem E) (content d) bs"
  shows "inv bs \<lparr>ch_db = d, ch_blockHeightMap = lru_new (ce_heights E) n, ch_blockCache = lru_new (ce_blocks E) m,
    ch_txCache = lru_new (ce_txs E) k, ch_latestBlock = None, ch_latestHeight = -1, ch_bufferChan = [],
    ch_buffer = None, ch_dp = NewDataProcessor, ch_genesisParams = None, ch_genesisTime = 0\<rparr>"
  using assms lru.entries_new [OF heights_ok] lru.entries_new [OF blocks_ok] lru.entries_new [OF txs_ok]
  by (simp add: inv_def chain_inv_def caches_ok_def latest_ok_def)

lemma inv_genesis:
  "inv bs ch \<Longrightarrow> inv bs (fst (genesisInitialization E b (ch, calc)))
    \<and> ch_latestHeight (fst (genesisInitialization E b (ch, calc))) = ch_latestHeight ch
    \<and> ch_dp (fst (genesisInitialization E b (ch, calc))) = ch_dp ch
    \<and> ch_buffer (fst (genesisInitialization E b (ch, calc))) = ch_buffer ch
    \<and> ch_db (fst (genesisInitialization E b (ch, calc))) = ch_db ch"
  by (auto simp: genesisInitialization_def Let_def intro: inv_caches split: option.split)

lemma NewBlockchain_spec:
  assumes "chain_of bs" and "stored (ce_karmem E) (content d) bs"
  shows "\<exists>ch calc'. NewBlockchain E d calc = Done (ch, calc') \<and> inv bs ch \<and> ch_latestHeight ch = tip_height bs
    \<and> ch_db ch = d \<and> ch_dp ch = NewDataProcessor \<and> ch_buffer ch = (if bs = [] then None else Some (NewBlockBuffer (ce_seen E) (last bs)))
    \<and> (case height_at bs 0 of None \<Rightarrow> calc' = calc
       | Some g \<Rightarrow> ch_genesisTime ch = bh_Timestamp (blk_Header g)
           \<and> ch_genesisParams ch = Some (DeserializeGenesisParams (ce_karmem E) (bh_Params (blk_Header g))) \<and> calc' \<noteq> None)"
proof -
  define ch0 where "ch0 = \<lparr>ch_db = d, ch_blockHeightMap = lru_new (ce_heights E) maxBlockCache,
    ch_blockCache = lru_new (ce_blocks E) maxBlockCache, ch_txCache = lru_new (ce_txs E) maxTransactionCache,
    ch_latestBlock = None, ch_latestHeight = -1, ch_bufferChan = [],
    ch_buffer = (None :: 's BlockBuffer option), ch_dp = NewDataProcessor, ch_genesisParams = None, ch_genesisTime = 0\<rparr>"
  have i0: "inv bs ch0" using fresh_inv [OF assms] by (simp add: ch0_def)
  obtain c1 c2 ch1 where l: "GetLatestBlock E ch0 = Done (if bs = [] then Inl ErrNotFound else Inr (last bs), ch1)"
    "inv bs ch1" "ch_latestHeight ch1 = tip_height bs"
    "ch1 = ch0\<lparr>ch_latestBlock := (if bs = [] then None else Some (last bs)), ch_latestHeight := tip_height bs,
                ch_blockHeightMap := c1, ch_blockCache := c2\<rparr>"
    using GetLatestBlock_spec [OF i0] by blast
  show ?thesis
  proof (cases "bs = []")
    case True
    have "NewBlockchain E d calc = Done (ch1, calc)"
      using l(1) True by (simp add: NewBlockchain_def ch0_def Let_def)
    then show ?thesis using l True
      by (intro exI [of _ ch1] exI [of _ calc]) (simp add: ch0_def height_at_def)
  next
    case False
    define ch2 where "ch2 = createBlockBuffer E (last bs) ch1"
    have i2: "inv bs ch2" by (rule inv_caches [OF l(2)]) (simp_all add: ch2_def createBlockBuffer_def)
    have f2: "ch_db ch2 = d" "ch_dp ch2 = NewDataProcessor" "ch_buffer ch2 = Some (NewBlockBuffer (ce_seen E) (last bs))" "ch_latestHeight ch2 = tip_height bs"
      using l(3) by (simp_all add: ch2_def createBlockBuffer_def) (simp_all add: l(4) ch0_def)
    obtain r c3 c4 where g: "GetBlockByHeight E 0 ch2 = Done (r, ch2\<lparr>ch_blockHeightMap := c3, ch_blockCache := c4\<rparr>)"
      "inv bs (ch2\<lparr>ch_blockHeightMap := c3, ch_blockCache := c4\<rparr>)"
      "case height_at bs 0 of None \<Rightarrow> \<exists>e. r = Inl e | Some b \<Rightarrow> r = Inr b"
      using GetBlockByHeight_spec [OF i2, of 0] by (auto simp: in_i64_def)
    define ch3 where "ch3 = ch2\<lparr>ch_blockHeightMap := c3, ch_blockCache := c4\<rparr>"
    define out where "out = genesisInitialization E (case r of Inl _ \<Rightarrow> None | Inr g \<Rightarrow> Some g) (ch3, calc)"
    have "NewBlockchain E d calc = Done out"
      using l(1) False g(1) by (simp add: NewBlockchain_def ch0_def Let_def ch2_def ch3_def out_def)
    moreover have "inv bs ch3" using g(2) by (simp add: ch3_def)
    note k = inv_genesis [OF this, of "case r of Inl _ \<Rightarrow> None | Inr g \<Rightarrow> Some g" calc]
    moreover have "case height_at bs 0 of None \<Rightarrow> snd out = calc
       | Some g \<Rightarrow> ch_genesisTime (fst out) = bh_Timestamp (blk_Header g)
           \<and> ch_genesisParams (fst out) = Some (DeserializeGenesisParams (ce_karmem E) (bh_Params (blk_Header g))) \<and> snd out \<noteq> None"
      using g(3) by (auto simp: out_def genesisInitialization_def Let_def CalculatorInitialization_def split: option.splits)
    ultimately show ?thesis using f2 False
      by (intro exI [of _ "fst out"] exI [of _ "snd out"]) (simp add: out_def ch3_def)
  qed
qed

end

section \<open>Histories\<close>

text \<open>
  What goes on with one chain while the process runs. The buffer and the queues of the chain may
  change in any way between two steps, and \<open>blk\<close> may be any block whose encoding fits the format.
\<close>

inductive chain_step ::
    "('d, 'h, 'b, 't, 's, 'w) chain_env \<Rightarrow> json_ops \<Rightarrow> ('d, 'h, 'b, 't, 's) chain_state
       \<Rightarrow> ('d, 'h, 'b, 't, 's) chain_state \<Rightarrow> bool" for E J where
  insert: "fits blk \<Longrightarrow> insertBlock E blk s = Done s' \<Longrightarrow> chain_step E J s s'"
| data: "length (dt_Address task) = 20 \<Longrightarrow> run_task J (ce_db E) task (ch_db ch, r) = Done (d, r' :: nat EventRouter) \<Longrightarrow>
    chain_step E J (ch, pool, calc) (ch\<lparr>ch_db := d\<rparr>, pool, calc)"
| by_hash: "length h = 32 \<Longrightarrow> chain_step E J (ch, pool, calc) (snd (GetBlockByHash E h ch), pool, calc)"
| by_height: "in_i64 n \<Longrightarrow> GetBlockByHeight E n ch = Done (r, ch') \<Longrightarrow> chain_step E J (ch, pool, calc) (ch', pool, calc)"
| transaction: "length h = 32 \<Longrightarrow> chain_step E J (ch, pool, calc) (snd (GetTransactionByHash E h ch), pool, calc)"
| restart: "NewBlockchain E (ch_db ch) None = Done (ch', calc') \<Longrightarrow> chain_step E J (ch, pool, calc) (ch', pool', calc')"
| other: "chain_step E J (ch, pool, calc) (ch\<lparr>ch_buffer := b, ch_bufferChan := q, ch_dp := dp\<rparr>, pool', calc')"

inductive chain_reach ::
    "('d, 'h, 'b, 't, 's, 'w) chain_env \<Rightarrow> json_ops \<Rightarrow> 'd \<Rightarrow> ('d, 'h, 'b, 't, 's) chain_state \<Rightarrow> bool" for E J d where
  start: "NewBlockchain E d None = Done (ch, calc) \<Longrightarrow> chain_reach E J d (ch, pool, calc)"
| step: "chain_reach E J d s \<Longrightarrow> chain_step E J s s' \<Longrightarrow> chain_reach E J d s'"

context chain_world
begin

lemma inv_data:
  assumes "inv bs ch" and "\<And>k. chain_key k \<Longrightarrow> content d (db_key_bytes k) = content (ch_db ch) (db_key_bytes k)"
  shows "inv bs (ch\<lparr>ch_db := d\<rparr>)"
  using assms by (simp add: inv_def chain_inv_def stored_def caches_ok_def latest_ok_def cong: option.case_cong)

lemma chain_step_inv:
  assumes "json J ok" and "chain_step E J s s'" and "inv bs (fst s)" and "ch_latestHeight (fst s) = tip_height bs"
  shows "\<exists>ext. inv (bs @ ext) (fst s') \<and> ch_latestHeight (fst s') = tip_height (bs @ ext)"
  using assms(2-4)
proof (induction rule: chain_step.induct)
  case (insert blk s s')
  obtain ch pool calc ch' pool' calc' where s: "s = (ch, pool, calc)" "s' = (ch', pool', calc')"
    by (cases s, cases s') auto
  have "inv (extend bs blk) ch' \<and> ch_latestHeight ch' = tip_height (extend bs blk)"
    using insertBlock_Done [of bs ch blk pool calc ch' pool' calc'] insert s by simp
  then show ?case using s by (auto simp: extend_def split: if_splits intro: exI [of _ "[]"])
next
  case (data task ch r d r' pool calc)
  have "content d (db_key_bytes k) = content (ch_db ch) (db_key_bytes k)" if "chain_key k" for k
  proof -
    have "wf_key k" using that by (cases k) auto
    moreover have "k \<noteq> DataKey (dt_Address task) (dt_Key task)" using that by auto
    ultimately have "db_key_bytes k \<noteq> task_key task"
      using db_key_bytes_inject [of k "DataKey (dt_Address task) (dt_Key task)"] data(1) by (auto simp: task_key_def)
    then show ?thesis using data_store.run_task_frame [OF data_store.intro [OF assms(1) db_ok] data(2)] by blast
  qed
  then have "inv bs (ch\<lparr>ch_db := d\<rparr>)" using inv_data data.prems by simp
  then show ?case using data.prems by (intro exI [of _ "[]"]) simp
next
  case (by_hash h ch pool calc)
  then show ?case using GetBlockByHash_spec [of bs ch h] by (intro exI [of _ "[]"]) auto
next
  case (by_height n ch r ch' pool calc)
  then show ?case using GetBlockByHeight_spec [of bs ch n] by (intro exI [of _ "[]"]) auto
next
  case (transaction h ch pool calc)
  then show ?case using GetTransactionByHash_spec [of bs ch h] by (intro exI [of _ "[]"]) auto
next
  case (restart ch ch' calc' pool calc pool')
  then have "chain_of bs" "stored (ce_karmem E) (content (ch_db ch)) bs" by (auto simp: inv_def chain_inv_def)
  then show ?case using NewBlockchain_spec [of bs "ch_db ch" None] restart.hyps by (intro exI [of _ "[]"]) auto
next
  case (other ch pool calc dp q b pool' calc')
  have "inv bs (ch\<lparr>ch_buffer := b, ch_bufferChan := q, ch_dp := dp\<rparr>)"
    by (rule inv_caches [of bs ch]) (use other in simp_all)
  then show ?case using other by (intro exI [of _ "[]"]) simp
qed

lemma chain_reach_inv:
  assumes "json J ok" and "chain_of bs" and "stored (ce_karmem E) (content d) bs" and "chain_reach E J d s"
  shows "\<exists>ext. inv (bs @ ext) (fst s) \<and> ch_latestHeight (fst s) = tip_height (bs @ ext)"
  using assms(4)
proof (induction rule: chain_reach.induct)
  case (start ch calc pool)
  then show ?case using NewBlockchain_spec [OF assms(2,3), of None] by (intro exI [of _ "[]"]) auto
next
  case (step s s')
  then obtain ext where "inv (bs @ ext) (fst s)" "ch_latestHeight (fst s) = tip_height (bs @ ext)" by blast
  then obtain ext' where "inv ((bs @ ext) @ ext') (fst s') \<and> ch_latestHeight (fst s') = tip_height ((bs @ ext) @ ext')"
    using chain_step_inv [OF assms(1) step.hyps(2)] by blast
  then show ?case by (intro exI [of _ "ext @ ext'"]) simp
qed

end

section \<open>The chain as the packager sees it\<close>

definition chain_lookup ::
    "('d, 'h, 'b, 't, 's, 'w) chain_env \<Rightarrow> ('d, 'h, 'b, 't, 's) BlockChain \<Rightarrow> bytes
       \<Rightarrow> Transaction option \<times> ('d, 'h, 'b, 't, 's) BlockChain" where
  "chain_lookup E ch h = (case GetTransactionByHash E h ch of
     (Inl _, ch') \<Rightarrow> (None, ch') | (Inr t, ch') \<Rightarrow> (Some t, ch'))"

definition tx_stored :: "('d \<Rightarrow> bytes \<Rightarrow> bytes option) \<Rightarrow> ('d, 'h, 'b, 't, 's) BlockChain \<Rightarrow> bytes \<Rightarrow> bool" where
  "tx_stored content ch h \<longleftrightarrow> content (ch_db ch) (TxHash2DBKey h) \<noteq> None"

context chain_world
begin

lemma tx_stored_iff:
  assumes "inv bs ch" and "length h = 32"
  shows "tx_stored content ch h \<longleftrightarrow> h \<in> tx_hash ` set (chain_txs bs)"
proof -
  have "content (ch_db ch) (db_key_bytes (TxKey h)) = chain_content (ce_karmem E) bs (TxKey h)"
    using assms by (simp only: inv_def chain_inv_def stored_def chain_key.simps wf_key.simps)
  then have c: "content (ch_db ch) (TxHash2DBKey h) = Option.bind (tx_at bs h) (SerializeTransaction (ce_karmem E))"
    by simp
  show ?thesis
  proof (cases "tx_at bs h")
    case None
    then show ?thesis using c tx_at_None [of bs h] by (simp add: tx_stored_def)
  next
    case (Some t)
    then have t: "t \<in> set (chain_txs bs)" "tx_hash t = h" using tx_at_SomeD by blast+
    then obtain v where "SerializeTransaction (ce_karmem E) t = Some v"
      using tx_bytes chain_tx_encodes [OF inv_chain [OF assms(1)]] by blast
    then show ?thesis using c Some t by (auto simp: tx_stored_def)
  qed
qed

text \<open>The chain provides the interface the pool relies on.\<close>

lemma chain_tx_lookup: "tx_lookup (chain_lookup E) (tx_stored content) (\<lambda>ch. \<exists>bs. inv bs ch)"
proof
  fix ch h
  assume "\<exists>bs. inv bs ch" and h: "length (h :: bytes) = 32"
  then obtain bs where i: "inv bs ch" by blast
  obtain r c where g: "GetTransactionByHash E h ch = (r, ch\<lparr>ch_txCache := c\<rparr>)" "inv bs (ch\<lparr>ch_txCache := c\<rparr>)"
    "case r of Inl e \<Rightarrow> h \<notin> tx_hash ` set (chain_txs bs) | Inr t \<Rightarrow> t \<in> set (chain_txs bs) \<and> tx_hash t = h"
    using GetTransactionByHash_spec [OF i h] by blast
  show "fst (chain_lookup E ch h) \<noteq> None \<longleftrightarrow> tx_stored content ch h"
    using g tx_stored_iff [OF i h] by (auto simp: chain_lookup_def split: sum.splits)
  show "tx_stored content (snd (chain_lookup E ch h)) = tx_stored content ch"
    using g by (auto simp: chain_lookup_def tx_stored_def fun_eq_iff split: sum.splits)
  show "\<exists>bs. inv bs (snd (chain_lookup E ch h))"
    using g by (auto simp: chain_lookup_def split: sum.splits)
qed

end

sublocale chain_world \<subseteq> lookup: tx_lookup "chain_lookup E" "tx_stored content" "\<lambda>ch. \<exists>bs. inv bs ch"
  by (rule chain_tx_lookup)

section \<open>A concrete world\<close>

definition std_env :: "(bytes \<rightharpoonup> bytes, (int, bytes) lru_list, (string, Block) lru_list, (string, Transaction) lru_list,
    (string, unit) lru_list, mem_writer) chain_env" where
  "std_env = \<lparr>ce_db = LevelDB map_leveldb, ce_heights = list_lru, ce_blocks = list_lru, ce_txs = list_lru,
     ce_seen = list_lru, ce_karmem = std_karmem, ce_sha = (\<lambda>m. replicate 32 (of_nat (length m)))\<rparr>"

interpretation std_world: chain_world std_env mw_len mw_cell "\<lambda>d. d" list_entries list_entries list_entries
  by (intro chain_world.intro)
    (simp_all add: std_env_def std.karmem_axioms map_db.db.db_interface_axioms list_lru.lru_axioms)

interpretation std_lookup: tx_lookup "chain_lookup std_env" "tx_stored (\<lambda>d. d)" "\<lambda>ch. \<exists>bs. std_world.inv bs ch"
  by (rule std_world.chain_tx_lookup)

definition sample_genesis :: Block where
  "sample_genesis = \<lparr>blk_Header = sample_header\<lparr>bh_PrevBlockHash := replicate 32 0, bh_BlockHash := replicate 32 1,
     bh_Height := 0, bh_Params := []\<rparr>, blk_Transactions = []\<rparr>"

lemma sample_genesis_fits [simp]: "fits sample_genesis"
  by (simp add: fits_def wf_block_def wf_header_def sample_genesis_def sample_header_def block_size_def in_i64_def)

lemma sample_block_fits [simp]: "fits sample_block"
  using wf_sample_block size_sample_block by (simp add: fits_def)

lemma accepts_sample_genesis [simp]: "accepts [] sample_genesis"
  by (simp add: accepts_def sample_genesis_def IsGenesisBlock_iff tip_height_def)

lemma accepts_sample_block [simp]: "accepts [sample_genesis] sample_block"
  by (simp add: accepts_def sample_genesis_def sample_block_def sample_header_def isPrevBlock_def tip_height_def)

section \<open>Properties\<close>

text \<open>C1: Inserting a block implements appending to a list of blocks. From every state that represents a
  chain, inserting any well-formed block returns; the new state represents the old chain extended by
  the block when it has a new hash, a greater height and the tip's hash as its previous hash (or no
  previous hash at all), and the old chain otherwise. An accepted block's transactions leave the pool
  and its data commands are queued in order; a rejected block changes neither database, pool nor
  queue. It needs room on the task channel, and no calculator before the first block.\<close>

theorem insert_block_refines_append:
  assumes "chain_world E len cell content eh eb et" and "chain_inv E content eh eb et bs ch"
    and "ch_latestHeight ch = tip_height bs" and "fits b" and "bs = [] \<longrightarrow> calc = None"
    and "accepts bs b \<longrightarrow> length (dp_taskChannel (ch_dp ch)) + length (blk_Transactions b) \<le> taskChannelSize"
  shows "\<exists>ch' pool' calc'. insertBlock E b (ch, Some p, calc) = Done (ch', pool', calc')
    \<and> chain_inv E content eh eb et (extend bs b) ch' \<and> Height ch' = tip_height (extend bs b)
    \<and> (if accepts bs b
       then pool' = Some (fold (\<lambda>t. RemoveTx (tx_hash t)) (blk_Transactions b) p)
         \<and> dp_taskChannel (ch_dp ch') = dp_taskChannel (ch_dp ch)
             @ List.map_filter (tx_task (ce_karmem E) b) (placed_from b 0 (blk_Transactions b))
       else pool' = Some p \<and> ch_dp ch' = ch_dp ch \<and> ch_db ch' = ch_db ch)"
proof -
  note inv = chain_world.inv_def [OF assms(1)]
  show ?thesis
    using chain_world.insertBlock_spec [OF assms(1), of bs ch b calc p] assms(2-6)
    unfolding inv Height_def by fastforce
qed

lemma std_fresh:
  "\<exists>ch. NewBlockchain std_env (\<lambda>_. None) None = Done (ch, None)
    \<and> chain_inv std_env (\<lambda>d. d) list_entries list_entries list_entries [] ch \<and> ch_latestHeight ch = tip_height []
    \<and> dp_taskChannel (ch_dp ch) = [] \<and> ch_db ch = (\<lambda>_. None)"
proof -
  have "chain_content K [] k = None" for K :: "mem_writer karmem_ops" and k
    by (cases k) (simp_all add: block_at_def height_at_def tx_at_def chain_txs_def)
  then have s: "stored (ce_karmem std_env) (\<lambda>_. None) []" by (simp add: stored_def)
  obtain ch calc' where n: "NewBlockchain std_env (\<lambda>_. None) None = Done (ch, calc')" "std_world.inv [] ch"
    "ch_latestHeight ch = tip_height []" "ch_db ch = (\<lambda>_. None)" "calc' = None"
    using std_world.NewBlockchain_spec [OF chain_of.empty s, of None] by (auto simp: height_at_def)
  moreover have "dp_taskChannel (ch_dp ch) = []"
    using n(1) by (auto simp: NewBlockchain_def GetLatestBlock_def Let_def std_env_def LevelDB_def LevelDB_Get_def
        map_leveldb_def NewDataProcessor_def)
  ultimately show ?thesis using std_world.inv_def by auto
qed

text \<open>A chain with a genesis block, and with one block on top.\<close>

lemma std_genesis:
  "\<exists>ch p calc. chain_reach std_env J (\<lambda>_. None) (ch, Some p, calc)
    \<and> chain_inv std_env (\<lambda>d. d) list_entries list_entries list_entries [sample_genesis] ch
    \<and> ch_latestHeight ch = tip_height [sample_genesis] \<and> dp_taskChannel (ch_dp ch) = []"
proof -
  obtain ch where c: "NewBlockchain std_env (\<lambda>_. None) None = Done (ch, None)"
    "std_world.inv [] ch" "ch_latestHeight ch = tip_height []" "dp_taskChannel (ch_dp ch) = []"
    using std_fresh std_world.inv_def by auto
  have e: "blk_Transactions sample_genesis = []" by (simp add: sample_genesis_def)
  obtain ch' p' calc' where i: "insertBlock std_env sample_genesis (ch, Some (NewTxPool None), None) = Done (ch', p', calc')"
    "std_world.inv [sample_genesis] ch'" "ch_latestHeight ch' = tip_height [sample_genesis]"
    "p' = Some (NewTxPool None)" "dp_taskChannel (ch_dp ch') = []"
    using std_world.insertBlock_spec [OF c(2) sample_genesis_fits _ c(3), of None "NewTxPool None"] c(4) e
    by (auto simp: extend_def List.map_filter_def taskChannelSize_def)
  have "chain_reach std_env J (\<lambda>_. None) (ch', p', calc')"
    by (rule chain_reach.step [OF chain_reach.start [OF c(1), of J "Some (NewTxPool None)"]],
        rule chain_step.insert [OF sample_genesis_fits i(1)])
  then show ?thesis using i(2-5) std_world.inv_def by auto
qed

lemma insert_block_refines_append_witness:
  "\<exists>ch p calc ch' pool' calc'. insertBlock std_env sample_block (ch, Some p, calc) = Done (ch', pool', calc')
    \<and> chain_inv std_env (\<lambda>d. d) list_entries list_entries list_entries [sample_genesis, sample_block] ch'
    \<and> Height ch' = 1"
proof -
  obtain ch where c: "chain_inv std_env (\<lambda>d. d) list_entries list_entries list_entries [sample_genesis] ch"
    "ch_latestHeight ch = tip_height [sample_genesis]" "dp_taskChannel (ch_dp ch) = []"
    using std_genesis [of tiny_json] by blast
  have "tip_height [sample_genesis, sample_block] = 1"
    by (simp add: tip_height_def sample_block_def sample_header_def)
  moreover have "length (dp_taskChannel (ch_dp ch)) + length (blk_Transactions sample_block) \<le> taskChannelSize"
    using c(3) by (simp add: sample_block_def taskChannelSize_def)
  ultimately show ?thesis
    using insert_block_refines_append [OF std_world.chain_world_axioms c(1,2) sample_block_fits, of None "NewTxPool None"]
    by (simp add: extend_def) blast
qed

text \<open>The chain answers reads from its list of blocks, whatever the caches hold: a block hash gives
  the block with that hash or an error, a height gives the block at that height or an error, a
  transaction hash gives a stored transaction with that hash exactly when some block of the chain
  contains one. No read changes which chain is represented.\<close>

theorem chain_reads:
  assumes "chain_world E len cell content eh eb et" and "chain_inv E content eh eb et bs ch"
    and "length h = 32" and "in_i64 n"
  shows "\<exists>ch1 r ch2 t ch3.
      GetBlockByHash E h ch = (case block_at bs h of None \<Rightarrow> Inl ErrNotFound | Some b \<Rightarrow> Inr b, ch1)
    \<and> GetBlockByHeight E n ch = Done (r, ch2) \<and> (case height_at bs n of None \<Rightarrow> \<exists>e. r = Inl e | Some b \<Rightarrow> r = Inr b)
    \<and> chain_lookup E ch h = (t, ch3)
    \<and> (case t of None \<Rightarrow> h \<notin> tx_hash ` set (chain_txs bs) | Some t \<Rightarrow> t \<in> set (chain_txs bs) \<and> tx_hash t = h)
    \<and> (\<forall>ch' \<in> {ch1, ch2, ch3}. chain_inv E content eh eb et bs ch' \<and> Height ch' = Height ch \<and> ch_db ch' = ch_db ch)"
proof -
  note inv = chain_world.inv_def [OF assms(1)]
  obtain c1 c2 where 1: "GetBlockByHash E h ch = (case block_at bs h of None \<Rightarrow> Inl ErrNotFound | Some b \<Rightarrow> Inr b,
       ch\<lparr>ch_blockHeightMap := c1, ch_blockCache := c2\<rparr>)"
    "chain_inv E content eh eb et bs (ch\<lparr>ch_blockHeightMap := c1, ch_blockCache := c2\<rparr>)"
    using chain_world.GetBlockByHash_spec [OF assms(1), of bs ch h] assms(2,3) unfolding inv by blast
  obtain r c3 c4 where 2: "GetBlockByHeight E n ch = Done (r, ch\<lparr>ch_blockHeightMap := c3, ch_blockCache := c4\<rparr>)"
    "chain_inv E content eh eb et bs (ch\<lparr>ch_blockHeightMap := c3, ch_blockCache := c4\<rparr>)"
    "case height_at bs n of None \<Rightarrow> \<exists>e. r = Inl e | Some b \<Rightarrow> r = Inr b"
    using chain_world.GetBlockByHeight_spec [OF assms(1), of bs ch n] assms(2,4) unfolding inv by blast
  obtain t c5 where 3: "GetTransactionByHash E h ch = (t, ch\<lparr>ch_txCache := c5\<rparr>)"
    "chain_inv E content eh eb et bs (ch\<lparr>ch_txCache := c5\<rparr>)"
    "case t of Inl e \<Rightarrow> h \<notin> tx_hash ` set (chain_txs bs) | Inr t \<Rightarrow> t \<in> set (chain_txs bs) \<and> tx_hash t = h"
    using chain_world.GetTransactionByHash_spec [OF assms(1), of bs ch h] assms(2,3) unfolding inv by blast
  define u where "u = (case t of Inl _ \<Rightarrow> None | Inr t \<Rightarrow> Some t)"
  have l: "chain_lookup E ch h = (u, ch\<lparr>ch_txCache := c5\<rparr>)"
    using 3(1) by (simp add: chain_lookup_def u_def split: sum.split)
  have "case u of None \<Rightarrow> h \<notin> tx_hash ` set (chain_txs bs) | Some t \<Rightarrow> t \<in> set (chain_txs bs) \<and> tx_hash t = h"
    using 3(3) by (simp add: u_def split: sum.splits)
  then show ?thesis using 1 2 3(2) l
    by (intro exI [of _ "ch\<lparr>ch_blockHeightMap := c1, ch_blockCache := c2\<rparr>"] exI [of _ r]
        exI [of _ "ch\<lparr>ch_blockHeightMap := c3, ch_blockCache := c4\<rparr>"] exI [of _ u] exI [of _ "ch\<lparr>ch_txCache := c5\<rparr>"])
      (simp add: Height_def)
qed

lemma chain_reads_witness:
  "\<exists>ch ch1. GetBlockByHash std_env (replicate 32 1) ch = (Inr sample_genesis, ch1)"
proof -
  obtain ch where c: "chain_inv std_env (\<lambda>d. d) list_entries list_entries list_entries [sample_genesis] ch"
    using std_genesis [of tiny_json] by blast
  have "block_at [sample_genesis] (replicate 32 1) = Some sample_genesis"
    by (simp add: block_at_def sample_genesis_def)
  then show ?thesis
    using chain_reads [OF std_world.chain_world_axioms c, of "replicate 32 1" 0] by (auto simp: in_i64_def)
qed

text \<open>C19: A restart loses nothing: opening the database of any chain gives a state that represents the
  same chain, at its height, with an empty buffer on the last block; genesis time and parameters are
  those of the block at height 0, and the calculator runs. An empty database gives an empty chain.\<close>

theorem restart_recovers_chain:
  assumes "chain_world E len cell content eh eb et" and "chain_of bs" and "stored (ce_karmem E) (content d) bs"
  shows "\<exists>ch calc'. NewBlockchain E d calc = Done (ch, calc')
    \<and> chain_inv E content eh eb et bs ch \<and> Height ch = tip_height bs \<and> ch_db ch = d
    \<and> ch_buffer ch = (if bs = [] then None else Some (NewBlockBuffer (ce_seen E) (last bs)))
    \<and> (case height_at bs 0 of None \<Rightarrow> calc' = calc
       | Some g \<Rightarrow> ch_genesisTime ch = bh_Timestamp (blk_Header g)
           \<and> ch_genesisParams ch = Some (DeserializeGenesisParams (ce_karmem E) (bh_Params (blk_Header g))) \<and> calc' \<noteq> None)"
  using chain_world.NewBlockchain_spec [OF assms, of calc]
  unfolding chain_world.inv_def [OF assms(1)] Height_def by blast

lemma restart_recovers_chain_witness:
  "\<exists>d ch calc'. NewBlockchain std_env d None = Done (ch, calc') \<and> Height ch = 0
    \<and> ch_buffer ch = Some (NewBlockBuffer list_lru sample_genesis)"
proof -
  obtain ch where c: "chain_inv std_env (\<lambda>d. d) list_entries list_entries list_entries [sample_genesis] ch"
    using std_genesis [of tiny_json] by blast
  then have "chain_of [sample_genesis]" "stored (ce_karmem std_env) (ch_db ch) [sample_genesis]"
    by (simp_all add: chain_inv_def)
  moreover have "tip_height [sample_genesis] = 0" "ce_seen std_env = list_lru"
    by (simp_all add: tip_height_def sample_genesis_def std_env_def)
  ultimately show ?thesis
    using restart_recovers_chain [OF std_world.chain_world_axioms, of "[sample_genesis]" "ch_db ch" None] by force
qed

text \<open>C2: The database only ever grows one chain. Whatever happens to a node (blocks inserted in any order
  and any number of times, data commands carried out, reads, restarts), the database holds exactly the
  blocks, heights, transactions and latest pointer of one list of blocks, which extends the list it
  started with; heights strictly increase along it, and every block but a genesis-like one names its
  predecessor's hash.\<close>

theorem database_holds_one_chain:
  assumes "chain_world E len cell content eh eb et" and "json J ok"
    and "chain_of bs" and "stored (ce_karmem E) (content d) bs" and "chain_reach E J d s"
  shows "\<exists>ext. stored (ce_karmem E) (content (ch_db (fst s))) (bs @ ext) \<and> Height (fst s) = tip_height (bs @ ext)
    \<and> sorted_wrt (<) (map (\<lambda>b. blk_Height b) (bs @ ext))
    \<and> (\<forall>i. Suc i < length (bs @ ext) \<longrightarrow>
         IsGenesisBlock ((bs @ ext) ! Suc i) \<or> isPrevBlock ((bs @ ext) ! i) ((bs @ ext) ! Suc i))"
proof -
  obtain ext where e: "chain_inv E content eh eb et (bs @ ext) (fst s)" "ch_latestHeight (fst s) = tip_height (bs @ ext)"
    using chain_world.chain_reach_inv [OF assms] unfolding chain_world.inv_def [OF assms(1)] by blast
  then have "chain_of (bs @ ext)" by (simp add: chain_inv_def)
  note c = chain_heights [OF this] chain_linked [OF this]
  have "stored (ce_karmem E) (content (ch_db (fst s))) (bs @ ext)" using e by (simp add: chain_inv_def)
  then show ?thesis using e(2) c unfolding Height_def by blast
qed

lemma database_holds_one_chain_witness:
  "\<exists>s ext. chain_reach std_env tiny_json (\<lambda>_. None) s \<and> ext \<noteq> []
    \<and> stored std_karmem (ch_db (fst s)) ext \<and> Height (fst s) = tip_height ext"
proof -
  have "chain_content K [] k = None" for K :: "mem_writer karmem_ops" and k
    by (cases k) (simp_all add: block_at_def height_at_def tx_at_def chain_txs_def)
  then have s: "stored (ce_karmem std_env) (\<lambda>_. None) []" by (simp add: stored_def)
  obtain ch p calc where c: "chain_reach std_env tiny_json (\<lambda>_. None) (ch, Some p, calc)"
    "ch_latestHeight ch = tip_height [sample_genesis]"
    using std_genesis [of tiny_json] by blast
  obtain ext where e: "stored std_karmem (ch_db ch) ext" "Height ch = tip_height ext"
    using database_holds_one_chain [OF std_world.chain_world_axioms tiny.json_axioms chain_of.empty s c(1)]
    by (auto simp: std_env_def)
  moreover have "ext \<noteq> []"
    using e(2) c(2) by (auto simp: Height_def tip_height_def sample_genesis_def)
  ultimately show ?thesis using c(1) by (intro exI [of _ "(ch, Some p, calc)"] exI [of _ ext]) simp
qed

text \<open>Packaging against the chain never takes a transaction twice: with at most 10000 waiting it
  returns exactly the pool's transactions that no block of the chain contains, each once, and leaves
  the pool empty and the chain as it was.\<close>

theorem packaging_skips_chain_transactions:
  assumes "chain_world E len cell content eh eb et" and "chain_inv E content eh eb et bs ch" and "pool_inv pool"
    and "tp_txQueue pool = []" and "set order = dom (tp_txs pool)" and "length order \<le> 10000"
  shows "\<exists>txs pool' ch'. Package (chain_lookup E) order pool ch = Done (txs, pool', ch')
    \<and> set txs = {t. (\<exists>k. tp_txs pool k = Some t) \<and> tx_hash t \<notin> tx_hash ` set (chain_txs bs)}
    \<and> distinct (map tx_hash_hex txs) \<and> tp_txs pool' = (\<lambda>_. None)"
proof -
  note inv = chain_world.inv_def [OF assms(1)]
  have s: "tx_stored content ch (tx_hash t) \<longleftrightarrow> tx_hash t \<in> tx_hash ` set (chain_txs bs)" if "tp_txs pool k = Some t" for k t
    using chain_world.tx_stored_iff [OF assms(1), of bs ch "tx_hash t"] assms(2,3) that
    unfolding inv pool_inv_def by blast
  have ok: "\<exists>bs. chain_world.inv E content eh eb et bs ch" using assms(2) inv by blast
  show ?thesis
    using tx_lookup.package_drains [OF chain_world.chain_tx_lookup [OF assms(1)] assms(3) ok assms(4-6)] s by fastforce
qed

lemma packaging_skips_chain_transactions_witness:
  "\<exists>ch txs pool' ch'. Package (chain_lookup std_env) [tx_hash_hex sample_tx] (Add sample_tx (NewTxPool None)) ch
     = Done (txs, pool', ch') \<and> set txs = {sample_tx}"
proof -
  obtain ch where c: "chain_inv std_env (\<lambda>d. d) list_entries list_entries list_entries [sample_genesis] ch"
    using std_genesis [of tiny_json] by blast
  have i: "pool_inv (Add sample_tx (NewTxPool None))"
    by (rule pool_inv_Add [OF pool_inv_new]) (simp add: sample_tx_def)
  have p: "tp_txs (Add sample_tx (NewTxPool None)) = [tx_hash_hex sample_tx \<mapsto> sample_tx]"
    "tp_txQueue (Add sample_tx (NewTxPool None)) = []"
    by (simp_all add: Add_def NewTxPool_def maxTxPoolSize_def)
  have "chain_txs [sample_genesis] = []" by (simp add: chain_txs_def sample_genesis_def)
  then have "{t. (\<exists>k. [tx_hash_hex sample_tx \<mapsto> sample_tx] k = Some t) \<and> tx_hash t \<notin> tx_hash ` set (chain_txs [sample_genesis])}
      = {sample_tx}" by (auto split: if_splits)
  then show ?thesis
    using packaging_skips_chain_transactions [OF std_world.chain_world_axioms c i, of "[tx_hash_hex sample_tx]"] p by auto
qed

text \<open>C22: A block without a previous hash takes over a running chain. Inserting any such block with a new
  hash replaces the block buffer by an empty one on that block and moves the genesis time to its
  timestamp, even when its height is too low to be accepted; with a greater height than the tip it
  also becomes the tip, although it is not linked to the chain.\<close>

theorem second_genesis_takes_over:
  assumes "chain_world E len cell content eh eb et" and "chain_inv E content eh eb et bs ch" and "bs \<noteq> []"
    and "ch_latestHeight ch = tip_height bs" and "fits b" and "IsGenesisBlock b" and "blk_hash b \<notin> blk_hash ` set bs"
    and "length (dp_taskChannel (ch_dp ch)) + length (blk_Transactions b) \<le> taskChannelSize"
  shows "\<exists>ch' pool' calc'. insertBlock E b (ch, Some p, calc) = Done (ch', pool', calc')
    \<and> ch_buffer ch' = Some (NewBlockBuffer (ce_seen E) b) \<and> ch_genesisTime ch' = bh_Timestamp (blk_Header b)
    \<and> chain_inv E content eh eb et (if tip_height bs < blk_Height b then bs @ [b] else bs) ch'"
proof -
  note inv = chain_world.inv_def [OF assms(1)]
  have "accepts bs b \<longleftrightarrow> tip_height bs < blk_Height b" using assms(6,7) by (simp add: accepts_def)
  then show ?thesis
    using chain_world.insertBlock_spec [OF assms(1), of bs ch b calc p] assms(2-8)
    unfolding inv extend_def by fastforce
qed

definition sample_intruder :: Block where
  "sample_intruder = \<lparr>blk_Header = sample_header\<lparr>bh_PrevBlockHash := replicate 32 0, bh_BlockHash := replicate 32 7,
     bh_Height := 100, bh_Params := []\<rparr>, blk_Transactions = []\<rparr>"

lemma second_genesis_takes_over_witness:
  "\<exists>ch ch' pool' calc'. insertBlock std_env sample_intruder (ch, Some (NewTxPool None), None) = Done (ch', pool', calc')
    \<and> ch_buffer ch' = Some (NewBlockBuffer list_lru sample_intruder)
    \<and> chain_inv std_env (\<lambda>d. d) list_entries list_entries list_entries [sample_genesis, sample_intruder] ch'
    \<and> \<not> isPrevBlock sample_genesis sample_intruder"
proof -
  obtain ch where c: "chain_inv std_env (\<lambda>d. d) list_entries list_entries list_entries [sample_genesis] ch"
    "ch_latestHeight ch = tip_height [sample_genesis]" "dp_taskChannel (ch_dp ch) = []"
    using std_genesis [of tiny_json] by blast
  have f: "fits sample_intruder"
    by (simp add: fits_def wf_block_def wf_header_def sample_intruder_def sample_header_def block_size_def in_i64_def)
  have g: "IsGenesisBlock sample_intruder" "blk_hash sample_intruder \<notin> blk_hash ` set [sample_genesis]"
    "\<not> isPrevBlock sample_genesis sample_intruder" "tip_height [sample_genesis] < blk_Height sample_intruder"
    by (simp_all add: IsGenesisBlock_iff sample_intruder_def sample_genesis_def isPrevBlock_def tip_height_def)
  have r: "length (dp_taskChannel (ch_dp ch)) + length (blk_Transactions sample_intruder) \<le> taskChannelSize"
    using c(3) by (simp add: sample_intruder_def)
  have "ce_seen std_env = list_lru" by (simp add: std_env_def)
  then show ?thesis
    using second_genesis_takes_over [OF std_world.chain_world_axioms c(1) _ c(2) f g(1,2) r, of "NewTxPool None" None] g(3,4)
    by auto
qed

text \<open>A block on a leaf of the view, whose seed the calculator has, takes its height when that is free.\<close>

lemma leaf_child_selected:
  assumes "settled K calc x" and "isPrevBlock leaf x" and "blk_Height x = blk_Height leaf + 1"
    and "in_i64 (blk_Height leaf)" and "in_i64 (blk_Height x)" and "blk_Height x < 2 ^ 63 - 1"
    and "leaf = bf_latestBlock b \<or> bf_selectedBlock b (blk_Height leaf) = Some leaf"
    and "bf_latestBlockHeight b < blk_Height x" and "blk_Height x - bf_latestBlockHeight b \<le> 12"
    and "\<not> lru_contains L (bf_knownBlocks b) (BlockHash x)" and "bf_selectedBlock b (blk_Height x) = None"
  shows "\<exists>b'. Process_block L K x (b, pc, calc) = Done (b', pc, calc) \<and> bf_selectedBlock b' (blk_Height x) = Some x"
proof -
  have "PrevBlockHash x = BlockHash leaf" using assms(2) by (simp add: isPrevBlock_def PrevBlockHash_def BlockHash_def)
  then have o: "\<not> orphan b x" using assms(3,4,7) by (auto simp: orphan_def)
  have gap: "\<not> i64 (blk_Height x - bf_latestBlockHeight b) > maxBufferSize"
    using assms(8,9) i64_id [of "blk_Height x - bf_latestBlockHeight b"] by (simp add: maxBufferSize_def in_i64_def)
  have "case bf_selectedBlock b (blk_Height x) of None \<Rightarrow> True | Some y \<Rightarrow> compareBlock y x = (x, True)"
    using assms(11) by simp
  from Process_settled [OF assms(1,5,6,8,10) o this, of pc] gap show ?thesis
    by (auto simp: pop_block_def)
qed


definition sample_params :: GeneralParams where
  "sample_params = \<lparr>gn_Result = [1], gn_Proof = [2], gn_RandomNumber = replicate 33 3, gn_S = [4], gn_T = [5]\<rparr>"


end
