(* ===== verification/BlockSync.thy ===== *)
theory BlockSync
  imports NodePeer ChainHistory
begin

text \<open>
  node/block_syncer.go: catching up with the blocks of other nodes. Peers are references into a
  store, because the syncer, the manager and the message handlers share them; time is in
  nanoseconds. Each operation is one iteration of a goroutine.
\<close>

section \<open>State\<close>

definition syncPaused :: nat where "syncPaused = 0"
definition blockSyncing :: nat where "blockSyncing = 1"
definition bufferSyncing :: nat where "bufferSyncing = 2"
definition synced :: nat where "synced = 3"

lemmas sync_codes = syncPaused_def blockSyncing_def bufferSyncing_def synced_def

definition requestBlockInterval :: int where "requestBlockInterval = 3000000000"
definition maxSyncerStatusChannel :: nat where "maxSyncerStatusChannel = 512"

record BlockSyncer =
  by_peerSet :: "nat list"
  by_remoteHeight :: int
  by_targetHeight :: int
  by_knownHeight :: int
  by_requestTimestamp :: "int \<Rightarrow> int option"
  by_blockMap :: "int \<Rightarrow> Block option"
  by_peerReqTime :: "string \<Rightarrow> int option"
  by_status :: nat
  by_statusMsg :: "SyncStatusMsg list"

definition NewBlockSyncer :: BlockSyncer where
  "NewBlockSyncer =
     \<lparr>by_peerSet = [], by_remoteHeight = -3, by_targetHeight = -2, by_knownHeight = -1,
      by_requestTimestamp = (\<lambda>_. None), by_blockMap = (\<lambda>_. None), by_peerReqTime = (\<lambda>_. None),
      by_status = syncPaused, by_statusMsg = []\<rparr>"

definition BlockSyncer_Start :: "BlockSyncer \<Rightarrow> BlockSyncer" where
  "BlockSyncer_Start bs = bs\<lparr>by_status := blockSyncing\<rparr>"

definition AddPeer :: "nat \<Rightarrow> string \<Rightarrow> BlockSyncer \<Rightarrow> BlockSyncer" where
  "AddPeer p peerID bs =
     bs\<lparr>by_peerSet := by_peerSet bs @ [p], by_peerReqTime := (by_peerReqTime bs)(peerID \<mapsto> 0)\<rparr>"

definition appendStatusMsg :: "SyncStatusMsg \<Rightarrow> BlockSyncer \<Rightarrow> BlockSyncer outcome" where
  "appendStatusMsg msg bs =
     bindO (chan_send maxSyncerStatusChannel (by_statusMsg bs) msg) (\<lambda>q. Done (bs\<lparr>by_statusMsg := q\<rparr>))"

definition syncer_appendBlock :: "Block \<Rightarrow> BlockSyncer \<Rightarrow> BlockSyncer" where
  "syncer_appendBlock block bs = bs\<lparr>by_blockMap := (by_blockMap bs)(blk_Height block \<mapsto> block)\<rparr>"

definition getStatus :: "BlockSyncer \<Rightarrow> nat" where
  "getStatus bs = by_status bs"

definition setSynced :: "BlockSyncer \<Rightarrow> BlockSyncer" where
  "setSynced bs = bs\<lparr>by_status := synced\<rparr>"

section \<open>Choosing what to ask for\<close>

text \<open>The counter of the loop wraps, so the loop need not end when the remote height is the largest integer.\<close>

partial_function (option) select_loop ::
    "int \<Rightarrow> int \<Rightarrow> (int \<Rightarrow> Block option) \<Rightarrow> int \<Rightarrow> (int \<Rightarrow> int option) \<Rightarrow> (int \<times> (int \<Rightarrow> int option)) option" where
  "select_loop now remote blocks height stamps =
     (if height \<le> remote
      then let stamps1 = (if stamps height = None then stamps(height \<mapsto> 0) else stamps)
           in if blocks height = None \<and> now - the (stamps1 height) > requestBlockInterval
              then Some (height, stamps1(height \<mapsto> now))
              else select_loop now remote blocks (i64 (height + 1)) stamps1
      else Some (-1, stamps))"

definition selectBlockHeight :: "int \<Rightarrow> BlockSyncer \<Rightarrow> (int \<times> BlockSyncer) outcome" where
  "selectBlockHeight now bs =
     (case select_loop now (by_remoteHeight bs) (by_blockMap bs) (i64 (by_knownHeight bs + 1)) (by_requestTimestamp bs) of
        None \<Rightarrow> Diverges
      | Some (height, stamps) \<Rightarrow> Done (height, bs\<lparr>by_requestTimestamp := stamps\<rparr>))"

text \<open>
  A tick of \<open>run\<close>: the peers that are left, and the requests handed to new goroutines. A peer
  whose identifier has no time yet counts as asked long ago.
\<close>

fun run_peers ::
    "int \<Rightarrow> nat list \<Rightarrow> BlockSyncer \<Rightarrow> (nat \<Rightarrow> 'k Peer) \<Rightarrow> nat list \<Rightarrow> (int \<times> nat) list
       \<Rightarrow> (BlockSyncer \<times> (nat \<Rightarrow> 'k Peer) \<times> nat list \<times> (int \<times> nat) list) outcome" where
  "run_peers now [] bs peers available reqs = Done (bs, peers, available, reqs)"
| "run_peers now (p # ps) bs peers available reqs =
     (if Stopped (peers p) then run_peers now ps bs peers available reqs
      else let available1 = available @ [p] in
        if MarkSynced (peers p)
           \<or> (case by_peerReqTime bs (pe_peerID (peers p)) of None \<Rightarrow> False | Some t \<Rightarrow> now - t < requestBlockInterval)
        then run_peers now ps bs peers available1 reqs
        else bindO (selectBlockHeight now bs) (\<lambda>(height, bs1).
          if height < 0 then run_peers now ps bs1 peers available1 reqs
          else run_peers now ps bs1 (peers(p := SetMarkSynced True (peers p))) available1 (reqs @ [(height, p)])))"

definition syncer_run ::
    "int \<Rightarrow> BlockSyncer \<Rightarrow> (nat \<Rightarrow> 'k Peer) \<Rightarrow> (BlockSyncer \<times> (nat \<Rightarrow> 'k Peer) \<times> (int \<times> nat) list) outcome" where
  "syncer_run now bs peers =
     bindO (run_peers now (by_peerSet bs) bs peers [] [])
       (\<lambda>(bs1, peers1, available, reqs). Done (bs1\<lparr>by_peerSet := available\<rparr>, peers1, reqs))"

section \<open>Status messages\<close>

definition process_status :: "int \<Rightarrow> SyncStatusMsg \<Rightarrow> BlockSyncer \<Rightarrow> BlockSyncer" where
  "process_status chainHeight msg bs =
     (let height = ss_LatestHeight msg; bufferHeight = ss_BufferedEndHeight msg in
      if height = -1 then bs
      else let bs1 = bs\<lparr>by_remoteHeight := max height (by_remoteHeight bs)\<rparr>;
               bs2 = (if bufferHeight \<noteq> -1 \<and> by_status bs1 = blockSyncing
                      then bs1\<lparr>by_targetHeight := max bufferHeight (by_targetHeight bs1)\<rparr> else bs1);
               bs3 = (if by_remoteHeight bs2 = by_knownHeight bs2 then bs2\<lparr>by_status := bufferSyncing\<rparr> else bs2)
           in if chainHeight = by_targetHeight bs3 then bs3\<lparr>by_status := synced\<rparr> else bs3)"

definition statusMsgRoutine :: "int \<Rightarrow> BlockSyncer \<Rightarrow> BlockSyncer outcome" where
  "statusMsgRoutine chainHeight bs =
     (case by_statusMsg bs of
        [] \<Rightarrow> Blocks
      | msg # rest \<Rightarrow> Done (process_status chainHeight msg (bs\<lparr>by_statusMsg := rest\<rparr>)))"

section \<open>Handing blocks to the chain\<close>

definition syncer_insertBlock ::
    "('d, 'h, 'b, 't, 's, 'w) chain_env \<Rightarrow> int \<Rightarrow> BlockSyncer \<times> ('d, 'h, 'b, 't, 's) chain_state
       \<Rightarrow> (BlockSyncer \<times> ('d, 'h, 'b, 't, 's) chain_state) outcome" where
  "syncer_insertBlock E height s =
     (case s of (bs, chain) \<Rightarrow>
       (case by_blockMap bs height of
          None \<Rightarrow> Done s
        | Some block \<Rightarrow>
            bindO (AppendBlockTask E block chain) (\<lambda>chain'.
              Done (bs\<lparr>by_knownHeight := height, by_requestTimestamp := (by_requestTimestamp bs)(height := None),
                       by_blockMap := (by_blockMap bs)(height := None)\<rparr>, chain'))))"

partial_function (option) process_loop ::
    "('d, 'h, 'b, 't, 's, 'w) chain_env \<Rightarrow> int \<Rightarrow> int \<Rightarrow> BlockSyncer \<times> ('d, 'h, 'b, 't, 's) chain_state
       \<Rightarrow> (BlockSyncer \<times> ('d, 'h, 'b, 't, 's) chain_state) outcome option" where
  "process_loop E remote height s =
     (if height \<le> remote \<and> by_blockMap (fst s) height \<noteq> None
      then (case syncer_insertBlock E height s of
              Done s' \<Rightarrow> process_loop E remote (i64 (height + 1)) s'
            | stop \<Rightarrow> Some stop)
      else Some (Done s))"

definition blockProcessRoutine ::
    "('d, 'h, 'b, 't, 's, 'w) chain_env \<Rightarrow> BlockSyncer \<times> ('d, 'h, 'b, 't, 's) chain_state
       \<Rightarrow> (BlockSyncer \<times> ('d, 'h, 'b, 't, 's) chain_state) outcome" where
  "blockProcessRoutine E s =
     (case process_loop E (by_remoteHeight (fst s)) (i64 (by_knownHeight (fst s) + 1)) s of
        None \<Rightarrow> Diverges | Some r \<Rightarrow> r)"

section \<open>Lemmas\<close>

text \<open>A height is due when its block is missing and it was not asked for within the interval.\<close>

definition due :: "int \<Rightarrow> (int \<Rightarrow> Block option) \<Rightarrow> (int \<Rightarrow> int option) \<Rightarrow> int \<Rightarrow> bool" where
  "due now blocks stamps k \<longleftrightarrow> blocks k = None
     \<and> now - (case stamps k of None \<Rightarrow> 0 | Some t \<Rightarrow> t) > requestBlockInterval"

lemma select_loop_spec:
  assumes "remote < 2 ^ 63 - 1" and "- (2 ^ 63) \<le> height"
  shows "\<exists>h stamps'. select_loop now remote blocks height stamps = Some (h, stamps')
    \<and> (\<forall>k. stamps' k = stamps k \<or> (stamps k = None \<and> stamps' k = Some 0) \<or> (k = h \<and> stamps' k = Some now))
    \<and> (if \<exists>k. height \<le> k \<and> k \<le> remote \<and> due now blocks stamps k
       then height \<le> h \<and> h \<le> remote \<and> due now blocks stamps h \<and> stamps' h = Some now
         \<and> (\<forall>k. height \<le> k \<and> k < h \<longrightarrow> \<not> due now blocks stamps k)
       else h = -1)"
  using assms(2)
proof (induction "nat (remote + 1 - height)" arbitrary: height stamps)
  case 0
  then have "\<not> height \<le> remote" by simp
  then show ?case using select_loop.simps [of now remote blocks height stamps] by auto
next
  case (Suc n)
  then have le: "height \<le> remote" by simp
  have w: "i64 (height + 1) = height + 1" using Suc.prems le assms(1) by (intro i64_id) (auto simp: in_i64_def)
  define stamps1 where "stamps1 = (if stamps height = None then stamps(height \<mapsto> 0) else stamps)"
  have d: "due now blocks stamps height \<longleftrightarrow> blocks height = None \<and> now - the (stamps1 height) > requestBlockInterval"
    by (auto simp: due_def stamps1_def split: option.splits)
  show ?case
  proof (cases "due now blocks stamps height")
    case True
    then have r: "select_loop now remote blocks height stamps = Some (height, stamps1(height \<mapsto> now))"
      using select_loop.simps [of now remote blocks height stamps] le d by (simp add: stamps1_def [symmetric] Let_def)
    show ?thesis unfolding r
      by (intro exI [of _ height] exI [of _ "stamps1(height \<mapsto> now)"] conjI) (use True le in \<open>auto simp: stamps1_def\<close>)
  next
    case False
    then have r: "select_loop now remote blocks height stamps = select_loop now remote blocks (height + 1) stamps1"
      using select_loop.simps [of now remote blocks height stamps] le d w by (auto simp: stamps1_def [symmetric] Let_def)
    have "n = nat (remote + 1 - (height + 1))" "- (2 ^ 63) \<le> height + 1" using Suc.hyps(2) Suc.prems by simp_all
    note IH = Suc.hyps(1) [OF this, of stamps1]
    have due1: "due now blocks stamps1 k \<longleftrightarrow> due now blocks stamps k" for k
      by (auto simp: due_def stamps1_def split: option.splits)
    have s1: "stamps1 k = stamps k \<or> stamps k = None \<and> stamps1 k = Some 0" for k by (auto simp: stamps1_def)
    have ex: "(\<exists>k. height + 1 \<le> k \<and> k \<le> remote \<and> due now blocks stamps k) \<longleftrightarrow> (\<exists>k. height \<le> k \<and> k \<le> remote \<and> due now blocks stamps k)"
      using False by (metis add1_zle_eq order_le_less)
    have below: "(\<forall>k. height + 1 \<le> k \<and> k < h \<longrightarrow> \<not> due now blocks stamps k) \<longleftrightarrow> (\<forall>k. height \<le> k \<and> k < h \<longrightarrow> \<not> due now blocks stamps k)" for h
      using False by (metis add1_zle_eq order_le_less)
    obtain h stamps' where h: "select_loop now remote blocks (height + 1) stamps1 = Some (h, stamps')"
      "\<forall>k. stamps' k = stamps1 k \<or> (stamps1 k = None \<and> stamps' k = Some 0) \<or> (k = h \<and> stamps' k = Some now)"
      "if \<exists>k. height \<le> k \<and> k \<le> remote \<and> due now blocks stamps k
       then height + 1 \<le> h \<and> h \<le> remote \<and> due now blocks stamps h \<and> stamps' h = Some now
         \<and> (\<forall>k. height \<le> k \<and> k < h \<longrightarrow> \<not> due now blocks stamps k)
       else h = -1"
      using IH unfolding due1 ex below by blast
    have "\<forall>k. stamps' k = stamps k \<or> (stamps k = None \<and> stamps' k = Some 0) \<or> (k = h \<and> stamps' k = Some now)"
      using h(2) s1 by (metis option.distinct(1))
    moreover define Q where "Q \<longleftrightarrow> (\<exists>k. height \<le> k \<and> k \<le> remote \<and> due now blocks stamps k)"
    have "if \<exists>k. height \<le> k \<and> k \<le> remote \<and> due now blocks stamps k
       then height \<le> h \<and> h \<le> remote \<and> due now blocks stamps h \<and> stamps' h = Some now
         \<and> (\<forall>k. height \<le> k \<and> k < h \<longrightarrow> \<not> due now blocks stamps k)
       else h = -1"
      using h(3) unfolding Q_def [symmetric] by (cases Q) simp_all
    ultimately show ?thesis unfolding r using h(1) by blast
  qed
qed

lemma selectBlockHeight_spec:
  assumes "by_remoteHeight bs < 2 ^ 63 - 1" and "-1 \<le> by_knownHeight bs" and "by_knownHeight bs < 2 ^ 63 - 1"
  shows "\<exists>h stamps'. selectBlockHeight now bs = Done (h, bs\<lparr>by_requestTimestamp := stamps'\<rparr>)
    \<and> (\<forall>k. by_requestTimestamp bs k = Some now \<longrightarrow> stamps' k = Some now)
    \<and> (if \<exists>k. by_knownHeight bs < k \<and> k \<le> by_remoteHeight bs \<and> due now (by_blockMap bs) (by_requestTimestamp bs) k
       then by_knownHeight bs < h \<and> h \<le> by_remoteHeight bs \<and> due now (by_blockMap bs) (by_requestTimestamp bs) h
         \<and> stamps' h = Some now
         \<and> (\<forall>k. by_knownHeight bs < k \<and> k < h \<longrightarrow> \<not> due now (by_blockMap bs) (by_requestTimestamp bs) k)
       else h = -1)"
proof -
  have w: "i64 (by_knownHeight bs + 1) = by_knownHeight bs + 1"
    using assms(2,3) by (intro i64_id) (auto simp: in_i64_def)
  have b: "- (2 ^ 63) \<le> by_knownHeight bs + 1" using assms(2) by simp
  obtain h stamps' where h: "select_loop now (by_remoteHeight bs) (by_blockMap bs) (by_knownHeight bs + 1) (by_requestTimestamp bs) = Some (h, stamps')"
    "\<forall>k. stamps' k = by_requestTimestamp bs k \<or> (by_requestTimestamp bs k = None \<and> stamps' k = Some 0) \<or> (k = h \<and> stamps' k = Some now)"
    "if \<exists>k. by_knownHeight bs < k \<and> k \<le> by_remoteHeight bs \<and> due now (by_blockMap bs) (by_requestTimestamp bs) k
       then by_knownHeight bs < h \<and> h \<le> by_remoteHeight bs \<and> due now (by_blockMap bs) (by_requestTimestamp bs) h
         \<and> stamps' h = Some now
         \<and> (\<forall>k. by_knownHeight bs < k \<and> k < h \<longrightarrow> \<not> due now (by_blockMap bs) (by_requestTimestamp bs) k)
       else h = -1"
    using select_loop_spec [OF assms(1) b, of now "by_blockMap bs" "by_requestTimestamp bs"] unfolding add1_zle_eq by blast
  have "\<forall>k. by_requestTimestamp bs k = Some now \<longrightarrow> stamps' k = Some now"
    using h(2) by (metis option.distinct(1))
  then show ?thesis using h by (intro exI [of _ h] exI [of _ stamps']) (simp add: selectBlockHeight_def w)
qed

text \<open>What a tick does to a list of peers.\<close>

lemma run_peers_spec:
  assumes "by_remoteHeight bs < 2 ^ 63 - 1" and "-1 \<le> by_knownHeight bs" and "by_knownHeight bs < 2 ^ 63 - 1"
    and "requestBlockInterval > 0"
  shows "distinct ps \<Longrightarrow> \<exists>stamps' peers' new.
      run_peers now ps bs peers av reqs = Done (bs\<lparr>by_requestTimestamp := stamps'\<rparr>, peers',
        av @ filter (\<lambda>p. \<not> Stopped (peers p)) ps, reqs @ new)
    \<and> (\<forall>k. by_requestTimestamp bs k = Some now \<longrightarrow> stamps' k = Some now)
    \<and> distinct (map fst new) \<and> distinct (map snd new)
    \<and> (\<forall>(h, p) \<in> set new. by_knownHeight bs < h \<and> h \<le> by_remoteHeight bs \<and> by_blockMap bs h = None
         \<and> by_requestTimestamp bs h \<noteq> Some now
         \<and> p \<in> set ps \<and> \<not> Stopped (peers p) \<and> \<not> MarkSynced (peers p))
    \<and> peers' = (\<lambda>p. if p \<in> snd ` set new then SetMarkSynced True (peers p) else peers p)"
  using assms(1-3)
proof (induction ps arbitrary: bs peers av reqs)
  case Nil
  then show ?case by (intro exI [of _ "by_requestTimestamp bs"] exI [of _ peers] exI [of _ "[]"]) simp
next
  case (Cons p ps)
  have dist: "distinct ps" "p \<notin> set ps" using Cons.prems(1) by auto
  show ?case
  proof (cases "Stopped (peers p)")
    case True
    then show ?thesis using Cons.IH [OF dist(1) Cons.prems(2-4), of peers av reqs] by fastforce
  next
    case running: False
    let ?skip = "MarkSynced (peers p) \<or> (case by_peerReqTime bs (pe_peerID (peers p)) of None \<Rightarrow> False
        | Some t \<Rightarrow> now - t < requestBlockInterval)"
    show ?thesis
    proof (cases ?skip)
      case True
      then show ?thesis using running Cons.IH [OF dist(1) Cons.prems(2-4), of peers "av @ [p]" reqs] by fastforce
    next
      case False
      obtain h st1 where sel: "selectBlockHeight now bs = Done (h, bs\<lparr>by_requestTimestamp := st1\<rparr>)"
        "\<forall>k. by_requestTimestamp bs k = Some now \<longrightarrow> st1 k = Some now"
        "h = -1 \<or> (by_knownHeight bs < h \<and> h \<le> by_remoteHeight bs \<and> due now (by_blockMap bs) (by_requestTimestamp bs) h \<and> st1 h = Some now)"
        using selectBlockHeight_spec [OF Cons.prems(2-4), of now] by metis
      define bs1 where "bs1 = bs\<lparr>by_requestTimestamp := st1\<rparr>"
      have b1: "by_remoteHeight bs1 < 2 ^ 63 - 1" "-1 \<le> by_knownHeight bs1" "by_knownHeight bs1 < 2 ^ 63 - 1"
        using Cons.prems(2-4) by (simp_all add: bs1_def)
      show ?thesis
      proof (cases "h < 0")
        case True
        obtain st' peers' new where n: "run_peers now ps bs1 peers (av @ [p]) reqs = Done (bs1\<lparr>by_requestTimestamp := st'\<rparr>, peers',
             (av @ [p]) @ filter (\<lambda>p. \<not> Stopped (peers p)) ps, reqs @ new)"
          "\<forall>k. by_requestTimestamp bs1 k = Some now \<longrightarrow> st' k = Some now"
          "distinct (map fst new)" "distinct (map snd new)"
          "\<forall>(h, p) \<in> set new. by_knownHeight bs1 < h \<and> h \<le> by_remoteHeight bs1 \<and> by_blockMap bs1 h = None
             \<and> by_requestTimestamp bs1 h \<noteq> Some now \<and> p \<in> set ps \<and> \<not> Stopped (peers p) \<and> \<not> MarkSynced (peers p)"
          "peers' = (\<lambda>p. if p \<in> snd ` set new then SetMarkSynced True (peers p) else peers p)"
          using Cons.IH [OF dist(1) b1, of peers "av @ [p]" reqs] by blast
        have "run_peers now (p # ps) bs peers av reqs = run_peers now ps bs1 peers (av @ [p]) reqs"
          using running False sel(1) True by (simp add: Let_def bs1_def)
        then show ?thesis using n sel(2) running
          by (intro exI [of _ st'] exI [of _ peers'] exI [of _ new]) (auto simp: bs1_def split: prod.splits)
      next
        case False': False
        define peers1 where "peers1 = peers(p := SetMarkSynced True (peers p))"
        have same: "peers1 q = peers q" if "q \<in> set ps" for q using that dist(2) by (auto simp: peers1_def)
        obtain st' peers' new where n: "run_peers now ps bs1 peers1 (av @ [p]) (reqs @ [(h, p)]) = Done (bs1\<lparr>by_requestTimestamp := st'\<rparr>, peers',
             (av @ [p]) @ filter (\<lambda>p. \<not> Stopped (peers1 p)) ps, (reqs @ [(h, p)]) @ new)"
          "\<forall>k. by_requestTimestamp bs1 k = Some now \<longrightarrow> st' k = Some now"
          "distinct (map fst new)" "distinct (map snd new)"
          "\<forall>(h, p) \<in> set new. by_knownHeight bs1 < h \<and> h \<le> by_remoteHeight bs1 \<and> by_blockMap bs1 h = None
             \<and> by_requestTimestamp bs1 h \<noteq> Some now \<and> p \<in> set ps \<and> \<not> Stopped (peers1 p) \<and> \<not> MarkSynced (peers1 p)"
          "peers' = (\<lambda>p. if p \<in> snd ` set new then SetMarkSynced True (peers1 p) else peers1 p)"
          using Cons.IH [OF dist(1) b1, of peers1 "av @ [p]" "reqs @ [(h, p)]"] by blast
        have step: "run_peers now (p # ps) bs peers av reqs = run_peers now ps bs1 peers1 (av @ [p]) (reqs @ [(h, p)])"
          using running False sel(1) False' by (simp add: Let_def bs1_def peers1_def)
        have filt: "filter (\<lambda>p. \<not> Stopped (peers1 p)) ps = filter (\<lambda>p. \<not> Stopped (peers p)) ps"
          using same by (intro filter_cong) auto
        have h: "by_knownHeight bs < h" "h \<le> by_remoteHeight bs" "st1 h = Some now" "by_blockMap bs h = None"
          "by_requestTimestamp bs h \<noteq> Some now"
          using sel(3) False' assms(4) by (auto simp: due_def)
        have old: "\<forall>(h', q) \<in> set new. h' \<noteq> h \<and> by_requestTimestamp bs h' \<noteq> Some now \<and> by_knownHeight bs < h'
            \<and> h' \<le> by_remoteHeight bs \<and> by_blockMap bs h' = None \<and> q \<in> set ps \<and> \<not> Stopped (peers q) \<and> \<not> MarkSynced (peers q)"
        proof clarify
          fix h' q assume m: "(h', q) \<in> set new"
          then have q: "by_requestTimestamp bs1 h' \<noteq> Some now" "q \<in> set ps" "by_knownHeight bs1 < h'" "h' \<le> by_remoteHeight bs1"
            "by_blockMap bs1 h' = None" "\<not> Stopped (peers1 q)" "\<not> MarkSynced (peers1 q)" using n(5) by auto
          show "h' \<noteq> h \<and> by_requestTimestamp bs h' \<noteq> Some now \<and> by_knownHeight bs < h'
            \<and> h' \<le> by_remoteHeight bs \<and> by_blockMap bs h' = None \<and> q \<in> set ps \<and> \<not> Stopped (peers q) \<and> \<not> MarkSynced (peers q)"
            using q same [OF q(2)] h(3) sel(2) by (auto simp: bs1_def)
        qed
        have "distinct (map fst ((h, p) # new))" using n(3) old by auto
        moreover have "distinct (map snd ((h, p) # new))" using n(4) old dist(2) by auto
        moreover have "peers' = (\<lambda>q. if q \<in> snd ` set ((h, p) # new) then SetMarkSynced True (peers q) else peers q)"
          unfolding n(6) peers1_def by (auto simp: fun_eq_iff SetMarkSynced_def)
        moreover have "\<not> MarkSynced (peers p)" using False by simp
        moreover have "\<forall>k. by_requestTimestamp bs k = Some now \<longrightarrow> st' k = Some now" using n(2) sel(2) by (simp add: bs1_def)
        moreover have "bs1\<lparr>by_requestTimestamp := st'\<rparr> = bs\<lparr>by_requestTimestamp := st'\<rparr>" by (simp add: bs1_def)
        ultimately show ?thesis unfolding step n(1) filt using running h old
          by (intro exI [of _ st'] exI [of _ peers'] exI [of _ "(h, p) # new"]) auto
      qed
    qed
  qed
qed

text \<open>The blocks that are there without a gap, and the syncer after they were handed over.\<close>

primrec append_all ::
    "('d, 'h, 'b, 't, 's, 'w) chain_env \<Rightarrow> Block list \<Rightarrow> ('d, 'h, 'b, 't, 's) chain_state
       \<Rightarrow> ('d, 'h, 'b, 't, 's) chain_state outcome" where
  "append_all E [] c = Done c"
| "append_all E (b # blks) c = bindO (AppendBlockTask E b c) (append_all E blks)"

definition handed_over :: "int \<Rightarrow> nat \<Rightarrow> BlockSyncer \<Rightarrow> BlockSyncer" where
  "handed_over height n bs =
     (if n = 0 then bs
      else bs\<lparr>by_knownHeight := height + int n - 1,
              by_requestTimestamp := (\<lambda>k. if height \<le> k \<and> k < height + int n then None else by_requestTimestamp bs k),
              by_blockMap := (\<lambda>k. if height \<le> k \<and> k < height + int n then None else by_blockMap bs k)\<rparr>)"

lemma handed_over_Suc:
  "handed_over (height + 1) n (bs\<lparr>by_knownHeight := height, by_requestTimestamp := (by_requestTimestamp bs)(height := None),
     by_blockMap := (by_blockMap bs)(height := None)\<rparr>) = handed_over height (Suc n) bs"
  by (cases "n = 0") (auto simp: handed_over_def fun_eq_iff)

lemma process_loop_spec:
  assumes "remote < 2 ^ 63 - 1" and "- (2 ^ 63) \<le> height"
  shows "\<exists>blks. (\<forall>i < length blks. by_blockMap bs (height + int i) = Some (blks ! i))
    \<and> (height + int (length blks) \<le> remote \<longrightarrow> by_blockMap bs (height + int (length blks)) = None)
    \<and> (blks \<noteq> [] \<longrightarrow> height + int (length blks) \<le> remote + 1)
    \<and> process_loop E remote height (bs, chain)
      = Some (bindO (append_all E blks chain) (\<lambda>chain'. Done (handed_over height (length blks) bs, chain')))"
  using assms(2)
proof (induction "nat (remote + 1 - height)" arbitrary: height bs chain)
  case 0
  then have "\<not> height \<le> remote" by simp
  then show ?case using process_loop.simps [of E remote height "(bs, chain)"]
    by (intro exI [of _ "[]"]) (simp add: handed_over_def)
next
  case (Suc n)
  then have le: "height \<le> remote" by simp
  have w: "i64 (height + 1) = height + 1" using Suc.prems le assms(1) by (intro i64_id) (auto simp: in_i64_def)
  show ?case
  proof (cases "by_blockMap bs height")
    case None
    then show ?thesis using process_loop.simps [of E remote height "(bs, chain)"]
      by (intro exI [of _ "[]"]) (simp add: handed_over_def)
  next
    case (Some b)
    define bs1 where "bs1 = bs\<lparr>by_knownHeight := height, by_requestTimestamp := (by_requestTimestamp bs)(height := None),
      by_blockMap := (by_blockMap bs)(height := None)\<rparr>"
    have "n = nat (remote + 1 - (height + 1))" "- (2 ^ 63) \<le> height + 1" using Suc.hyps(2) Suc.prems by simp_all
    note IH = Suc.hyps(1) [OF this, of bs1]
    have step: "process_loop E remote height (bs, chain) = (case AppendBlockTask E b chain of
        Done chain' \<Rightarrow> process_loop E remote (height + 1) (bs1, chain')
      | Panics \<Rightarrow> Some Panics | Blocks \<Rightarrow> Some Blocks | Diverges \<Rightarrow> Some Diverges)"
      using process_loop.simps [of E remote height "(bs, chain)"] le Some w
      by (cases "AppendBlockTask E b chain") (simp_all add: syncer_insertBlock_def bs1_def)
    define chain1 where "chain1 = (case AppendBlockTask E b chain of Done c \<Rightarrow> c | _ \<Rightarrow> chain)"
    obtain blks where blks: "\<forall>i < length blks. by_blockMap bs1 (height + 1 + int i) = Some (blks ! i)"
      "height + 1 + int (length blks) \<le> remote \<longrightarrow> by_blockMap bs1 (height + 1 + int (length blks)) = None"
      "blks \<noteq> [] \<longrightarrow> height + 1 + int (length blks) \<le> remote + 1"
      "process_loop E remote (height + 1) (bs1, chain1)
        = Some (bindO (append_all E blks chain1) (\<lambda>chain'. Done (handed_over (height + 1) (length blks) bs1, chain')))"
      using IH [of chain1] by blast
    have all: "by_blockMap bs (height + int i) = Some ((b # blks) ! i)" if "i < length (b # blks)" for i
    proof (cases i)
        case (Suc j)
        then have "by_blockMap bs1 (height + 1 + int j) = Some (blks ! j)" using blks(1) that by simp
        then show ?thesis using Suc by (simp add: bs1_def add.assoc split: if_splits)
      qed (use Some in simp)
      have gap: "height + int (length (b # blks)) \<le> remote \<longrightarrow> by_blockMap bs (height + int (length (b # blks))) = None"
        using blks(2) by (simp add: bs1_def add.assoc)
    have run: "process_loop E remote height (bs, chain)
        = Some (bindO (append_all E (b # blks) chain) (\<lambda>chain'. Done (handed_over height (length (b # blks)) bs, chain')))"
      using step blks(4) handed_over_Suc [of height "length blks" bs]
      by (cases "AppendBlockTask E b chain") (simp_all add: chain1_def bs1_def)
    have "height + int (length (b # blks)) \<le> remote + 1" using blks(3) le by (cases "blks = []") simp_all
    then show ?thesis using all gap run by (intro exI [of _ "b # blks"]) blast
  qed
qed

section \<open>Properties\<close>

text \<open>C37: The syncer hands over blocks strictly by height: a tick gives the chain exactly the blocks it has
  at the heights following the known one, each once, in order, up to the first gap or the highest
  height seen, and then forgets them and knows the last of these heights. It stops early only where
  the chain itself panics or blocks, and never runs on.\<close>

theorem sync_hands_over_in_order:
  assumes "by_remoteHeight bs < 2 ^ 63 - 1" and "-1 \<le> by_knownHeight bs" and "by_knownHeight bs < 2 ^ 63 - 1"
  shows "\<exists>blks. (\<forall>i < length blks. by_blockMap bs (by_knownHeight bs + 1 + int i) = Some (blks ! i))
    \<and> (by_knownHeight bs + 1 + int (length blks) \<le> by_remoteHeight bs \<longrightarrow>
         by_blockMap bs (by_knownHeight bs + 1 + int (length blks)) = None)
    \<and> (blks \<noteq> [] \<longrightarrow> by_knownHeight bs + int (length blks) \<le> by_remoteHeight bs)
    \<and> blockProcessRoutine E (bs, chain) = bindO (append_all E blks chain)
        (\<lambda>chain'. Done (handed_over (by_knownHeight bs + 1) (length blks) bs, chain'))"
proof -
  have w: "i64 (by_knownHeight bs + 1) = by_knownHeight bs + 1"
    using assms(2,3) by (intro i64_id) (auto simp: in_i64_def)
  obtain blks where b: "\<forall>i < length blks. by_blockMap bs (by_knownHeight bs + 1 + int i) = Some (blks ! i)"
    "by_knownHeight bs + 1 + int (length blks) \<le> by_remoteHeight bs \<longrightarrow>
         by_blockMap bs (by_knownHeight bs + 1 + int (length blks)) = None"
    "blks \<noteq> [] \<longrightarrow> by_knownHeight bs + 1 + int (length blks) \<le> by_remoteHeight bs + 1"
    "process_loop E (by_remoteHeight bs) (by_knownHeight bs + 1) (bs, chain) = Some (bindO (append_all E blks chain)
        (\<lambda>chain'. Done (handed_over (by_knownHeight bs + 1) (length blks) bs, chain')))"
    using process_loop_spec [OF assms(1), of "by_knownHeight bs + 1" bs E chain] assms(2) by auto
  have "blks \<noteq> [] \<longrightarrow> by_knownHeight bs + int (length blks) \<le> by_remoteHeight bs" using b(3) by linarith
  then show ?thesis using b(1,2,4)
    by (intro exI [of _ blks]) (simp add: blockProcessRoutine_def w)
qed

lemma sync_hands_over_in_order_witness:
  "\<exists>bs. by_knownHeight bs = -1 \<and> (\<forall>chain.
      blockProcessRoutine std_env (bs, chain) = bindO (AppendBlockTask std_env sample_genesis chain)
        (\<lambda>chain'. Done (handed_over 0 1 bs, chain')))"
proof -
  define bs where "bs = syncer_appendBlock sample_genesis (NewBlockSyncer\<lparr>by_remoteHeight := 0\<rparr>)"
  have bs: "by_remoteHeight bs = 0" "by_knownHeight bs = -1" "by_blockMap bs = [0 \<mapsto> sample_genesis]"
    by (simp_all add: bs_def syncer_appendBlock_def NewBlockSyncer_def sample_genesis_def)
  have b: "by_remoteHeight bs < 2 ^ 63 - 1" "-1 \<le> by_knownHeight bs" "by_knownHeight bs < 2 ^ 63 - 1"
    by (simp_all add: bs)
  have "blockProcessRoutine std_env (bs, chain) = bindO (AppendBlockTask std_env sample_genesis chain)
      (\<lambda>chain'. Done (handed_over 0 1 bs, chain'))" for chain
  proof -
    obtain blks where blks:
      "\<forall>i < length blks. by_blockMap bs (by_knownHeight bs + 1 + int i) = Some (blks ! i)"
      "by_knownHeight bs + 1 + int (length blks) \<le> by_remoteHeight bs \<longrightarrow>
         by_blockMap bs (by_knownHeight bs + 1 + int (length blks)) = None"
      "blks \<noteq> [] \<longrightarrow> by_knownHeight bs + int (length blks) \<le> by_remoteHeight bs"
      "blockProcessRoutine std_env (bs, chain) = bindO (append_all std_env blks chain)
        (\<lambda>chain'. Done (handed_over (by_knownHeight bs + 1) (length blks) bs, chain'))"
      using sync_hands_over_in_order [OF b, of std_env chain] by blast
    have "blks \<noteq> []" using blks(2) by (auto simp: bs)
    then have "length blks = 1" using blks(3) by (cases blks) (auto simp: bs)
    then have "blks = [sample_genesis]" using blks(1) by (cases blks) (auto simp: bs)
    moreover have "append_all std_env [sample_genesis] chain = AppendBlockTask std_env sample_genesis chain"
      by (cases "AppendBlockTask std_env sample_genesis chain") simp_all
    ultimately show ?thesis using blks(4) bs(2) by simp
  qed
  then show ?thesis using bs(2) by blast
qed

text \<open>A tick of the syncer always returns. It drops the stopped peers and asks some of the others for
  blocks: every requested height is above the known and at most the highest seen height, its block is
  missing and no other request of the tick is for it; every asked peer was running and not waiting,
  is asked once, and waits from then on. A peer that is waiting is never asked: one that does not
  answer gets no further request.\<close>

theorem sync_tick_requests:
  assumes "by_remoteHeight bs < 2 ^ 63 - 1" and "-1 \<le> by_knownHeight bs" and "by_knownHeight bs < 2 ^ 63 - 1"
    and "distinct (by_peerSet bs)"
  shows "\<exists>bs' peers' reqs. syncer_run now bs peers = Done (bs', peers', reqs)
    \<and> by_peerSet bs' = filter (\<lambda>p. \<not> Stopped (peers p)) (by_peerSet bs) \<and> by_blockMap bs' = by_blockMap bs
    \<and> distinct (map fst reqs) \<and> distinct (map snd reqs)
    \<and> (\<forall>(h, p) \<in> set reqs. by_knownHeight bs < h \<and> h \<le> by_remoteHeight bs \<and> by_blockMap bs h = None
         \<and> p \<in> set (by_peerSet bs) \<and> \<not> Stopped (peers p) \<and> \<not> MarkSynced (peers p))
    \<and> peers' = (\<lambda>p. if p \<in> snd ` set reqs then SetMarkSynced True (peers p) else peers p)"
proof -
  have pos: "requestBlockInterval > 0" by (simp add: requestBlockInterval_def)
  obtain st peers' new where n: "run_peers now (by_peerSet bs) bs peers [] [] = Done (bs\<lparr>by_requestTimestamp := st\<rparr>, peers',
      filter (\<lambda>p. \<not> Stopped (peers p)) (by_peerSet bs), new)"
    "distinct (map fst new)" "distinct (map snd new)"
    "\<forall>(h, p) \<in> set new. by_knownHeight bs < h \<and> h \<le> by_remoteHeight bs \<and> by_blockMap bs h = None
         \<and> by_requestTimestamp bs h \<noteq> Some now
         \<and> p \<in> set (by_peerSet bs) \<and> \<not> Stopped (peers p) \<and> \<not> MarkSynced (peers p)"
    "peers' = (\<lambda>p. if p \<in> snd ` set new then SetMarkSynced True (peers p) else peers p)"
    using run_peers_spec [OF assms(1-3) pos assms(4), of now peers "[]" "[]"] by auto
  then show ?thesis
    by (intro exI [of _ "bs\<lparr>by_requestTimestamp := st, by_peerSet := filter (\<lambda>p. \<not> Stopped (peers p)) (by_peerSet bs)\<rparr>"]
        exI [of _ peers'] exI [of _ new]) (auto simp: syncer_run_def)
qed

lemma sync_tick_requests_witness:
  "\<exists>bs' peers' reqs. syncer_run 9000000000 ((AddPeer 0 ''p'' NewBlockSyncer)\<lparr>by_remoteHeight := 4\<rparr>)
      (\<lambda>_. NewPeer (list_lru :: ((string, unit) lru_list, string, unit) lru_ops) ''p'' ''a'') = Done (bs', peers', reqs)
    \<and> by_peerSet bs' = [0]"
proof -
  let ?bs = "(AddPeer 0 ''p'' NewBlockSyncer)\<lparr>by_remoteHeight := 4\<rparr>"
  have b: "by_remoteHeight ?bs < 2 ^ 63 - 1" "-1 \<le> by_knownHeight ?bs" "by_knownHeight ?bs < 2 ^ 63 - 1"
    "distinct (by_peerSet ?bs)" by (simp_all add: AddPeer_def NewBlockSyncer_def)
  show ?thesis
    using sync_tick_requests [OF b, of 9000000000 "\<lambda>_. NewPeer list_lru ''p'' ''a''"]
    by (auto simp: AddPeer_def NewBlockSyncer_def NewPeer_def Stopped_def NewP2PPeer_def)
qed

text \<open>A missed target is missed for good. Reaching synced needs the chain's height to equal the target
  when a status message is handled, and while the buffer is being synced the target is fixed: once the
  chain is above it, no sequence of status messages at any greater heights ends the synchronisation.\<close>

theorem missed_target_never_syncs:
  assumes "by_status bs = bufferSyncing" and "\<forall>(h, msg) \<in> set hist. by_targetHeight bs < h"
  shows "getStatus (foldl (\<lambda>bs (h, msg). process_status h msg bs) bs hist) = bufferSyncing"
proof -
  have step: "by_status (process_status h msg b) = bufferSyncing \<and> by_targetHeight (process_status h msg b) = by_targetHeight b"
    if "by_status b = bufferSyncing" "by_targetHeight b < h" for b h msg
    using that by (auto simp: process_status_def Let_def sync_codes)
  have "by_status (foldl (\<lambda>bs (h, msg). process_status h msg bs) bs hist) = bufferSyncing
    \<and> by_targetHeight (foldl (\<lambda>bs (h, msg). process_status h msg bs) bs hist) = by_targetHeight bs"
    using assms(2)
  proof (induction hist rule: rev_induct)
    case Nil
    then show ?case using assms(1) by simp
  next
    case (snoc x hist)
    obtain h msg where x: "x = (h, msg)" by (cases x)
    show ?case using step [of "foldl (\<lambda>bs (h, msg). process_status h msg bs) bs hist" h msg] snoc x by auto
  qed
  then show ?thesis by (simp add: getStatus_def)
qed

lemma missed_target_never_syncs_witness:
  "\<exists>bs msg. getStatus bs = bufferSyncing \<and> by_targetHeight bs = 5
    \<and> bs = process_status 4 msg ((BlockSyncer_Start NewBlockSyncer)\<lparr>by_knownHeight := 4\<rparr>)
    \<and> getStatus (foldl (\<lambda>bs (h, msg). process_status h msg bs) bs [(6, msg), (7, msg)]) = bufferSyncing"
proof -
  define msg where "msg = \<lparr>ss_LatestHeight = 4, ss_LatestHash = replicate 32 0, ss_BufferedStartHeight = 0, ss_BufferedEndHeight = 5\<rparr>"
  define bs where "bs = process_status 4 msg ((BlockSyncer_Start NewBlockSyncer)\<lparr>by_knownHeight := 4\<rparr>)"
  have b: "by_status bs = bufferSyncing" "by_targetHeight bs = 5"
    by (simp_all add: bs_def msg_def process_status_def Let_def BlockSyncer_Start_def NewBlockSyncer_def sync_codes)
  then show ?thesis
    using missed_target_never_syncs [of bs "[(6, msg), (7, msg)]"] bs_def
    by (intro exI [of _ bs] exI [of _ msg]) (simp add: getStatus_def)
qed

end
