(* ===== verification/TimeSync.thy ===== *)
theory TimeSync
  imports P2PMessages
begin

text \<open>
  node/time_syncer.go: a node estimates how far its clock is off from a random peer's, by the four
  time stamps of one exchange. The physical clock is an argument of the operations that read it.
  The time messages of handler_funcs.go and respond.go belong here too.
\<close>

section \<open>State and operations\<close>

datatype SyncStatus = INITIAL | SYNCED | CONFIRMING

definition confirmThreshold :: int where "confirmThreshold = 5"
definition availableThreshold :: int where "availableThreshold = 1000"

record TimeSyncer =
  tsy_genesis :: bool
  tsy_status :: SyncStatus
  tsy_delta :: int
  tsy_confirmTimes :: int

definition NewTimeSyncer :: "bool \<Rightarrow> int \<Rightarrow> TimeSyncer" where
  "NewTimeSyncer genesis delta =
     \<lparr>tsy_genesis = genesis, tsy_status = INITIAL, tsy_delta = delta, tsy_confirmTimes = 0\<rparr>"

text \<open>The node of the genesis block is synced at once; the others start asking.\<close>

definition TimeSyncer_Start :: "TimeSyncer \<Rightarrow> TimeSyncer" where
  "TimeSyncer_Start ts = (if \<not> tsy_genesis ts then ts else ts\<lparr>tsy_status := SYNCED\<rparr>)"

definition GetLogicClock :: "int \<Rightarrow> TimeSyncer \<Rightarrow> int" where
  "GetLogicClock now ts = i64 (now + tsy_delta ts)"

text \<open>The request a tick of \<open>syncRoutine\<close> sends to the peer it drew.\<close>

definition sync_request :: "int \<Rightarrow> TimeSyncer \<Rightarrow> TimeSyncMsg" where
  "sync_request now ts =
     \<lparr>ts_Code = 0, ts_ReqTime = GetLogicClock now ts, ts_RecReqTime = 0, ts_RspTime = 0, ts_RecRspTime = 0\<rparr>"

definition ProcessSyncRequest :: "int \<Rightarrow> TimeSyncMsg \<Rightarrow> TimeSyncer \<Rightarrow> TimeSyncMsg" where
  "ProcessSyncRequest now msg ts = msg\<lparr>ts_RspTime := GetLogicClock now ts\<rparr>"

definition go_abs :: "int \<Rightarrow> int" where
  "go_abs x = (if x < 0 then i64 (- x) else x)"

definition sync_delta :: "TimeSyncMsg \<Rightarrow> int" where
  "sync_delta msg = i64 (go_div (i64 (ts_RspTime msg - ts_RecRspTime msg)) 2
     + go_div (i64 (ts_RecReqTime msg - ts_ReqTime msg)) 2)"

definition ProcessSyncRespond :: "TimeSyncMsg \<Rightarrow> TimeSyncer \<Rightarrow> TimeSyncer" where
  "ProcessSyncRespond msg ts =
     (if ts_Code msg \<noteq> 0 then ts
      else let delta = sync_delta msg in
        if tsy_status ts = INITIAL
        then ts\<lparr>tsy_status := CONFIRMING, tsy_delta := i64 (tsy_delta ts + delta)\<rparr>
        else let ts1 = (if go_abs delta < availableThreshold
                        then (let ts0 = ts\<lparr>tsy_delta := i64 (tsy_delta ts + delta)\<rparr> in
                              if tsy_status ts = CONFIRMING
                              then ts0\<lparr>tsy_confirmTimes := i64 (tsy_confirmTimes ts + 1)\<rparr> else ts0)
                        else ts\<lparr>tsy_confirmTimes := 0\<rparr>)
             in if tsy_status ts1 = CONFIRMING \<and> tsy_confirmTimes ts1 = confirmThreshold
                then ts1\<lparr>tsy_status := SYNCED\<rparr> else ts1)"

definition time_synced :: "TimeSyncer \<Rightarrow> bool" where
  "time_synced ts \<longleftrightarrow> tsy_status ts = SYNCED"

section \<open>Messages\<close>

definition requestTimeSync :: "'w karmem_ops \<Rightarrow> TimeSyncMsg \<Rightarrow> (nat \<times> bytes) list" where
  "requestTimeSync K msg =
     (case SerializeTimeSyncMsg K msg of None \<Rightarrow> [] | Some bs \<Rightarrow> [(StatusCodeTimeSyncReq, bs)])"

definition respondTimeSync :: "'w karmem_ops \<Rightarrow> TimeSyncMsg \<Rightarrow> (nat \<times> bytes) list" where
  "respondTimeSync K msg =
     (case SerializeTimeSyncMsg K msg of None \<Rightarrow> [] | Some bs \<Rightarrow> [(StatusCodeTimeSyncRsp, bs)])"

text \<open>The clock is read twice: when the request is decoded and when the answer leaves.\<close>

definition handleTimeSyncReq ::
    "'w karmem_ops \<Rightarrow> int \<Rightarrow> int \<Rightarrow> bytes \<Rightarrow> TimeSyncer \<Rightarrow> (nat \<times> bytes) list" where
  "handleTimeSyncReq K received answered payload ts =
     (let tMsg = (DeserializeTimeSyncMsg K payload)\<lparr>ts_RecReqTime := GetLogicClock received ts\<rparr>
      in respondTimeSync K (ProcessSyncRequest answered tMsg ts))"

definition handleTimeSyncRsp :: "'w karmem_ops \<Rightarrow> int \<Rightarrow> bytes \<Rightarrow> TimeSyncer \<Rightarrow> TimeSyncer" where
  "handleTimeSyncRsp K received payload ts =
     (let tMsg = (DeserializeTimeSyncMsg K payload)\<lparr>ts_RecRspTime := GetLogicClock received ts\<rparr>
      in ProcessSyncRespond tMsg ts)"

section \<open>Lemmas\<close>

lemma i64_zero [simp]: "i64 0 = 0"
  by (simp add: i64_def)

lemma go_div_two: "2 * go_div a 2 \<le> a + 1 \<and> a - 1 \<le> 2 * go_div a 2 \<and> (0 \<le> a \<longrightarrow> 2 * go_div a 2 \<le> a)
    \<and> (a \<le> 0 \<longrightarrow> a \<le> 2 * go_div a 2 \<and> go_div a 2 \<le> 0)"
proof (cases "0 \<le> a")
  case True
  then have "go_div a 2 = a div 2" by simp
  then show ?thesis using True by presburger
next
  case False
  then have "go_div a 2 = - ((- a) div 2)" by (simp add: go_div_def)
  then show ?thesis using False by presburger
qed

lemma go_div_two_bounds: "in_i64 a \<Longrightarrow> -(2 ^ 62) \<le> go_div a 2 \<and> go_div a 2 < 2 ^ 62"
  using go_div_two [of a] by (cases "0 \<le> a") (auto simp: in_i64_def)

lemma half_error:
  fixes a b x y th B :: int
  assumes "2 * a \<le> x + 1" and "x - 1 \<le> 2 * a" and "2 * b \<le> y + 1" and "y - 1 \<le> 2 * b" and "x + y = 2 * th + B"
  shows "\<bar>2 * (a + b - th)\<bar> \<le> \<bar>B\<bar> + 2"
  using assms by presburger

text \<open>The in-tolerance test is the one the code intends, except at the least integer.\<close>

lemma go_abs_small: "in_i64 x \<Longrightarrow> x \<noteq> -(2 ^ 63) \<Longrightarrow> go_abs x = \<bar>x\<bar>"
  by (auto simp: go_abs_def in_i64_def intro!: i64_id)

lemma go_abs_least: "go_abs (-(2 ^ 63)) = -(2 ^ 63)"
  by (simp add: go_abs_def i64_def)

text \<open>Five responses in a row within tolerance.\<close>

definition has_run :: "('a \<Rightarrow> bool) \<Rightarrow> 'a list \<Rightarrow> bool" where
  "has_run ok xs \<longleftrightarrow> (\<exists>pre five post. xs = pre @ five @ post \<and> length five = 5 \<and> (\<forall>x \<in> set five. ok x))"

lemma has_run_append: "has_run ok xs \<Longrightarrow> has_run ok (xs @ ys)"
  unfolding has_run_def by (metis append.assoc)

lemma has_run_snoc:
  "has_run ok (xs @ [x]) \<longleftrightarrow> has_run ok xs \<or> 5 \<le> length (takeWhile ok (rev (xs @ [x])))"
proof
  assume "has_run ok (xs @ [x])"
  then obtain pre five post where f: "xs @ [x] = pre @ five @ post" "length five = 5" "\<forall>x \<in> set five. ok x"
    by (auto simp: has_run_def)
  show "has_run ok xs \<or> 5 \<le> length (takeWhile ok (rev (xs @ [x])))"
  proof (cases post rule: rev_cases)
    case Nil
    then have "rev (xs @ [x]) = rev five @ rev pre" using f(1) by simp
    moreover have "takeWhile ok (rev five @ rev pre) = rev five @ takeWhile ok (rev pre)"
      using f(3) by (intro takeWhile_append2) auto
    ultimately show ?thesis using f(2) by simp
  next
    case (snoc ys y)
    then have "xs = pre @ five @ ys" using f(1) by simp
    then show ?thesis using f(2,3) by (auto simp: has_run_def)
  qed
next
  assume "has_run ok xs \<or> 5 \<le> length (takeWhile ok (rev (xs @ [x])))"
  then show "has_run ok (xs @ [x])"
  proof
    assume l: "5 \<le> length (takeWhile ok (rev (xs @ [x])))"
    let ?r = "rev (xs @ [x])"
    have t: "take 5 ?r = take 5 (takeWhile ok ?r)"
      using l by (metis takeWhile_eq_take take_take min.absorb1 length_take min.bounded_iff)
    have "length ?r \<ge> 5" using l length_takeWhile_le [of ok ?r] by linarith
    then have "length (take 5 ?r) = 5" by simp
    moreover have "\<forall>y \<in> set (take 5 ?r). ok y"
      unfolding t using set_takeWhileD [of _ ok ?r] by (meson in_set_takeD)
    moreover have "xs @ [x] = rev (drop 5 ?r) @ rev (take 5 ?r) @ []"
      by (metis append_Nil2 append_take_drop_id rev_append rev_rev_ident)
    ultimately show ?thesis unfolding has_run_def by (metis length_rev set_rev)
  qed (rule has_run_append)
qed

definition in_tolerance :: "TimeSyncMsg \<Rightarrow> bool" where
  "in_tolerance msg \<longleftrightarrow> go_abs (sync_delta msg) < 1000"

definition respond_all :: "TimeSyncMsg list \<Rightarrow> TimeSyncer \<Rightarrow> TimeSyncer" where
  "respond_all msgs ts = foldl (\<lambda>ts m. ProcessSyncRespond m ts) ts msgs"

lemma respond_all_snoc: "respond_all (msgs @ [m]) ts = ProcessSyncRespond m (respond_all msgs ts)"
  by (simp add: respond_all_def)

text \<open>The state after some responses, in terms of the accepted ones (code zero).\<close>

definition sync_state_ok :: "TimeSyncMsg list \<Rightarrow> TimeSyncer \<Rightarrow> bool" where
  "sync_state_ok good ts \<longleftrightarrow>
     (case tsy_status ts of
        INITIAL \<Rightarrow> good = [] \<and> tsy_confirmTimes ts = 0
      | CONFIRMING \<Rightarrow> good \<noteq> [] \<and> \<not> has_run in_tolerance (tl good)
          \<and> tsy_confirmTimes ts = int (length (takeWhile in_tolerance (rev (tl good))))
      | SYNCED \<Rightarrow> good \<noteq> [] \<and> has_run in_tolerance (tl good))"

lemma no_run_short: "\<not> has_run ok xs \<Longrightarrow> length (takeWhile ok (rev xs)) < 5"
  using has_run_snoc [of ok "butlast xs" "last xs"]
  by (cases "xs = []") (auto simp: has_run_def)

lemma sync_state_step:
  assumes "sync_state_ok good ts" and "ts_Code m = 0"
  shows "sync_state_ok (good @ [m]) (ProcessSyncRespond m ts)"
proof (cases "tsy_status ts")
  case INITIAL
  then show ?thesis using assms
    by (simp add: ProcessSyncRespond_def sync_state_ok_def Let_def has_run_def)
next
  case SYNCED
  then have "good \<noteq> []" "has_run in_tolerance (tl good)" using assms(1) by (simp_all add: sync_state_ok_def)
  then have "has_run in_tolerance (tl (good @ [m]))" by (simp add: has_run_append)
  moreover have "tsy_status (ProcessSyncRespond m ts) = SYNCED"
    using SYNCED by (simp add: ProcessSyncRespond_def Let_def)
  ultimately show ?thesis by (simp add: sync_state_ok_def)
next
  case CONFIRMING
  then have g: "good \<noteq> []" "\<not> has_run in_tolerance (tl good)"
    "tsy_confirmTimes ts = int (length (takeWhile in_tolerance (rev (tl good))))"
    using assms(1) by (simp_all add: sync_state_ok_def)
  have t: "tl (good @ [m]) = tl good @ [m]" using g(1) by simp
  have short: "length (takeWhile in_tolerance (rev (tl good))) < 5" by (rule no_run_short [OF g(2)])
  then have w: "i64 (tsy_confirmTimes ts + 1) = tsy_confirmTimes ts + 1"
    using g(3) by (intro i64_id) (simp add: in_i64_def)
  have r: "has_run in_tolerance (tl good @ [m]) \<longleftrightarrow> in_tolerance m \<and> 4 \<le> length (takeWhile in_tolerance (rev (tl good)))"
    using g(2) by (simp add: has_run_snoc)
  show ?thesis
    using CONFIRMING assms(2) g short w r unfolding sync_state_ok_def t
    by (auto simp: ProcessSyncRespond_def Let_def in_tolerance_def availableThreshold_def confirmThreshold_def)
qed

lemma sync_state_all: "sync_state_ok (filter (\<lambda>m. ts_Code m = 0) msgs) (respond_all msgs (NewTimeSyncer g d))"
proof (induction msgs rule: rev_induct)
  case Nil
  then show ?case by (simp add: respond_all_def NewTimeSyncer_def sync_state_ok_def)
next
  case (snoc m msgs)
  then show ?case using sync_state_step
    by (cases "ts_Code m = 0") (auto simp: respond_all_snoc, simp add: ProcessSyncRespond_def)
qed

section \<open>Properties\<close>

text \<open>C38: One exchange of time messages measures the clock difference up to half the difference of the two
  network delays. With the request sent at \<open>t0\<close>, received at \<open>t1\<close>, answered at \<open>t2\<close> and the answer
  received at \<open>t3\<close> in true time, and physical clocks \<open>p\<close> and \<open>q\<close> off it, an initial time syncer adjusts
  its clock, through the encoded messages, by the true difference of the logical clocks, with an
  error of at most one millisecond plus half the asymmetry of the delays.\<close>

theorem time_sync_measures_offset:
  assumes "karmem K len cell" and "tsy_status a = INITIAL"
    and "\<bar>t0\<bar> < 2 ^ 58" and "\<bar>t1\<bar> < 2 ^ 58" and "\<bar>t2\<bar> < 2 ^ 58" and "\<bar>t3\<bar> < 2 ^ 58"
    and "\<bar>p\<bar> < 2 ^ 58" and "\<bar>q\<bar> < 2 ^ 58" and "\<bar>tsy_delta a\<bar> < 2 ^ 58" and "\<bar>tsy_delta b\<bar> < 2 ^ 58"
  shows "\<exists>req rsp off. requestTimeSync K (sync_request (t0 + p) a) = [(StatusCodeTimeSyncReq, req)]
    \<and> handleTimeSyncReq K (t1 + q) (t2 + q) req b = [(StatusCodeTimeSyncRsp, rsp)]
    \<and> handleTimeSyncRsp K (t3 + p) rsp a = a\<lparr>tsy_status := CONFIRMING, tsy_delta := tsy_delta a + off\<rparr>
    \<and> \<bar>2 * (off - ((q + tsy_delta b) - (p + tsy_delta a)))\<bar> \<le> \<bar>(t1 - t0) - (t3 - t2)\<bar> + 2"
proof -
  define th where "th = (q + tsy_delta b) - (p + tsy_delta a)"
  have clock: "i64 (t + r + d) = t + r + d" if "\<bar>t\<bar> < 2 ^ 58" "\<bar>r\<bar> < 2 ^ 58" "\<bar>d\<bar> < 2 ^ 58" for t r d :: int
    using that by (intro i64_id) (auto simp: in_i64_def)
  define m1 where "m1 = \<lparr>ts_Code = 0, ts_ReqTime = t0 + p + tsy_delta a, ts_RecReqTime = 0, ts_RspTime = 0, ts_RecRspTime = 0\<rparr>"
  have m1: "sync_request (t0 + p) a = m1" "wf_time m1"
    using clock [OF assms(3,7,9)] assms(3,7,9) by (auto simp: sync_request_def GetLogicClock_def m1_def wf_time_def in_i64_def)
  obtain req where req: "SerializeTimeSyncMsg K m1 = Some req" "DeserializeTimeSyncMsg K req = m1"
    using karmem.time_roundtrip [OF assms(1) m1(2)] by blast
  define m2 where "m2 = m1\<lparr>ts_RecReqTime := t1 + q + tsy_delta b, ts_RspTime := t2 + q + tsy_delta b\<rparr>"
  have m2: "ProcessSyncRequest (t2 + q) (m1\<lparr>ts_RecReqTime := GetLogicClock (t1 + q) b\<rparr>) b = m2"
    using clock [OF assms(4,8,10)] clock [OF assms(5,8,10)] by (simp add: ProcessSyncRequest_def GetLogicClock_def m2_def)
  have "wf_time m2" using m1(2) assms(4,5,8,10) by (auto simp: m2_def wf_time_def in_i64_def)
  then obtain rsp where rsp: "SerializeTimeSyncMsg K m2 = Some rsp" "DeserializeTimeSyncMsg K rsp = m2"
    using karmem.time_roundtrip [OF assms(1)] by blast
  define m3 where "m3 = m2\<lparr>ts_RecRspTime := t3 + p + tsy_delta a\<rparr>"
  have clk3: "GetLogicClock (t3 + p) a = t3 + p + tsy_delta a"
    using clock [OF assms(6,7,9)] by (simp add: GetLogicClock_def)
  define x y where "x = th - (t3 - t2)" and "y = th + (t1 - t0)"
  have xy: "ts_RspTime m3 - ts_RecRspTime m3 = x" "ts_RecReqTime m3 - ts_ReqTime m3 = y"
    by (simp_all add: m3_def m2_def m1_def x_def y_def th_def)
  have bx: "\<bar>x\<bar> < 2 ^ 61 \<and> \<bar>y\<bar> < 2 ^ 61" using assms(3-10) by (auto simp: x_def y_def th_def abs_less_iff)
  define off where "off = go_div x 2 + go_div y 2"
  have "i64 x = x" "i64 y = y" using bx by (auto intro!: i64_id simp: in_i64_def)
  moreover have ob: "\<bar>off\<bar> \<le> 2 ^ 61" using go_div_two [of x] go_div_two [of y] bx by (simp add: off_def abs_le_iff) linarith
  ultimately have d: "sync_delta m3 = off"
    unfolding sync_delta_def xy by (subst i64_id) (auto simp: off_def [symmetric] in_i64_def)
  have "i64 (tsy_delta a + off) = tsy_delta a + off"
    using ob assms(9) by (intro i64_id) (auto simp: in_i64_def)
  then have "handleTimeSyncRsp K (t3 + p) rsp a = a\<lparr>tsy_status := CONFIRMING, tsy_delta := tsy_delta a + off\<rparr>"
    using d assms(2) by (simp add: handleTimeSyncRsp_def rsp(2) clk3 m3_def [symmetric] ProcessSyncRespond_def Let_def)
      (simp add: m3_def m2_def m1_def)
  moreover have "\<bar>2 * (off - th)\<bar> \<le> \<bar>(t1 - t0) - (t3 - t2)\<bar> + 2"
  proof -
    have "2 * go_div x 2 \<le> x + 1" "x - 1 \<le> 2 * go_div x 2" "2 * go_div y 2 \<le> y + 1" "y - 1 \<le> 2 * go_div y 2"
      using go_div_two by blast+
    moreover have "x + y = 2 * th + (t1 - t0 - (t3 - t2))" by (simp add: x_def y_def)
    ultimately show ?thesis unfolding off_def by (rule half_error)
  qed
  ultimately show ?thesis unfolding th_def
    by (intro exI [of _ req] exI [of _ rsp] exI [of _ off])
      (simp add: requestTimeSync_def m1(1) req handleTimeSyncReq_def respondTimeSync_def m2 rsp(1))
qed

lemma time_sync_measures_offset_witness:
  "\<exists>rsp off. handleTimeSyncRsp std_karmem 1040 rsp (NewTimeSyncer False 0) =
     (NewTimeSyncer False 0)\<lparr>tsy_status := CONFIRMING, tsy_delta := off\<rparr> \<and> \<bar>2 * (off - 500)\<bar> \<le> 12"
  using time_sync_measures_offset [OF std.karmem_axioms, of "NewTimeSyncer False 0" 1000 1020 1030 1040 0 500 "NewTimeSyncer True 0"]
  by (auto simp: NewTimeSyncer_def)

text \<open>A time syncer that asks is synced after exactly the following responses: among those with code
  zero there is a first one, of any size, and later five in a row within one second. Every
  response outside the tolerance starts the count again; being synced is never lost.\<close>

theorem time_synced_iff:
  "time_synced (respond_all msgs (TimeSyncer_Start (NewTimeSyncer False d))) \<longleftrightarrow>
    (\<exists>first pre five post. filter (\<lambda>m. ts_Code m = 0) msgs = first # pre @ five @ post
       \<and> length five = 5 \<and> (\<forall>m \<in> set five. go_abs (sync_delta m) < 1000))" (is "?L \<longleftrightarrow> ?R")
proof -
  let ?good = "filter (\<lambda>m. ts_Code m = 0) msgs" and ?ts = "respond_all msgs (NewTimeSyncer False d)"
  have s: "sync_state_ok ?good ?ts" by (rule sync_state_all)
  have "TimeSyncer_Start (NewTimeSyncer False d) = NewTimeSyncer False d"
    by (simp add: TimeSyncer_Start_def NewTimeSyncer_def)
  then have "?L \<longleftrightarrow> ?good \<noteq> [] \<and> has_run in_tolerance (tl ?good)"
    using s by (auto simp: sync_state_ok_def time_synced_def has_run_def split: SyncStatus.splits)
  also have "\<dots> \<longleftrightarrow> ?R"
    by (cases ?good) (auto simp: has_run_def in_tolerance_def)
  finally show ?thesis .
qed

lemma time_synced_iff_witness:
  "time_synced (respond_all (replicate 6 (sync_request 0 (NewTimeSyncer False 0))) (TimeSyncer_Start (NewTimeSyncer False 0)))"
proof -
  define m where "m = sync_request 0 (NewTimeSyncer False 0)"
  have m: "ts_Code m = 0" "go_abs (sync_delta m) < 1000"
    by (simp_all add: m_def sync_request_def GetLogicClock_def NewTimeSyncer_def sync_delta_def go_abs_def)
  have "filter (\<lambda>m. ts_Code m = 0) (replicate 6 m) = m # [] @ [m, m, m, m, m] @ []"
    using m(1) by (simp add: numeral_eq_Suc)
  moreover have "\<forall>x \<in> set [m, m, m, m, m]. go_abs (sync_delta x) < 1000" "length [m, m, m, m, m] = 5" using m(2) by simp_all
  ultimately show ?thesis unfolding m_def [symmetric] time_synced_iff by blast
qed

text \<open>The tolerance does not bound what a peer can do to the clock. For every time at which its response
  is received there are time stamps a peer can send whose difference is the least integer; its
  absolute value overflows to itself, passes the test, counts as a confirmation, and moves the clock
  of a confirming or synced node by half the range of the integers.\<close>

theorem time_sync_overflow_accepted:
  assumes "in_i64 received" and "tsy_status ts \<noteq> INITIAL"
  shows "\<exists>msg. ts_Code msg = 0 \<and> wf_time msg \<and> ts_RecRspTime msg = received \<and> go_abs (sync_delta msg) < 1000
    \<and> tsy_delta (ProcessSyncRespond msg ts) = i64 (tsy_delta ts - 2 ^ 63)"
proof -
  define msg where "msg = \<lparr>ts_Code = 0, ts_ReqTime = 0, ts_RecReqTime = -(2 ^ 63), ts_RspTime = i64 (received - 2 ^ 63), ts_RecRspTime = received\<rparr>"
  have r: "i64 (i64 (received - 2 ^ 63) - received) = -(2 ^ 63)"
  proof -
    have "i64 (received - 2 ^ 63) = (if received < 0 then received + 2 ^ 63 else received - 2 ^ 63)"
    proof (cases "received < 0")
      case True
      have "received mod 2 ^ 64 = (received + 2 ^ 64) mod 2 ^ 64" by simp
      also have "\<dots> = received + 2 ^ 64" using assms(1) True by (intro mod_pos_pos_trivial) (auto simp: in_i64_def)
      finally show ?thesis using True by (simp add: i64_def)
    next
      case False
      then show ?thesis using assms(1) by (auto simp: in_i64_def intro!: i64_id)
    qed
    then show ?thesis using assms(1) by (auto simp: i64_def)
  qed
  have d: "sync_delta msg = -(2 ^ 63)"
    using r by (simp add: sync_delta_def msg_def go_div_def) (simp add: i64_def)
  have ok: "go_abs (sync_delta msg) < 1000" unfolding d go_abs_least by simp
  have "tsy_delta (ProcessSyncRespond msg ts) = i64 (tsy_delta ts - 2 ^ 63)"
    using assms(2) ok d by (simp add: ProcessSyncRespond_def Let_def availableThreshold_def msg_def)
  then show ?thesis using ok assms(1)
    by (intro exI [of _ msg]) (simp add: msg_def wf_time_def, simp add: in_i64_def)
qed

lemma time_sync_overflow_accepted_witness:
  "\<exists>msg. go_abs (sync_delta msg) < 1000
    \<and> tsy_delta (ProcessSyncRespond msg (TimeSyncer_Start (NewTimeSyncer True 0))) = -(2 ^ 63)"
  using time_sync_overflow_accepted [of 0 "TimeSyncer_Start (NewTimeSyncer True 0)"]
  by (auto simp: TimeSyncer_Start_def NewTimeSyncer_def in_i64_def i64_def)

end
