(* ===== verification/VRF.thy ===== *)
theory VRF
  imports Calculator
begin

text \<open>
  crypto/vrf.go with the key conversions of convertor.go and ecdsa.go and the integer power of
  bigint.go. The curve comes from Go's crypto/elliptic: its operations are a record, and its
  documented group laws the locale \<open>curve\<close>. SHA-256 and SHA-1 are arguments as well.
\<close>

section \<open>The curve\<close>

text \<open>
  Points include the one at infinity, which has no compressed form: marshalling it panics. A
  byte string that is no point unmarshals to \<open>None\<close>, the nil coordinates of the library.
\<close>

record 'p curve_ops =
  ec_N :: nat
  ec_is_inf :: "'p \<Rightarrow> bool"
  ec_ScalarBaseMult :: "bytes \<Rightarrow> 'p"
  ec_ScalarMult :: "'p \<Rightarrow> bytes \<Rightarrow> 'p"
  ec_Add :: "'p \<Rightarrow> 'p \<Rightarrow> 'p"
  ec_Marshal :: "'p \<Rightarrow> bytes"
  ec_Unmarshal :: "bytes \<Rightarrow> 'p option"

definition MarshalCompressed :: "'p curve_ops \<Rightarrow> 'p \<Rightarrow> bytes outcome" where
  "MarshalCompressed C p = (if ec_is_inf C p then Panics else Done (ec_Marshal C p))"

text \<open>Multiplying the nil coordinates dereferences them.\<close>

definition ScalarMult_nil :: "'p curve_ops \<Rightarrow> 'p option \<Rightarrow> bytes \<Rightarrow> 'p outcome" where
  "ScalarMult_nil C p b = (case p of None \<Rightarrow> Panics | Some p \<Rightarrow> Done (ec_ScalarMult C p b))"

section \<open>Keys\<close>

record 'p PrivateKey =
  pk_D :: nat
  pk_Public :: 'p

definition DecodePrivateKeyFromHexString :: "'p curve_ops \<Rightarrow> string \<Rightarrow> 'p PrivateKey option" where
  "DecodePrivateKeyFromHexString C hexString =
     (case hex_decode hexString of
        None \<Rightarrow> None
      | Some kBytes \<Rightarrow> Some \<lparr>pk_D = be_dec kBytes, pk_Public = ec_ScalarBaseMult C kBytes\<rparr>)"

definition PublicKey2Bytes :: "'p curve_ops \<Rightarrow> 'p \<Rightarrow> bytes outcome" where
  "PublicKey2Bytes C pub = MarshalCompressed C pub"

definition PublicKeyBytes2Address :: "(bytes \<Rightarrow> bytes) \<Rightarrow> bytes \<Rightarrow> bytes outcome" where
  "PublicKeyBytes2Address sha1 pubBytes = to_array 20 (sha1 pubBytes)"

definition Bytes2PublicKey :: "'p curve_ops \<Rightarrow> bytes \<Rightarrow> 'p option" where
  "Bytes2PublicKey C pub = ec_Unmarshal C pub"

section \<open>The verifiable random function\<close>

definition BigPow :: "nat \<Rightarrow> nat \<Rightarrow> nat" where
  "BigPow a b = a ^ b"

text \<open>
  The proof of the local node. A configured key that does not decode is \<open>log.Fatalln\<close>: the process ends, as in a panic; a
  failing random source is returned as an error.
\<close>

definition VRFCalculate ::
    "'p curve_ops \<Rightarrow> (bytes \<Rightarrow> bytes) \<Rightarrow> string \<Rightarrow> string + nat \<Rightarrow> bytes
       \<Rightarrow> (string + bytes \<times> nat \<times> nat) outcome" where
  "VRFCalculate C sha prvHex rnd msg =
     (case DecodePrivateKeyFromHexString C prvHex of
        None \<Rightarrow> Panics
      | Some prv \<Rightarrow>
         (let N = ec_N C; digest = sha msg; M = ec_ScalarBaseMult C digest in
          case rnd of
            Inl err \<Rightarrow> Done (Inl err)
          | Inr r \<Rightarrow>
             (let Rm = ec_ScalarMult C M (big_Bytes r);
                  Ro = ec_ScalarBaseMult C (big_Bytes r);
                  V = ec_ScalarMult C M (big_Bytes (pk_D prv))
              in bindO (MarshalCompressed C Rm) (\<lambda>sBytes.
                 bindO (MarshalCompressed C Ro) (\<lambda>oBytes.
                   let s = be_dec sBytes * be_dec oBytes mod N;
                       sk = s * pk_D prv;
                       t = nat ((int r - int sk) mod int N)
                   in bindO (MarshalCompressed C V) (\<lambda>rBytes. Done (Inr (rBytes, s, t))))))))"

definition VRFVerify ::
    "'p curve_ops \<Rightarrow> (bytes \<Rightarrow> bytes) \<Rightarrow> 'p option \<Rightarrow> bytes \<Rightarrow> nat \<Rightarrow> nat \<Rightarrow> bytes \<Rightarrow> bool outcome" where
  "VRFVerify C sha key msg s t value =
     (let N = ec_N C;
          R = ec_Unmarshal C value;
          digest = sha msg;
          M = ec_ScalarBaseMult C digest;
          Tm = ec_ScalarMult C M (big_Bytes t);
          To = ec_ScalarBaseMult C (big_Bytes t)
      in bindO (ScalarMult_nil C R (big_Bytes s)) (\<lambda>Sv.
         bindO (ScalarMult_nil C key (big_Bytes s)) (\<lambda>Sy.
           let U1 = ec_Add C Tm Sv; U2 = ec_Add C To Sy in
           bindO (MarshalCompressed C U1) (\<lambda>sBytes.
           bindO (MarshalCompressed C U2) (\<lambda>oBytes.
             Done (s = be_dec sBytes * be_dec oBytes mod N))))))"

text \<open>
  The output as a probability in thousandths; with the floor 0.0 the comparison of the floats is
  a comparison of the integers.
\<close>

definition VRFCheckOutputConsensus :: "(bytes \<Rightarrow> bytes) \<Rightarrow> bytes \<Rightarrow> bool" where
  "VRFCheckOutputConsensus sha randomOutput =
     (let r = be_dec (sha randomOutput) * 1000 div BigPow 2 256 in r > 0)"

text \<open>An error of the calculation is dropped: the output is then the empty slice.\<close>

definition VRFCheckLocalConsensus ::
    "'p curve_ops \<Rightarrow> (bytes \<Rightarrow> bytes) \<Rightarrow> string \<Rightarrow> string + nat \<Rightarrow> bytes \<Rightarrow> bool outcome" where
  "VRFCheckLocalConsensus C sha prvHex rnd vdfOutput =
     bindO (VRFCalculate C sha prvHex rnd vdfOutput) (\<lambda>res.
       Done (VRFCheckOutputConsensus sha (case res of Inl _ \<Rightarrow> [] | Inr (rBytes, _) \<Rightarrow> rBytes)))"

definition VRFCheckRemoteConsensus ::
    "'p curve_ops \<Rightarrow> (bytes \<Rightarrow> bytes) \<Rightarrow> 'p option \<Rightarrow> bytes \<Rightarrow> nat \<Rightarrow> nat \<Rightarrow> bytes \<Rightarrow> bool outcome" where
  "VRFCheckRemoteConsensus C sha key vdfMsg s t value =
     bindO (VRFVerify C sha key vdfMsg s t value) (\<lambda>verified.
       Done (if \<not> verified then False else VRFCheckOutputConsensus sha value))"

section \<open>The laws of the curve\<close>

text \<open>
  A group of prime order N, written with the scalar multiplication \<open>smul\<close> and a base point;
  marshalling is invertible on finite points.
\<close>

locale curve =
  fixes C :: "'p curve_ops" and smul :: "nat \<Rightarrow> 'p \<Rightarrow> 'p" and base :: 'p
  assumes N_pos: "0 < ec_N C"
    and base_mult: "ec_ScalarBaseMult C bs = smul (be_dec bs) base"
    and scalar_mult: "ec_ScalarMult C p bs = smul (be_dec bs) p"
    and add: "ec_Add C (smul a p) (smul b p) = smul (a + b) p"
    and smul_smul: "smul a (smul b p) = smul (a * b) p"
    and smul_mod: "smul (a mod ec_N C) p = smul a p"
    and unmarshal: "\<not> ec_is_inf C p \<Longrightarrow> ec_Unmarshal C (ec_Marshal C p) = Some p"
begin

lemma smul_cong: "a mod ec_N C = b mod ec_N C \<Longrightarrow> smul a p = smul b p"
  by (metis smul_mod)

text \<open>The verifier's t + s k is the prover's r.\<close>

lemma response:
  assumes "r < ec_N C"
  shows "(nat ((int r - int (s * k)) mod int (ec_N C)) + s * k) mod ec_N C = r"
proof -
  let ?N = "ec_N C"
  have "0 \<le> (int r - int (s * k)) mod int ?N" using N_pos by simp
  then have "int ((nat ((int r - int (s * k)) mod int ?N) + s * k) mod ?N)
      = ((int r - int (s * k)) mod int ?N + int (s * k)) mod int ?N"
    by (simp add: zmod_int)
  also have "\<dots> = int r mod int ?N" by (simp add: mod_add_left_eq)
  also have "\<dots> = int r" using assms by simp
  finally show ?thesis by (simp only: of_nat_eq_iff)
qed

lemma verify_calculated:
  assumes prv: "DecodePrivateKeyFromHexString C prvHex = Some prv" and r: "r < ec_N C"
    and calc: "VRFCalculate C sha prvHex (Inr r) msg = Done (Inr (v, s, t))"
  shows "VRFVerify C sha (Some (pk_Public prv)) msg s t v = Done True"
proof -
  define m k where "m = be_dec (sha msg)" and "k = pk_D prv"
  define S where "S = be_dec (ec_Marshal C (smul (r * m) base)) * be_dec (ec_Marshal C (smul r base)) mod ec_N C"
  have pub: "pk_Public prv = smul k base"
    using prv by (auto simp: DecodePrivateKeyFromHexString_def base_mult k_def split: option.splits)
  have *: "\<not> ec_is_inf C (smul (r * m) base)" "\<not> ec_is_inf C (smul r base)"
      "\<not> ec_is_inf C (smul (k * m) base)" "v = ec_Marshal C (smul (k * m) base)"
      "s = S" "t = nat ((int r - int (S * k)) mod int (ec_N C))"
    using calc prv by (auto simp: VRFCalculate_def MarshalCompressed_def base_mult scalar_mult
        smul_smul be_dec_big_Bytes Let_def S_def m_def k_def split: if_splits)
  have tr: "(t + s * k) mod ec_N C = r" using response [OF r] *(5,6) by simp
  have U1: "smul (t * m + s * (k * m)) base = smul (r * m) base"
  proof (rule smul_cong)
    have "t * m + s * (k * m) = (t + s * k) * m" by (simp add: algebra_simps)
    then have "(t * m + s * (k * m)) mod ec_N C = ((t + s * k) mod ec_N C) * m mod ec_N C"
      by (simp only: mod_mult_left_eq)
    then show "(t * m + s * (k * m)) mod ec_N C = r * m mod ec_N C" by (simp add: tr)
  qed
  have U2: "smul (t + s * k) base = smul r base"
    by (rule smul_cong) (use tr r in simp)
  have "VRFVerify C sha (Some (pk_Public prv)) msg s t v = Done (s = S)"
    using *(1-3) unfolding *(4)
    by (simp add: VRFVerify_def ScalarMult_nil_def MarshalCompressed_def unmarshal base_mult
        scalar_mult smul_smul add be_dec_big_Bytes Let_def pub U1 U2 m_def [symmetric] S_def)
  then show ?thesis using *(5) by simp
qed

end

section \<open>An instance\<close>

text \<open>The additive group of the integers modulo 7: a point is its discrete logarithm.\<close>

definition mod7_curve :: "nat curve_ops" where
  "mod7_curve = \<lparr>ec_N = 7, ec_is_inf = (\<lambda>p. p mod 7 = 0), ec_ScalarBaseMult = (\<lambda>b. be_dec b mod 7),
     ec_ScalarMult = (\<lambda>p b. be_dec b * p mod 7), ec_Add = (\<lambda>p q. (p + q) mod 7),
     ec_Marshal = big_Bytes, ec_Unmarshal = (\<lambda>bs. Some (be_dec bs))\<rparr>"

interpretation mod7: curve mod7_curve "\<lambda>a p. a * p mod 7" 1
  by unfold_locales (simp_all add: mod7_curve_def mod_add_eq mod_mult_right_eq mod_mult_left_eq
      be_dec_big_Bytes algebra_simps)

section \<open>Properties\<close>

text \<open>C18: The VRF is complete: the proof a node calculates with its private key verifies against
  its public key, on any curve with the group laws, and its output is accepted from that node by
  the others exactly when it passes the consensus check.\<close>

theorem vrf_proof_verifies:
  assumes "curve C smul base" and "DecodePrivateKeyFromHexString C prvHex = Some prv"
    and "r < ec_N C" and "VRFCalculate C sha prvHex (Inr r) msg = Done (Inr (v, s, t))"
  shows "VRFVerify C sha (Some (pk_Public prv)) msg s t v = Done True
    \<and> VRFCheckRemoteConsensus C sha (Some (pk_Public prv)) msg s t v
        = VRFCheckLocalConsensus C sha prvHex (Inr r) msg"
proof -
  have "VRFVerify C sha (Some (pk_Public prv)) msg s t v = Done True"
    using curve.verify_calculated [OF assms(1)] assms(2-4) by blast
  then show ?thesis
    using assms(4) by (simp add: VRFCheckRemoteConsensus_def VRFCheckLocalConsensus_def)
qed

lemma vrf_proof_verifies_witness:
  "\<exists>v s t. VRFCalculate mod7_curve (\<lambda>m. m) ''03'' (Inr 4) [2] = Done (Inr (v, s, t))
     \<and> VRFVerify mod7_curve (\<lambda>m. m) (Some 3) [2] s t v = Done True"
proof -
  have prv: "DecodePrivateKeyFromHexString mod7_curve ''03'' = Some \<lparr>pk_D = 3, pk_Public = 3\<rparr>"
    by (simp add: DecodePrivateKeyFromHexString_def hex_value_def mod7_curve_def be_dec_def)
  have calc: "VRFCalculate mod7_curve (\<lambda>m. m) ''03'' (Inr 4) [2] = Done (Inr ([6], 4, 6))"
    by (simp add: VRFCalculate_def prv) (simp add: mod7_curve_def MarshalCompressed_def be_dec_big_Bytes
        Let_def be_dec_def big_Bytes_def big_Bytes_le.simps)
  show ?thesis
    using vrf_proof_verifies [OF mod7.curve_axioms prv _ calc] calc by (simp add: mod7_curve_def)
qed

text \<open>The consensus check lets an output pass unless its hash is in the lowest thousandth of
  the 256-bit range: with the floor 0.0 nearly every node is a consensus node in every round.\<close>

theorem consensus_floor:
  "VRFCheckOutputConsensus sha out \<longleftrightarrow> 2 ^ 256 \<le> 1000 * be_dec (sha out)"
  unfolding VRFCheckOutputConsensus_def Let_def BigPow_def by (simp add: div_greater_zero_iff mult.commute)

text \<open>A VRF output that is not the encoding of a curve point, or a public key that is none, makes
  the check of a remote block panic instead of failing: the coordinates are nil and the curve
  multiplication dereferences them.\<close>

lemma undecodable_vrf_panics:
  assumes "ec_Unmarshal C value = None \<or> key = None"
  shows "VRFCheckRemoteConsensus C sha key msg s t value = Panics"
  using assms by (auto simp: VRFCheckRemoteConsensus_def VRFVerify_def ScalarMult_nil_def Let_def
      split: option.split)


end
