(* ===== verification/TxVerify.thy ===== *)
theory TxVerify
  imports Roundtrip VRF
begin

text \<open>
  Signing and verifying transactions: \<open>Transaction.Verify\<close> of common/transaction.go, and the
  handler of rpc/blockchain.go that builds and signs a transaction. The ECDSA functions of the
  standard library are arguments.
\<close>

section \<open>Verification (common/transaction.go)\<close>

text \<open>
  The body is written and read back, its hash and signature are cleared, and it is written again
  into the same writer after a reset, whose memory still holds the bytes of the first time.
\<close>

definition Verify_tx ::
    "'w karmem_ops \<Rightarrow> 'p curve_ops \<Rightarrow> (bytes \<Rightarrow> bytes) \<Rightarrow> ('p option \<Rightarrow> bytes \<Rightarrow> bytes \<Rightarrow> bool outcome)
       \<Rightarrow> Transaction \<Rightarrow> bool outcome" where
  "Verify_tx K C sha VerifyASN1 tx =
     (let txBody = tx_Body tx;
          byteSignature = tb_Signature txBody;
          byteHash = tb_Hash txBody;
          publicKey = ec_Unmarshal C (tb_Public txBody)
      in case TransactionBody_Write K txBody 0 (kw_new K 1024) of
           None \<Rightarrow> Done False
         | Some (_, writer) \<Rightarrow>
             (let txByteData = kw_bytes K writer;
                  copied = TransactionBody_Read K txByteData (new_viewer K txByteData 0);
                  txBodyCopy = copied\<lparr>tb_Hash := replicate 32 0, tb_Signature := []\<rparr>
              in case TransactionBody_Write K txBodyCopy 0 (kw_reset K writer) of
                   None \<Rightarrow> Done False
                 | Some (_, writer') \<Rightarrow>
                     (let txHashBytes = sha (kw_bytes K writer')
                      in if txHashBytes \<noteq> byteHash then Done False
                         else VerifyASN1 publicKey txHashBytes byteSignature)))"

section \<open>Building a transaction (rpc/blockchain.go)\<close>

record SendTransactionWithDataReq =
  req_Type :: "string option"
  req_Receiver :: "string option"
  req_Key :: "string option"
  req_Value :: "string option"

definition SerializeTransactionBody :: "'w karmem_ops \<Rightarrow> TransactionBody \<Rightarrow> bytes option" where
  "SerializeTransactionBody K b = encode_root K (TransactionBody_Write K b 0)"

text \<open>An error of WriteAsRoot is ignored by the handler: it goes on with what was written.\<close>

definition written :: "bytes option \<Rightarrow> bytes" where
  "written bs = (case bs of None \<Rightarrow> [] | Some bs \<Rightarrow> bs)"

definition DataCommand_bytes ::
    "'w karmem_ops \<Rightarrow> SendTransactionWithDataReq \<Rightarrow> string \<Rightarrow> bytes" where
  "DataCommand_bytes K req type =
     (case (req_Key req, req_Value req) of
        (Some key, Some val) \<Rightarrow>
          written (SerializeDataCommand K
            \<lparr>dc_Opt = bytes_of_string type, dc_Key = bytes_of_string key, dc_Value = bytes_of_string val\<rparr>)
      | _ \<Rightarrow> [])"

definition unsigned_body :: "int \<Rightarrow> bytes \<Rightarrow> bytes \<Rightarrow> bytes \<Rightarrow> bytes \<Rightarrow> TransactionBody" where
  "unsigned_body timestamp receiver public address data =
     \<lparr>tb_Hash = replicate 32 0, tb_Address = address, tb_Receiver = receiver, tb_Gas = 0,
      tb_Nonce = 0, tb_Event = [], tb_Opt = [], tb_State = [], tb_Data = data,
      tb_Expire = i64 (timestamp + 3000), tb_Height = 0, tb_Index = 0,
      tb_BlockHash = replicate 32 0, tb_Timestamp = timestamp, tb_Public = public,
      tb_Signature = []\<rparr>"

text \<open>
  What the handler hands to the peer manager, or the error it returns. A hash or a key of the
  wrong length panics in the conversion to an array.
\<close>

definition SendTransactionWithData ::
    "'w karmem_ops \<Rightarrow> 'p curve_ops \<Rightarrow> (bytes \<Rightarrow> bytes) \<Rightarrow> (bytes \<Rightarrow> bytes)
       \<Rightarrow> ('p PrivateKey \<Rightarrow> bytes \<Rightarrow> string + bytes) \<Rightarrow> string \<Rightarrow> int \<Rightarrow> SendTransactionWithDataReq
       \<Rightarrow> (string + Transaction) outcome" where
  "SendTransactionWithData K C sha sha1 SignASN1 prvHex now req =
     (case req_Receiver req of
        None \<Rightarrow> Done (Inl ''transaction receiver is required'')
      | Some receiver \<Rightarrow>
     (case req_Type req of
        None \<Rightarrow> Done (Inl ''transaction type error'')
      | Some type \<Rightarrow>
      if type \<noteq> ''set'' \<and> type \<noteq> ''append'' then Done (Inl ''transaction type error'') else
     (case DecodePrivateKeyFromHexString C prvHex of
        None \<Rightarrow> Done (Inl ''private key'')
      | Some prv \<Rightarrow>
     (case hex_decode receiver of
        None \<Rightarrow> Done (Inl ''Decode address failed.'')
      | Some address \<Rightarrow>
      bindO (to_array 20 address) (\<lambda>rcv.
      bindO (PublicKey2Bytes C (pk_Public prv)) (\<lambda>pubBytes.
      bindO (to_array 33 pubBytes) (\<lambda>public.
      bindO (PublicKeyBytes2Address sha1 public) (\<lambda>addr.
        let txBody = unsigned_body now rcv public addr (DataCommand_bytes K req type);
            txHashBytes = sha (written (SerializeTransactionBody K txBody))
        in case SignASN1 prv txHashBytes of
             Inl err \<Rightarrow> Done (Inl err)
           | Inr sig \<Rightarrow>
               bindO (to_array 32 txHashBytes) (\<lambda>hash.
                 Done (Inr \<lparr>tx_Body = txBody\<lparr>tb_Hash := hash, tb_Signature := sig\<rparr>\<rparr>))))))))))"

section \<open>Writing into a used writer\<close>

text \<open>
  Two writers of the same length agree outside a set of positions. Writing the same table into both
  leaves them equal on every byte that the table's slots cover.
\<close>

definition agree :: "nat set \<Rightarrow> nat \<Rightarrow> (nat \<Rightarrow> byte) \<Rightarrow> (nat \<Rightarrow> byte) \<Rightarrow> bool" where
  "agree S n m m' \<longleftrightarrow> (\<forall>i < n. i \<notin> S \<longrightarrow> m i = m' i)"

lemma agree_mono: "agree S n m m' \<Longrightarrow> S \<subseteq> T \<Longrightarrow> agree T n m m'"
  by (auto simp: agree_def)

fun slots :: "field list \<Rightarrow> nat set" where
  "slots [] = {}"
| "slots (f # fs) = {slot_off f..<slot_off f + slot_len f} \<union> slots fs"

context karmem
begin

lemma write_agree:
  assumes "p + length bs \<le> len w" and "len w' = len w" and "agree S (len w) (cell w) (cell w')"
  shows "agree (S - {p..<p + length bs}) (len w) (cell (kw_write K w p bs)) (cell (kw_write K w' p bs))"
  using assms by (auto simp: agree_def cell_write)

lemma alloc_agree:
  assumes "kw_alloc K w n = Some (q, v)" and "len w' = len w" and "agree S (len w) (cell w) (cell w')"
  shows "\<exists>v'. kw_alloc K w' n = Some (q, v') \<and> q = len w \<and> len v = len w + n \<and> len v' = len v
    \<and> agree (S \<union> {len w..<len w + n}) (len v) (cell v) (cell v')"
proof -
  obtain v1 where v1: "kw_alloc K w n = Some (len w, v1)" "len v1 = len w + n" "cell v1 = cell w"
    using alloc by blast
  obtain v2 where v2: "kw_alloc K w' n = Some (len w', v2)" "len v2 = len w' + n" "cell v2 = cell w'"
    using alloc by blast
  show ?thesis using v1 v2 assms by (auto simp: agree_def)
qed

lemma write_field_agree:
  assumes room: "base + slot_off f + slot_len f \<le> len w" and l: "len w' = len w"
    and a: "agree S (len w) (cell w) (cell w')" and w: "write_field K base f w = Some v"
  shows "\<exists>v'. write_field K base f w' = Some v' \<and> len v' = len v \<and> len v = len w + tail_len f
    \<and> agree (S - {base + slot_off f..<base + slot_off f + slot_len f}) (len v) (cell v) (cell v')"
proof (cases f)
  case (FBytes k bs)
  then show ?thesis using assms write_agree [OF _ l a, of "base + k" bs] by (auto simp: len_write)
next
  case (FInt64 k x)
  then show ?thesis using assms write_agree [OF _ l a, of "base + k" "le_enc 8 (u64_of_i64 x)"]
    by (auto simp: len_write write8)
next
  case (FUint32 k x)
  then show ?thesis using assms write_agree [OF _ l a, of "base + k" "le_enc 4 x"]
    by (auto simp: len_write write4)
next
  case (FUint8 k x)
  then show ?thesis using assms write_agree [OF _ l a, of "base + k" "le_enc 1 x"]
    by (auto simp: len_write write1 simp del: One_nat_def)
next
  case (FSlice k bs)
  obtain q u where u: "kw_alloc K w (length bs) = Some (q, u)" using alloc by blast
  obtain u' where u': "kw_alloc K w' (length bs) = Some (q, u')" "q = len w" "len u = len w + length bs"
      "len u' = len u" "agree (S \<union> {q..<q + length bs}) (len u) (cell u) (cell u')"
    using alloc_agree [OF u l a] by auto
  define off where "off = le_enc 4 (q mod 2 ^ 32)"
  define sz where "sz = le_enc 4 (length bs mod 2 ^ 32)"
  define fin where "fin x = kw_write K (kw_write K (kw_write K (kw_write K x (base + k) off)
      (base + k + 4) sz) (base + k + 8) (le_enc 4 1)) q bs" for x
  have b: "base + k + 12 \<le> len w" using room FSlice by simp
  have ll: "length off = 4" "length sz = 4" by (simp_all add: off_def sz_def)
  have v: "v = fin u" and v': "write_field K base f w' = Some (fin u')"
    using w u u'(1) FSlice by (auto simp: fin_def off_def sz_def write4 Let_def)
  have lens: "len (fin u) = len u" "len (fin u') = len u'"
    using b u' ll by (simp_all add: fin_def len_write)
  have "agree (S \<union> {q..<q + length bs} - {base + k..<base + k + 4} - {base + k + 4..<base + k + 4 + 4}
      - {base + k + 8..<base + k + 8 + 4} - {q..<q + length bs}) (len u) (cell (fin u)) (cell (fin u'))"
    using u'(2-5) b ll unfolding agree_def fin_def by (simp add: cell_write len_write)
  then have "agree (S - {base + slot_off f..<base + slot_off f + slot_len f}) (len u) (cell (fin u)) (cell (fin u'))"
    by (rule agree_mono) (auto simp: FSlice)
  then show ?thesis using v v' lens u'(2-4) FSlice by auto
qed

lemma write_fields_agree:
  assumes "slots_ok lo hi fs" and "hi \<le> len w" and "len w' = len w"
    and "agree S (len w) (cell w) (cell w')" and "write_fields K 0 fs w = Some v"
  shows "\<exists>v'. write_fields K 0 fs w' = Some v' \<and> len v' = len v
    \<and> agree (S - slots fs) (len v) (cell v) (cell v')"
  using assms
proof (induction fs arbitrary: lo w w' S)
  case Nil
  then show ?case by simp
next
  case (Cons f fs)
  obtain w1 where w1: "write_field K 0 f w = Some w1" "write_fields K 0 fs w1 = Some v"
    using Cons.prems(5) by (auto split: option.splits)
  have ok: "slots_ok (slot_off f + slot_len f) hi fs" using Cons.prems(1) by simp
  have room: "0 + slot_off f + slot_len f \<le> len w" using slots_ok_le [OF ok] Cons.prems(2) by simp
  obtain w1' where w1': "write_field K 0 f w' = Some w1'" "len w1' = len w1" "len w1 = len w + tail_len f"
    "agree (S - {0 + slot_off f..<0 + slot_off f + slot_len f}) (len w1) (cell w1) (cell w1')"
    using write_field_agree [OF room Cons.prems(3,4) w1(1)] by blast
  have "hi \<le> len w1" using Cons.prems(2) w1'(3) by simp
  from Cons.IH [OF ok this w1'(2,4) w1(2)]
  show ?case using w1'(1) by (auto simp: Diff_Diff_Int Diff_eq Un_Diff Compl_Un Int_assoc)
qed

lemma write_table_agree:
  assumes ok: "slots_ok 4 used fs" and sz: "used \<le> sz" and l: "len w = 0" "len w' = 0"
    and cover: "S \<subseteq> {0..<4} \<union> slots fs" and a: "agree S sz (cell w) (cell w')"
    and w: "write_table K sz used fs 0 w = Some (off, v)"
  shows "\<exists>v'. write_table K sz used fs 0 w' = Some (off, v') \<and> kw_bytes K v' = kw_bytes K v"
proof -
  obtain u where u: "kw_alloc K w sz = Some (0, u)" "len u = sz" "cell u = cell w"
    using alloc [of w sz] l by auto
  obtain u' where u': "kw_alloc K w' sz = Some (0, u')" "len u' = sz" "cell u' = cell w'"
    using alloc [of w' sz] l by auto
  have used: "4 \<le> used" using ok by (rule slots_ok_le)
  define x where "x = kw_write4 K u 0 used"
  define x' where "x' = kw_write4 K u' 0 used"
  have lx: "len x = sz" "len x' = sz" using u u' used sz by (simp_all add: x_def x'_def write4 len_write)
  have ax: "agree (S - {0..<4}) sz (cell x) (cell x')"
    using write_agree [of 0 "le_enc 4 used" u u' S] u u' used sz a by (simp add: x_def x'_def write4)
  have v: "write_fields K 0 fs x = Some v" "off = 0"
    using w u by (auto simp: write_table_def table_alloc_def x_def split: option.splits)
  obtain v' where v': "write_fields K 0 fs x' = Some v'" "len v' = len v"
    "agree (S - {0..<4} - slots fs) (len v) (cell v) (cell v')"
    using write_fields_agree [OF ok _ _ _ v(1), of x' "S - {0..<4}"] lx ax sz by auto
  have "mem_list (cell v') (len v') = mem_list (cell v) (len v)"
    unfolding mem_list_def v'(2) using v'(3) cover by (auto simp: agree_def subset_iff)
  then show ?thesis using v' v(2) u' by (auto simp: write_table_def table_alloc_def x'_def bytes)
qed

lemma slots_of_body: "wf_body x \<Longrightarrow> {4..<249} \<subseteq> slots (TransactionBody_fields x)"
  by (auto simp: TransactionBody_fields_def wf_body_def)

lemma body_slots_ok: "wf_body x \<Longrightarrow> slots_ok 4 249 (TransactionBody_fields x)"
  by (simp add: TransactionBody_fields_def wf_body_def)

text \<open>Writing a body, and another one after a reset: as if the second writer were new.\<close>

lemma rewrite_body:
  assumes wf: "wf_body x" "wf_body y"
    and x: "TransactionBody_Write K x 0 (kw_new K c) = Some (o1, w)"
  shows "\<exists>o2 v. TransactionBody_Write K y 0 (kw_reset K w) = Some (o2, v)
    \<and> SerializeTransactionBody K y = Some (kw_bytes K v)"
proof -
  obtain v where v: "write_table K 256 249 (TransactionBody_fields y) 0 (kw_new K 1024) = Some (0, v)"
    using write_table_spec [OF slots_body [OF wf(2)], of 0 "kw_new K 1024" 249] by (auto simp: len_new)
  obtain u where u: "kw_alloc K (kw_new K c) 256 = Some (0, u)" "len u = 256" "cell u = (\<lambda>i. 0)"
    using alloc [of "kw_new K c" 256] by (auto simp: len_new cell_new)
  define u1 where "u1 = kw_write4 K u 0 249"
  have u1: "len u1 = 256" "\<And>i. 4 \<le> i \<Longrightarrow> cell u1 i = 0"
    using u by (simp_all add: u1_def write4 len_write frame_write)
  have "write_fields K 0 (TransactionBody_fields x) u1 = Some w"
    using x u by (auto simp: body_write write_table_def table_alloc_def u1_def split: option.splits)
  then have "\<forall>i<256. \<not> (4 \<le> i \<and> i < 249) \<longrightarrow> cell w i = cell u1 i"
    using write_fields_spec [OF body_slots_ok [OF wf(1)], of 0 u1] u1(1) by auto
  then have "agree {0..<249} 256 (cell (kw_new K 1024)) (cell (kw_reset K w))"
    using u1(2) by (auto simp: agree_def cell_new cell_reset)
  moreover have "{0..<249} \<subseteq> {0..<4} \<union> slots (TransactionBody_fields y)"
  proof
    fix i assume "i \<in> {0..<249::nat}"
    then have "i \<in> {0..<4} \<or> i \<in> {4..<249}" by auto
    then show "i \<in> {0..<4} \<union> slots (TransactionBody_fields y)"
      using slots_of_body [OF wf(2)] by blast
  qed
  ultimately obtain v' where "write_table K 256 249 (TransactionBody_fields y) 0 (kw_reset K w) = Some (0, v')"
    "kw_bytes K v' = kw_bytes K v"
    using write_table_agree [OF body_slots_ok [OF wf(2)] _ len_new len_reset _ _ v, of "{0..<249}" w]
    by auto
  then show ?thesis using v
    by (simp add: body_write SerializeTransactionBody_def encode_root_def)
qed

lemma body_roundtrip:
  assumes "wf_body x"
  shows "\<exists>w. TransactionBody_Write K x 0 (kw_new K 1024) = Some (0, w)
    \<and> length (kw_bytes K w) = 256 + body_tail x
    \<and> (256 + body_tail x < 2 ^ 32 \<longrightarrow>
        TransactionBody_Read K (kw_bytes K w) (new_viewer K (kw_bytes K w) 0) = x)"
proof -
  obtain bs where bs: "encode_root K (TransactionBody_Write K x 0) = Some bs"
    "length bs = 256 + body_tail x" "length bs < 2 ^ 32 \<longrightarrow> table_at bs 0 249 (TransactionBody_fields x)"
    using encode_table [OF slots_body [OF assms], of 249] unfolding body_write tails_body by auto
  obtain w where w: "TransactionBody_Write K x 0 (kw_new K 1024) = Some (0, w)"
    using write_table_spec [OF slots_body [OF assms], of 0 "kw_new K 1024" 249]
    by (auto simp: len_new body_write)
  then have "bs = kw_bytes K w" using bs(1) by (simp add: encode_root_def)
  then show ?thesis
    using w bs read_body [of bs 0 x] new_viewer_table [of bs 0 249] assms by auto
qed

text \<open>What verification checks, for every well-formed transaction that fits the format.\<close>

lemma verify_tx_spec:
  assumes wf: "wf_tx t" and fits: "256 + body_tail (tx_Body t) < 2 ^ 32"
  shows "Verify_tx K C sha ecv t =
     (let h = sha (written (SerializeTransactionBody K
                ((tx_Body t)\<lparr>tb_Hash := replicate 32 0, tb_Signature := []\<rparr>)))
      in if h = tb_Hash (tx_Body t)
         then ecv (ec_Unmarshal C (tb_Public (tx_Body t))) h (tb_Signature (tx_Body t))
         else Done False)"
proof -
  let ?x = "tx_Body t" and ?y = "(tx_Body t)\<lparr>tb_Hash := replicate 32 0, tb_Signature := []\<rparr>"
  have x: "wf_body ?x" and y: "wf_body ?y" using wf by (simp_all add: wf_tx_def wf_body_def)
  obtain w where w: "TransactionBody_Write K ?x 0 (kw_new K 1024) = Some (0, w)"
    "TransactionBody_Read K (kw_bytes K w) (new_viewer K (kw_bytes K w) 0) = ?x"
    using body_roundtrip [OF x] fits by auto
  obtain o2 v where v: "TransactionBody_Write K ?y 0 (kw_reset K w) = Some (o2, v)"
    "SerializeTransactionBody K ?y = Some (kw_bytes K v)"
    using rewrite_body [OF x y w(1)] by blast
  show ?thesis by (simp add: Verify_tx_def Let_def w v written_def)
qed

end

section \<open>What the handler builds\<close>

text \<open>The size of the data a request carries.\<close>

definition data_size :: "SendTransactionWithDataReq \<Rightarrow> nat" where
  "data_size req = (case (req_Key req, req_Value req) of
     (Some k, Some v) \<Rightarrow> 54 + length k + length v | _ \<Rightarrow> 0)"

lemma wf_unsigned_body:
  "length rcv = 20 \<Longrightarrow> length public = 33 \<Longrightarrow> length addr = 20 \<Longrightarrow> in_i64 now \<Longrightarrow> length hash = 32 \<Longrightarrow>
     length sig \<le> 73 \<Longrightarrow> wf_tx \<lparr>tx_Body =
       (unsigned_body now rcv public addr data)\<lparr>tb_Hash := hash, tb_Signature := sig\<rparr>\<rparr>"
  by (simp add: wf_tx_def wf_body_def unsigned_body_def) (simp add: in_i64_def)

lemma clear_unsigned_body:
  "(unsigned_body now rcv public addr data)\<lparr>tb_Hash := replicate 32 0, tb_Signature := []\<rparr>
     = unsigned_body now rcv public addr data"
  by (simp add: unsigned_body_def)

lemma body_tail_unsigned:
  "body_tail ((unsigned_body now rcv public addr data)\<lparr>tb_Hash := hash, tb_Signature := sig\<rparr>)
     = length data + length sig"
  by (simp add: body_tail_def unsigned_body_def)

text \<open>A body that was signed over its own digest gives a transaction that verifies.\<close>

lemma signed_verifies:
  assumes K: "karmem K len cell" and l: "length rcv = 20" "length pub = 33" "length addr = 20" "in_i64 now"
    and size: "length data < 2 ^ 31"
    and hash: "hash = sha (written (SerializeTransactionBody K (unsigned_body now rcv pub addr data)))" "length hash = 32"
    and sig: "length sig \<le> 73" "ecv (ec_Unmarshal C pub) hash sig = Done True"
  defines "t \<equiv> \<lparr>tx_Body = (unsigned_body now rcv pub addr data)\<lparr>tb_Hash := hash, tb_Signature := sig\<rparr>\<rparr>"
  shows "wf_tx t \<and> tx_size t < 2 ^ 32 \<and> Verify_tx K C sha ecv t = Done True"
proof -
  have wf: "wf_tx t" unfolding t_def by (rule wf_unsigned_body) (use l hash(2) sig(1) in auto)
  have size: "256 + body_tail (tx_Body t) < 2 ^ 31 + 1000" using sig(1) size by (simp add: t_def body_tail_unsigned)
  then have "256 + body_tail (tx_Body t) < 2 ^ 32" by simp
  from karmem.verify_tx_spec [OF K wf this, of C sha ecv]
  have "Verify_tx K C sha ecv t = Done True"
    using hash(1) sig(2) by (simp add: t_def clear_unsigned_body Let_def) (simp add: unsigned_body_def)
  moreover have "tx_size t < 2 ^ 32" using size by (simp add: tx_size_def)
  ultimately show ?thesis using wf by simp
qed

text \<open>The branches of the handler that end with a transaction.\<close>

lemma SendTransaction_cases:
  assumes "SendTransactionWithData K C sha sha1 SignASN1 prvHex now req = Done (Inr t)"
  obtains ty prv rcv pub addr hash sig where
    "req_Type req = Some ty" "ty = ''set'' \<or> ty = ''append''"
    "DecodePrivateKeyFromHexString C prvHex = Some prv" "length rcv = 20"
    "\<not> ec_is_inf C (pk_Public prv)" "to_array 33 (ec_Marshal C (pk_Public prv)) = Done pub"
    "to_array 20 (sha1 pub) = Done addr"
    "SignASN1 prv (sha (written (SerializeTransactionBody K
        (unsigned_body now rcv pub addr (DataCommand_bytes K req ty))))) = Inr sig"
    "to_array 32 (sha (written (SerializeTransactionBody K
        (unsigned_body now rcv pub addr (DataCommand_bytes K req ty))))) = Done hash"
    "t = \<lparr>tx_Body = (unsigned_body now rcv pub addr (DataCommand_bytes K req ty))
        \<lparr>tb_Hash := hash, tb_Signature := sig\<rparr>\<rparr>"
proof -
  note d = assms [unfolded SendTransactionWithData_def PublicKey2Bytes_def MarshalCompressed_def
      PublicKeyBytes2Address_def Let_def]
  obtain r ty where r: "req_Receiver req = Some r" "req_Type req = Some ty"
    using d by (auto split: option.splits)
  have ty: "ty = ''set'' \<or> ty = ''append''"
    using d by (auto simp: r split: if_splits)
  then have ty': "(ty \<noteq> ''set'' \<and> ty \<noteq> ''append'') = False" by simp
  obtain prv adr where p: "DecodePrivateKeyFromHexString C prvHex = Some prv" "hex_decode r = Some adr"
    using d unfolding r option.case ty' if_False by (auto split: option.splits)
  note d2 = d [unfolded r option.case ty' if_False p]
  obtain rcv where rcv: "to_array 20 adr = Done rcv"
    using d2 by (auto simp: outcome_simps)
  then have len: "length rcv = 20" by (auto simp: to_array_def split: if_splits)
  note d3 = d2 [unfolded rcv bindO.simps]
  have inf: "\<not> ec_is_inf C (pk_Public prv)" using d3 by (auto split: if_splits)
  obtain pub where pub: "to_array 33 (ec_Marshal C (pk_Public prv)) = Done pub"
    using d3 inf by (auto simp: outcome_simps)
  obtain addr where addr: "to_array 20 (sha1 pub) = Done addr"
    using d3 inf by (auto simp: outcome_simps pub)
  define h where "h = sha (written (SerializeTransactionBody K
      (unsigned_body now rcv pub addr (DataCommand_bytes K req ty))))"
  have "(case SignASN1 prv h of Inl err \<Rightarrow> Done (Inl err)
      | Inr sig \<Rightarrow> bindO (to_array 32 h) (\<lambda>hash. Done (Inr \<lparr>tx_Body =
          (unsigned_body now rcv pub addr (DataCommand_bytes K req ty))
            \<lparr>tb_Hash := hash, tb_Signature := sig\<rparr>\<rparr>))) = Done (Inr t)"
    using d3 inf by (simp add: pub addr h_def [symmetric] cong: sum.case_cong)
  then obtain sig hash where "SignASN1 prv h = Inr sig" "to_array 32 h = Done hash"
    "t = \<lparr>tx_Body = (unsigned_body now rcv pub addr (DataCommand_bytes K req ty))
        \<lparr>tb_Hash := hash, tb_Signature := sig\<rparr>\<rparr>"
    by (cases "SignASN1 prv h") (auto simp: outcome_simps)
  then show ?thesis
    using that [OF r(2) ty p(1) len inf pub addr] unfolding h_def by blast
qed

context karmem
begin

lemma length_DataCommand_bytes:
  "ty = ''set'' \<or> ty = ''append'' \<Longrightarrow> length (DataCommand_bytes K req ty) \<le> data_size req"
proof -
  have "length (written (SerializeDataCommand K d)) = 48 + length (dc_Opt d) + length (dc_Key d) + length (dc_Value d)" for d
    using command_roundtrip [of d] by (auto simp: written_def)
  then show "ty = ''set'' \<or> ty = ''append'' \<Longrightarrow> length (DataCommand_bytes K req ty) \<le> data_size req"
    by (auto simp: DataCommand_bytes_def data_size_def split: option.split)
qed

end

section \<open>Properties\<close>

text \<open>A transaction whose verification succeeds carries, as its hash, the digest of its own body
  with hash and signature cleared, and a signature of that digest by its public key. The reused writer has no influence on the result.\<close>

theorem verified_transaction:
  assumes "karmem K len cell" and "wf_tx t" and "256 + body_tail (tx_Body t) < 2 ^ 32"
  shows "Verify_tx K C sha ecv t = Done True \<longleftrightarrow>
     tb_Hash (tx_Body t) = sha (written (SerializeTransactionBody K
        ((tx_Body t)\<lparr>tb_Hash := replicate 32 0, tb_Signature := []\<rparr>)))
     \<and> ecv (ec_Unmarshal C (tb_Public (tx_Body t))) (tb_Hash (tx_Body t)) (tb_Signature (tx_Body t))
        = Done True"
  unfolding karmem.verify_tx_spec [OF assms] Let_def by auto

lemma verified_transaction_witness:
  "Verify_tx std_karmem mod7_curve (\<lambda>m. []) (\<lambda>k h s. Done True) sample_tx \<noteq> Done True"
  using verified_transaction [OF std.karmem_axioms wf_sample_tx, of mod7_curve "\<lambda>m. []"]
  by (simp add: body_tail_def sample_tx_def)

text \<open>Whatever the handler builds passes verification, for both kinds of command, with and without data, and carries the
  digest of its unsigned body as its hash.\<close>

lemma built_transaction_verifies:
  assumes "karmem K len cell"
    and "SendTransactionWithData K C sha sha1 SignASN1 prvHex now req = Done (Inr t)"
    and "in_i64 now" and "data_size req < 2 ^ 31"
    and sign: "\<And>prv h sig. DecodePrivateKeyFromHexString C prvHex = Some prv \<Longrightarrow> SignASN1 prv h = Inr sig \<Longrightarrow>
      length sig \<le> 73 \<and> ecv (Some (pk_Public prv)) h sig = Done True"
    and marshal: "\<And>p. \<not> ec_is_inf C p \<Longrightarrow> length (ec_Marshal C p) = 33 \<and> ec_Unmarshal C (ec_Marshal C p) = Some p"
    and sha: "\<And>m. length (sha m) = 32" and sha1: "\<And>m. length (sha1 m) = 20"
  shows "wf_tx t \<and> Verify_tx K C sha ecv t = Done True
    \<and> tb_Hash (tx_Body t) = sha (written (SerializeTransactionBody K ((tx_Body t)\<lparr>tb_Hash := replicate 32 0, tb_Signature := []\<rparr>)))
    \<and> tb_Data (tx_Body t) = DataCommand_bytes K req (the (req_Type req))"
proof -
  obtain ty prv rcv pub addr hash sig where c:
    "req_Type req = Some ty" "ty = ''set'' \<or> ty = ''append''"
    "DecodePrivateKeyFromHexString C prvHex = Some prv" "length rcv = 20"
    "\<not> ec_is_inf C (pk_Public prv)" "to_array 33 (ec_Marshal C (pk_Public prv)) = Done pub"
    "to_array 20 (sha1 pub) = Done addr"
    "SignASN1 prv (sha (written (SerializeTransactionBody K
        (unsigned_body now rcv pub addr (DataCommand_bytes K req ty))))) = Inr sig"
    "to_array 32 (sha (written (SerializeTransactionBody K
        (unsigned_body now rcv pub addr (DataCommand_bytes K req ty))))) = Done hash"
    "t = \<lparr>tx_Body = (unsigned_body now rcv pub addr (DataCommand_bytes K req ty))
        \<lparr>tb_Hash := hash, tb_Signature := sig\<rparr>\<rparr>"
    by (rule SendTransaction_cases [OF assms(2)])
  have pub: "pub = ec_Marshal C (pk_Public prv)" "length pub = 33"
    "ec_Unmarshal C pub = Some (pk_Public prv)"
    using c(6) marshal [OF c(5)] by simp_all
  have hash: "hash = sha (written (SerializeTransactionBody K
        (unsigned_body now rcv pub addr (DataCommand_bytes K req ty))))" "length hash = 32"
    using c(9) by (auto simp: sha to_array_def)
  have addr: "length addr = 20" using c(7) by (auto simp: sha1 to_array_def)
  have sig: "length sig \<le> 73" "ecv (Some (pk_Public prv)) hash sig = Done True"
    using sign [OF c(3) c(8)] hash(1) by simp_all
  have "length (DataCommand_bytes K req ty) < 2 ^ 31"
    using karmem.length_DataCommand_bytes [OF assms(1) c(2), of req] assms(4) by simp
  then show ?thesis
    using signed_verifies [where sha = sha and C = C and ecv = ecv, OF assms(1) c(4) pub(2) addr assms(3) _ hash(1,2) sig(1)] sig(2) pub(3)
      hash(1) c(1) unfolding c(10) by (simp add: clear_unsigned_body) (simp add: unsigned_body_def)
qed

definition sample_req :: SendTransactionWithDataReq where
  "sample_req = \<lparr>req_Type = Some ''set'',
     req_Receiver = Some ''0102030405060708090a0b0c0d0e0f1011121314'',
     req_Key = Some ''k'', req_Value = Some ''v''\<rparr>"

text \<open>A curve with one finite point, whose encoding has the 33 bytes of a compressed point.\<close>

definition one_point_curve :: "unit curve_ops" where
  "one_point_curve = \<lparr>ec_N = 1, ec_is_inf = (\<lambda>_. False), ec_ScalarBaseMult = (\<lambda>_. ()),
     ec_ScalarMult = (\<lambda>_ _. ()), ec_Add = (\<lambda>_ _. ()), ec_Marshal = (\<lambda>_. replicate 33 2),
     ec_Unmarshal = (\<lambda>_. Some ())\<rparr>"

end
