(* ===== verification/Node.thy ===== *)
theory Node
  imports BlockSync TimeSync TxVerify
begin

text \<open>
  node/manager.go and node/handler_funcs.go: the manager that ties chain, pool, syncers and peers
  together, the handlers of the peers' messages, gossip, and block production. Peers live in a
  store shared with the block syncer. Goroutines that were started and did not run yet (inserting a
  block, handling a message, requesting a block) are kept in lists of the state. Clocks, random
  numbers and the network's answers are arguments.
\<close>

section \<open>State\<close>

definition streamLimit :: nat where "streamLimit = 20"
definition retryInterval :: int where "retryInterval = 600000000000"
definition maxKnownBlock_p2p :: nat where "maxKnownBlock_p2p = 1024"
definition maxKnownTransaction :: nat where "maxKnownTransaction = 32768"
definition packageBlockInterval :: int where "packageBlockInterval = 2"
definition udpBufferSize :: nat where "udpBufferSize = 1024"
definition blockBroadcastSize :: nat where "blockBroadcastSize = 512"
definition txBroadcastSize :: nat where "txBroadcastSize = 10240"

record ('d, 'h, 'b, 't, 's, 'w, 'k, 'p) node_env =
  ne_chain :: "('d, 'h, 'b, 't, 's, 'w) chain_env"
  ne_known :: "'k known_set"
  ne_curve :: "'p curve_ops"
  ne_pub :: string
  ne_prv :: string

record ('d, 'h, 'b, 't, 's, 'k) P2PManager =
  nm_id :: string
  nm_triedPeers :: "string \<Rightarrow> int option"
  nm_peerSet :: "nat list"
  nm_peersById :: "string \<Rightarrow> nat option"
  nm_blockBroadcastQueue :: "Block list"
  nm_txBroadcastQueue :: "Transaction list"
  nm_knownBlock :: 'k
  nm_knownTransaction :: 'k
  nm_chain :: "('d, 'h, 'b, 't, 's) chain_state"
  nm_blockSyncer :: BlockSyncer
  nm_timeSyncer :: TimeSyncer
  nm_broadcasting :: bool
  nm_store :: "nat \<Rightarrow> 'k Peer"
  nm_next :: nat
  nm_inserting :: "Block list"
  nm_handling :: "(nat \<times> Message) list"
  nm_requesting :: "(int \<times> nat) list"

abbreviation node_karmem :: "('d, 'h, 'b, 't, 's, 'w, 'k, 'p) node_env \<Rightarrow> 'w karmem_ops" where
  "node_karmem N \<equiv> ce_karmem (ne_chain N)"

definition NewP2PManager ::
    "('d, 'h, 'b, 't, 's, 'w, 'k, 'p) node_env \<Rightarrow> ('d, 'h, 'b, 't, 's) chain_state \<Rightarrow> bool \<Rightarrow> int
       \<Rightarrow> ('d, 'h, 'b, 't, 's, 'k) P2PManager" where
  "NewP2PManager N chain genesis initialDelta =
     \<lparr>nm_id = [], nm_triedPeers = (\<lambda>_. None), nm_peerSet = [], nm_peersById = (\<lambda>_. None),
      nm_blockBroadcastQueue = [], nm_txBroadcastQueue = [],
      nm_knownBlock = lru_new (ne_known N) maxKnownBlock_p2p,
      nm_knownTransaction = lru_new (ne_known N) maxKnownTransaction, nm_chain = chain,
      nm_blockSyncer = BlockSyncer_Start NewBlockSyncer,
      nm_timeSyncer = TimeSyncer_Start (NewTimeSyncer genesis initialDelta),
      nm_broadcasting = False, nm_store = (\<lambda>_. NewPeer (ne_known N) [] []), nm_next = 0, nm_inserting = [],
      nm_handling = [], nm_requesting = []\<rparr>"

section \<open>Parts of the manager\<close>

definition markBlock ::
    "('d, 'h, 'b, 't, 's, 'w, 'k, 'p) node_env \<Rightarrow> string \<Rightarrow> ('d, 'h, 'b, 't, 's, 'k) P2PManager
       \<Rightarrow> ('d, 'h, 'b, 't, 's, 'k) P2PManager" where
  "markBlock N hash pm = pm\<lparr>nm_knownBlock := lru_add (ne_known N) (nm_knownBlock pm) hash ()\<rparr>"

definition markTransaction ::
    "('d, 'h, 'b, 't, 's, 'w, 'k, 'p) node_env \<Rightarrow> string \<Rightarrow> ('d, 'h, 'b, 't, 's, 'k) P2PManager
       \<Rightarrow> ('d, 'h, 'b, 't, 's, 'k) P2PManager" where
  "markTransaction N hash pm = pm\<lparr>nm_knownTransaction := lru_add (ne_known N) (nm_knownTransaction pm) hash ()\<rparr>"

definition update_peer ::
    "nat \<Rightarrow> ('k Peer \<Rightarrow> 'k Peer) \<Rightarrow> ('d, 'h, 'b, 't, 's, 'k) P2PManager \<Rightarrow> ('d, 'h, 'b, 't, 's, 'k) P2PManager" where
  "update_peer p f pm = pm\<lparr>nm_store := (nm_store pm)(p := f (nm_store pm p))\<rparr>"

definition with_peer ::
    "nat \<Rightarrow> ('k Peer \<Rightarrow> 'k Peer outcome) \<Rightarrow> ('d, 'h, 'b, 't, 's, 'k) P2PManager
       \<Rightarrow> ('d, 'h, 'b, 't, 's, 'k) P2PManager outcome" where
  "with_peer p f pm = bindO (f (nm_store pm p)) (\<lambda>q. Done (pm\<lparr>nm_store := (nm_store pm)(p := q)\<rparr>))"

definition with_chain ::
    "(('d, 'h, 'b, 't, 's) chain_state \<Rightarrow> ('d, 'h, 'b, 't, 's) chain_state outcome)
       \<Rightarrow> ('d, 'h, 'b, 't, 's, 'k) P2PManager \<Rightarrow> ('d, 'h, 'b, 't, 's, 'k) P2PManager outcome" where
  "with_chain f pm = bindO (f (nm_chain pm)) (\<lambda>c. Done (pm\<lparr>nm_chain := c\<rparr>))"

text \<open>The first time both syncers are done, the broadcast goroutines are started.\<close>

definition Synced :: "('d, 'h, 'b, 't, 's, 'k) P2PManager \<Rightarrow> bool \<times> ('d, 'h, 'b, 't, 's, 'k) P2PManager" where
  "Synced pm =
     (if getStatus (nm_blockSyncer pm) = synced \<and> time_synced (nm_timeSyncer pm)
      then (True, pm\<lparr>nm_broadcasting := True\<rparr>) else (False, pm))"

definition SetSynced :: "('d, 'h, 'b, 't, 's, 'k) P2PManager \<Rightarrow> ('d, 'h, 'b, 't, 's, 'k) P2PManager" where
  "SetSynced pm = pm\<lparr>nm_blockSyncer := setSynced (nm_blockSyncer pm)\<rparr>"

definition unsynced_status :: SyncStatusMsg where
  "unsynced_status = \<lparr>ss_LatestHeight = -1, ss_LatestHash = replicate 32 0, ss_BufferedStartHeight = 0,
     ss_BufferedEndHeight = -1\<rparr>"

definition StatusMessage ::
    "('d, 'h, 'b, 't, 's, 'w, 'k, 'p) node_env \<Rightarrow> ('d, 'h, 'b, 't, 's, 'k) P2PManager
       \<Rightarrow> (SyncStatusMsg \<times> ('d, 'h, 'b, 't, 's, 'k) P2PManager) outcome" where
  "StatusMessage N pm =
     (case nm_chain pm of (ch, pool, calc) \<Rightarrow>
       bindO (GetLatestBlock (ne_chain N) ch) (\<lambda>(latest, ch1).
         let pm1 = pm\<lparr>nm_chain := (ch1, pool, calc)\<rparr> in
         case latest of
           Inl _ \<Rightarrow> Done (unsynced_status, pm1)
         | Inr block \<Rightarrow>
             (case Synced pm1 of
                (False, pm2) \<Rightarrow> Done (unsynced_status, pm2)
              | (True, pm2) \<Rightarrow>
                  Done (\<lparr>ss_LatestHeight = blk_Height block, ss_LatestHash = bh_BlockHash (blk_Header block),
                         ss_BufferedStartHeight = 0, ss_BufferedEndHeight = BufferedHeight ch1\<rparr>, pm2))))"

definition AddTransaction ::
    "('d, 'h, 'b, 't, 's, 'w, 'k, 'p) node_env \<Rightarrow> Transaction \<Rightarrow> ('d, 'h, 'b, 't, 's, 'k) P2PManager
       \<Rightarrow> ('d, 'h, 'b, 't, 's, 'k) P2PManager outcome" where
  "AddTransaction N t pm =
     (let pm1 = markTransaction N (tx_hash_hex t) pm in
      bindO (chan_send txBroadcastSize (nm_txBroadcastQueue pm1) t) (\<lambda>q.
        case nm_chain pm1 of
          (ch, None, calc) \<Rightarrow> Panics
        | (ch, Some pool, calc) \<Rightarrow>
            Done (pm1\<lparr>nm_txBroadcastQueue := q, nm_chain := (ch, Some (Add t pool), calc)\<rparr>)))"

definition isKnownTransaction ::
    "('d, 'h, 'b, 't, 's, 'w, 'k, 'p) node_env \<Rightarrow> bytes \<Rightarrow> ('d, 'h, 'b, 't, 's, 'k) P2PManager
       \<Rightarrow> (bool \<times> ('d, 'h, 'b, 't, 's, 'k) P2PManager) outcome" where
  "isKnownTransaction N hash pm =
     (case nm_chain pm of
        (ch, None, calc) \<Rightarrow> Panics
      | (ch, Some pool, calc) \<Rightarrow>
          if Contain (hex_encode hash) pool then Done (True, pm)
          else (case GetTransactionByHash (ne_chain N) hash ch of
                  (Inl _, ch1) \<Rightarrow> Done (False, pm\<lparr>nm_chain := (ch1, Some pool, calc)\<rparr>)
                | (Inr _, ch1) \<Rightarrow> Done (True, pm\<lparr>nm_chain := (ch1, Some pool, calc)\<rparr>)))"

definition verifyBlockVRF ::
    "('d, 'h, 'b, 't, 's, 'w, 'k, 'p) node_env \<Rightarrow> Block \<Rightarrow> bool outcome" where
  "verifyBlockVRF N block =
     (let params = DeserializeGeneralParams (node_karmem N) (bh_Params (blk_Header block));
          publicKey = Bytes2PublicKey (ne_curve N) (bh_PublicKey (blk_Header block))
      in VRFCheckRemoteConsensus (ne_curve N) (ce_sha (ne_chain N)) publicKey (gn_Result params)
           (be_dec (gn_S params)) (be_dec (gn_T params)) (gn_RandomNumber params))"

section \<open>Handlers\<close>

type_synonym ('d, 'h, 'b, 't, 's, 'w, 'k, 'p) node_op =
  "('d, 'h, 'b, 't, 's, 'w, 'k, 'p) node_env \<Rightarrow> ('d, 'h, 'b, 't, 's, 'k) P2PManager
     \<Rightarrow> ('d, 'h, 'b, 't, 's, 'k) P2PManager outcome"

definition handleStatusMsg :: "bytes \<Rightarrow> nat \<Rightarrow> ('d, 'h, 'b, 't, 's, 'w, 'k, 'p) node_op" where
  "handleStatusMsg payload p N pm = bindO (payload_height payload) (\<lambda>height. Done pm)"

text \<open>This handler is not in the dispatch table.\<close>

definition handleNewBlockMsg :: "bytes \<Rightarrow> nat \<Rightarrow> ('d, 'h, 'b, 't, 's, 'w, 'k, 'p) node_op" where
  "handleNewBlockMsg payload p N pm =
     (let status = getStatus (nm_blockSyncer pm) in
      if status = blockSyncing \<or> status = syncPaused then Done pm
      else let block = DeserializeBlock (node_karmem N) payload;
               strHash = hex_encode (bh_BlockHash (blk_Header block))
        in if lru_contains (ne_known N) (nm_knownBlock pm) strHash then Done pm
        else let pm1 = update_peer p (MarkBlock (ne_known N) strHash) (markBlock N strHash pm) in
          if blk_Height block = 0 then Done (pm1\<lparr>nm_inserting := nm_inserting pm1 @ [block]\<rparr>)
          else bindO (verifyBlockVRF N block) (\<lambda>verified.
            if verified
            then bindO (with_chain (AppendBlockTask (ne_chain N) block) pm1) (\<lambda>pm2.
              bindO (chan_send blockBroadcastSize (nm_blockBroadcastQueue pm2) block)
                (\<lambda>q. Done (pm2\<lparr>nm_blockBroadcastQueue := q\<rparr>)))
            else Done pm1))"

definition handleBlockMsg :: "bytes \<Rightarrow> nat \<Rightarrow> ('d, 'h, 'b, 't, 's, 'w, 'k, 'p) node_op" where
  "handleBlockMsg payload p N pm =
     (if getStatus (nm_blockSyncer pm) \<noteq> synced then Done pm
      else let block = DeserializeBlock (node_karmem N) payload;
               strHash = hex_encode (bh_BlockHash (blk_Header block));
               pm1 = update_peer p (MarkBlock (ne_known N) strHash) (markBlock N strHash pm)
        in if blk_Height block = 0 then Done (pm1\<lparr>nm_inserting := nm_inserting pm1 @ [block]\<rparr>)
        else bindO (verifyBlockVRF N block) (\<lambda>verified.
          if verified then with_chain (AppendBlockTask (ne_chain N) block) pm1 else Done pm1))"

definition handleSyncStatusReq :: "bytes \<Rightarrow> nat \<Rightarrow> ('d, 'h, 'b, 't, 's, 'w, 'k, 'p) node_op" where
  "handleSyncStatusReq payload p N pm =
     bindO (StatusMessage N pm) (\<lambda>(message, pm1). with_peer p (respondGetSyncStatus (node_karmem N) message) pm1)"

definition handleSyncStatusMsg :: "bytes \<Rightarrow> nat \<Rightarrow> ('d, 'h, 'b, 't, 's, 'w, 'k, 'p) node_op" where
  "handleSyncStatusMsg payload p N pm =
     bindO (appendStatusMsg (DeserializeStatusMsg (node_karmem N) payload) (nm_blockSyncer pm))
       (\<lambda>bs. Done (pm\<lparr>nm_blockSyncer := bs\<rparr>))"

definition handleSyncGetBlocksMsg :: "bytes \<Rightarrow> nat \<Rightarrow> ('d, 'h, 'b, 't, 's, 'w, 'k, 'p) node_op" where
  "handleSyncGetBlocksMsg payload p N pm =
     (if getStatus (nm_blockSyncer pm) \<noteq> synced then Done pm
      else bindO (payload_height payload) (\<lambda>height.
        case nm_chain pm of (ch, pool, calc) \<Rightarrow>
          bindO (GetBlockByHeight (ne_chain N) height ch) (\<lambda>(found, ch1).
            let pm1 = pm\<lparr>nm_chain := (ch1, pool, calc)\<rparr> in
            case found of
              Inl err \<Rightarrow> Done pm1
            | Inr block \<Rightarrow> with_peer p (respondSyncGetBlock (node_karmem N) block) pm1)))"

definition appendBlockToSyncer ::
    "Block \<Rightarrow> ('d, 'h, 'b, 't, 's, 'k) P2PManager \<Rightarrow> ('d, 'h, 'b, 't, 's, 'k) P2PManager" where
  "appendBlockToSyncer block pm = pm\<lparr>nm_blockSyncer := syncer_appendBlock block (nm_blockSyncer pm)\<rparr>"

definition handleSyncBlockMsg :: "bytes \<Rightarrow> nat \<Rightarrow> ('d, 'h, 'b, 't, 's, 'w, 'k, 'p) node_op" where
  "handleSyncBlockMsg payload p N pm =
     Done (update_peer p (SetMarkSynced False)
       (appendBlockToSyncer (DeserializeBlock (node_karmem N) payload) pm))"

text \<open>The time handlers of TimeSync say what to send; the peer sends it.\<close>

fun send_all :: "(nat \<times> bytes) list \<Rightarrow> 'k Peer \<Rightarrow> 'k Peer outcome" where
  "send_all [] p = Done p"
| "send_all ((code, payload) # ms) p = bindO (peer_Send code payload p) (send_all ms)"

definition answer_time_request ::
    "int \<Rightarrow> int \<Rightarrow> bytes \<Rightarrow> nat \<Rightarrow> ('d, 'h, 'b, 't, 's, 'w, 'k, 'p) node_op" where
  "answer_time_request received answered payload p N pm =
     with_peer p (send_all (handleTimeSyncReq (node_karmem N) received answered payload (nm_timeSyncer pm))) pm"

definition take_time_response :: "int \<Rightarrow> bytes \<Rightarrow> nat \<Rightarrow> ('d, 'h, 'b, 't, 's, 'w, 'k, 'p) node_op" where
  "take_time_response received payload p N pm =
     Done (pm\<lparr>nm_timeSyncer := handleTimeSyncRsp (node_karmem N) received payload (nm_timeSyncer pm)\<rparr>)"

text \<open>The dispatch table; the two clock readings are used by the time handlers only.\<close>

definition handlerMap ::
    "int \<Rightarrow> int \<Rightarrow> nat \<Rightarrow> (bytes \<Rightarrow> nat \<Rightarrow> ('d, 'h, 'b, 't, 's, 'w, 'k, 'p) node_op) option" where
  "handlerMap received answered code =
     (if code = StatusCodeStatusMsg then Some handleStatusMsg
      else if code = StatusCodeBlockBodiesMsg then Some handleBlockMsg
      else if code = StatusCodeSyncStatusReq then Some handleSyncStatusReq
      else if code = StatusCodeSyncStatusMsg then Some handleSyncStatusMsg
      else if code = StatusCodeSyncGetBlocksMsg then Some handleSyncGetBlocksMsg
      else if code = StatusCodeSyncBlocksMsg then Some handleSyncBlockMsg
      else if code = StatusCodeTimeSyncReq then Some (answer_time_request received answered)
      else if code = StatusCodeTimeSyncRsp then Some (take_time_response received)
      else None)"

text \<open>
  One iteration of a peer's loop takes a message and starts its handler; the handler runs later, and
  the handlers of several messages run in any order.
\<close>

definition Handle :: "nat \<Rightarrow> ('d, 'h, 'b, 't, 's, 'k) P2PManager \<Rightarrow> ('d, 'h, 'b, 't, 's, 'k) P2PManager outcome" where
  "Handle p pm =
     (let peer = nm_store pm p in
      if Stopped peer then Done pm
      else case pp_msgQueue (pe_peer peer) of
        [] \<Rightarrow> Blocks
      | msg # rest \<Rightarrow>
         (let pm1 = update_peer p (\<lambda>q. q\<lparr>pe_peer := (pe_peer q)\<lparr>pp_msgQueue := rest\<rparr>\<rparr>) pm in
          if msg_Code msg \<in> {StatusCodeStatusMsg, StatusCodeBlockBodiesMsg, StatusCodeSyncStatusReq,
              StatusCodeSyncStatusMsg, StatusCodeSyncGetBlocksMsg, StatusCodeSyncBlocksMsg,
              StatusCodeTimeSyncReq, StatusCodeTimeSyncRsp}
          then Done (pm1\<lparr>nm_handling := nm_handling pm1 @ [(p, msg)]\<rparr>) else Done pm1))"

definition remove_nth :: "nat \<Rightarrow> 'a list \<Rightarrow> 'a list" where
  "remove_nth i xs = take i xs @ drop (Suc i) xs"

definition run_handler :: "int \<Rightarrow> int \<Rightarrow> nat \<Rightarrow> ('d, 'h, 'b, 't, 's, 'w, 'k, 'p) node_op" where
  "run_handler received answered i N pm =
     (if i < length (nm_handling pm)
      then case nm_handling pm ! i of (p, msg) \<Rightarrow>
        (let pm1 = pm\<lparr>nm_handling := remove_nth i (nm_handling pm)\<rparr> in
         case handlerMap received answered (msg_Code msg) of
           None \<Rightarrow> Done pm1
         | Some handle \<Rightarrow> handle (msg_Payload msg) p N pm1)
      else Blocks)"

text \<open>One iteration of \<open>sendStatus\<close>: whether the routine goes on.\<close>

definition sendStatus ::
    "nat \<Rightarrow> ('d, 'h, 'b, 't, 's, 'k) P2PManager \<Rightarrow> (bool \<times> ('d, 'h, 'b, 't, 's, 'k) P2PManager) outcome" where
  "sendStatus p pm =
     (if Stopped (nm_store pm p) then Done (False, pm)
      else bindO (with_peer p (requestSyncStatusMsg (Height (fst (nm_chain pm)))) pm) (\<lambda>pm1.
        Done (getStatus (nm_blockSyncer pm1) \<noteq> synced, pm1)))"

section \<open>Producing blocks\<close>

text \<open>
  A tick of the packaging routine, in two parts: making a block, if it is time, the node is synced and
  the draw makes it a consensus node; and appending and announcing it. The two random numbers are those
  of the consensus check and of the block's proof; \<open>order\<close> is the order in which the pool is ranged over.
\<close>

definition draw_params ::
    "('d, 'h, 'b, 't, 's, 'w, 'k, 'p) node_env \<Rightarrow> string + nat \<Rightarrow> nat \<times> nat \<Rightarrow> GeneralParams outcome" where
  "draw_params N rnd seed_proof =
     (case seed_proof of (seed, pi) \<Rightarrow>
       bindO (VRFCalculate (ne_curve N) (ce_sha (ne_chain N)) (ne_prv N) rnd (big_Bytes seed)) (\<lambda>drawn.
         case drawn of
           Inl err \<Rightarrow> Panics
         | Inr (randNumber, s, t) \<Rightarrow>
             bindO (to_array 33 randNumber) (\<lambda>number.
               Done \<lparr>gn_Result = big_Bytes seed, gn_Proof = big_Bytes pi, gn_RandomNumber = number,
                     gn_S = big_Bytes s, gn_T = big_Bytes t\<rparr>)))"

definition package_txs ::
    "('d, 'h, 'b, 't, 's, 'w, 'k, 'p) node_env \<Rightarrow> string list \<Rightarrow> int \<Rightarrow> GeneralParams
       \<Rightarrow> ('d, 'h, 'b, 't, 's, 'k) P2PManager \<Rightarrow> (Block option \<times> ('d, 'h, 'b, 't, 's, 'k) P2PManager) outcome" where
  "package_txs N order timestamp params pm =
     (case nm_chain pm of
        (ch, None, calc) \<Rightarrow> Panics
      | (ch, Some pool, calc) \<Rightarrow>
          bindO (Package (chain_lookup (ne_chain N)) order pool ch) (\<lambda>(txs, pool1, ch1).
            let pm1 = pm\<lparr>nm_chain := (ch1, Some pool1, calc)\<rparr> in
            bindO (PackageNewBlock (ne_chain N) (ne_pub N) txs timestamp params packageBlockInterval ch1) (\<lambda>new.
              case new of Inl err \<Rightarrow> Done (None, pm1) | Inr newBlock \<Rightarrow> Done (Some newBlock, pm1))))"

definition new_block ::
    "int \<Rightarrow> string list \<Rightarrow> string + nat \<Rightarrow> string + nat \<Rightarrow> ('d, 'h, 'b, 't, 's, 'w, 'k, 'p) node_env
       \<Rightarrow> ('d, 'h, 'b, 't, 's, 'k) P2PManager \<Rightarrow> (Block option \<times> ('d, 'h, 'b, 't, 's, 'k) P2PManager) outcome" where
  "new_block now order rnd1 rnd2 N pm =
     (let timestamp = GetLogicClock now (nm_timeSyncer pm) in
      if go_mod (go_div timestamp 1000) packageBlockInterval \<noteq> 0 then Done (None, pm)
      else case Synced pm of
        (False, pm1) \<Rightarrow> Done (None, pm1)
      | (True, pm1) \<Rightarrow>
          (case nm_chain pm1 of (ch, pool, calc) \<Rightarrow>
            bindO (GetLatestBlock (ne_chain N) ch) (\<lambda>(latest, ch1).
              case latest of
                Inl err \<Rightarrow> Done (None, pm1\<lparr>nm_chain := (ch1, pool, calc)\<rparr>)
              | Inr block \<Rightarrow>
                  (case calc of
                     None \<Rightarrow> Panics
                   | Some c \<Rightarrow>
                       bindO (GetSeedParams c) (\<lambda>(seed_proof, c1).
                         let pm2 = pm1\<lparr>nm_chain := (ch1, pool, Some c1)\<rparr> in
                         bindO (VRFCheckLocalConsensus (ne_curve N) (ce_sha (ne_chain N)) (ne_prv N) rnd1
                             (big_Bytes (fst seed_proof))) (\<lambda>consensus.
                           if \<not> consensus then Done (None, pm2)
                           else bindO (draw_params N rnd2 seed_proof) (\<lambda>params.
                             package_txs N order timestamp params pm2)))))))"

definition publish_block :: "Block \<Rightarrow> ('d, 'h, 'b, 't, 's, 'w, 'k, 'p) node_op" where
  "publish_block newBlock N pm =
     bindO (with_chain (AppendBlockTask (ne_chain N) newBlock) pm) (\<lambda>pm1.
       bindO (chan_send blockBroadcastSize (nm_blockBroadcastQueue pm1) newBlock)
         (\<lambda>q. Done (pm1\<lparr>nm_blockBroadcastQueue := q\<rparr>)))"

definition packageBlockRoutine ::
    "int \<Rightarrow> string list \<Rightarrow> string + nat \<Rightarrow> string + nat \<Rightarrow> ('d, 'h, 'b, 't, 's, 'w, 'k, 'p) node_op" where
  "packageBlockRoutine now order rnd1 rnd2 N pm =
     bindO (new_block now order rnd1 rnd2 N pm) (\<lambda>(b, pm1).
       case b of None \<Rightarrow> Done pm1 | Some newBlock \<Rightarrow> publish_block newBlock N pm1)"

section \<open>Gossip\<close>

text \<open>What an iteration of the block broadcast publishes, if the block can be encoded.\<close>

definition broadcastBlock ::
    "('d, 'h, 'b, 't, 's, 'w, 'k, 'p) node_env \<Rightarrow> ('d, 'h, 'b, 't, 's, 'k) P2PManager
       \<Rightarrow> (bytes option \<times> ('d, 'h, 'b, 't, 's, 'k) P2PManager) outcome" where
  "broadcastBlock N pm =
     (case nm_blockBroadcastQueue pm of
        [] \<Rightarrow> Blocks
      | block # rest \<Rightarrow> Done (SerializeBlock (node_karmem N) block, pm\<lparr>nm_blockBroadcastQueue := rest\<rparr>))"

text \<open>
  One message of the subscription; the result says whether the routine goes on. \<open>from_self\<close> is
  whether the message came from this node.
\<close>

definition gossipBlockSubscribe ::
    "bool \<Rightarrow> bytes \<Rightarrow> ('d, 'h, 'b, 't, 's, 'w, 'k, 'p) node_env \<Rightarrow> ('d, 'h, 'b, 't, 's, 'k) P2PManager
       \<Rightarrow> (bool \<times> ('d, 'h, 'b, 't, 's, 'k) P2PManager) outcome" where
  "gossipBlockSubscribe from_self data N pm =
     (if from_self then Done (True, pm)
      else let status = getStatus (nm_blockSyncer pm) in
        if status = blockSyncing \<or> status = syncPaused then Done (True, pm)
        else let block = DeserializeBlock (node_karmem N) data;
                 strHash = hex_encode (bh_BlockHash (blk_Header block))
          in if lru_contains (ne_known N) (nm_knownBlock pm) strHash then Done (False, pm)
          else let pm1 = markBlock N strHash pm in
            if blk_Height block = 0 then Done (False, pm1\<lparr>nm_inserting := nm_inserting pm1 @ [block]\<rparr>)
            else bindO (verifyBlockVRF N block) (\<lambda>verified.
              if verified
              then bindO (with_chain (AppendBlockTask (ne_chain N) block) pm1) (\<lambda>pm2. Done (True, pm2))
              else Done (True, pm1)))"

text \<open>
  The loop around it: the messages of the subscription in their order, each with what the rest of the node does before it is
  received. Once the routine has returned, messages stay where they are and only the rest goes on.
\<close>

fun gossip_routine ::
    "('d, 'h, 'b, 't, 's, 'w, 'k, 'p) node_env
       \<Rightarrow> (bool \<times> bytes \<times> (('d, 'h, 'b, 't, 's, 'k) P2PManager \<Rightarrow> ('d, 'h, 'b, 't, 's, 'k) P2PManager)) list
       \<Rightarrow> ('d, 'h, 'b, 't, 's, 'k) P2PManager \<Rightarrow> (bool \<times> ('d, 'h, 'b, 't, 's, 'k) P2PManager) outcome" where
  "gossip_routine N [] pm = Done (True, pm)"
| "gossip_routine N ((from_self, data, others) # ms) pm =
     bindO (gossipBlockSubscribe from_self data N (others pm)) (\<lambda>(on, pm1).
       if on then gossip_routine N ms pm1 else Done (False, foldl (\<lambda>m (_, _, rest). rest m) pm1 ms))"

text \<open>
  A transaction goes to eight peers drawn at random. \<open>dial\<close> is the network: the address a datagram
  reached, \<open>None\<close> when the peer's address cannot be parsed or the write fails.
\<close>

definition gossipNodes :: nat where "gossipNodes = 8"

definition UDPGossipBroadcast ::
    "(string \<Rightarrow> bytes \<Rightarrow> string option) \<Rightarrow> nat list \<Rightarrow> ('d, 'h, 'b, 't, 's, 'w, 'k, 'p) node_env \<Rightarrow> Transaction
       \<Rightarrow> ('d, 'h, 'b, 't, 's, 'k) P2PManager \<Rightarrow> (string \<times> bytes) list" where
  "UDPGossipBroadcast dial draws N t pm =
     (case SerializeTransaction (node_karmem N) t of
        None \<Rightarrow> []
      | Some txData \<Rightarrow>
          if length (nm_peerSet pm) \<le> 0 then []
          else List.map_filter (\<lambda>r. map_option (\<lambda>ip. (ip, txData))
                 (dial (pe_addr (nm_store pm (nm_peerSet pm ! (r mod length (nm_peerSet pm))))) txData))
               (take gossipNodes draws))"

definition broadcastTransaction ::
    "(string \<Rightarrow> bytes \<Rightarrow> string option) \<Rightarrow> nat list \<Rightarrow> ('d, 'h, 'b, 't, 's, 'w, 'k, 'p) node_env
       \<Rightarrow> ('d, 'h, 'b, 't, 's, 'k) P2PManager \<Rightarrow> ((string \<times> bytes) list \<times> ('d, 'h, 'b, 't, 's, 'k) P2PManager) outcome" where
  "broadcastTransaction dial draws N pm =
     (case nm_txBroadcastQueue pm of
        [] \<Rightarrow> Blocks
      | t # rest \<Rightarrow> Done (UDPGossipBroadcast dial draws N t pm, pm\<lparr>nm_txBroadcastQueue := rest\<rparr>))"

text \<open>Receiving one datagram, of which only what fits the buffer is read.\<close>

definition TransactionUDP :: "bytes \<Rightarrow> ('d, 'h, 'b, 't, 's, 'w, 'k, 'p) node_op" where
  "TransactionUDP datagram N pm =
     (let t = DeserializeTransaction (node_karmem N) (take udpBufferSize datagram) in
      if \<not> lru_contains (ne_known N) (nm_knownTransaction pm) (hex_encode (tb_Hash (tx_Body t)))
      then AddTransaction N t pm else Done pm)"

section \<open>Peers\<close>

definition manager_NewPeer ::
    "('d, 'h, 'b, 't, 's, 'w, 'k, 'p) node_env \<Rightarrow> string \<Rightarrow> string \<Rightarrow> ('d, 'h, 'b, 't, 's, 'k) P2PManager
       \<Rightarrow> ('d, 'h, 'b, 't, 's, 'k) P2PManager" where
  "manager_NewPeer N peerId remoteAddr pm =
     pm\<lparr>nm_store := (nm_store pm)(nm_next pm := NewPeer (ne_known N) peerId remoteAddr),
        nm_next := Suc (nm_next pm),
        nm_peerSet := nm_peerSet pm @ [nm_next pm],
        nm_peersById := (nm_peersById pm)(peerId \<mapsto> nm_next pm),
        nm_blockSyncer := AddPeer (nm_next pm) peerId (nm_blockSyncer pm)\<rparr>"

definition HandleStream ::
    "string \<Rightarrow> string \<Rightarrow> ('d, 'h, 'b, 't, 's, 'w, 'k, 'p) node_env \<Rightarrow> ('d, 'h, 'b, 't, 's, 'k) P2PManager
       \<Rightarrow> ('d, 'h, 'b, 't, 's, 'k) P2PManager" where
  "HandleStream remotePeer remoteAddr N pm =
     (if length (nm_peerSet pm) > streamLimit then pm else manager_NewPeer N remotePeer remoteAddr pm)"

text \<open>\<open>reachable\<close> is whether a connection exists or can be made, \<open>stream\<close> the address of the new stream.\<close>

definition CheckAndCreateStream ::
    "int \<Rightarrow> bool \<Rightarrow> string option \<Rightarrow> string \<Rightarrow> string \<Rightarrow> ('d, 'h, 'b, 't, 's, 'w, 'k, 'p) node_env
       \<Rightarrow> ('d, 'h, 'b, 't, 's, 'k) P2PManager \<Rightarrow> ('d, 'h, 'b, 't, 's, 'k) P2PManager" where
  "CheckAndCreateStream now reachable stream self pid N pm =
     (if card (dom (nm_peersById pm)) \<ge> streamLimit \<or> pid = self then pm
      else if (case nm_triedPeers pm pid of None \<Rightarrow> False | Some tried \<Rightarrow> now - tried < retryInterval) then pm
      else if (case nm_peersById pm pid of None \<Rightarrow> False | Some remote \<Rightarrow> \<not> Stopped (nm_store pm remote)) then pm
      else if \<not> reachable then pm
      else case stream of
        None \<Rightarrow> pm\<lparr>nm_triedPeers := (nm_triedPeers pm)(pid \<mapsto> now)\<rparr>
      | Some addr \<Rightarrow> manager_NewPeer N pid addr pm)"

definition removePeerIfStopped ::
    "nat \<Rightarrow> ('d, 'h, 'b, 't, 's, 'k) P2PManager \<Rightarrow> (bool \<times> ('d, 'h, 'b, 't, 's, 'k) P2PManager) outcome" where
  "removePeerIfStopped idx pm =
     (if idx < length (nm_peerSet pm)
      then let p = nm_store pm (nm_peerSet pm ! idx) in
        if Stopped p
        then Done (True, pm\<lparr>nm_peerSet := remove_nth idx (nm_peerSet pm),
               nm_peersById := (nm_peersById pm)(pe_peerID p := None)\<rparr>)
        else Done (False, pm)
      else Panics)"

definition GetConnectNodeInfo :: "('d, 'h, 'b, 't, 's, 'k) P2PManager \<Rightarrow> string \<times> string list" where
  "GetConnectNodeInfo pm = (nm_id pm, map (\<lambda>p. pe_peerID (nm_store pm p)) (nm_peerSet pm))"

section \<open>Background routines\<close>

text \<open>Ticks of the block syncer and the time syncer, and the goroutines they start.\<close>

definition request_tick :: "int \<Rightarrow> ('d, 'h, 'b, 't, 's, 'k) P2PManager \<Rightarrow> ('d, 'h, 'b, 't, 's, 'k) P2PManager outcome" where
  "request_tick now pm =
     bindO (syncer_run now (nm_blockSyncer pm) (nm_store pm)) (\<lambda>(bs, store, reqs).
       Done (pm\<lparr>nm_blockSyncer := bs, nm_store := store, nm_requesting := nm_requesting pm @ reqs\<rparr>))"

definition run_request :: "nat \<Rightarrow> ('d, 'h, 'b, 't, 's, 'k) P2PManager \<Rightarrow> ('d, 'h, 'b, 't, 's, 'k) P2PManager outcome" where
  "run_request i pm =
     (if i < length (nm_requesting pm)
      then case nm_requesting pm ! i of (height, p) \<Rightarrow>
        with_peer p (requestSyncGetBlock height) (pm\<lparr>nm_requesting := remove_nth i (nm_requesting pm)\<rparr>)
      else Blocks)"

definition run_insert :: "nat \<Rightarrow> ('d, 'h, 'b, 't, 's, 'k) P2PManager \<Rightarrow> ('d, 'h, 'b, 't, 's, 'k) P2PManager outcome" where
  "run_insert i pm =
     (if i < length (nm_inserting pm)
      then case nm_chain pm of (ch, pool, calc) \<Rightarrow>
        bindO (InsertBlock (nm_inserting pm ! i) ch) (\<lambda>ch1.
          Done (pm\<lparr>nm_chain := (ch1, pool, calc), nm_inserting := remove_nth i (nm_inserting pm)\<rparr>))
      else Blocks)"

definition status_tick :: "('d, 'h, 'b, 't, 's, 'k) P2PManager \<Rightarrow> ('d, 'h, 'b, 't, 's, 'k) P2PManager outcome" where
  "status_tick pm =
     bindO (statusMsgRoutine (Height (fst (nm_chain pm))) (nm_blockSyncer pm)) (\<lambda>bs. Done (pm\<lparr>nm_blockSyncer := bs\<rparr>))"

definition process_tick :: "('d, 'h, 'b, 't, 's, 'w, 'k, 'p) node_op" where
  "process_tick N pm =
     bindO (blockProcessRoutine (ne_chain N) (nm_blockSyncer pm, nm_chain pm)) (\<lambda>(bs, chain).
       Done (pm\<lparr>nm_blockSyncer := bs, nm_chain := chain\<rparr>))"

definition time_tick :: "int \<Rightarrow> nat \<Rightarrow> ('d, 'h, 'b, 't, 's, 'w, 'k, 'p) node_op" where
  "time_tick now draw N pm =
     (if length (nm_peerSet pm) \<le> 0 then Done pm
      else with_peer (nm_peerSet pm ! (draw mod length (nm_peerSet pm)))
        (send_all (requestTimeSync (node_karmem N) (sync_request now (nm_timeSyncer pm)))) pm)"

end
