(* ===== verification/NodeHistory.thy ===== *)
theory NodeHistory
  imports Node
begin

text \<open>
  A node over time: every routine of the node as a step of one relation, what a run keeps (one chain,
  the peer table), and what two nodes do together. The properties of the node follow.
\<close>

section \<open>Steps and runs\<close>

text \<open>
  What happens in a node, one routine or goroutine at a time: the rules name the guards under which a
  block reaches the chain, which must fit the encoding. A connection may change its queues at any time,
  and the chain's own goroutines run as in ChainHistory. Nothing else changes the manager.
\<close>

inductive node_step ::
    "('d, 'h, 'b, 't, 's, 'w, 'k, 'p) node_env \<Rightarrow> json_ops \<Rightarrow> ('d, 'h, 'b, 't, 's, 'k) P2PManager
       \<Rightarrow> ('d, 'h, 'b, 't, 's, 'k) P2PManager \<Rightarrow> bool" for N J where
  message: "Handle p pm = Done pm' \<Longrightarrow> node_step N J pm pm'"
| handler: "i < length (nm_handling pm) \<Longrightarrow> nm_handling pm ! i = (p, msg)
    \<Longrightarrow> msg_Code msg = StatusCodeBlockBodiesMsg \<longrightarrow> fits (DeserializeBlock (node_karmem N) (msg_Payload msg))
    \<Longrightarrow> run_handler received answered i N pm = Done pm' \<Longrightarrow> node_step N J pm pm'"
| gossip: "fits (DeserializeBlock (node_karmem N) data)
    \<Longrightarrow> gossipBlockSubscribe from_self data N pm = Done (on, pm') \<Longrightarrow> node_step N J pm pm'"
| package: "new_block now order rnd1 rnd2 N pm = Done (b, pm1) \<Longrightarrow> \<forall>blk. b = Some blk \<longrightarrow> fits blk
    \<Longrightarrow> packageBlockRoutine now order rnd1 rnd2 N pm = Done pm' \<Longrightarrow> node_step N J pm pm'"
| publish: "broadcastBlock N pm = Done (data, pm') \<Longrightarrow> node_step N J pm pm'"
| announce: "broadcastTransaction dial draws N pm = Done (datagrams, pm') \<Longrightarrow> node_step N J pm pm'"
| datagram: "TransactionUDP datagram N pm = Done pm' \<Longrightarrow> node_step N J pm pm'"
| submit: "AddTransaction N t pm = Done pm' \<Longrightarrow> node_step N J pm pm'"
| accept: "node_step N J pm (HandleStream remote addr N pm)"
| dial: "node_step N J pm (CheckAndCreateStream now reachable stream self pid N pm)"
| ask_status: "sendStatus p pm = Done (on, pm') \<Longrightarrow> node_step N J pm pm'"
| ask_blocks: "request_tick now pm = Done pm' \<Longrightarrow> node_step N J pm pm'"
| request: "run_request i pm = Done pm' \<Longrightarrow> node_step N J pm pm'"
| insert_block: "run_insert i pm = Done pm' \<Longrightarrow> node_step N J pm pm'"
| status: "status_tick pm = Done pm' \<Longrightarrow> node_step N J pm pm'"
| hand_over: "\<forall>h b. by_blockMap (nm_blockSyncer pm) h = Some b \<longrightarrow> fits b
    \<Longrightarrow> process_tick N pm = Done pm' \<Longrightarrow> node_step N J pm pm'"
| ask_time: "time_tick now draw N pm = Done pm' \<Longrightarrow> node_step N J pm pm'"
| first_node: "node_step N J pm (SetSynced pm)"
| connection: "node_step N J pm (update_peer p (\<lambda>q. q\<lparr>pe_peer := link\<rparr>) pm)"
| chain: "chain_step (ne_chain N) J (nm_chain pm) c \<Longrightarrow> node_step N J pm (pm\<lparr>nm_chain := c\<rparr>)"

inductive node_reach ::
    "('d, 'h, 'b, 't, 's, 'w, 'k, 'p) node_env \<Rightarrow> json_ops \<Rightarrow> ('d, 'h, 'b, 't, 's, 'k) P2PManager
       \<Rightarrow> ('d, 'h, 'b, 't, 's, 'k) P2PManager \<Rightarrow> bool" for N J pm0 where
  here: "node_reach N J pm0 pm0"
| more: "node_reach N J pm0 pm \<Longrightarrow> node_step N J pm pm' \<Longrightarrow> node_reach N J pm0 pm'"

section \<open>What operations change\<close>

lemma with_chain_Done:
  "with_chain f pm = Done pm' \<longleftrightarrow> (\<exists>c. f (nm_chain pm) = Done c \<and> pm' = pm\<lparr>nm_chain := c\<rparr>)"
  by (auto simp: with_chain_def outcome_simps)

lemma with_peer_Done:
  "with_peer p f pm = Done pm' \<Longrightarrow> \<exists>st. pm' = pm\<lparr>nm_store := st\<rparr>"
  by (auto simp: with_peer_def outcome_simps)

lemma Synced_Done: "Synced pm = (b, pm') \<Longrightarrow> \<exists>v. pm' = pm\<lparr>nm_broadcasting := v\<rparr>"
  by (auto simp: Synced_def split: if_splits intro: exI [of _ "nm_broadcasting pm"])

lemma AddTransaction_Done:
  assumes "AddTransaction N t pm = Done pm'"
  shows "\<exists>pool q k. pm' = pm\<lparr>nm_chain := (fst (nm_chain pm), pool, snd (snd (nm_chain pm))),
    nm_txBroadcastQueue := q, nm_knownTransaction := k\<rparr>"
proof -
  obtain ch pool calc where c: "nm_chain pm = (ch, pool, calc)" by (cases "nm_chain pm")
  obtain pl where pl: "pool = Some pl" using assms c by (cases pool) (auto simp: AddTransaction_def Let_def markTransaction_def outcome_simps)
  have "pm' = pm\<lparr>nm_chain := (ch, Some (Add t pl), calc), nm_txBroadcastQueue := nm_txBroadcastQueue pm @ [t],
      nm_knownTransaction := lru_add (ne_known N) (nm_knownTransaction pm) (tx_hash_hex t) ()\<rparr>"
    using assms c pl by (auto simp: AddTransaction_def Let_def outcome_simps markTransaction_def)
  then show ?thesis using c by auto
qed

lemma StatusMessage_Done:
  assumes "StatusMessage N pm = Done (m, pm')"
  shows "\<exists>r ch v. GetLatestBlock (ne_chain N) (fst (nm_chain pm)) = Done (r, ch)
    \<and> pm' = pm\<lparr>nm_chain := (ch, snd (nm_chain pm)), nm_broadcasting := v\<rparr>"
proof -
  obtain ch pool calc where c: "nm_chain pm = (ch, pool, calc)" by (cases "nm_chain pm")
  obtain r ch1 where r: "GetLatestBlock (ne_chain N) ch = Done (r, ch1)"
    using assms by (auto simp: StatusMessage_def c outcome_simps)
  define pm1 where "pm1 = pm\<lparr>nm_chain := (ch1, pool, calc)\<rparr>"
  obtain b pm2 where s: "Synced pm1 = (b, pm2)" by (cases "Synced pm1")
  have "pm' = pm1 \<or> pm' = pm2"
    using assms r s by (cases r; cases b) (auto simp: StatusMessage_def c pm1_def [symmetric])
  moreover obtain v where "pm2 = pm1\<lparr>nm_broadcasting := v\<rparr>" using Synced_Done [OF s] by blast
  moreover have "pm1 = pm1\<lparr>nm_broadcasting := nm_broadcasting pm1\<rparr>" by simp
  ultimately have "\<exists>v. pm' = pm1\<lparr>nm_broadcasting := v\<rparr>" by metis
  then show ?thesis using r c by (simp add: pm1_def)
qed

lemma get_blocks_Done:
  assumes "handleSyncGetBlocksMsg payload p N pm = Done pm'"
  shows "pm' = pm \<or> (\<exists>h r ch st. in_i64 h \<and> GetBlockByHeight (ne_chain N) h (fst (nm_chain pm)) = Done (r, ch)
    \<and> pm' = pm\<lparr>nm_chain := (ch, snd (nm_chain pm)), nm_store := st\<rparr>)"
proof (cases "getStatus (nm_blockSyncer pm) = synced")
  case True
  obtain ch pool calc where c: "nm_chain pm = (ch, pool, calc)" by (cases "nm_chain pm")
  obtain h r ch1 where h: "payload_height payload = Done h" "GetBlockByHeight (ne_chain N) h ch = Done (r, ch1)"
    "(case r of Inl err \<Rightarrow> Done (pm\<lparr>nm_chain := (ch1, pool, calc)\<rparr>)
      | Inr block \<Rightarrow> with_peer p (respondSyncGetBlock (node_karmem N) block) (pm\<lparr>nm_chain := (ch1, pool, calc)\<rparr>)) = Done pm'"
    using assms True by (auto simp: handleSyncGetBlocksMsg_def c Let_def outcome_simps)
  have "in_i64 h" using h(1) by (auto simp: payload_height_def i64_of_u64_def split: if_splits)
  moreover have "\<exists>st. pm' = pm\<lparr>nm_chain := (ch1, pool, calc), nm_store := st\<rparr>"
    using h(3) by (cases r) (auto dest!: with_peer_Done intro: exI [of _ "nm_store pm"])
  ultimately show ?thesis using h(2) c by auto
qed (use assms in \<open>simp add: handleSyncGetBlocksMsg_def\<close>)

lemma package_txs_Done:
  assumes "package_txs N order ts params pm = Done (b, pm')" and "nm_chain pm = (ch, pool, calc)"
  shows "\<exists>pl txs pool1 ch1. Package (chain_lookup (ne_chain N)) order pl ch = Done (txs, pool1, ch1)
    \<and> pm' = pm\<lparr>nm_chain := (ch1, Some pool1, calc)\<rparr>"
proof -
  obtain pl where pl: "pool = Some pl" using assms by (cases pool) (auto simp: package_txs_def)
  obtain txs pool1 ch1 and new :: "string + Block" where k: "Package (chain_lookup (ne_chain N)) order pl ch = Done (txs, pool1, ch1)"
    "(case new of Inl err \<Rightarrow> Done (None, pm\<lparr>nm_chain := (ch1, Some pool1, calc)\<rparr>)
      | Inr newBlock \<Rightarrow> Done (Some newBlock, pm\<lparr>nm_chain := (ch1, Some pool1, calc)\<rparr>)) = Done (b, pm')"
    using assms by (auto simp: package_txs_def pl outcome_simps Let_def)
  then have "pm' = pm\<lparr>nm_chain := (ch1, Some pool1, calc)\<rparr>" by (cases new) auto
  then show ?thesis using k(1) by blast
qed

text \<open>A tick that makes a block has read the tip and, at most, packaged from the pool.\<close>

lemma new_block_Done:
  assumes "new_block now order rnd1 rnd2 N pm = Done (b, pm')"
  shows "\<exists>c v. pm' = pm\<lparr>nm_chain := c, nm_broadcasting := v\<rparr> \<and> (c = nm_chain pm
    \<or> (\<exists>r ch. GetLatestBlock (ne_chain N) (fst (nm_chain pm)) = Done (r, ch)
        \<and> (fst c = ch \<or> (\<exists>pl txs pool1. Package (chain_lookup (ne_chain N)) order pl ch = Done (txs, pool1, fst c)))))"
proof -
  let ?ts = "GetLogicClock now (nm_timeSyncer pm)"
  obtain on pm1 where s: "Synced pm = (on, pm1)" by (cases "Synced pm")
  then obtain v where v: "pm1 = pm\<lparr>nm_broadcasting := v\<rparr>" using Synced_Done by blast
  obtain ch pool calc where c: "nm_chain pm = (ch, pool, calc)" by (cases "nm_chain pm")
  consider "pm' = pm" | "pm' = pm1" | "\<not> go_mod (go_div ?ts 1000) packageBlockInterval \<noteq> 0" "on"
    using assms s by (cases on) (auto simp: new_block_def Let_def split: if_splits)
  then show ?thesis
  proof cases
    case 1
    then show ?thesis by (intro exI [of _ "nm_chain pm"] exI [of _ "nm_broadcasting pm"]) simp
  next
    case 2
    then show ?thesis using v by (intro exI [of _ "nm_chain pm"] exI [of _ v]) simp
  next
    case 3
    have c1: "nm_chain pm1 = (ch, pool, calc)" using c v by simp
    note run = assms [unfolded new_block_def Let_def if_not_P [OF 3(1)] s c1 prod.case if_P [OF 3(2)]]
    obtain latest ch1 where l: "GetLatestBlock (ne_chain N) ch = Done (latest, ch1)"
      using run 3(2) by (auto simp: outcome_simps)
    have "\<exists>c. pm' = pm1\<lparr>nm_chain := c\<rparr> \<and> (fst c = ch1
        \<or> (\<exists>pl txs pool1. Package (chain_lookup (ne_chain N)) order pl ch1 = Done (txs, pool1, fst c)))"
    proof (cases latest)
      case (Inl e)
      then show ?thesis using run l 3(2) by (auto intro!: exI [of _ "(ch1, pool, calc)"])
    next
      case (Inr blk)
      show ?thesis
      proof (cases "\<exists>c'. pm' = pm1\<lparr>nm_chain := (ch1, pool, c')\<rparr>")
        case packaged: False
        then obtain params c' where p: "package_txs N order ?ts params (pm1\<lparr>nm_chain := (ch1, pool, c')\<rparr>) = Done (b, pm')"
          using run 3(2) l Inr by (auto simp: outcome_simps split: option.splits if_splits)
        obtain pl txs pool1 ch2 where k: "Package (chain_lookup (ne_chain N)) order pl ch1 = Done (txs, pool1, ch2)"
          "pm' = pm1\<lparr>nm_chain := (ch2, Some pool1, c')\<rparr>"
          using package_txs_Done [OF p, of ch1 pool c'] by auto
        show ?thesis
          by (intro exI [of _ "(ch2, Some pool1, c')"]) (use k in auto)
      qed auto
    qed
    then obtain c2 where c2: "pm' = pm1\<lparr>nm_chain := c2\<rparr>" "fst c2 = ch1
        \<or> (\<exists>pl txs pool1. Package (chain_lookup (ne_chain N)) order pl ch1 = Done (txs, pool1, fst c2))" by blast
    then show ?thesis using l c v by (intro exI [of _ c2] exI [of _ v]) auto
  qed
qed

section \<open>The chain of a node\<close>

context chain_world
begin

definition at :: "Block list \<Rightarrow> ('d, 'h, 'b, 't, 's) chain_state \<Rightarrow> bool" where
  "at bs c \<longleftrightarrow> inv bs (fst c) \<and> ch_latestHeight (fst c) = tip_height bs"

text \<open>From every chain the first state may represent, the second represents an extension.\<close>

definition grows :: "('d, 'h, 'b, 't, 's) chain_state \<Rightarrow> ('d, 'h, 'b, 't, 's) chain_state \<Rightarrow> bool" where
  "grows c c' \<longleftrightarrow> (\<forall>bs. at bs c \<longrightarrow> (\<exists>ext. at (bs @ ext) c'))"

lemma grows_refl [simp]: "grows c c"
  unfolding grows_def by (metis append_Nil2)

lemma grows_trans: "grows a b \<Longrightarrow> grows b c \<Longrightarrow> grows a c"
  unfolding grows_def by (metis append.assoc)

lemma grows_pool: "grows (ch, pool, calc) (ch, pool', calc')"
  unfolding grows_def at_def by (metis append_Nil2 fst_conv)

lemma grows_reads:
  assumes "\<And>bs. at bs c \<Longrightarrow> at bs c'"
  shows "grows c c'"
  using assms unfolding grows_def by (metis append_Nil2)

lemma grows_insert:
  assumes "fits b" and "insertBlock E b c = Done c'"
  shows "grows c c'"
proof -
  obtain ch pool calc ch' pool' calc' where c: "c = (ch, pool, calc)" "c' = (ch', pool', calc')"
    by (cases c, cases c') auto
  have "at (ChainStore.extend bs b) c'" if "at bs c" for bs
    using insertBlock_Done [of bs ch b pool calc ch' pool' calc'] assms c that by (simp add: at_def)
  moreover have "\<exists>ext. ChainStore.extend bs b = bs @ ext" for bs
    by (cases "accepts bs b") (simp_all add: ChainStore.extend_def)
  ultimately show ?thesis unfolding grows_def by metis
qed

lemma at_buffer:
  assumes "at bs (ch, pool, calc)"
  shows "at bs (ch\<lparr>ch_buffer := b, ch_bufferChan := q\<rparr>, pool', calc')"
proof -
  have i: "inv bs ch" "ch_latestHeight ch = tip_height bs" using assms by (simp_all add: at_def)
  have "inv bs (ch\<lparr>ch_buffer := b, ch_bufferChan := q\<rparr>)" by (rule inv_caches [OF i(1)]) simp_all
  then show ?thesis using i by (simp add: at_def)
qed

lemma grows_append:
  assumes "fits b" and "AppendBlockTask E b c = Done c'"
  shows "grows c c'"
proof (cases "IsGenesisBlock b")
  case True
  then show ?thesis using grows_insert assms by (simp add: AppendBlockTask_def)
next
  case False
  obtain ch pool calc where c: "c = (ch, pool, calc)" by (cases c)
  obtain b' where c': "c' = (ch\<lparr>ch_buffer := Some b'\<rparr>, pool, calc)"
    using assms(2) False by (auto simp: AppendBlockTask_def c outcome_simps split: option.splits)
  show ?thesis
  proof (rule grows_reads)
    fix bs assume "at bs c"
    then show "at bs c'"
      using at_buffer [where b = "Some b'" and q = "ch_bufferChan ch" and ch = ch] by (simp add: c c')
  qed
qed

lemma grows_latest:
  assumes "GetLatestBlock E ch = Done (r, ch')"
  shows "grows (ch, pool, calc) (ch', pool', calc')"
proof (rule grows_reads)
  fix bs assume "at bs (ch, pool, calc)"
  then have "inv bs ch" by (simp add: at_def)
  then show "at bs (ch', pool', calc')" using GetLatestBlock_spec [of bs ch] assms by (auto simp: at_def)
qed

lemma grows_height:
  assumes "in_i64 n" and "GetBlockByHeight E n ch = Done (r, ch')"
  shows "grows (ch, pool, calc) (ch', pool', calc')"
proof (rule grows_reads)
  fix bs assume a: "at bs (ch, pool, calc)"
  then have "inv bs ch" by (simp add: at_def)
  then show "at bs (ch', pool', calc')" using GetBlockByHeight_spec [of bs ch n] assms a by (auto simp: at_def)
qed

text \<open>Packaging looks transactions up, whatever the pool holds.\<close>

lemma lookup_at:
  assumes "at bs (ch, x)" and "length h = 32"
  shows "at bs (snd (chain_lookup E ch h), y)"
proof -
  obtain r c where "GetTransactionByHash E h ch = (r, ch\<lparr>ch_txCache := c\<rparr>)" "inv bs (ch\<lparr>ch_txCache := c\<rparr>)"
    using GetTransactionByHash_spec [of bs ch h] assms by (auto simp: at_def)
  then show ?thesis using assms(1) by (auto simp: at_def chain_lookup_def split: sum.split)
qed

lemma package_loop_at:
  "package_loop (chain_lookup E) n count result pool ch = Done (txs, pool', ch') \<Longrightarrow> at bs (ch, x) \<Longrightarrow> at bs (ch', y)"
proof (induction n arbitrary: count result pool ch)
  case 0
  then show ?case by (simp add: at_def)
next
  case (Suc n)
  show ?case
  proof (cases "tp_txQueue pool = [] \<or> count > maxTxPackageCount")
    case True
    then have "ch' = ch" using Suc.prems(1) by (auto split: list.splits)
    then show ?thesis using Suc.prems(2) by (simp add: at_def)
  next
    case False
    then obtain k rest where q: "tp_txQueue pool = k # rest" "\<not> count > maxTxPackageCount"
      by (cases "tp_txQueue pool") auto
    note run = Suc.prems(1) [unfolded package_loop.simps q(1) list.case if_not_P [OF q(2)] Let_def]
    show ?thesis
    proof (cases "hex_decode k = None \<or> tp_txs pool k = None")
      case True
      then show ?thesis using run Suc.IH [OF _ Suc.prems(2)] by (auto split: option.splits)
    next
      case False
      then obtain h v where h: "hex_decode k = Some h" "tp_txs pool k = Some v" by auto
      obtain h' where h': "to_array 32 h = Done h'" "length h' = 32"
        using run h by (auto simp: to_array_def split: if_splits)
      have "at bs (snd (chain_lookup E ch h'), x)" using lookup_at [OF Suc.prems(2) h'(2)] .
      then show ?thesis using run h h'(1) Suc.IH
        by (cases "chain_lookup E ch h'") (auto split: option.splits)
    qed
  qed
qed

lemma grows_package:
  assumes "Package (chain_lookup E) order pool ch = Done (txs, pool', ch')"
  shows "grows (ch, p, calc) (ch', p', calc')"
proof (rule grows_reads)
  fix bs assume "at bs (ch, p, calc)"
  then show "at bs (ch', p', calc')"
    using assms package_loop_at by (auto simp: Package_def outcome_simps)
qed

text \<open>Handing over the syncer's blocks, all of which fit.\<close>

lemma syncer_insert_grows:
  assumes "syncer_insertBlock E h s = Done s'" and "\<forall>h b. by_blockMap (fst s) h = Some b \<longrightarrow> fits b"
  shows "grows (snd s) (snd s') \<and> (\<forall>h b. by_blockMap (fst s') h = Some b \<longrightarrow> fits b)"
proof -
  obtain bs c where s: "s = (bs, c)" by (cases s)
  show ?thesis
  proof (cases "by_blockMap bs h")
    case None
    then show ?thesis using assms by (auto simp: syncer_insertBlock_def s)
  next
    case (Some b)
    then obtain c' where a: "AppendBlockTask E b c = Done c'" "snd s' = c'"
      "by_blockMap (fst s') = (by_blockMap bs)(h := None)"
      using assms(1) by (auto simp: syncer_insertBlock_def s outcome_simps)
    have "fits b" using assms(2) Some by (auto simp: s)
    then show ?thesis using grows_append [of b c c'] a assms(2) by (simp add: s split: if_splits)
  qed
qed

lemma process_loop_grows:
  assumes "process_loop E remote height s = Some r" and "r = Done s'"
    and "\<forall>h b. by_blockMap (fst s) h = Some b \<longrightarrow> fits b"
  shows "grows (snd s) (snd s')"
proof -
  let ?P = "\<lambda>E' (rem :: int) (h :: int) s r. E' = E \<longrightarrow> (\<forall>s'. r = Done s'
    \<longrightarrow> (\<forall>h b. by_blockMap (fst s) h = Some b \<longrightarrow> fits b) \<longrightarrow> grows (snd s) (snd s'))"
  have "?P E remote height s r"
  proof (rule process_loop.raw_induct [of ?P, OF _ assms(1)])
    fix loop E' rem h s r
    assume IH: "\<And>rem h s b y. loop rem h s b = Some y \<Longrightarrow> ?P rem h s b y"
      and run: "(if h \<le> rem \<and> by_blockMap (fst s) h \<noteq> None
        then case syncer_insertBlock E' h s of Done s' \<Rightarrow> loop E' rem (i64 (h + 1)) s'
             | Panics \<Rightarrow> Some Panics | Blocks \<Rightarrow> Some Blocks | Diverges \<Rightarrow> Some Diverges
        else Some (Done s)) = Some r"
    show "?P E' rem h s r"
    proof (intro impI allI)
      fix s'
      assume E: "E' = E" and r: "r = Done s'" and f: "\<forall>h b. by_blockMap (fst s) h = Some b \<longrightarrow> fits b"
      show "grows (snd s) (snd s')"
      proof (cases "h \<le> rem \<and> by_blockMap (fst s) h \<noteq> None")
        case False
        then have "s' = s" using run r by (simp split: if_splits)
        then show ?thesis by simp
      next
        case True
        then obtain s1 where s1: "syncer_insertBlock E h s = Done s1" "loop E rem (i64 (h + 1)) s1 = Some r"
          using run r E by (cases "syncer_insertBlock E h s") auto
        then show ?thesis
          using IH [OF s1(2)] syncer_insert_grows [OF s1(1) f] r grows_trans by blast
      qed
    qed
  qed
  then show ?thesis using assms(2,3) by blast
qed

text \<open>The operations of the node, one by one.\<close>

lemma update_peer_chain [simp]: "nm_chain (update_peer p f pm) = nm_chain pm"
  by (simp add: update_peer_def)

lemma mark_chain [simp]: "nm_chain (markBlock N h pm) = nm_chain pm" "nm_chain (markTransaction N h pm) = nm_chain pm"
  by (simp_all add: markBlock_def markTransaction_def)

lemma AddTransaction_grows:
  assumes "AddTransaction N t pm = Done pm'"
  shows "grows (nm_chain pm) (nm_chain pm')"
proof -
  obtain ch pool calc where "nm_chain pm = (ch, pool, calc)" by (cases "nm_chain pm")
  then show ?thesis using AddTransaction_Done [OF assms] grows_pool by auto
qed

lemma gossip_grows:
  assumes "gossipBlockSubscribe from_self data N pm = Done (on, pm')" and "ne_chain N = E"
    and "fits (DeserializeBlock (node_karmem N) data)"
  shows "grows (nm_chain pm) (nm_chain pm')"
  using assms(1) by (auto simp: gossipBlockSubscribe_def assms(2) Let_def outcome_simps with_chain_Done
      split: if_splits intro: grows_append [OF assms(3) [unfolded assms(2)]])

lemma handler_grows:
  assumes "handlerMap received answered (msg_Code msg) = Some handle" and "handle (msg_Payload msg) p N pm = Done pm'"
    and "ne_chain N = E"
    and "msg_Code msg = StatusCodeBlockBodiesMsg \<longrightarrow> fits (DeserializeBlock (node_karmem N) (msg_Payload msg))"
  shows "grows (nm_chain pm) (nm_chain pm')"
proof -
  consider "handle = handleStatusMsg" | "handle = handleBlockMsg" "msg_Code msg = StatusCodeBlockBodiesMsg"
    | "handle = handleSyncStatusReq" | "handle = handleSyncStatusMsg" | "handle = handleSyncGetBlocksMsg"
    | "handle = handleSyncBlockMsg" | "handle = answer_time_request received answered" | "handle = take_time_response received"
    using assms(1) by (auto simp: handlerMap_def split: if_splits)
  then show ?thesis
  proof cases
    case 1
    then show ?thesis using assms(2) by (auto simp: handleStatusMsg_def outcome_simps)
  next
    case 2
    then have "fits (DeserializeBlock (ce_karmem E) (msg_Payload msg))" using assms(3,4) by simp
    then show ?thesis using assms(2) 2(1)
      by (auto simp: handleBlockMsg_def assms(3) Let_def outcome_simps with_chain_Done split: if_splits intro: grows_append)
  next
    case 3
    then obtain m pm1 where m: "StatusMessage N pm = Done (m, pm1)" "nm_chain pm' = nm_chain pm1"
      using assms(2) by (auto simp: handleSyncStatusReq_def outcome_simps dest!: with_peer_Done)
    obtain ch pool calc where c: "nm_chain pm = (ch, pool, calc)" by (cases "nm_chain pm")
    obtain r ch1 where "GetLatestBlock E ch = Done (r, ch1)" "nm_chain pm' = (ch1, pool, calc)"
      using StatusMessage_Done [OF m(1)] m(2) c assms(3) by auto
    then show ?thesis using grows_latest c by simp
  next
    case 4
    then show ?thesis using assms(2) by (auto simp: handleSyncStatusMsg_def outcome_simps)
  next
    case 5
    obtain ch pool calc where c: "nm_chain pm = (ch, pool, calc)" by (cases "nm_chain pm")
    consider "pm' = pm" | h r ch1 where "in_i64 h" "GetBlockByHeight E h ch = Done (r, ch1)" "nm_chain pm' = (ch1, pool, calc)"
      using get_blocks_Done [of "msg_Payload msg" p N pm pm'] assms(2,3) 5 c by auto
    then show ?thesis using grows_height c by cases simp_all
  next
    case 6
    then show ?thesis using assms(2) by (auto simp: handleSyncBlockMsg_def appendBlockToSyncer_def)
  next
    case 7
    then show ?thesis using assms(2) by (auto simp: answer_time_request_def dest!: with_peer_Done)
  next
    case 8
    then show ?thesis using assms(2) by (auto simp: take_time_response_def)
  qed
qed

lemma new_block_grows:
  assumes "new_block now order rnd1 rnd2 N pm = Done (b, pm')" and "ne_chain N = E"
  shows "grows (nm_chain pm) (nm_chain pm')"
proof -
  obtain ch pool calc where c: "nm_chain pm = (ch, pool, calc)" by (cases "nm_chain pm")
  obtain ch' pool' calc' where c': "nm_chain pm' = (ch', pool', calc')" by (cases "nm_chain pm'")
  consider "nm_chain pm' = nm_chain pm"
    | r ch1 where "GetLatestBlock E ch = Done (r, ch1)" "ch' = ch1"
    | r ch1 pl txs pool1 where "GetLatestBlock E ch = Done (r, ch1)"
        "Package (chain_lookup E) order pl ch1 = Done (txs, pool1, ch')"
    using new_block_Done [OF assms(1)] c c' assms(2) by auto
  then show ?thesis
  proof cases
    case 2
    then show ?thesis using grows_latest c c' by simp
  next
    case 3
    then show ?thesis using grows_trans [OF grows_latest [OF 3(1)] grows_package [OF 3(2)]] c c' by simp
  qed simp
qed

lemma package_grows:
  assumes "packageBlockRoutine now order rnd1 rnd2 N pm = Done pm'" and "ne_chain N = E"
    and "new_block now order rnd1 rnd2 N pm = Done (b, pm1)" and "\<forall>blk. b = Some blk \<longrightarrow> fits blk"
  shows "grows (nm_chain pm) (nm_chain pm')"
proof (cases b)
  case None
  then show ?thesis using assms(1,3) new_block_grows [OF assms(3,2)] by (simp add: packageBlockRoutine_def)
next
  case (Some blk)
  then obtain c where "AppendBlockTask E blk (nm_chain pm1) = Done c" "nm_chain pm' = c"
    using assms(1,3) by (auto simp: packageBlockRoutine_def publish_block_def outcome_simps with_chain_Done assms(2))
  then show ?thesis using new_block_grows [OF assms(3,2)] grows_append grows_trans assms(4) Some by blast
qed

lemma node_step_grows:
  assumes "json J ok" and "ne_chain N = E" and "node_step N J pm pm'"
  shows "grows (nm_chain pm) (nm_chain pm')"
  using assms(3)
proof cases
  case (message p)
  then show ?thesis by (auto simp: Handle_def Let_def split: if_splits list.splits)
next
  case (handler i p msg received answered)
  then show ?thesis
    using handler_grows [of received answered msg _ p N _ pm', OF _ _ assms(2)]
    by (fastforce simp: run_handler_def Let_def split: option.splits)
next
  case (gossip data from_self on)
  then show ?thesis using gossip_grows assms(2) by blast
next
  case (package now order rnd1 rnd2 b pm1)
  then show ?thesis using package_grows [OF _ assms(2)] by blast
next
  case (publish data)
  then show ?thesis by (auto simp: broadcastBlock_def split: list.splits)
next
  case (announce dial draws datagrams)
  then show ?thesis by (auto simp: broadcastTransaction_def split: list.splits)
next
  case (datagram datagram)
  then show ?thesis by (auto simp: TransactionUDP_def Let_def split: if_splits dest: AddTransaction_grows)
next
  case (submit t)
  then show ?thesis by (rule AddTransaction_grows)
next
  case (accept remote addr)
  then show ?thesis by (simp add: HandleStream_def manager_NewPeer_def)
next
  case (dial now reachable stream self pid)
  then show ?thesis by (simp add: CheckAndCreateStream_def manager_NewPeer_def split: option.split)
next
  case (ask_status p on)
  then show ?thesis by (auto simp: sendStatus_def outcome_simps dest!: with_peer_Done split: if_splits)
next
  case (ask_blocks now)
  then show ?thesis by (auto simp: request_tick_def outcome_simps)
next
  case (request i)
  then show ?thesis by (auto simp: run_request_def dest!: with_peer_Done split: if_splits prod.splits)
next
  case (insert_block i)
  obtain ch pool calc where c: "nm_chain pm = (ch, pool, calc)" by (cases "nm_chain pm")
  obtain q where q: "nm_chain pm' = (ch\<lparr>ch_bufferChan := q\<rparr>, pool, calc)"
    using insert_block c by (auto simp: run_insert_def InsertBlock_def outcome_simps split: if_splits)
  show ?thesis
  proof (rule grows_reads)
    fix bs assume "at bs (nm_chain pm)"
    then show "at bs (nm_chain pm')"
      using at_buffer [where b = "ch_buffer ch" and q = q and ch = ch] by (simp add: c q)
  qed
next
  case status
  then show ?thesis by (auto simp: status_tick_def outcome_simps)
next
  case hand_over
  then obtain r s' where r: "process_loop E (by_remoteHeight (nm_blockSyncer pm)) (i64 (by_knownHeight (nm_blockSyncer pm) + 1))
      (nm_blockSyncer pm, nm_chain pm) = Some r" "r = Done s'" "nm_chain pm' = snd s'"
    by (auto simp: process_tick_def blockProcessRoutine_def assms(2) outcome_simps split: option.splits)
  then show ?thesis using process_loop_grows [OF r(1,2)] hand_over(1) by simp
next
  case (ask_time now draw)
  then show ?thesis by (auto simp: time_tick_def dest!: with_peer_Done split: if_splits)
next
  case first_node
  then show ?thesis by (simp add: SetSynced_def)
next
  case (connection p link)
  then show ?thesis by simp
next
  case (chain c)
  then show ?thesis
    using chain_step_inv [OF assms(1), of "nm_chain pm" c] assms(2) by (auto simp: grows_def at_def)
qed

lemma node_reach_grows:
  assumes "json J ok" and "ne_chain N = E" and "node_reach N J pm0 pm"
  shows "grows (nm_chain pm0) (nm_chain pm)"
  using assms(3)
proof (induction rule: node_reach.induct)
  case (more pm pm')
  then show ?case using node_step_grows [OF assms(1,2)] grows_trans by blast
qed simp

end

section \<open>The peer tables of a node\<close>

definition peer_tables :: "('d, 'h, 'b, 't, 's, 'k) P2PManager \<Rightarrow> nat list \<times> (string \<Rightarrow> nat option) \<times> nat" where
  "peer_tables pm = (nm_peerSet pm, nm_peersById pm, nm_next pm)"

lemma peer_tables_update [simp]:
  "peer_tables (pm\<lparr>nm_chain := c\<rparr>) = peer_tables pm" "peer_tables (update_peer p f pm) = peer_tables pm"
  "peer_tables (markBlock N h pm) = peer_tables pm" "peer_tables (markTransaction N h pm) = peer_tables pm"
  "peer_tables (pm\<lparr>nm_blockSyncer := bs\<rparr>) = peer_tables pm" "peer_tables (pm\<lparr>nm_timeSyncer := ts\<rparr>) = peer_tables pm"
  "peer_tables (pm\<lparr>nm_blockBroadcastQueue := q\<rparr>) = peer_tables pm"
  "peer_tables (pm\<lparr>nm_txBroadcastQueue := tq\<rparr>) = peer_tables pm"
  "peer_tables (pm\<lparr>nm_handling := hs\<rparr>) = peer_tables pm" "peer_tables (pm\<lparr>nm_inserting := is\<rparr>) = peer_tables pm"
  "peer_tables (pm\<lparr>nm_requesting := rs\<rparr>) = peer_tables pm" "peer_tables (pm\<lparr>nm_broadcasting := v\<rparr>) = peer_tables pm"
  "peer_tables (pm\<lparr>nm_store := st\<rparr>) = peer_tables pm" "peer_tables (SetSynced pm) = peer_tables pm"
  "peer_tables (appendBlockToSyncer b pm) = peer_tables pm" "peer_tables (pm\<lparr>nm_knownTransaction := k\<rparr>) = peer_tables pm"
  by (simp_all add: peer_tables_def update_peer_def markBlock_def markTransaction_def SetSynced_def appendBlockToSyncer_def)

lemma handler_tables:
  assumes "handlerMap received answered code = Some handle" and "handle payload p N pm = Done pm'"
  shows "peer_tables pm' = peer_tables pm"
proof -
  consider "handle = handleStatusMsg" | "handle = handleBlockMsg"
    | "handle = handleSyncStatusReq" | "handle = handleSyncStatusMsg" | "handle = handleSyncGetBlocksMsg"
    | "handle = handleSyncBlockMsg" | "handle = answer_time_request received answered" | "handle = take_time_response received"
    using assms(1) by (auto simp: handlerMap_def split: if_splits)
  then show ?thesis
  proof cases
    case 5
    then show ?thesis using get_blocks_Done assms(2) by fastforce
  qed (use assms(2) in \<open>auto simp: handleStatusMsg_def handleBlockMsg_def handleSyncStatusReq_def handleSyncStatusMsg_def
      handleSyncBlockMsg_def answer_time_request_def take_time_response_def Let_def outcome_simps with_chain_Done
      dest!: with_peer_Done StatusMessage_Done split: if_splits\<close>)
qed

lemma package_tables:
  assumes "packageBlockRoutine now order rnd1 rnd2 N pm = Done pm'"
  shows "peer_tables pm' = peer_tables pm"
  using assms by (auto simp: packageBlockRoutine_def publish_block_def with_chain_Done outcome_simps
      dest!: new_block_Done split: option.splits)

text \<open>A step leaves the tables alone or registers one peer, where a guard allows it.\<close>

lemma node_step_tables:
  assumes "node_step N J pm pm'"
  shows "peer_tables pm' = peer_tables pm \<or> (\<exists>pid addr. pm' = manager_NewPeer N pid addr pm
    \<and> (length (nm_peerSet pm) \<le> streamLimit \<or> card (dom (nm_peersById pm)) < streamLimit))"
  using assms
proof cases
  case (message p)
  then show ?thesis by (auto simp: Handle_def Let_def split: if_splits list.splits)
next
  case (handler i p msg received answered)
  then show ?thesis
    by (auto simp: run_handler_def Let_def split: option.splits dest!: handler_tables)
next
  case (gossip data from_self on)
  then show ?thesis by (auto simp: gossipBlockSubscribe_def Let_def outcome_simps with_chain_Done split: if_splits)
next
  case (package now order rnd1 rnd2 b pm1)
  then show ?thesis using package_tables by blast
next
  case (publish data)
  then show ?thesis by (auto simp: broadcastBlock_def split: list.splits)
next
  case (announce dial draws datagrams)
  then show ?thesis by (auto simp: broadcastTransaction_def split: list.splits)
next
  case (datagram datagram)
  then show ?thesis by (auto simp: TransactionUDP_def Let_def split: if_splits dest!: AddTransaction_Done)
next
  case (submit t)
  then show ?thesis by (auto dest!: AddTransaction_Done)
next
  case (accept remote addr)
  then show ?thesis by (cases "length (nm_peerSet pm) > streamLimit") (auto simp: HandleStream_def)
next
  case (dial now reachable stream self pid)
  let ?tried = "case nm_triedPeers pm pid of None \<Rightarrow> False | Some tried \<Rightarrow> now - tried < retryInterval"
    and ?live = "case nm_peersById pm pid of None \<Rightarrow> False | Some remote \<Rightarrow> \<not> Stopped (nm_store pm remote)"
  have "peer_tables (pm\<lparr>nm_triedPeers := (nm_triedPeers pm)(pid \<mapsto> now)\<rparr>) = peer_tables pm"
    by (simp add: peer_tables_def)
  then show ?thesis using dial
    by (cases "card (dom (nm_peersById pm)) \<ge> streamLimit \<or> pid = self"; cases ?tried; cases ?live; cases reachable; cases stream)
      (auto simp: CheckAndCreateStream_def)
next
  case (ask_status p on)
  then show ?thesis by (auto simp: sendStatus_def outcome_simps dest!: with_peer_Done split: if_splits)
next
  case (ask_blocks now)
  then show ?thesis by (auto simp: request_tick_def outcome_simps)
next
  case (request i)
  then show ?thesis by (auto simp: run_request_def dest!: with_peer_Done split: if_splits prod.splits)
next
  case (insert_block i)
  then show ?thesis by (auto simp: run_insert_def outcome_simps split: if_splits prod.splits)
next
  case status
  then show ?thesis by (auto simp: status_tick_def outcome_simps)
next
  case hand_over
  then show ?thesis by (auto simp: process_tick_def outcome_simps)
next
  case (ask_time now draw)
  then show ?thesis by (auto simp: time_tick_def dest!: with_peer_Done split: if_splits)
next
  case (connection p link)
  then show ?thesis by simp
qed simp_all

text \<open>The table by identifier refers to registered peers, each once, and stays within the stream limit and one.\<close>

definition tables_ok :: "('d, 'h, 'b, 't, 's, 'k) P2PManager \<Rightarrow> bool" where
  "tables_ok pm \<longleftrightarrow> finite (dom (nm_peersById pm)) \<and> card (dom (nm_peersById pm)) \<le> Suc streamLimit
     \<and> ran (nm_peersById pm) \<subseteq> set (nm_peerSet pm) \<and> inj_on (nm_peersById pm) (dom (nm_peersById pm))
     \<and> (\<forall>p \<in> set (nm_peerSet pm). p < nm_next pm)"

lemma tables_ok_card:
  assumes "tables_ok pm"
  shows "card (dom (nm_peersById pm)) \<le> length (nm_peerSet pm)"
proof -
  have i: "inj_on (\<lambda>k. the (nm_peersById pm k)) (dom (nm_peersById pm))"
    using assms by (auto simp: tables_ok_def inj_on_def domIff)
  have "(\<lambda>k. the (nm_peersById pm k)) ` dom (nm_peersById pm) \<subseteq> set (nm_peerSet pm)"
    using assms by (force simp: tables_ok_def ran_def)
  then have "card (dom (nm_peersById pm)) \<le> card (set (nm_peerSet pm))" by (rule card_inj_on_le [OF i]) simp
  then show ?thesis using card_length order.trans by blast
qed

lemma tables_ok_NewPeer:
  assumes "tables_ok pm" and "length (nm_peerSet pm) \<le> streamLimit \<or> card (dom (nm_peersById pm)) < streamLimit"
  shows "tables_ok (manager_NewPeer N pid addr pm)"
proof -
  have new: "nm_next pm \<notin> ran (nm_peersById pm)" using assms(1) by (auto simp: tables_ok_def)
  have "card (insert pid (dom (nm_peersById pm))) \<le> Suc (card (dom (nm_peersById pm)))"
    by (rule card_insert_le_m1) simp_all
  moreover have "card (dom (nm_peersById pm)) \<le> streamLimit"
    using assms tables_ok_card [OF assms(1)] by linarith
  moreover have "inj_on ((nm_peersById pm)(pid \<mapsto> nm_next pm)) (insert pid (dom (nm_peersById pm)))"
    using assms(1) new by (auto simp: tables_ok_def inj_on_def ran_def)
  moreover have "ran ((nm_peersById pm)(pid \<mapsto> nm_next pm)) \<subseteq> insert (nm_next pm) (ran (nm_peersById pm))"
    by (auto simp: ran_def)
  ultimately show ?thesis using assms(1)
    by (auto simp: tables_ok_def manager_NewPeer_def less_Suc_eq)
qed

lemma tables_ok_cong: "peer_tables pm' = peer_tables pm \<Longrightarrow> tables_ok pm' = tables_ok pm"
  by (simp add: tables_ok_def peer_tables_def)

lemma node_reach_tables:
  assumes "node_reach N J pm0 pm" and "tables_ok pm0"
  shows "tables_ok pm \<and> (\<exists>new. nm_peerSet pm = nm_peerSet pm0 @ new)
    \<and> card (dom (nm_peersById pm0)) \<le> card (dom (nm_peersById pm))"
  using assms(1)
proof (induction rule: node_reach.induct)
  case here
  then show ?case using assms(2) by simp
next
  case (more pm pm')
  then consider "peer_tables pm' = peer_tables pm"
    | pid addr where "pm' = manager_NewPeer N pid addr pm"
      "length (nm_peerSet pm) \<le> streamLimit \<or> card (dom (nm_peersById pm)) < streamLimit"
    using node_step_tables by blast
  then show ?case
  proof cases
    case 1
    then show ?thesis using more.IH tables_ok_cong [OF 1] by (simp add: peer_tables_def)
  next
    case 2
    have "card (dom (nm_peersById pm)) \<le> card (insert pid (dom (nm_peersById pm)))"
      using more.IH by (intro card_mono) (auto simp: tables_ok_def)
    moreover have "dom (nm_peersById pm') = insert pid (dom (nm_peersById pm))" "nm_peerSet pm' = nm_peerSet pm @ [nm_next pm]"
      using 2(1) by (auto simp: manager_NewPeer_def)
    moreover have "tables_ok pm'" using more.IH tables_ok_NewPeer [OF _ 2(2)] 2(1) by blast
    ultimately show ?thesis using more.IH by auto
  qed
qed

lemma tables_ok_new: "tables_ok (NewP2PManager N c genesis delta)"
  by (simp add: tables_ok_def NewP2PManager_def)

end
