(* ===== verification/NodeProperties.thy ===== *)
theory NodeProperties
  imports NodeHistory
begin

text \<open>
  The properties of a whole node: its chain and its peers over any run, what one message can do to it,
  how block gossip ends, and what two nodes achieve together. An instance over concrete parts of
  every kind gives the witnesses.
\<close>

section \<open>An instance\<close>

definition point_curve :: "unit curve_ops" where
  "point_curve = \<lparr>ec_N = 1, ec_is_inf = (\<lambda>_. False), ec_ScalarBaseMult = (\<lambda>_. ()), ec_ScalarMult = (\<lambda>_ _. ()),
     ec_Add = (\<lambda>_ _. ()), ec_Marshal = (\<lambda>_. []), ec_Unmarshal = (\<lambda>_. Some ())\<rparr>"

definition std_node ::
    "(bytes \<rightharpoonup> bytes, (int, bytes) lru_list, (string, Block) lru_list, (string, Transaction) lru_list,
      (string, unit) lru_list, mem_writer, (string, unit) lru_list, unit) node_env" where
  "std_node = \<lparr>ne_chain = std_env, ne_known = list_lru, ne_curve = point_curve,
     ne_pub = hex_encode (replicate 33 4), ne_prv = ''03''\<rparr>"

lemma std_node_sels [simp]:
  "ne_chain std_node = std_env" "ne_known std_node = list_lru" "ce_karmem std_env = std_karmem"
  by (simp_all add: std_node_def std_env_def)

section \<open>The chain\<close>

text \<open>Whatever a node does, its database holds one growing chain. In every run of a node (messages handled
  in any order, gossip, datagrams, streams, ticks of all routines, packaging, clients, reads, data
  commands) the database represents one list of blocks that extends the list at the start; heights
  strictly increase along it and every block but a genesis-like one names its predecessor's hash.\<close>

theorem node_keeps_one_chain:
  assumes "chain_world (ne_chain N) len cell content eh eb et" and "json J ok"
    and "chain_inv (ne_chain N) content eh eb et bs (fst (nm_chain pm0))"
    and "Height (fst (nm_chain pm0)) = tip_height bs" and "node_reach N J pm0 pm"
  shows "\<exists>ext. stored (node_karmem N) (content (ch_db (fst (nm_chain pm)))) (bs @ ext)
    \<and> Height (fst (nm_chain pm)) = tip_height (bs @ ext) \<and> sorted_wrt (<) (map (\<lambda>b. blk_Height b) (bs @ ext))
    \<and> (\<forall>i. Suc i < length (bs @ ext) \<longrightarrow>
         IsGenesisBlock ((bs @ ext) ! Suc i) \<or> isPrevBlock ((bs @ ext) ! i) ((bs @ ext) ! Suc i))"
proof -
  note defs = chain_world.grows_def [OF assms(1)] chain_world.at_def [OF assms(1)] chain_world.inv_def [OF assms(1)]
  obtain ext where e: "chain_inv (ne_chain N) content eh eb et (bs @ ext) (fst (nm_chain pm))"
    "ch_latestHeight (fst (nm_chain pm)) = tip_height (bs @ ext)"
    using chain_world.node_reach_grows [OF assms(1,2) refl assms(5)] assms(3,4) unfolding defs Height_def by blast
  then have "chain_of (bs @ ext)" "stored (node_karmem N) (content (ch_db (fst (nm_chain pm)))) (bs @ ext)"
    by (simp_all add: chain_inv_def)
  then show ?thesis using chain_heights chain_linked e(2) unfolding Height_def by blast
qed

section \<open>Peers\<close>

text \<open>C34: The peer tables are bounded, and a peer is never taken out of them. In every run of a node the table of
  peers by identifier has at most 21 entries, and the list of peers only grows; once it has 21 and 20
  identifiers are taken, no run, whatever connections end in it, admits another peer.\<close>

theorem full_node_admits_no_peer:
  assumes "node_reach N J (NewP2PManager N c genesis delta) pm"
  shows "card (dom (nm_peersById pm)) \<le> 21
    \<and> (\<forall>pm'. node_reach N J pm pm' \<longrightarrow> (\<exists>new. nm_peerSet pm' = nm_peerSet pm @ new)
         \<and> (20 < length (nm_peerSet pm) \<and> 20 \<le> card (dom (nm_peersById pm)) \<longrightarrow>
              nm_peerSet pm' = nm_peerSet pm \<and> nm_peersById pm' = nm_peersById pm))"
proof -
  have t: "tables_ok pm" using node_reach_tables [OF assms tables_ok_new] by blast
  have full: "peer_tables pm' = peer_tables pm"
    if "node_reach N J pm pm'" "20 < length (nm_peerSet pm)" "20 \<le> card (dom (nm_peersById pm))" for pm'
    using that(1)
  proof (induction rule: node_reach.induct)
    case (more q q')
    then have "\<not> length (nm_peerSet q) \<le> streamLimit" "\<not> card (dom (nm_peersById q)) < streamLimit"
      using that(2,3) by (simp_all add: peer_tables_def streamLimit_def)
    then show ?case using node_step_tables [OF more.hyps(2)] more.IH by simp
  qed simp
  show ?thesis
    using t node_reach_tables [OF _ t] full by (auto simp: tables_ok_def streamLimit_def peer_tables_def)
qed

text \<open>A node that 21 nodes connected to.\<close>

definition crowd :: "nat \<Rightarrow> (bytes \<rightharpoonup> bytes, (int, bytes) lru_list, (string, Block) lru_list, (string, Transaction) lru_list,
    (string, unit) lru_list, (string, unit) lru_list) P2PManager" where
  "crowd n = fold (\<lambda>i. HandleStream (replicate i (CHR ''p'')) [] std_node) [0..<n]
     (NewP2PManager std_node (undefined, None, None) True 0)"

lemma crowd_reach: "n \<le> 21 \<Longrightarrow> node_reach std_node tiny_json (NewP2PManager std_node (undefined, None, None) True 0) (crowd n)
    \<and> length (nm_peerSet (crowd n)) = n \<and> dom (nm_peersById (crowd n)) = (\<lambda>i. replicate i (CHR ''p'')) ` {..<n}"
proof (induction n)
  case 0
  then show ?case by (simp add: crowd_def node_reach.here) (simp add: NewP2PManager_def)
next
  case (Suc n)
  have step: "crowd (Suc n) = HandleStream (replicate n (CHR ''p'')) [] std_node (crowd n)" by (simp add: crowd_def)
  also have "\<dots> = manager_NewPeer std_node (replicate n (CHR ''p'')) [] (crowd n)"
    using Suc by (simp add: HandleStream_def streamLimit_def)
  finally have eq: "crowd (Suc n) = manager_NewPeer std_node (replicate n (CHR ''p'')) [] (crowd n)" .
  have "node_reach std_node tiny_json (NewP2PManager std_node (undefined, None, None) True 0) (crowd (Suc n))"
    unfolding step using Suc by (intro node_reach.more [OF _ node_step.accept]) simp
  moreover have "dom (nm_peersById (crowd (Suc n))) = insert (replicate n (CHR ''p'')) (dom (nm_peersById (crowd n)))"
    "nm_peerSet (crowd (Suc n)) = nm_peerSet (crowd n) @ [nm_next (crowd n)]"
    unfolding eq by (simp_all add: manager_NewPeer_def)
  ultimately show ?case using Suc by (simp add: lessThan_Suc)
qed

lemma full_node_admits_no_peer_witness:
  "\<not> (\<exists>pm'. node_reach std_node tiny_json (crowd 21) pm' \<and> nm_peerSet pm' \<noteq> nm_peerSet (crowd 21))"
proof -
  have c: "node_reach std_node tiny_json (NewP2PManager std_node (undefined, None, None) True 0) (crowd 21)"
    "length (nm_peerSet (crowd 21)) = 21" "dom (nm_peersById (crowd 21)) = (\<lambda>i. replicate i (CHR ''p'')) ` {..<21}"
    using crowd_reach [of 21] by simp_all
  have "inj_on (\<lambda>i. replicate i (CHR ''p'')) {..<21}" by (auto simp: inj_on_def)
  then have "card (dom (nm_peersById (crowd 21))) = 21" using c(3) by (simp add: card_image)
  then show ?thesis using full_node_admits_no_peer [OF c(1)] c(2) by auto
qed

section \<open>Messages\<close>

text \<open>C32: One frame from a peer stops a node. A well-formed message with a status code, or to a synced node a
  block request, whose payload is shorter than eight bytes is read off the connection, passed to the
  handlers, and the handler panics: the payload's length is not checked before it is decoded.\<close>

theorem short_payload_crashes:
  assumes "karmem (node_karmem N) len cell" and "\<not> Stopped (nm_store pm p)"
    and "pp_msgQueue (pe_peer (nm_store pm p)) = []" and "length payload < 8"
    and "code = StatusCodeStatusMsg \<or> (code = StatusCodeSyncGetBlocksMsg \<and> getStatus (nm_blockSyncer pm) = synced)"
    and "wire = frame (node_karmem N) \<lparr>msg_Code = code, msg_Size = length payload, msg_Payload = payload, msg_ReceiveAt = 0\<rparr>"
  shows "\<exists>link pm1. readLoop (node_karmem N) now (pe_peer (nm_store pm p), wire @ rest) = Done (link, rest)
    \<and> Handle p (update_peer p (\<lambda>q. q\<lparr>pe_peer := link\<rparr>) pm) = Done pm1
    \<and> run_handler received answered (length (nm_handling pm)) N pm1 = Panics"
proof -
  define m where "m = \<lparr>msg_Code = code, msg_Size = length payload, msg_Payload = payload, msg_ReceiveAt = now\<rparr>"
  have code: "code \<noteq> StatusCodePingMsg" "code \<noteq> StatusCodePongMsg" "code < 256"
    "code = StatusCodeStatusMsg \<or> code = StatusCodeSyncGetBlocksMsg"
    using assms(5) by (auto simp: status_codes)
  define link where "link = (pe_peer (nm_store pm p))\<lparr>pp_msgQueue := [m]\<rparr>"
  have h: "p2p_handle m (pe_peer (nm_store pm p)) = Done link"
    using code assms(3) by (simp add: p2p_handle_def chan_send_def messageQueueCap_def m_def link_def)
  have "sendable \<lparr>msg_Code = code, msg_Size = length payload, msg_Payload = payload, msg_ReceiveAt = 0\<rparr>"
    using code(3) assms(4) by (simp add: sendable_def wf_message_def in_i64_def)
  then have "readLoop (node_karmem N) now (pe_peer (nm_store pm p), wire @ rest) = Done (link, rest)"
    using karmem.read_one [OF assms(1) _, of _ "pe_peer (nm_store pm p)" now rest] assms(2,6) h
    by (simp add: Stopped_def m_def)
  moreover define pm1 where "pm1 = update_peer p (\<lambda>q. q\<lparr>pe_peer := link\<lparr>pp_msgQueue := []\<rparr>\<rparr>) pm"
  have "Handle p (update_peer p (\<lambda>q. q\<lparr>pe_peer := link\<rparr>) pm) = Done (pm1\<lparr>nm_handling := nm_handling pm @ [(p, m)]\<rparr>)"
    using assms(2) code(4) by (auto simp: Handle_def update_peer_def Stopped_def link_def m_def pm1_def Let_def)
  moreover have "run_handler received answered (length (nm_handling pm)) N (pm1\<lparr>nm_handling := nm_handling pm @ [(p, m)]\<rparr>) = Panics"
    using assms(4,5) by (auto simp: run_handler_def m_def handlerMap_def status_codes handleStatusMsg_def
        handleSyncGetBlocksMsg_def payload_height_def pm1_def update_peer_def nth_append Let_def)
  ultimately show ?thesis by blast
qed

lemma short_payload_crashes_witness:
  "\<exists>pm link pm1. readLoop std_karmem 9 (pe_peer (nm_store pm 0), frame std_karmem
        \<lparr>msg_Code = StatusCodeStatusMsg, msg_Size = 1, msg_Payload = [7], msg_ReceiveAt = 0\<rparr>) = Done (link, [])
    \<and> Handle 0 (update_peer 0 (\<lambda>q. q\<lparr>pe_peer := link\<rparr>) pm) = Done pm1 \<and> run_handler 0 0 0 std_node pm1 = Panics"
proof -
  let ?pm = "crowd 1"
  have "crowd 1 = manager_NewPeer std_node [] [] (NewP2PManager std_node (undefined, None, None) True 0)"
    by (simp add: crowd_def HandleStream_def NewP2PManager_def)
  then have p: "\<not> Stopped (nm_store ?pm 0)" "pp_msgQueue (pe_peer (nm_store ?pm 0)) = []" "nm_handling ?pm = []"
    by (simp_all add: manager_NewPeer_def NewP2PManager_def NewPeer_def Stopped_def NewP2PPeer_def)
  have "karmem (node_karmem std_node) mw_len mw_cell" using std.karmem_axioms by simp
  from short_payload_crashes [OF this p(1,2), of "[7]" StatusCodeStatusMsg _ 9 "[]" 0 0] show ?thesis
    using p(3) by auto
qed

text \<open>The hash under which the known blocks remember a gossiped one.\<close>

definition gossiped_hash :: "('d, 'h, 'b, 't, 's, 'w, 'k, 'p) node_env \<Rightarrow> bytes \<Rightarrow> string" where
  "gossiped_hash N data = hex_encode (bh_BlockHash (blk_Header (DeserializeBlock (node_karmem N) data)))"

definition receiving :: "('d, 'h, 'b, 't, 's, 'k) P2PManager \<Rightarrow> bool" where
  "receiving pm \<longleftrightarrow> getStatus (nm_blockSyncer pm) = synced \<or> getStatus (nm_blockSyncer pm) = bufferSyncing"

lemma gossip_marks:
  assumes "lru (ne_known N) entries" and "receiving pm" and "gossipBlockSubscribe False data N pm = Done (True, pm')"
  shows "lru_contains (ne_known N) (nm_knownBlock pm') (gossiped_hash N data)"
proof -
  have "getStatus (nm_blockSyncer pm) \<noteq> blockSyncing" "getStatus (nm_blockSyncer pm) \<noteq> syncPaused"
    using assms(2) by (auto simp: receiving_def sync_codes)
  then have "lru_contains (ne_known N) (nm_knownBlock pm) (gossiped_hash N data)
      \<or> nm_knownBlock pm' = nm_knownBlock (markBlock N (gossiped_hash N data) pm)"
    using assms(3) by (auto simp: gossipBlockSubscribe_def gossiped_hash_def Let_def outcome_simps with_chain_Done markBlock_def split: if_splits)
  moreover have "\<not> lru_contains (ne_known N) (nm_knownBlock pm) (gossiped_hash N data)"
    using assms(2,3) by (auto simp: gossipBlockSubscribe_def gossiped_hash_def receiving_def sync_codes Let_def)
  ultimately show ?thesis using lru.contains_add [OF assms(1)] by (simp add: markBlock_def)
qed

lemma gossip_known:
  "receiving pm \<Longrightarrow> lru_contains (ne_known N) (nm_knownBlock pm) (gossiped_hash N data) \<Longrightarrow>
     gossipBlockSubscribe False data N pm = Done (False, pm)"
  by (auto simp: gossipBlockSubscribe_def gossiped_hash_def receiving_def sync_codes Let_def)

lemma gossip_routine_append:
  "gossip_routine N ms pm = Done (True, pm1) \<Longrightarrow> gossip_routine N (ms @ rest) pm = gossip_routine N rest pm1"
proof (induction N ms pm rule: gossip_routine.induct)
  case (2 N from_self data others ms pm)
  then show ?case by (cases "gossipBlockSubscribe from_self data N (others pm)") (auto split: prod.splits if_splits)
qed simp

lemma gossip_routine_one:
  "gossip_routine N (ms @ [(s, data, f)]) pm = Done (True, pm1) \<Longrightarrow>
     \<exists>pm0. gossip_routine N ms pm = Done (True, pm0) \<and> gossipBlockSubscribe s data N (f pm0) = Done (True, pm1)"
proof (induction N ms pm rule: gossip_routine.induct)
  case (2 N from_self data others ms pm)
  then show ?case by (cases "gossipBlockSubscribe from_self data N (others pm)") (auto split: prod.splits if_splits)
qed (auto simp: outcome_simps split: prod.splits if_splits)

text \<open>C33: A block that reaches a node twice ends its block reception. Let the subscription have taken in a gossiped block
  while the node is synced or synchronises its buffer, and go on. Then the block is remembered; and whatever
  messages follow and whatever the rest of the node does meanwhile, the next message with the same block that
  arrives while the block is remembered and the node is in one of these two states makes the routine return: of
  the messages behind it none is received, whatever they contain, and the node changes only by what the rest
  of it does.\<close>

theorem repeated_block_ends_gossip:
  assumes "lru (ne_known N) entries" and "gossip_routine N before pm = Done (True, pm0)" and "receiving (f pm0)"
    and "gossip_routine N (before @ [(False, data, f)]) pm = Done (True, pm1)"
  shows "lru_contains (ne_known N) (nm_knownBlock pm1) (gossiped_hash N data)
    \<and> (\<forall>between pm2 g data' behind. gossip_routine N between pm1 = Done (True, pm2) \<and> receiving (g pm2)
         \<and> gossiped_hash N data' = gossiped_hash N data
         \<and> lru_contains (ne_known N) (nm_knownBlock (g pm2)) (gossiped_hash N data) \<longrightarrow>
         gossip_routine N (before @ (False, data, f) # between @ (False, data', g) # behind) pm
           = Done (False, foldl (\<lambda>m (_, _, rest). rest m) (g pm2) behind))"
proof -
  have "gossipBlockSubscribe False data N (f pm0) = Done (True, pm1)"
    using gossip_routine_one [OF assms(4)] assms(2) by simp
  then have "lru_contains (ne_known N) (nm_knownBlock pm1) (gossiped_hash N data)" by (rule gossip_marks [OF assms(1,3)])
  moreover have "gossip_routine N (before @ (False, data, f) # between @ (False, data', g) # behind) pm
      = Done (False, foldl (\<lambda>m (_, _, rest). rest m) (g pm2) behind)"
    if "gossip_routine N between pm1 = Done (True, pm2)" "receiving (g pm2)" "gossiped_hash N data' = gossiped_hash N data"
      "lru_contains (ne_known N) (nm_knownBlock (g pm2)) (gossiped_hash N data)" for between pm2 g data' behind
    using gossip_routine_append [OF assms(4), of "between @ (False, data', g) # behind"] gossip_routine_append [OF that(1)]
      gossip_known [of "g pm2" N data'] that(2-4) by simp
  ultimately show ?thesis by blast
qed

text \<open>A block whose encoded parameters decode, and whose draw does not verify over the one-point curve.\<close>

definition relayed_block :: Block where
  "relayed_block = sample_block\<lparr>blk_Header := (blk_Header sample_block)
     \<lparr>bh_Params := the (SerializeGeneralParams std_karmem sample_params)\<rparr>\<rparr>"

lemma relayed_block_ok:
  "\<exists>bs. SerializeBlock std_karmem relayed_block = Some bs \<and> DeserializeBlock std_karmem bs = relayed_block"
  "DeserializeGeneralParams std_karmem (bh_Params (blk_Header relayed_block)) = sample_params"
  "blk_Height relayed_block = 1"
proof -
  obtain pb where pb: "SerializeGeneralParams std_karmem sample_params = Some pb" "length pb < 1000"
    "DeserializeGeneralParams std_karmem pb = sample_params"
    using std.general_roundtrip [of sample_params] by (auto simp: wf_general_def sample_params_def)
  have "wf_block relayed_block" using wf_sample_block
    by (simp add: relayed_block_def wf_block_def wf_header_def)
  moreover have "block_size relayed_block < 2 ^ 32"
    using pb by (simp add: relayed_block_def block_size_def tx_size_def body_tail_def sample_block_def sample_tx_def)
  ultimately show "\<exists>bs. SerializeBlock std_karmem relayed_block = Some bs \<and> DeserializeBlock std_karmem bs = relayed_block"
    using std.block_roundtrip [of relayed_block] by auto
  show "DeserializeGeneralParams std_karmem (bh_Params (blk_Header relayed_block)) = sample_params"
    using pb by (simp add: relayed_block_def)
  show "blk_Height relayed_block = 1" by (simp add: relayed_block_def sample_block_def sample_header_def)
qed

lemma repeated_block_ends_gossip_witness:
  "\<exists>data pm pm'. gossip_routine std_node [(False, data, \<lambda>m. m)] pm = Done (True, pm')
    \<and> (\<forall>behind. gossip_routine std_node ((False, data, \<lambda>m. m) # (False, data, \<lambda>m. m) # behind) pm
         = Done (False, foldl (\<lambda>m (_, _, rest). rest m) pm' behind))"
proof -
  obtain bs where bs: "DeserializeBlock std_karmem bs = relayed_block" using relayed_block_ok(1) by blast
  define pm where "pm = SetSynced (NewP2PManager std_node (undefined, None, None) True 0)"
  have s: "getStatus (nm_blockSyncer pm) = synced"
    by (simp add: pm_def SetSynced_def NewP2PManager_def setSynced_def getStatus_def)
  have v: "verifyBlockVRF std_node relayed_block = Done False"
    by (simp add: verifyBlockVRF_def relayed_block_ok(2) VRFCheckRemoteConsensus_def VRFVerify_def ScalarMult_nil_def)
      (simp add: std_node_def point_curve_def Bytes2PublicKey_def MarshalCompressed_def sample_params_def be_dec_def Let_def)
  have "nm_knownBlock pm = lru_new list_lru maxKnownBlock_p2p"
    by (simp add: pm_def SetSynced_def NewP2PManager_def)
  then have "\<not> lru_contains list_lru (nm_knownBlock pm) k" for k by (simp add: list_lru_def)
  then obtain pm' where g: "gossipBlockSubscribe False bs std_node pm = Done (True, pm')" "nm_blockSyncer pm' = nm_blockSyncer pm"
    using s v by (simp add: gossipBlockSubscribe_def Let_def bs sync_codes relayed_block_ok(3) markBlock_def)
  have l: "lru (ne_known std_node) list_entries" using list_lru.lru_axioms by simp
  have "gossip_routine std_node [] pm = Done (True, pm)" "receiving pm" "receiving pm'"
    "gossip_routine std_node ([] @ [(False, bs, \<lambda>m. m)]) pm = Done (True, pm')" "gossip_routine std_node [] pm' = Done (True, pm')"
    using s g by (simp_all add: receiving_def)
  note run = this
  note f = repeated_block_ends_gossip [OF l run(1,2,4)]
  have "gossip_routine std_node ([] @ (False, bs, \<lambda>m. m) # [] @ (False, bs, \<lambda>m. m) # behind) pm
      = Done (False, foldl (\<lambda>m (_, _, rest). rest m) pm' behind)" for behind
    using f [THEN conjunct2, THEN spec, of "[]", THEN spec, of pm', THEN spec, of "\<lambda>m. m", THEN spec, of bs, THEN spec, of behind]
      f [THEN conjunct1] run(3,5) by simp
  then show ?thesis using g(1) by (intro exI [of _ bs] exI [of _ pm] exI [of _ pm']) simp
qed

text \<open>C31: One block stops every synced node it reaches. A block, from a peer or by gossip, whose public key is
  not the encoding of a curve point, or whose VRF output is none, makes the node panic: the check of its
  draw multiplies with nil coordinates.\<close>

theorem undecodable_block_stops_node:
  assumes "chain_world (ne_chain N) len cell content eh eb et" and "fits b" and "blk_Height b \<noteq> 0"
    and "getStatus (nm_blockSyncer pm) = synced"
    and "ec_Unmarshal (ne_curve N) (bh_PublicKey (blk_Header b)) = None
       \<or> ec_Unmarshal (ne_curve N) (gn_RandomNumber (DeserializeGeneralParams (node_karmem N) (bh_Params (blk_Header b)))) = None"
  shows "\<exists>bs. SerializeBlock (node_karmem N) b = Some bs \<and> handleBlockMsg bs p N pm = Panics
    \<and> (\<not> lru_contains (ne_known N) (nm_knownBlock pm) (hex_encode (bh_BlockHash (blk_Header b))) \<longrightarrow>
         gossipBlockSubscribe False bs N pm = Panics)"
proof -
  obtain bs where bs: "SerializeBlock (node_karmem N) b = Some bs" "DeserializeBlock (node_karmem N) bs = b"
    using chain_world.block_bytes [OF assms(1,2)] by blast
  have v: "verifyBlockVRF N b = Panics"
    using undecodable_vrf_panics assms(5) by (simp add: verifyBlockVRF_def Let_def Bytes2PublicKey_def disj_commute)
  show ?thesis
    using assms(3,4) bs v by (simp add: handleBlockMsg_def gossipBlockSubscribe_def Let_def sync_codes)
qed

lemma undecodable_block_stops_node_witness:
  "\<exists>bs pm. SerializeBlock std_karmem sample_block = Some bs \<and> getStatus (nm_blockSyncer pm) = synced
    \<and> handleBlockMsg bs 0 (std_node\<lparr>ne_curve := point_curve\<lparr>ec_Unmarshal := \<lambda>_. None\<rparr>\<rparr>) pm = Panics"
proof -
  define N where "N = std_node\<lparr>ne_curve := point_curve\<lparr>ec_Unmarshal := \<lambda>_. None\<rparr>\<rparr>"
  define pm where "pm = SetSynced (NewP2PManager N (undefined, None, None) True 0)"
  have s: "getStatus (nm_blockSyncer pm) = synced"
    by (simp add: pm_def SetSynced_def NewP2PManager_def setSynced_def getStatus_def)
  have w: "chain_world (ne_chain N) mw_len mw_cell (\<lambda>d. d) list_entries list_entries list_entries"
    using std_world.chain_world_axioms by (simp add: N_def)
  have h: "blk_Height sample_block \<noteq> 0" by (simp add: sample_block_def sample_header_def)
  have u: "ec_Unmarshal (ne_curve N) x = None" for x by (simp add: N_def)
  have k: "node_karmem N = std_karmem" by (simp add: N_def)
  show ?thesis
    using undecodable_block_stops_node [OF w sample_block_fits h s disjI1 [OF u], of 0] s unfolding k unfolding N_def by blast
qed

section \<open>Two nodes\<close>

text \<open>C6: A synced node serves its chain, and the asking node gets the block it asked for. A request for a height
  is answered with the encoding of the chain's block at that height, queued to the asking peer, and
  not at all when the chain has none; a requester that handles the answer holds exactly that block at
  exactly that height and may ask its peer again. Serving leaves the chain as it was.\<close>

theorem sync_request_served:
  assumes "chain_world (ne_chain N) len cell content eh eb et"
    and "chain_inv (ne_chain N) content eh eb et bs (fst (nm_chain B))"
    and "getStatus (nm_blockSyncer B) = synced" and "in_i64 h"
    and "length (pp_sendQueue (pe_peer (nm_store B p))) < 5000" and "node_karmem M = node_karmem N"
  shows "\<exists>B'. handleSyncGetBlocksMsg (height_payload h) p N B = Done B'
    \<and> chain_inv (ne_chain N) content eh eb et bs (fst (nm_chain B'))
    \<and> (case height_at bs h of
         None \<Rightarrow> nm_store B' = nm_store B
       | Some b \<Rightarrow> \<exists>data. pp_sendQueue (pe_peer (nm_store B' p)) = pp_sendQueue (pe_peer (nm_store B p))
             @ [\<lparr>msg_Code = StatusCodeSyncBlocksMsg, msg_Size = length data mod 2 ^ 32, msg_Payload = data, msg_ReceiveAt = 0\<rparr>]
           \<and> (\<exists>A'. handleSyncBlockMsg data q M A = Done A' \<and> by_blockMap (nm_blockSyncer A') h = Some b
                \<and> \<not> MarkSynced (nm_store A' q)))"
proof -
  note inv = chain_world.inv_def [OF assms(1)]
  obtain ch pool calc where c: "nm_chain B = (ch, pool, calc)" by (cases "nm_chain B")
  obtain r c1 c2 where r: "GetBlockByHeight (ne_chain N) h ch = Done (r, ch\<lparr>ch_blockHeightMap := c1, ch_blockCache := c2\<rparr>)"
    "chain_inv (ne_chain N) content eh eb et bs (ch\<lparr>ch_blockHeightMap := c1, ch_blockCache := c2\<rparr>)"
    "case height_at bs h of None \<Rightarrow> \<exists>e. r = Inl e | Some b \<Rightarrow> r = Inr b"
    using chain_world.GetBlockByHeight_spec [OF assms(1), of bs ch h] assms(2,4) c unfolding inv by auto
  define B1 where "B1 = B\<lparr>nm_chain := (ch\<lparr>ch_blockHeightMap := c1, ch_blockCache := c2\<rparr>, pool, calc)\<rparr>"
  have run: "handleSyncGetBlocksMsg (height_payload h) p N B =
      (case r of Inl err \<Rightarrow> Done B1 | Inr block \<Rightarrow> with_peer p (respondSyncGetBlock (node_karmem N) block) B1)"
    using assms(3,4) r(1) c by (simp add: handleSyncGetBlocksMsg_def payload_height_of B1_def Let_def
        split: sum.split)
  have inv1: "chain_inv (ne_chain N) content eh eb et bs (fst (nm_chain B1))" "nm_store B1 = nm_store B"
    using r(2) by (simp_all add: B1_def)
  show ?thesis
  proof (cases "height_at bs h")
    case None
    then show ?thesis using r(3) run inv1 by auto
  next
    case (Some b)
    have "chain_of bs" using assms(2) by (simp add: chain_inv_def)
    then have b: "fits b" "blk_Height b = h" using Some height_at_eq chain_fits by blast+
    then obtain data where d: "SerializeBlock (node_karmem N) b = Some data" "DeserializeBlock (node_karmem N) data = b"
      using chain_world.block_bytes [OF assms(1)] by blast
    define B2 where "B2 = update_peer p (\<lambda>q. q\<lparr>pe_peer := (pe_peer q)\<lparr>pp_sendQueue := pp_sendQueue (pe_peer q)
      @ [\<lparr>msg_Code = StatusCodeSyncBlocksMsg, msg_Size = length data mod 2 ^ 32, msg_Payload = data, msg_ReceiveAt = 0\<rparr>]\<rparr>\<rparr>) B1"
    have "handleSyncGetBlocksMsg (height_payload h) p N B = Done B2"
      using run r(3) Some d(1) assms(5) inv1(2)
      by (simp add: with_peer_def respondSyncGetBlock_def send_encoded_def peer_Send_def Send_def chan_send_def
          messageQueueCap_def B2_def update_peer_def)
    moreover have "pp_sendQueue (pe_peer (nm_store B2 p)) = pp_sendQueue (pe_peer (nm_store B p))
        @ [\<lparr>msg_Code = StatusCodeSyncBlocksMsg, msg_Size = length data mod 2 ^ 32, msg_Payload = data, msg_ReceiveAt = 0\<rparr>]"
      "nm_chain B2 = nm_chain B1" using inv1(2) by (simp_all add: B2_def update_peer_def)
    moreover have "\<exists>A'. handleSyncBlockMsg data q M A = Done A' \<and> by_blockMap (nm_blockSyncer A') h = Some b
        \<and> \<not> MarkSynced (nm_store A' q)"
      using d(2) b(2) assms(6)
      by (simp add: handleSyncBlockMsg_def appendBlockToSyncer_def syncer_appendBlock_def update_peer_def)
    ultimately show ?thesis using inv1(1) Some by auto
  qed
qed

lemma sync_request_served_witness:
  "\<exists>B B' data. handleSyncGetBlocksMsg (height_payload 0) 0 std_node B = Done B'
    \<and> map msg_Payload (pp_sendQueue (pe_peer (nm_store B' 0))) = [data]
    \<and> (\<exists>A'. handleSyncBlockMsg data 0 std_node (crowd 1) = Done A'
         \<and> by_blockMap (nm_blockSyncer A') 0 = Some sample_genesis)"
proof -
  obtain ch where c: "chain_inv std_env (\<lambda>d. d) list_entries list_entries list_entries [sample_genesis] ch"
    using std_genesis [of tiny_json] by blast
  define B where "B = SetSynced ((crowd 1)\<lparr>nm_chain := (ch, None, None)\<rparr>)"
  have "crowd 1 = manager_NewPeer std_node [] [] (NewP2PManager std_node (undefined, None, None) True 0)"
    by (simp add: crowd_def HandleStream_def NewP2PManager_def)
  then have e: "pp_sendQueue (pe_peer (nm_store B 0)) = []"
    by (simp add: B_def SetSynced_def manager_NewPeer_def NewP2PManager_def NewPeer_def NewP2PPeer_def)
  have b: "getStatus (nm_blockSyncer B) = synced" "chain_inv (ne_chain std_node) (\<lambda>d. d) list_entries list_entries list_entries
      [sample_genesis] (fst (nm_chain B))" "chain_world (ne_chain std_node) mw_len mw_cell (\<lambda>d. d) list_entries list_entries list_entries"
    using c std_world.chain_world_axioms by (simp_all add: B_def SetSynced_def setSynced_def getStatus_def)
  have h: "height_at [sample_genesis] 0 = Some sample_genesis" by (simp add: height_at_def sample_genesis_def)
  obtain B' data where d: "handleSyncGetBlocksMsg (height_payload 0) 0 std_node B = Done B'"
    "pp_sendQueue (pe_peer (nm_store B' 0)) = [\<lparr>msg_Code = StatusCodeSyncBlocksMsg, msg_Size = length data mod 2 ^ 32,
      msg_Payload = data, msg_ReceiveAt = 0\<rparr>]"
    "\<exists>A'. handleSyncBlockMsg data 0 std_node (crowd 1) = Done A' \<and> by_blockMap (nm_blockSyncer A') 0 = Some sample_genesis"
    using sync_request_served [OF b(3,2,1), of 0 0 std_node 0 "crowd 1"] e h by (auto simp: in_i64_def)
  then show ?thesis by (intro exI [of _ B] exI [of _ B'] exI [of _ data]) simp
qed

lemma view_slice_short: "length mem \<le> n \<Longrightarrow> length (view_slice K mem v k) \<le> n"
  by (auto simp: view_slice_def Let_def min_le_iff_disj)

text \<open>Transactions travel between nodes in one datagram of at most 1024 bytes, and unverified. A received
  transaction that fits, is new and decodes goes into the pool and on to others as it is, whatever its
  signature; whatever is sent, the received transaction has at most 1024 bytes of data, so a
  transaction with more data never arrives.\<close>

theorem transaction_gossip_limits:
  assumes "karmem (node_karmem N) len cell" and "wf_tx t" and "nm_chain pm = (ch, Some pool, calc)"
    and "\<not> lru_contains (ne_known N) (nm_knownTransaction pm) (tx_hash_hex t)"
    and "length (nm_txBroadcastQueue pm) < 10240"
  shows "\<exists>dg. SerializeTransaction (node_karmem N) t = Some dg
    \<and> (length dg \<le> 1024 \<longrightarrow> (\<exists>pm'. TransactionUDP dg N pm = Done pm' \<and> nm_chain pm' = (ch, Some (Add t pool), calc)
         \<and> nm_txBroadcastQueue pm' = nm_txBroadcastQueue pm @ [t]))
    \<and> (\<forall>dg' pm'. TransactionUDP dg' N pm = Done pm' \<and> pm' \<noteq> pm \<longrightarrow>
         (\<exists>t'. nm_txBroadcastQueue pm' = nm_txBroadcastQueue pm @ [t'] \<and> length (tb_Data (tx_Body t')) \<le> 1024))"
proof -
  obtain dg where dg: "SerializeTransaction (node_karmem N) t = Some dg"
    "length dg < 2 ^ 32 \<longrightarrow> DeserializeTransaction (node_karmem N) dg = t"
    using karmem.tx_roundtrip [OF assms(1,2)] by blast
  have queued: "nm_txBroadcastQueue pm' = nm_txBroadcastQueue pm @ [t']" if "AddTransaction N t' pm = Done pm'" for t' pm'
    using that by (auto simp: AddTransaction_def markTransaction_def Let_def outcome_simps split: prod.splits option.splits)
  have "length (tb_Data (tx_Body (DeserializeTransaction (node_karmem N) (take 1024 dg')))) \<le> 1024" for dg'
    by (simp add: DeserializeTransaction_def Transaction_Read_def TransactionBody_Read_def TransactionBodyViewer_def
        view_slice_short Let_def)
  moreover have "\<exists>pm'. TransactionUDP dg N pm = Done pm' \<and> nm_chain pm' = (ch, Some (Add t pool), calc)
      \<and> nm_txBroadcastQueue pm' = nm_txBroadcastQueue pm @ [t]" if "length dg \<le> 1024"
    using dg(2) that assms(3-5)
    by (simp add: TransactionUDP_def udpBufferSize_def tx_hash_hex_def AddTransaction_def markTransaction_def
        chan_send_def txBroadcastSize_def)
  ultimately show ?thesis using dg(1) queued
    by (auto simp: TransactionUDP_def udpBufferSize_def Let_def split: if_splits)
qed

lemma transaction_gossip_limits_witness:
  "\<exists>ch dg pm'. SerializeTransaction std_karmem sample_tx = Some dg
    \<and> TransactionUDP dg std_node (NewP2PManager std_node (ch, Some (NewTxPool None), None) True 0) = Done pm'
    \<and> nm_chain pm' = (ch, Some (Add sample_tx (NewTxPool None)), None)"
proof -
  define pm where "pm = NewP2PManager std_node (undefined, Some (NewTxPool None), None) True 0"
  have p: "nm_chain pm = (undefined, Some (NewTxPool None), None)" "length (nm_txBroadcastQueue pm) < 10240"
    "\<not> lru_contains (ne_known std_node) (nm_knownTransaction pm) (tx_hash_hex sample_tx)"
    by (simp_all add: pm_def NewP2PManager_def) (simp add: list_lru_def)
  have k: "karmem (node_karmem std_node) mw_len mw_cell" using std.karmem_axioms by simp
  obtain dg where dg: "SerializeTransaction std_karmem sample_tx = Some dg" "length dg \<le> 1024"
    using std.tx_roundtrip [OF wf_sample_tx] by (auto simp: tx_size_def body_tail_def sample_tx_def)
  obtain pm' where "TransactionUDP dg std_node pm = Done pm'" "nm_chain pm' = (undefined, Some (Add sample_tx (NewTxPool None)), None)"
    using transaction_gossip_limits [OF k wf_sample_tx p(1,3,2)] dg by auto
  then show ?thesis using dg(1) unfolding pm_def by blast
qed

end
