(* ===== verification/Rpc.thy ===== *)
theory Rpc
  imports NodeProperties
begin

text \<open>
  rpc/blockchain.go, rpc/transaction.go, rpc/node.go and utils/km_pb.go: the services clients call, as
  functions of the request and the manager. The server runs before the manager is made: until then the
  singleton is \<open>None\<close>. An unset field of a request is \<open>None\<close>; gRPC does not catch panics of a handler.
  The clock is an argument.
\<close>

section \<open>Rendering\<close>

record PbTransaction =
  pt_Hash :: string
  pt_Address :: string
  pt_Receiver :: string
  pt_Gas :: nat
  pt_Nonce :: nat
  pt_Event :: string
  pt_Opt :: string
  pt_State :: string
  pt_Data :: string
  pt_Expire :: nat
  pt_Timestamp :: nat
  pt_Public :: string
  pt_Signature :: string
  pt_Height :: nat
  pt_BlockHash :: string
  pt_Index :: nat

record PbBlockHeader =
  ph_Timestamp :: nat
  ph_PrevBlockHash :: string
  ph_BlockHash :: string
  ph_MerkleRoot :: string
  ph_Height :: nat
  ph_Public :: string
  ph_Params :: string
  ph_GasLimit :: nat

record PbBlock =
  pbl_Header :: PbBlockHeader
  pbl_Transactions :: "PbTransaction list"

definition hex0x :: "bytes \<Rightarrow> string" where
  "hex0x bs = ''0x'' @ hex_encode bs"

definition KarmemTransaction2Protobuf :: "Transaction \<Rightarrow> PbTransaction" where
  "KarmemTransaction2Protobuf tx =
     (let b = tx_Body tx in
      \<lparr>pt_Hash = hex0x (tb_Hash b), pt_Address = hex0x (tb_Address b), pt_Receiver = hex0x (tb_Receiver b),
       pt_Gas = u64_of_i64 (tb_Gas b), pt_Nonce = u64_of_i64 (tb_Nonce b), pt_Event = hex0x (tb_Event b),
       pt_Opt = hex0x (tb_Opt b), pt_State = hex0x (tb_State b), pt_Data = hex0x (tb_Data b),
       pt_Expire = u64_of_i64 (tb_Expire b), pt_Timestamp = u64_of_i64 (tb_Timestamp b),
       pt_Public = hex0x (tb_Public b), pt_Signature = hex0x (tb_Signature b),
       pt_Height = u64_of_i64 (tb_Height b), pt_BlockHash = hex0x (tb_BlockHash b),
       pt_Index = u64_of_i64 (tb_Index b)\<rparr>)"

text \<open>The timestamp is that of the answer, not the block's.\<close>

definition KarmemBlock2Protobuf :: "int \<Rightarrow> Block \<Rightarrow> bool \<Rightarrow> PbBlock" where
  "KarmemBlock2Protobuf now block full =
     \<lparr>pbl_Header = \<lparr>ph_Timestamp = u64_of_i64 now, ph_PrevBlockHash = ''0x'' @ PrevBlockHash block,
        ph_BlockHash = ''0x'' @ BlockHash block, ph_MerkleRoot = hex0x (bh_MerkleRoot (blk_Header block)),
        ph_Height = u64_of_i64 (blk_Height block), ph_Public = hex0x (bh_PublicKey (blk_Header block)),
        ph_Params = hex0x (bh_Params (blk_Header block)), ph_GasLimit = 0\<rparr>,
      pbl_Transactions = (if \<not> full then []
        else map KarmemTransaction2Protobuf (placed_from block 0 (blk_Transactions block)))\<rparr>"

section \<open>Reading the chain\<close>

definition removePrefixIfExists :: "string \<Rightarrow> string outcome" where
  "removePrefixIfExists hexString =
     (if length hexString < 2 then Panics
      else Done (if take 2 hexString = ''0x'' then drop 2 hexString else hexString))"

record GetBlockReq =
  gb_number :: "nat option"
  gb_hash :: "string option"
  gb_full :: "bool option"

record GetTransactionReq =
  gt_blockNumber :: "nat option"
  gt_blockHash :: "string option"
  gt_hash :: "string option"
  gt_index :: "nat option"

text \<open>Every answer carries the time it was made; errors are texts.\<close>

type_synonym ('r, 'd, 'h, 'b, 't, 's, 'k) rpc_result =
  "((string + nat \<times> 'r) \<times> ('d, 'h, 'b, 't, 's, 'k) P2PManager option) outcome"

text \<open>\<open>GetP2PManager\<close> gives the singleton; asking a nil manager for its chain panics.\<close>

definition GetBlockChain :: "('d, 'h, 'b, 't, 's, 'k) P2PManager option \<Rightarrow> ('d, 'h, 'b, 't, 's) BlockChain outcome" where
  "GetBlockChain inst = (case inst of None \<Rightarrow> Panics | Some pm \<Rightarrow> Done (fst (nm_chain pm)))"

definition set_chain ::
    "('d, 'h, 'b, 't, 's) BlockChain \<Rightarrow> ('d, 'h, 'b, 't, 's, 'k) P2PManager option
       \<Rightarrow> ('d, 'h, 'b, 't, 's, 'k) P2PManager option" where
  "set_chain ch inst = map_option (\<lambda>pm. pm\<lparr>nm_chain := (ch, snd (nm_chain pm))\<rparr>) inst"

lemma GetBlockChain_simps [simp]: "GetBlockChain None = Panics" "GetBlockChain (Some pm) = Done (fst (nm_chain pm))"
  by (simp_all add: GetBlockChain_def)

definition rpc_GetBlockNumber ::
    "int \<Rightarrow> ('d, 'h, 'b, 't, 's, 'k) P2PManager option \<Rightarrow> (nat, 'd, 'h, 'b, 't, 's, 'k) rpc_result" where
  "rpc_GetBlockNumber now inst =
     bindO (GetBlockChain inst) (\<lambda>chain. Done (Inr (u64_of_i64 now, u64_of_i64 (Height chain)), inst))"

text \<open>After a failed lookup the handler goes on with a nil block.\<close>

definition rpc_GetBlockByHash ::
    "('d, 'h, 'b, 't, 's, 'w, 'k, 'p) node_env \<Rightarrow> int \<Rightarrow> GetBlockReq \<Rightarrow> ('d, 'h, 'b, 't, 's, 'k) P2PManager option
       \<Rightarrow> (PbBlock, 'd, 'h, 'b, 't, 's, 'k) rpc_result" where
  "rpc_GetBlockByHash N now req inst =
     (case gb_hash req of
        None \<Rightarrow> Done (Inl ''block hash is required'', inst)
      | Some hash \<Rightarrow>
          bindO (removePrefixIfExists hash) (\<lambda>strHash.
            case hex_decode strHash of
              None \<Rightarrow> Done (Inl ''encoding/hex'', inst)
            | Some byteHash \<Rightarrow>
                bindO (GetBlockChain inst) (\<lambda>chain.
                bindO (to_array 32 byteHash) (\<lambda>h.
                  case (GetBlockByHash (ne_chain N) h chain, gb_full req) of
                    ((Inl err, ch), _) \<Rightarrow> Panics
                  | ((Inr block, ch), None) \<Rightarrow> Panics
                  | ((Inr block, ch), Some full) \<Rightarrow>
                      Done (Inr (u64_of_i64 now, KarmemBlock2Protobuf now block full), set_chain ch inst)))))"

definition rpc_GetBlockByNumber ::
    "('d, 'h, 'b, 't, 's, 'w, 'k, 'p) node_env \<Rightarrow> int \<Rightarrow> GetBlockReq \<Rightarrow> ('d, 'h, 'b, 't, 's, 'k) P2PManager option
       \<Rightarrow> (PbBlock, 'd, 'h, 'b, 't, 's, 'k) rpc_result" where
  "rpc_GetBlockByNumber N now req inst =
     (case gb_number req of
        None \<Rightarrow> Done (Inl ''block height is required'', inst)
      | Some height \<Rightarrow>
          (let full = (case gb_full req of None \<Rightarrow> False | Some f \<Rightarrow> f) in
           bindO (GetBlockChain inst) (\<lambda>chain.
           bindO (GetBlockByHeight (ne_chain N) (i64_of_u64 height) chain) (\<lambda>(found, ch).
             case found of
               Inl err \<Rightarrow> Done (Inl ''Get block by height failed.'', set_chain ch inst)
             | Inr block \<Rightarrow> Done (Inr (u64_of_i64 now, KarmemBlock2Protobuf now block full), set_chain ch inst)))))"

definition rpc_GetTransactionByHash ::
    "('d, 'h, 'b, 't, 's, 'w, 'k, 'p) node_env \<Rightarrow> int \<Rightarrow> GetTransactionReq \<Rightarrow> ('d, 'h, 'b, 't, 's, 'k) P2PManager option
       \<Rightarrow> (PbTransaction, 'd, 'h, 'b, 't, 's, 'k) rpc_result" where
  "rpc_GetTransactionByHash N now req inst =
     (case gt_hash req of
        None \<Rightarrow> Done (Inl ''transaction hash is empty'', inst)
      | Some txHash \<Rightarrow>
          bindO (removePrefixIfExists txHash) (\<lambda>strHash.
          bindO (GetBlockChain inst) (\<lambda>chain.
            case hex_decode strHash of
              None \<Rightarrow> Done (Inl ''encoding/hex'', inst)
            | Some hash \<Rightarrow>
                bindO (to_array 32 hash) (\<lambda>h.
                  case GetTransactionByHash (ne_chain N) h chain of
                    (Inl err, ch) \<Rightarrow> Done (Inl ''Get transaction by hash failed.'', set_chain ch inst)
                  | (Inr tx, ch) \<Rightarrow> Done (Inr (u64_of_i64 now, KarmemTransaction2Protobuf tx), set_chain ch inst)))))"

text \<open>Picking a transaction of a block; the index is unsigned.\<close>

definition nth_transaction :: "int \<Rightarrow> Block \<Rightarrow> nat \<Rightarrow> string + nat \<times> PbTransaction" where
  "nth_transaction now block index =
     (if index \<ge> length (blk_Transactions block) then Inl ''index out of range''
      else Inr (u64_of_i64 now, KarmemTransaction2Protobuf (blk_Transactions block ! index)))"

definition rpc_GetTransactionByBlockHashAndIndex ::
    "('d, 'h, 'b, 't, 's, 'w, 'k, 'p) node_env \<Rightarrow> int \<Rightarrow> GetTransactionReq \<Rightarrow> ('d, 'h, 'b, 't, 's, 'k) P2PManager option
       \<Rightarrow> (PbTransaction, 'd, 'h, 'b, 't, 's, 'k) rpc_result" where
  "rpc_GetTransactionByBlockHashAndIndex N now req inst =
     (case (gt_blockHash req, gt_index req) of
        (Some hash, Some index) \<Rightarrow>
          (case hex_decode hash of
             None \<Rightarrow> Done (Inl ''encoding/hex'', inst)
           | Some byteHash \<Rightarrow>
               bindO (GetBlockChain inst) (\<lambda>chain.
               bindO (to_array 32 byteHash) (\<lambda>h.
                 case GetBlockByHash (ne_chain N) h chain of
                   (Inl err, ch) \<Rightarrow> Panics
                 | (Inr block, ch) \<Rightarrow> Done (nth_transaction now block index, set_chain ch inst))))
      | _ \<Rightarrow> Done (Inl ''block hash or index required.'', inst))"

definition rpc_GetTransactionByBlockNumberAndIndex ::
    "('d, 'h, 'b, 't, 's, 'w, 'k, 'p) node_env \<Rightarrow> int \<Rightarrow> GetTransactionReq \<Rightarrow> ('d, 'h, 'b, 't, 's, 'k) P2PManager option
       \<Rightarrow> (PbTransaction, 'd, 'h, 'b, 't, 's, 'k) rpc_result" where
  "rpc_GetTransactionByBlockNumberAndIndex N now req inst =
     (case (gt_blockNumber req, gt_index req) of
        (Some height, Some index) \<Rightarrow>
          bindO (GetBlockChain inst) (\<lambda>chain.
          bindO (GetBlockByHeight (ne_chain N) (i64_of_u64 height) chain) (\<lambda>(found, ch).
            case found of
              Inl err \<Rightarrow> Done (Inl ''Get block by height failed.'', set_chain ch inst)
            | Inr block \<Rightarrow> Done (nth_transaction now block index, set_chain ch inst)))
      | _ \<Rightarrow> Done (Inl ''block hash or index required.'', inst))"

record ReadContractAddressReq =
  rc_address :: "string option"
  rc_key :: "string option"

text \<open>A key that was never written reads as the empty string.\<close>

definition rpc_ReadContractAddress ::
    "('d, 'h, 'b, 't, 's, 'w, 'k, 'p) node_env \<Rightarrow> ReadContractAddressReq \<Rightarrow> ('d, 'h, 'b, 't, 's, 'k) P2PManager option
       \<Rightarrow> (string + string) outcome" where
  "rpc_ReadContractAddress N req inst =
     bindO (GetBlockChain inst) (\<lambda>chain.
       case (rc_address req, rc_key req) of
         (Some address, Some key) \<Rightarrow>
           Done (case ReadAddressData (ne_chain N) address key chain of
                   Inl ErrNotFound \<Rightarrow> Inr []
                 | Inl (ErrStore err) \<Rightarrow> Inl err
                 | Inr dat \<Rightarrow> Inr (string_of_bytes dat))
       | _ \<Rightarrow> Panics)"

section \<open>Transactions and the node\<close>

text \<open>The handler that builds a transaction hands it to the manager and answers with its hash.\<close>

definition rpc_SendTransactionWithData ::
    "('d, 'h, 'b, 't, 's, 'w, 'k, 'p) node_env \<Rightarrow> (bytes \<Rightarrow> bytes) \<Rightarrow> ('p PrivateKey \<Rightarrow> bytes \<Rightarrow> string + bytes)
       \<Rightarrow> int \<Rightarrow> SendTransactionWithDataReq \<Rightarrow> ('d, 'h, 'b, 't, 's, 'k) P2PManager option
       \<Rightarrow> ((string + string) \<times> ('d, 'h, 'b, 't, 's, 'k) P2PManager option) outcome" where
  "rpc_SendTransactionWithData N sha1 SignASN1 now req inst =
     bindO (SendTransactionWithData (node_karmem N) (ne_curve N) (ce_sha (ne_chain N)) sha1 SignASN1 (ne_prv N) now req) (\<lambda>res.
       case res of
         Inl err \<Rightarrow> Done (Inl err, inst)
       | Inr tx \<Rightarrow>
           (case inst of
              None \<Rightarrow> Panics
            | Some pm \<Rightarrow> bindO (AddTransaction N tx pm) (\<lambda>pm1. Done (Inr (tx_hash_hex tx), Some pm1))))"

datatype SubmitTransactionStatus = SUCCESS | SIGNATURE_FAILED | DECODE_FAILED | DESERIALIZE_FAILED | FORMAT_ERROR

definition SubmitTransaction ::
    "('d, 'h, 'b, 't, 's, 'w, 'k, 'p) node_env \<Rightarrow> ('p option \<Rightarrow> bytes \<Rightarrow> bytes \<Rightarrow> bool outcome) \<Rightarrow> string option
       \<Rightarrow> ('d, 'h, 'b, 't, 's, 'k) P2PManager option
       \<Rightarrow> (SubmitTransactionStatus \<times> ('d, 'h, 'b, 't, 's, 'k) P2PManager option) outcome" where
  "SubmitTransaction N VerifyASN1 signedTransaction inst =
     (case hex_decode (case signedTransaction of None \<Rightarrow> [] | Some s \<Rightarrow> s) of
        None \<Rightarrow> Done (DECODE_FAILED, inst)
      | Some bytesTransaction \<Rightarrow>
          (let transaction = DeserializeTransaction (node_karmem N) bytesTransaction in
           bindO (Verify_tx (node_karmem N) (ne_curve N) (ce_sha (ne_chain N)) VerifyASN1 transaction) (\<lambda>verified.
             if \<not> verified then Done (SIGNATURE_FAILED, inst)
             else case inst of
               None \<Rightarrow> Done (FORMAT_ERROR, inst)
             | Some pm \<Rightarrow> bindO (AddTransaction N transaction pm) (\<lambda>pm1. Done (SUCCESS, Some pm1)))))"

definition ConnectedNodeList :: "('d, 'h, 'b, 't, 's, 'k) P2PManager option \<Rightarrow> (string \<times> string list) outcome" where
  "ConnectedNodeList inst = (case inst of None \<Rightarrow> Panics | Some pm \<Rightarrow> Done (GetConnectNodeInfo pm))"

text \<open>Every call passes the limiter first; \<open>allow\<close> is its answer.\<close>

definition UnaryInterceptor :: "bool \<Rightarrow> ('q \<Rightarrow> (string + 'r) outcome) \<Rightarrow> 'q \<Rightarrow> (string + 'r) outcome" where
  "UnaryInterceptor allow handler req = (if \<not> allow then Done (Inl ''Too many requests'') else handler req)"

section \<open>Lemmas\<close>

lemma hex0x_inject [simp]: "hex0x a = hex0x b \<longleftrightarrow> a = b"
  by (simp add: hex0x_def)

lemma removePrefix_hex [simp]: "removePrefixIfExists (hex0x h) = Done (hex_encode h)"
  by (simp add: removePrefixIfExists_def hex0x_def)

lemma removePrefix_short [simp]: "length s < 2 \<Longrightarrow> removePrefixIfExists s = Panics"
  by (simp add: removePrefixIfExists_def)

lemma u64_of_i64_inject: "in_i64 a \<Longrightarrow> in_i64 b \<Longrightarrow> u64_of_i64 a = u64_of_i64 b \<longleftrightarrow> a = b"
  by (metis i64_of_u64_of_i64 i64_id)

text \<open>The rendering of a well-formed transaction determines it.\<close>

lemma rendering_inject:
  assumes "wf_tx t" and "wf_tx t'" and "KarmemTransaction2Protobuf t = KarmemTransaction2Protobuf t'"
  shows "t = t'"
proof -
  have r: "in_i64 (tb_Gas (tx_Body x))" "in_i64 (tb_Nonce (tx_Body x))" "in_i64 (tb_Expire (tx_Body x))"
    "in_i64 (tb_Timestamp (tx_Body x))" "in_i64 (tb_Height (tx_Body x))" "in_i64 (tb_Index (tx_Body x))"
    if "wf_tx x" for x using that by (simp_all add: wf_tx_def wf_body_def)
  note inj = u64_of_i64_inject [OF r(1) [OF assms(1)] r(1) [OF assms(2)]] u64_of_i64_inject [OF r(2) [OF assms(1)] r(2) [OF assms(2)]]
    u64_of_i64_inject [OF r(3) [OF assms(1)] r(3) [OF assms(2)]] u64_of_i64_inject [OF r(4) [OF assms(1)] r(4) [OF assms(2)]]
    u64_of_i64_inject [OF r(5) [OF assms(1)] r(5) [OF assms(2)]] u64_of_i64_inject [OF r(6) [OF assms(1)] r(6) [OF assms(2)]]
  have "tx_Body t = tx_Body t'"
    using assms(3) unfolding KarmemTransaction2Protobuf_def Let_def PbTransaction.ext_inject hex0x_inject inj
    by (intro TransactionBody.equality) simp_all
  then show ?thesis by (cases t, cases t') simp
qed

text \<open>What the submit service does with a transaction that encodes.\<close>

lemma submit_spec:
  assumes "karmem (node_karmem N) len cell" and "wf_tx t" and "tx_size t < 2 ^ 32"
    and "nm_chain pm = (ch, Some pool, calc)" and "length (nm_txBroadcastQueue pm) < 10240"
    and "Verify_tx (node_karmem N) (ne_curve N) (ce_sha (ne_chain N)) ecv t = Done ok"
  shows "\<exists>bs pm'. SerializeTransaction (node_karmem N) t = Some bs
    \<and> SubmitTransaction N ecv (Some (hex_encode bs)) (Some pm) =
        (if ok then Done (SUCCESS, Some pm') else Done (SIGNATURE_FAILED, Some pm))
    \<and> nm_chain pm' = (ch, Some (Add t pool), calc) \<and> nm_txBroadcastQueue pm' = nm_txBroadcastQueue pm @ [t]
    \<and> nm_knownTransaction pm' = lru_add (ne_known N) (nm_knownTransaction pm) (tx_hash_hex t) ()"
proof -
  obtain bs where bs: "SerializeTransaction (node_karmem N) t = Some bs" "DeserializeTransaction (node_karmem N) bs = t"
    using karmem.tx_roundtrip [OF assms(1,2)] assms(3) by auto
  define pm' where "pm' = pm\<lparr>nm_knownTransaction := lru_add (ne_known N) (nm_knownTransaction pm) (tx_hash_hex t) (),
    nm_txBroadcastQueue := nm_txBroadcastQueue pm @ [t], nm_chain := (ch, Some (Add t pool), calc)\<rparr>"
  have "AddTransaction N t pm = Done pm'"
    using assms(4,5) by (simp add: AddTransaction_def markTransaction_def chan_send_def txBroadcastSize_def pm'_def)
  then have "SubmitTransaction N ecv (Some (hex_encode bs)) (Some pm) =
      (if ok then Done (SUCCESS, Some pm') else Done (SIGNATURE_FAILED, Some pm))"
    using assms(6) by (simp add: SubmitTransaction_def bs(2) Let_def)
  then show ?thesis using bs(1) by (intro exI [of _ bs] exI [of _ pm']) (simp add: pm'_def)
qed

section \<open>Properties\<close>

text \<open>C28: Clients read the chain the node holds. A block number is answered with the rendering of the chain's
  block at that height, or an error when there is none; a prefixed transaction hash with the rendering
  of a transaction of the chain with that hash, or an error exactly when no block contains one. The
  rendering determines the transaction, and answering leaves the chain as it was.\<close>

theorem rpc_answers_from_chain:
  assumes "chain_world (ne_chain N) len cell content eh eb et"
    and "chain_inv (ne_chain N) content eh eb et bs (fst (nm_chain pm))" and "n < 2 ^ 63" and "length h = 32"
  shows "\<exists>a pm1 r pm2. rpc_GetBlockByNumber N now \<lparr>gb_number = Some n, gb_hash = None, gb_full = Some full\<rparr> (Some pm) = Done (a, pm1)
    \<and> (case height_at bs (int n) of None \<Rightarrow> \<exists>e. a = Inl e
       | Some b \<Rightarrow> a = Inr (u64_of_i64 now, KarmemBlock2Protobuf now b full))
    \<and> rpc_GetTransactionByHash N now \<lparr>gt_blockNumber = None, gt_blockHash = None, gt_hash = Some (hex0x h), gt_index = None\<rparr> (Some pm)
        = Done (r, pm2)
    \<and> (case r of Inl e \<Rightarrow> h \<notin> tx_hash ` set (chain_txs bs)
       | Inr (time, p) \<Rightarrow> \<exists>t \<in> set (chain_txs bs). tx_hash t = h \<and> p = KarmemTransaction2Protobuf t
           \<and> (\<forall>t'. wf_tx t' \<and> KarmemTransaction2Protobuf t' = p \<longrightarrow> t' = t))
    \<and> (\<forall>q \<in> {pm1, pm2}. chain_inv (ne_chain N) content eh eb et bs (fst (nm_chain (the q))))"
proof -
  note inv = chain_world.inv_def [OF assms(1)]
  let ?ch = "fst (nm_chain pm)"
  have n: "i64_of_u64 n = int n" "in_i64 (int n)" using assms(3) by (simp_all add: i64_of_u64_def i64_id in_i64_def)
  obtain f c1 c2 where f: "GetBlockByHeight (ne_chain N) (int n) ?ch = Done (f, ?ch\<lparr>ch_blockHeightMap := c1, ch_blockCache := c2\<rparr>)"
    "chain_inv (ne_chain N) content eh eb et bs (?ch\<lparr>ch_blockHeightMap := c1, ch_blockCache := c2\<rparr>)"
    "case height_at bs (int n) of None \<Rightarrow> \<exists>e. f = Inl e | Some b \<Rightarrow> f = Inr b"
    using chain_world.GetBlockByHeight_spec [OF assms(1) _ n(2), of bs ?ch] assms(2) unfolding inv by blast
  obtain g c3 where g: "GetTransactionByHash (ne_chain N) h ?ch = (g, ?ch\<lparr>ch_txCache := c3\<rparr>)"
    "chain_inv (ne_chain N) content eh eb et bs (?ch\<lparr>ch_txCache := c3\<rparr>)"
    "case g of Inl e \<Rightarrow> h \<notin> tx_hash ` set (chain_txs bs) | Inr t \<Rightarrow> t \<in> set (chain_txs bs) \<and> tx_hash t = h"
    using chain_world.GetTransactionByHash_spec [OF assms(1) _ assms(4), of bs ?ch] assms(2) unfolding inv by blast
  have chain: "chain_of bs" using assms(2) by (simp add: chain_inv_def)
  define a where "a = (case f of Inl e \<Rightarrow> Inl ''Get block by height failed.'' | Inr b \<Rightarrow> Inr (u64_of_i64 now, KarmemBlock2Protobuf now b full))"
  define r where "r = (case g of Inl e \<Rightarrow> Inl ''Get transaction by hash failed.'' | Inr t \<Rightarrow> Inr (u64_of_i64 now, KarmemTransaction2Protobuf t))"
  have A: "rpc_GetBlockByNumber N now \<lparr>gb_number = Some n, gb_hash = None, gb_full = Some full\<rparr> (Some pm)
      = Done (a, set_chain (?ch\<lparr>ch_blockHeightMap := c1, ch_blockCache := c2\<rparr>) (Some pm))"
    using f(1) n(1) by (simp add: rpc_GetBlockByNumber_def a_def split: sum.split)
  have R: "rpc_GetTransactionByHash N now \<lparr>gt_blockNumber = None, gt_blockHash = None, gt_hash = Some (hex0x h), gt_index = None\<rparr> (Some pm)
      = Done (r, set_chain (?ch\<lparr>ch_txCache := c3\<rparr>) (Some pm))"
    using g(1) assms(4) by (simp add: rpc_GetTransactionByHash_def r_def split: sum.split)
  have "case height_at bs (int n) of None \<Rightarrow> \<exists>e. a = Inl e | Some b \<Rightarrow> a = Inr (u64_of_i64 now, KarmemBlock2Protobuf now b full)"
    using f(3) by (auto simp: a_def split: option.splits)
  moreover have "case r of Inl e \<Rightarrow> h \<notin> tx_hash ` set (chain_txs bs)
       | Inr (time, p) \<Rightarrow> \<exists>t \<in> set (chain_txs bs). tx_hash t = h \<and> p = KarmemTransaction2Protobuf t
           \<and> (\<forall>t'. wf_tx t' \<and> KarmemTransaction2Protobuf t' = p \<longrightarrow> t' = t)"
    using g(3) chain_tx_encodes [OF chain] rendering_inject by (cases g) (auto simp: r_def)
  moreover have "\<forall>q \<in> {set_chain (?ch\<lparr>ch_blockHeightMap := c1, ch_blockCache := c2\<rparr>) (Some pm), set_chain (?ch\<lparr>ch_txCache := c3\<rparr>) (Some pm)}.
      chain_inv (ne_chain N) content eh eb et bs (fst (nm_chain (the q)))"
    using f(2) g(2) by (simp add: set_chain_def)
  ultimately show ?thesis using A R by blast
qed

text \<open>A node whose chain is one genesis block.\<close>

definition genesis_node ::
    "(bytes \<rightharpoonup> bytes, (int, bytes) lru_list, (string, Block) lru_list, (string, Transaction) lru_list,
      (string, unit) lru_list) BlockChain
     \<Rightarrow> (bytes \<rightharpoonup> bytes, (int, bytes) lru_list, (string, Block) lru_list, (string, Transaction) lru_list,
      (string, unit) lru_list, (string, unit) lru_list) P2PManager" where
  "genesis_node ch = NewP2PManager std_node (ch, Some (NewTxPool None), None) True 0"

lemma genesis_node_chain [simp]: "nm_chain (genesis_node ch) = (ch, Some (NewTxPool None), None)"
  by (simp add: genesis_node_def NewP2PManager_def)

lemma genesis_node_exists:
  "\<exists>ch. chain_inv (ne_chain std_node) (\<lambda>d. d) list_entries list_entries list_entries [sample_genesis] (fst (nm_chain (genesis_node ch)))"
  using std_genesis [of tiny_json] by auto

lemma std_node_world: "chain_world (ne_chain std_node) mw_len mw_cell (\<lambda>d. d) list_entries list_entries list_entries"
  using std_world.chain_world_axioms by simp

lemma rpc_answers_from_chain_witness:
  "\<exists>pm pm1. rpc_GetBlockByNumber std_node 7 \<lparr>gb_number = Some 0, gb_hash = None, gb_full = Some True\<rparr> pm
     = Done (Inr (7, KarmemBlock2Protobuf 7 sample_genesis True), pm1)"
proof -
  obtain ch where c: "chain_inv (ne_chain std_node) (\<lambda>d. d) list_entries list_entries list_entries [sample_genesis]
      (fst (nm_chain (genesis_node ch)))" using genesis_node_exists by blast
  have h: "height_at [sample_genesis] 0 = Some sample_genesis" by (simp add: height_at_def sample_genesis_def)
  have "(7 :: int) mod 2 ^ 64 = 7" by simp
  then have t: "u64_of_i64 7 = 7" by (simp add: u64_of_i64_def)
  show ?thesis
    using rpc_answers_from_chain [OF std_node_world c, of 0 "replicate 32 1" 7 True] h t by auto
qed

text \<open>C30: Any client can stop a node. Asking for a block by a hash that the chain does not have, by itself or
  with a transaction index, makes the handler dereference a nil block; so does asking without the
  full flag for a block that is there, and a hash text of fewer than two characters panics as well.\<close>

theorem rpc_unknown_block_crashes:
  assumes "chain_world (ne_chain N) len cell content eh eb et"
    and "chain_inv (ne_chain N) content eh eb et bs (fst (nm_chain pm))" and "length h = 32"
  shows "(h \<notin> blk_hash ` set bs \<longrightarrow>
      rpc_GetBlockByHash N now \<lparr>gb_number = number, gb_hash = Some (hex0x h), gb_full = full\<rparr> (Some pm) = Panics
      \<and> rpc_GetTransactionByBlockHashAndIndex N now
          \<lparr>gt_blockNumber = number, gt_blockHash = Some (hex_encode h), gt_hash = hash, gt_index = Some i\<rparr> (Some pm) = Panics)
    \<and> rpc_GetBlockByHash N now \<lparr>gb_number = number, gb_hash = Some (hex0x h), gb_full = None\<rparr> (Some pm) = Panics
    \<and> (\<forall>s. length s < 2 \<longrightarrow>
        rpc_GetBlockByHash N now \<lparr>gb_number = number, gb_hash = Some s, gb_full = full\<rparr> (Some pm) = Panics)"
proof -
  note inv = chain_world.inv_def [OF assms(1)]
  let ?ch = "fst (nm_chain pm)"
  obtain ch' where g: "GetBlockByHash (ne_chain N) h ?ch = (case block_at bs h of None \<Rightarrow> Inl ErrNotFound | Some b \<Rightarrow> Inr b, ch')"
    using chain_world.GetBlockByHash_spec [OF assms(1) _ assms(3), of bs ?ch] assms(2) unfolding inv by blast
  have "chain_of bs" using assms(2) by (simp add: chain_inv_def)
  then have "block_at bs h = None" if "h \<notin> blk_hash ` set bs"
    using that block_at_eq [of bs h "the (block_at bs h)"] by (cases "block_at bs h") auto
  then show ?thesis
    using g assms(3) by (auto simp: rpc_GetBlockByHash_def rpc_GetTransactionByBlockHashAndIndex_def split: option.split)
qed

lemma rpc_unknown_block_crashes_witness:
  "\<exists>pm. rpc_GetBlockByHash std_node 7 \<lparr>gb_number = None, gb_hash = Some (hex0x (replicate 32 9)), gb_full = Some True\<rparr> (Some pm) = Panics"
proof -
  obtain ch where c: "chain_inv (ne_chain std_node) (\<lambda>d. d) list_entries list_entries list_entries [sample_genesis]
      (fst (nm_chain (genesis_node ch)))" using genesis_node_exists by blast
  have "replicate 32 9 \<notin> blk_hash ` set [sample_genesis]" by (simp add: sample_genesis_def)
  moreover have "length (replicate 32 9 :: bytes) = 32" by simp
  ultimately have "rpc_GetBlockByHash std_node 7
      \<lparr>gb_number = None, gb_hash = Some (hex0x (replicate 32 9)), gb_full = Some True\<rparr> (Some (genesis_node ch)) = Panics"
    using rpc_unknown_block_crashes [OF std_node_world c, where h = "replicate 32 9" and now = 7 and number = None
        and full = "Some True"] by blast
  then show ?thesis by blast
qed





end
