(* ===== verification/Startup.thy ===== *)
theory Startup
  imports Rpc
begin

text \<open>
  cmd/norn (main.go, init.go, utils.go) and \<open>Discover\<close> of node/manager.go: how a process starts a node,
  what it serves while it does, and how it finds peers. Opening the data directory, multiaddresses,
  keys, the libp2p host and the Kademlia table are arguments: what they answered.
\<close>

section \<open>Flags (init.go)\<close>

record main_flags =
  fl_delta :: int
  fl_bootstrap :: string
  fl_datadir :: string
  fl_cfg :: string
  fl_help :: bool
  fl_genesis :: bool
  fl_debug :: bool
  fl_trace :: bool
  fl_pp :: bool
  fl_metrics :: bool
  fl_random :: bool

definition default_flags :: main_flags where
  "default_flags =
     \<lparr>fl_delta = 0, fl_bootstrap = [], fl_datadir = ''./data'', fl_cfg = ''./config.yml'', fl_help = False,
      fl_genesis = False, fl_debug = False, fl_trace = False, fl_pp = False, fl_metrics = False,
      fl_random = False\<rparr>"

section \<open>The network (utils.go, manager.go)\<close>

text \<open>The addresses connected to; an address without a peer's identifier gives nil, which is dereferenced.\<close>

fun connect_all :: "('a \<Rightarrow> string option) \<Rightarrow> (string \<Rightarrow> bool) \<Rightarrow> 'a list \<Rightarrow> string list outcome" where
  "connect_all addrInfo connect [] = Done []"
| "connect_all addrInfo connect (a # as) =
     (case addrInfo a of
        None \<Rightarrow> Panics
      | Some p \<Rightarrow> bindO (connect_all addrInfo connect as) (\<lambda>ps. Done (if connect p then p # ps else ps)))"

definition NewKDHT ::
    "bool \<Rightarrow> bool \<Rightarrow> ('a \<Rightarrow> string option) \<Rightarrow> (string \<Rightarrow> bool) \<Rightarrow> 'a list \<Rightarrow> string list option outcome" where
  "NewKDHT created bootstrapped addrInfo connect bootstrapPeers =
     (if \<not> created \<or> \<not> bootstrapped then Done None
      else bindO (connect_all addrInfo connect bootstrapPeers) (\<lambda>ps. Done (Some ps)))"

text \<open>
  What \<open>Discover\<close> does before its loop: an error of the gossip network ends the process. Then a tick, with
  the peers found (\<open>None\<close> when the search failed), each with the time and the network's answers.
\<close>

definition Discover_start ::
    "string \<Rightarrow> bool \<Rightarrow> bool \<Rightarrow> bool \<Rightarrow> ('d, 'h, 'b, 't, 's, 'k) P2PManager \<Rightarrow> ('d, 'h, 'b, 't, 's, 'k) P2PManager outcome" where
  "Discover_start self gossip joined subscribed pm =
     (let pm1 = pm\<lparr>nm_id := self\<rparr> in
      if \<not> gossip then Panics else if \<not> joined then Panics else if \<not> subscribed then Panics else Done pm1)"

definition Discover_tick ::
    "(int \<times> bool \<times> string option \<times> string) list option \<Rightarrow> string \<Rightarrow> ('d, 'h, 'b, 't, 's, 'w, 'k, 'p) node_env
       \<Rightarrow> ('d, 'h, 'b, 't, 's, 'k) P2PManager \<Rightarrow> ('d, 'h, 'b, 't, 's, 'k) P2PManager" where
  "Discover_tick found self N pm =
     (case found of
        None \<Rightarrow> pm
      | Some peers \<Rightarrow>
          foldl (\<lambda>pm (now, reachable, stream, pid). CheckAndCreateStream now reachable stream self pid N pm) pm peers)"

section \<open>main.go\<close>

record ('d, 'a) host_env =
  he_open :: "string \<Rightarrow> 'd option"
  he_port :: int
  he_maddr :: "string \<Rightarrow> 'a option"
  he_prv :: string
  he_identity :: "bytes \<Rightarrow> bool"
  he_host :: "string option"
  he_dht :: "bool \<times> bool"
  he_addrInfo :: "'a \<Rightarrow> string option"
  he_connect :: "string \<Rightarrow> bool"

text \<open>
  From opening the database to the discovery routine, after the RPC server was started: the identifier of
  the host and the manager, or \<open>None\<close> where main returns. Failing to create the host is only logged.
\<close>

definition main_start ::
    "('d, 'h, 'b, 't, 's, 'w, 'k, 'p) node_env \<Rightarrow> ('d, 'a) host_env \<Rightarrow> main_flags
       \<Rightarrow> (string \<times> ('d, 'h, 'b, 't, 's, 'k) P2PManager) option outcome" where
  "main_start N H fl =
     (case he_open H (fl_datadir fl) of
        None \<Rightarrow> Done None
      | Some db \<Rightarrow>
          bindO (NewBlockchain (ne_chain N) db None) (\<lambda>(chain, calc).
            let pm = NewP2PManager N (chain, Some (NewTxPool None), calc) (fl_genesis fl) (fl_delta fl) in
            case he_maddr H (''/ip4/0.0.0.0/tcp/'' @ format_int (he_port H)) of
              None \<Rightarrow> Done None
            | Some localMultiAddr \<Rightarrow>
           (case hex_decode (he_prv H) of
              None \<Rightarrow> Done None
            | Some privBytes \<Rightarrow>
              if \<not> he_identity H privBytes then Done None
              else case he_host H of
                None \<Rightarrow> Panics
              | Some host \<Rightarrow>
             (case (if fl_bootstrap fl = [] then Some [] else map_option (\<lambda>maddr. [maddr]) (he_maddr H (fl_bootstrap fl))) of
                None \<Rightarrow> Done None
              | Some bootstrapPeers \<Rightarrow>
                  bindO (NewKDHT (fst (he_dht H)) (snd (he_dht H)) (he_addrInfo H) (he_connect H) bootstrapPeers)
                    (\<lambda>kdht. Done (map_option (\<lambda>_. (host, pm)) kdht))))))"

text \<open>The goroutine of a genesis node, ten seconds later.\<close>

definition genesis_routine ::
    "int \<Rightarrow> (string + GenesisParams) outcome \<Rightarrow> ('d, 'h, 'b, 't, 's, 'w, 'k, 'p) node_env
       \<Rightarrow> ('d, 'h, 'b, 't, 's, 'k) P2PManager \<Rightarrow> ('d, 'h, 'b, 't, 's, 'k) P2PManager outcome" where
  "genesis_routine now params N pm =
     bindO (with_chain (NewGenesisBlock (ne_chain N) (ne_pub N) now params) pm) (\<lambda>pm1. Done (SetSynced pm1))"

section \<open>Requests\<close>

datatype rpc_request =
    ReqBlockNumber
  | ReqBlockByHash GetBlockReq
  | ReqBlockByNumber GetBlockReq
  | ReqTransactionByHash GetTransactionReq
  | ReqTransactionByBlockHash GetTransactionReq
  | ReqTransactionByBlockNumber GetTransactionReq
  | ReqReadContract ReadContractAddressReq
  | ReqSend SendTransactionWithDataReq
  | ReqSubmit "string option"
  | ReqConnected

text \<open>What a request leaves behind.\<close>

definition after :: "('a \<times> 's) outcome \<Rightarrow> 's outcome" where
  "after r = bindO r (\<lambda>(_, s). Done s)"

primrec serve ::
    "('d, 'h, 'b, 't, 's, 'w, 'k, 'p) node_env \<Rightarrow> ('p option \<Rightarrow> bytes \<Rightarrow> bytes \<Rightarrow> bool outcome) \<Rightarrow> (bytes \<Rightarrow> bytes)
       \<Rightarrow> ('p PrivateKey \<Rightarrow> bytes \<Rightarrow> string + bytes) \<Rightarrow> int \<Rightarrow> rpc_request
       \<Rightarrow> ('d, 'h, 'b, 't, 's, 'k) P2PManager option \<Rightarrow> ('d, 'h, 'b, 't, 's, 'k) P2PManager option outcome" where
  "serve N ecv sha1 sign now ReqBlockNumber inst = after (rpc_GetBlockNumber now inst)"
| "serve N ecv sha1 sign now (ReqBlockByHash r) inst = after (rpc_GetBlockByHash N now r inst)"
| "serve N ecv sha1 sign now (ReqBlockByNumber r) inst = after (rpc_GetBlockByNumber N now r inst)"
| "serve N ecv sha1 sign now (ReqTransactionByHash r) inst = after (rpc_GetTransactionByHash N now r inst)"
| "serve N ecv sha1 sign now (ReqTransactionByBlockHash r) inst = after (rpc_GetTransactionByBlockHashAndIndex N now r inst)"
| "serve N ecv sha1 sign now (ReqTransactionByBlockNumber r) inst = after (rpc_GetTransactionByBlockNumberAndIndex N now r inst)"
| "serve N ecv sha1 sign now (ReqReadContract r) inst = bindO (rpc_ReadContractAddress N r inst) (\<lambda>_. Done inst)"
| "serve N ecv sha1 sign now (ReqSend r) inst = after (rpc_SendTransactionWithData N sha1 sign now r inst)"
| "serve N ecv sha1 sign now (ReqSubmit s) inst = after (SubmitTransaction N ecv s inst)"
| "serve N ecv sha1 sign now ReqConnected inst = bindO (ConnectedNodeList inst) (\<lambda>_. Done inst)"

section \<open>A process\<close>

text \<open>
  Before anything runs, while only the RPC server runs, with a node, and ended. A data directory is as
  \<open>H\<close> gives it; steps of the node are those of NodeHistory.
\<close>

datatype ('d, 'h, 'b, 't, 's, 'k) process =
    Starting
  | Listening
  | Running string "('d, 'h, 'b, 't, 's, 'k) P2PManager"
  | Exited
  | Crashed

inductive process_step ::
    "('d, 'h, 'b, 't, 's, 'w, 'k, 'p) node_env \<Rightarrow> json_ops \<Rightarrow> ('d, 'a) host_env \<Rightarrow> main_flags
       \<Rightarrow> ('d, 'h, 'b, 't, 's, 'k) process \<Rightarrow> ('d, 'h, 'b, 't, 's, 'k) process \<Rightarrow> bool" for N J H fl where
  usage: "fl_help fl \<Longrightarrow> process_step N J H fl Starting Exited"
| listen: "\<not> fl_help fl \<Longrightarrow> process_step N J H fl Starting Listening"
| early: "serve N ecv sha1 sign now r None = Done None \<Longrightarrow> process_step N J H fl Listening Listening"
| early_crash: "serve N ecv sha1 sign now r None = Panics \<Longrightarrow> process_step N J H fl Listening Crashed"
| started: "main_start N H fl = Done (Some (self, pm)) \<Longrightarrow> process_step N J H fl Listening (Running self pm)"
| failed: "main_start N H fl = Done None \<Longrightarrow> process_step N J H fl Listening Exited"
| crashed: "main_start N H fl = Panics \<Longrightarrow> process_step N J H fl Listening Crashed"
| request: "serve N ecv sha1 sign now r (Some pm) = Done (Some pm') \<Longrightarrow> process_step N J H fl (Running self pm) (Running self pm')"
| request_crash: "serve N ecv sha1 sign now r (Some pm) = Panics \<Longrightarrow> process_step N J H fl (Running self pm) Crashed"
| discover: "Discover_start self gossip joined subscribed pm = Done pm'
    \<Longrightarrow> process_step N J H fl (Running self pm) (Running self pm')"
| discover_fatal: "Discover_start self gossip joined subscribed pm = Panics \<Longrightarrow> process_step N J H fl (Running self pm) Crashed"
| search: "process_step N J H fl (Running self pm) (Running self (Discover_tick found self N pm))"
| genesis: "fl_genesis fl \<Longrightarrow> in_i64 now \<Longrightarrow> \<forall>gp. params = Done (Inr gp) \<longrightarrow> wf_genesis gp
    \<Longrightarrow> genesis_routine now params N pm = Done pm' \<Longrightarrow> process_step N J H fl (Running self pm) (Running self pm')"
| node: "node_step N J pm pm' \<Longrightarrow> process_step N J H fl (Running self pm) (Running self pm')"
| interrupt: "process_step N J H fl (Running self pm) Exited"

inductive process_reach ::
    "('d, 'h, 'b, 't, 's, 'w, 'k, 'p) node_env \<Rightarrow> json_ops \<Rightarrow> ('d, 'a) host_env \<Rightarrow> main_flags
       \<Rightarrow> ('d, 'h, 'b, 't, 's, 'k) process \<Rightarrow> bool" for N J H fl where
  boot: "process_reach N J H fl Starting"
| more: "process_reach N J H fl p \<Longrightarrow> process_step N J H fl p q \<Longrightarrow> process_reach N J H fl q"

section \<open>The chain of a process\<close>

lemma after_Done: "after r = Done s \<longleftrightarrow> (\<exists>a. r = Done (a, s))"
  by (auto simp: after_def outcome_simps)

lemma Discover_tick_chain [simp]: "nm_chain (Discover_tick found self N pm) = nm_chain pm"
proof -
  have one: "nm_chain (CheckAndCreateStream now reachable stream self pid N pm) = nm_chain pm" for now reachable stream pid pm
    by (simp add: CheckAndCreateStream_def manager_NewPeer_def split: option.split)
  have "nm_chain (foldl (\<lambda>pm (now, reachable, stream, pid). CheckAndCreateStream now reachable stream self pid N pm) pm ps)
    = nm_chain pm" for ps
    by (induction ps arbitrary: pm) (auto simp: one)
  then show ?thesis by (simp add: Discover_tick_def split: option.split)
qed

lemma main_start_Done:
  assumes "main_start N H fl = Done (Some (self, pm))"
  shows "\<exists>db chain calc. he_open H (fl_datadir fl) = Some db \<and> NewBlockchain (ne_chain N) db None = Done (chain, calc)
    \<and> pm = NewP2PManager N (chain, Some (NewTxPool None), calc) (fl_genesis fl) (fl_delta fl)"
proof -
  obtain db chain calc where d: "he_open H (fl_datadir fl) = Some db" "NewBlockchain (ne_chain N) db None = Done (chain, calc)"
    using assms by (auto simp: main_start_def outcome_simps split: option.splits)
  have "pm = NewP2PManager N (chain, Some (NewTxPool None), calc) (fl_genesis fl) (fl_delta fl)"
    using assms unfolding main_start_def d option.case bindO.simps prod.case Let_def
    by (auto simp: outcome_simps split: option.splits if_splits)
  then show ?thesis using d by blast
qed

lemma genesis_block_fits:
  assumes "genesis_block E now publicKey params = Done (Some g)" and "in_i64 now" and "length params < 2 ^ 31"
  shows "fits g"
proof -
  obtain key where k: "to_array 33 publicKey = Done key" using assms(1) by (auto simp: genesis_block_def outcome_simps)
  then have key: "length key = 33" by (auto simp: to_array_def split: if_splits)
  define header where "header = \<lparr>bh_Timestamp = now, bh_PrevBlockHash = replicate 32 0, bh_BlockHash = replicate 32 0,
     bh_MerkleRoot = replicate 32 0, bh_Height = 0, bh_PublicKey = key, bh_Params = params, bh_GasLimit = 0\<rparr>"
  obtain bs where bs: "SerializeBlockHeader (ce_karmem E) header = Some bs"
    "bindO (to_array 32 (ce_sha E bs)) (\<lambda>h. Done (Some \<lparr>blk_Header = header\<lparr>bh_BlockHash := h\<rparr>, blk_Transactions = []\<rparr>)) = Done (Some g)"
    using assms(1) unfolding genesis_block_def k bindO.simps Let_def header_def [symmetric] by (auto split: option.splits)
  then obtain h where h: "to_array 32 (ce_sha E bs) = Done h" "g = \<lparr>blk_Header = header\<lparr>bh_BlockHash := h\<rparr>, blk_Transactions = []\<rparr>"
    by (auto simp: outcome_simps)
  then have g: "g = \<lparr>blk_Header = header\<lparr>bh_BlockHash := h\<rparr>, blk_Transactions = []\<rparr>" "length h = 32"
    by (auto simp: to_array_def split: if_splits)
  have "in_i64 0" by (simp add: in_i64_def)
  then show ?thesis using assms(2,3) key by (simp add: g header_def fits_def wf_block_def wf_header_def block_size_def)
qed

context chain_world
begin

lemma NewGenesisBlock_grows:
  assumes "NewGenesisBlock E pub now params c = Done c'" and "in_i64 now"
    and "\<forall>gp. params = Done (Inr gp) \<longrightarrow> wf_genesis gp"
  shows "grows c c'"
proof -
  obtain ch pool calc where c: "c = (ch, pool, calc)" by (cases c)
  obtain r and ch1 where r: "GetBlockByHeight E 0 ch = Done (r, ch1)"
    using assms(1) by (auto simp: NewGenesisBlock_def c outcome_simps)
  have g: "grows c (ch1, pool, calc)" unfolding c by (rule grows_height [OF _ r]) (simp add: in_i64_def)
  have "c' = (ch1, pool, calc) \<or> (\<exists>g. fits g \<and> AppendBlockTask E g (ch1, pool, calc) = Done c')"
  proof (cases r)
    case (Inr b)
    then show ?thesis using assms(1) r by (simp add: NewGenesisBlock_def c)
  next
    case (Inl e)
    note run = assms(1) [unfolded NewGenesisBlock_def c prod.case r bindO.simps Inl sum.case]
    show ?thesis
    proof (cases "hex_decode pub")
      case (Some key)
      obtain gen where p: "params = Done gen" using run Some by (auto simp: outcome_simps)
      show ?thesis
      proof (cases gen)
        case (Inr gp)
        then obtain pb where pb: "SerializeGenesisParams (ce_karmem E) gp = Some pb" "length pb = 208"
          using karmem.genesis_roundtrip [OF karmem_ok] assms(3) p by blast
        obtain g where g: "genesis_block E now key pb = Done g"
          "(case g of None \<Rightarrow> Done (ch1, pool, calc) | Some g \<Rightarrow> AppendBlockTask E g (ch1, pool, calc)) = Done c'"
          using run Some p Inr pb by (auto simp: outcome_simps)
        then show ?thesis using genesis_block_fits [of E now key pb] assms(2) pb(2) by (cases g) auto
      qed (use run Some p in auto)
    qed (use run in auto)
  qed
  then show ?thesis using g grows_append grows_trans by blast
qed

lemma grows_by_hash:
  assumes "GetBlockByHash E h ch = (r, ch')" and "length h = 32"
  shows "grows (ch, x) (ch', y)"
proof (rule grows_reads)
  fix bs assume a: "at bs (ch, x)"
  then have "inv bs ch" by (simp add: at_def)
  then show "at bs (ch', y)"
    using GetBlockByHash_spec [of bs ch h] assms a by (auto simp: at_def)
qed

end


lemma at_set_chain: "set_chain ch inst = Some pm' \<Longrightarrow> \<exists>pm. inst = Some pm \<and> nm_chain pm' = (ch, snd (nm_chain pm))"
  by (auto simp: set_chain_def)

lemma nm_chain_eta: "nm_chain pm = (fst (nm_chain pm), snd (nm_chain pm))"
  by simp

lemma to_array_length: "to_array n bs = Done a \<Longrightarrow> length a = n"
  by (auto simp: to_array_def split: if_splits)

lemma in_i64_of_u64 [simp]: "in_i64 (i64_of_u64 n)"
  by (simp add: i64_of_u64_def)

context chain_world
begin

lemma grows_by_tx:
  assumes "GetTransactionByHash E h ch = (r, ch')" and "length h = 32"
  shows "grows (ch, x) (ch', y)"
proof (rule grows_reads)
  fix bs assume a: "at bs (ch, x)"
  then have "inv bs ch" by (simp add: at_def)
  then show "at bs (ch', y)" using GetTransactionByHash_spec [of bs ch h] assms a by (auto simp: at_def)
qed

text \<open>A read request takes the chain through one of the three reads.\<close>

lemma read_grows:
  assumes "set_chain ch (Some pm) = Some pm'"
    and "(\<exists>h r. length h = 32 \<and> GetBlockByHash E h (fst (nm_chain pm)) = (r, ch))
       \<or> (\<exists>n r. in_i64 n \<and> GetBlockByHeight E n (fst (nm_chain pm)) = Done (r, ch))
       \<or> (\<exists>h r. length h = 32 \<and> GetTransactionByHash E h (fst (nm_chain pm)) = (r, ch))"
  shows "grows (nm_chain pm) (nm_chain pm')"
proof -
  have "nm_chain pm' = (ch, snd (nm_chain pm))" using at_set_chain [OF assms(1)] by auto
  moreover obtain c pool calc where "nm_chain pm = (c, pool, calc)" by (cases "nm_chain pm")
  ultimately show ?thesis using assms(2) grows_by_hash grows_height grows_by_tx by auto
qed

lemma GetBlockByHash_request_grows:
  assumes "rpc_GetBlockByHash N now req (Some pm) = Done (a, Some pm')" and "ne_chain N = E"
  shows "grows (nm_chain pm) (nm_chain pm')"
proof (cases "pm' = pm")
  case False
  then obtain bs h where h: "to_array 32 bs = Done h" "(case (GetBlockByHash E h (fst (nm_chain pm)), gb_full req) of
        ((Inl err, ch), _) \<Rightarrow> Panics | ((Inr block, ch), None) \<Rightarrow> Panics
      | ((Inr block, ch), Some full) \<Rightarrow> Done (Inr (u64_of_i64 now, KarmemBlock2Protobuf now block full), set_chain ch (Some pm)))
      = Done (a, Some pm')"
    using assms by (auto simp: rpc_GetBlockByHash_def outcome_simps split: option.splits)
  obtain r and ch where r: "GetBlockByHash E h (fst (nm_chain pm)) = (r, ch)" by (cases "GetBlockByHash E h (fst (nm_chain pm))")
  then have "set_chain ch (Some pm) = Some pm'" using h(2) by (cases r; cases "gb_full req") auto
  then show ?thesis using read_grows r to_array_length [OF h(1)] by blast
qed simp

lemma GetBlockByNumber_request_grows:
  assumes "rpc_GetBlockByNumber N now req (Some pm) = Done (a, Some pm')" and "ne_chain N = E"
  shows "grows (nm_chain pm) (nm_chain pm')"
proof (cases "pm' = pm")
  case False
  then obtain n r ch full where r: "GetBlockByHeight E (i64_of_u64 n) (fst (nm_chain pm)) = Done (r, ch)"
      "(case r of Inl err \<Rightarrow> Done (Inl ''Get block by height failed.'', set_chain ch (Some pm))
      | Inr block \<Rightarrow> Done (Inr (u64_of_i64 now, KarmemBlock2Protobuf now block full), set_chain ch (Some pm))) = Done (a, Some pm')"
    using assms by (cases "gb_number req") (auto simp: rpc_GetBlockByNumber_def Let_def outcome_simps)
  then have "set_chain ch (Some pm) = Some pm'" by (cases r) auto
  then show ?thesis using read_grows r in_i64_of_u64 by blast
qed simp

lemma GetTransactionByHash_request_grows:
  assumes "rpc_GetTransactionByHash N now req (Some pm) = Done (a, Some pm')" and "ne_chain N = E"
  shows "grows (nm_chain pm) (nm_chain pm')"
proof (cases "pm' = pm")
  case False
  then obtain bs h where h: "to_array 32 bs = Done h" "(case GetTransactionByHash E h (fst (nm_chain pm)) of
        (Inl err, ch) \<Rightarrow> Done (Inl ''Get transaction by hash failed.'', set_chain ch (Some pm))
      | (Inr tx, ch) \<Rightarrow> Done (Inr (u64_of_i64 now, KarmemTransaction2Protobuf tx), set_chain ch (Some pm))) = Done (a, Some pm')"
    using assms by (auto simp: rpc_GetTransactionByHash_def outcome_simps split: option.splits)
  obtain r and ch where r: "GetTransactionByHash E h (fst (nm_chain pm)) = (r, ch)"
    by (cases "GetTransactionByHash E h (fst (nm_chain pm))")
  then have "set_chain ch (Some pm) = Some pm'" using h(2) by (cases r) auto
  then show ?thesis using read_grows r to_array_length [OF h(1)] by blast
qed simp

lemma GetTransactionByBlockHash_request_grows:
  assumes "rpc_GetTransactionByBlockHashAndIndex N now req (Some pm) = Done (a, Some pm')" and "ne_chain N = E"
  shows "grows (nm_chain pm) (nm_chain pm')"
proof (cases "pm' = pm")
  case False
  then obtain bs h i where h: "to_array 32 bs = Done h" "(case GetBlockByHash E h (fst (nm_chain pm)) of
        (Inl err, ch) \<Rightarrow> Panics
      | (Inr block, ch) \<Rightarrow> Done (nth_transaction now block i, set_chain ch (Some pm))) = Done (a, Some pm')"
    using assms by (auto simp: rpc_GetTransactionByBlockHashAndIndex_def outcome_simps split: option.splits)
  obtain r and ch where r: "GetBlockByHash E h (fst (nm_chain pm)) = (r, ch)" by (cases "GetBlockByHash E h (fst (nm_chain pm))")
  then have "set_chain ch (Some pm) = Some pm'" using h(2) by (cases r) auto
  then show ?thesis using read_grows r to_array_length [OF h(1)] by blast
qed simp

lemma GetTransactionByBlockNumber_request_grows:
  assumes "rpc_GetTransactionByBlockNumberAndIndex N now req (Some pm) = Done (a, Some pm')" and "ne_chain N = E"
  shows "grows (nm_chain pm) (nm_chain pm')"
proof (cases "pm' = pm")
  case False
  then obtain n i r ch where r: "GetBlockByHeight E (i64_of_u64 n) (fst (nm_chain pm)) = Done (r, ch)"
      "(case r of Inl err \<Rightarrow> Done (Inl ''Get block by height failed.'', set_chain ch (Some pm))
      | Inr block \<Rightarrow> Done (nth_transaction now block i, set_chain ch (Some pm))) = Done (a, Some pm')"
    using assms by (cases "gt_blockNumber req"; cases "gt_index req")
      (auto simp: rpc_GetTransactionByBlockNumberAndIndex_def outcome_simps)
  then have "set_chain ch (Some pm) = Some pm'" by (cases r) auto
  then show ?thesis using read_grows r in_i64_of_u64 by blast
qed simp

lemma serve_grows:
  assumes "serve N ecv sha1 sign now req (Some pm) = Done (Some pm')" and "ne_chain N = E"
  shows "grows (nm_chain pm) (nm_chain pm')"
proof (cases req)
  case ReqBlockNumber
  then show ?thesis using assms(1) by (auto simp: after_Done rpc_GetBlockNumber_def)
next
  case (ReqBlockByHash r)
  then show ?thesis using assms(1) by (auto simp: after_Done intro: GetBlockByHash_request_grows [OF _ assms(2)])
next
  case (ReqBlockByNumber r)
  then show ?thesis using assms(1) by (auto simp: after_Done intro: GetBlockByNumber_request_grows [OF _ assms(2)])
next
  case (ReqTransactionByHash r)
  then show ?thesis using assms(1) by (auto simp: after_Done intro: GetTransactionByHash_request_grows [OF _ assms(2)])
next
  case (ReqTransactionByBlockHash r)
  then show ?thesis using assms(1) by (auto simp: after_Done intro: GetTransactionByBlockHash_request_grows [OF _ assms(2)])
next
  case (ReqTransactionByBlockNumber r)
  then show ?thesis using assms(1) by (auto simp: after_Done intro: GetTransactionByBlockNumber_request_grows [OF _ assms(2)])
next
  case (ReqReadContract r)
  then show ?thesis using assms(1) by (auto simp: outcome_simps)
next
  case (ReqSend r)
  then obtain a and res :: "string + Transaction" where "(case res of Inl err \<Rightarrow> Done (Inl err, Some pm)
      | Inr tx \<Rightarrow> (case Some pm of None \<Rightarrow> Panics
          | Some pm \<Rightarrow> bindO (AddTransaction N tx pm) (\<lambda>pm1. Done (Inr (tx_hash_hex tx), Some pm1)))) = Done (a, Some pm')"
    using assms(1) by (auto simp: after_Done rpc_SendTransactionWithData_def outcome_simps)
  then show ?thesis by (cases res) (auto simp: outcome_simps dest: AddTransaction_grows)
next
  case (ReqSubmit s)
  then show ?thesis using assms(1)
    by (auto simp: after_Done SubmitTransaction_def Let_def outcome_simps dest: AddTransaction_grows split: option.splits if_splits)
next
  case ReqConnected
  then show ?thesis using assms(1) by (auto simp: outcome_simps)
qed

text \<open>A process over a database that represents \<open>bs\<close>.\<close>

lemma process_reach_at:
  assumes "json J ok" and "ne_chain N = E" and "he_open H (fl_datadir fl) = Some d" and "chain_of bs"
    and "stored (ce_karmem E) (content d) bs" and "process_reach N J H fl p"
  shows "\<forall>self pm. p = Running self pm \<longrightarrow> (\<exists>ext. at (bs @ ext) (nm_chain pm))"
  using assms(6)
proof (induction rule: process_reach.induct)
  case (more p q)
  have step: "\<exists>ext. at (bs @ ext) (nm_chain pm')" if "p = Running self pm" "grows (nm_chain pm) (nm_chain pm')" for self pm pm'
    using more.IH that unfolding grows_def by (metis append.assoc)
  show ?case using more.hyps(2)
  proof cases
    case (started self pm)
    then obtain chain calc where c: "NewBlockchain E d None = Done (chain, calc)" "fst (nm_chain pm) = chain"
      using main_start_Done [of N H fl self pm] assms(2,3) by (auto simp: NewP2PManager_def)
    then have "inv bs chain" "ch_latestHeight chain = tip_height bs"
      using NewBlockchain_spec [OF assms(4,5), of None] by auto
    then have "at (bs @ []) (nm_chain pm)" using c(2) by (simp add: at_def)
    then show ?thesis using started by blast
  next
    case (request ecv sha1 sign now r pm pm' self)
    then show ?thesis using step [OF request(1) serve_grows [OF request(3) assms(2)]] by simp
  next
    case (discover self gossip joined subscribed pm pm')
    then have "nm_chain pm' = nm_chain pm" by (auto simp: Discover_start_def Let_def split: if_splits)
    then show ?thesis using step [OF discover(1), of pm'] discover by simp
  next
    case (search self pm found)
    then show ?thesis using step [OF search(1), of pm] by simp
  next
    case (genesis now params pm pm' self)
    then obtain c where c: "NewGenesisBlock E (ne_pub N) now params (nm_chain pm) = Done c" "nm_chain pm' = c"
      using assms(2) by (auto simp: genesis_routine_def outcome_simps with_chain_Done SetSynced_def)
    then show ?thesis using step [OF genesis(1), of pm'] NewGenesisBlock_grows [OF c(1) genesis(4,5)] genesis(2) by simp
  next
    case (node pm pm' self)
    then show ?thesis using step [OF node(1) node_step_grows [OF assms(1,2) node(3)]] by simp
  qed auto
qed simp

end


section \<open>Properties\<close>

text \<open>C3: From the start of the program to any later moment, the database holds one growing chain. Started over
  a data directory that holds a chain, whatever a process then does (requests before and after the
  manager exists, discovery, the genesis routine, messages, gossip, ticks, packaging, data commands) the
  database represents one list of blocks that extends that chain; heights strictly increase along it, and
  every block but a genesis-like one names its predecessor's hash.\<close>

theorem process_keeps_one_chain:
  assumes "chain_world (ne_chain N) len cell content eh eb et" and "json J ok"
    and "he_open H (fl_datadir fl) = Some d" and "chain_of bs" and "stored (node_karmem N) (content d) bs"
    and "process_reach N J H fl (Running self pm)"
  shows "\<exists>ext. stored (node_karmem N) (content (ch_db (fst (nm_chain pm)))) (bs @ ext)
    \<and> Height (fst (nm_chain pm)) = tip_height (bs @ ext) \<and> sorted_wrt (<) (map (\<lambda>b. blk_Height b) (bs @ ext))
    \<and> (\<forall>i. Suc i < length (bs @ ext) \<longrightarrow>
         IsGenesisBlock ((bs @ ext) ! Suc i) \<or> isPrevBlock ((bs @ ext) ! i) ((bs @ ext) ! Suc i))"
proof -
  obtain ext where e: "chain_inv (ne_chain N) content eh eb et (bs @ ext) (fst (nm_chain pm))"
    "ch_latestHeight (fst (nm_chain pm)) = tip_height (bs @ ext)"
    using chain_world.process_reach_at [OF assms(1,2) refl assms(3-6)]
    unfolding chain_world.at_def [OF assms(1)] chain_world.inv_def [OF assms(1)] by blast
  then have "chain_of (bs @ ext)" "stored (node_karmem N) (content (ch_db (fst (nm_chain pm)))) (bs @ ext)"
    by (simp_all add: chain_inv_def)
  then show ?thesis using chain_heights chain_linked e(2) unfolding Height_def by blast
qed

text \<open>A host whose network works, with an empty data directory.\<close>

definition std_host :: "(bytes \<rightharpoonup> bytes, string) host_env" where
  "std_host = \<lparr>he_open = (\<lambda>_. Some (\<lambda>_. None)), he_port = 31258, he_maddr = Some, he_prv = ''01'', he_identity = (\<lambda>_. True),
     he_host = Some ''self'', he_dht = (True, True), he_addrInfo = Some, he_connect = (\<lambda>_. True)\<rparr>"

lemma std_empty: "chain_of []" "stored std_karmem (\<lambda>_. None) []"
  using std_fresh by (auto simp: chain_inv_def)

lemma std_started:
  assumes "\<not> fl_help fl" and "fl_bootstrap fl = []"
  shows "\<exists>ch. main_start std_node std_host fl
      = Done (Some (''self'', NewP2PManager std_node (ch, Some (NewTxPool None), None) (fl_genesis fl) (fl_delta fl)))
    \<and> process_reach std_node tiny_json std_host fl
        (Running ''self'' (NewP2PManager std_node (ch, Some (NewTxPool None), None) (fl_genesis fl) (fl_delta fl)))"
proof -
  obtain ch where "NewBlockchain std_env (\<lambda>_. None) None = Done (ch, None)" using std_fresh by blast
  then have m: "main_start std_node std_host fl
      = Done (Some (''self'', NewP2PManager std_node (ch, Some (NewTxPool None), None) (fl_genesis fl) (fl_delta fl)))"
    using assms(2) by (simp add: main_start_def std_host_def NewKDHT_def hex_value_def)
  have "process_reach std_node tiny_json std_host fl Listening"
    by (rule process_reach.more [OF process_reach.boot process_step.listen [OF assms(1)]])
  then show ?thesis using m process_reach.more process_step.started by blast
qed

lemma process_keeps_one_chain_witness:
  "\<exists>self pm ext. process_reach std_node tiny_json std_host default_flags (Running self pm)
    \<and> stored std_karmem (ch_db (fst (nm_chain pm))) ext \<and> Height (fst (nm_chain pm)) = tip_height ext"
proof -
  obtain ch where r: "process_reach std_node tiny_json std_host default_flags
      (Running ''self'' (NewP2PManager std_node (ch, Some (NewTxPool None), None) False 0))"
    using std_started [of default_flags] by (auto simp: default_flags_def)
  have w: "chain_world (ne_chain std_node) mw_len mw_cell (\<lambda>d. d) list_entries list_entries list_entries"
    using std_world.chain_world_axioms by simp
  have s: "stored (node_karmem std_node) (\<lambda>_. None) []" "he_open std_host (fl_datadir default_flags) = Some (\<lambda>_. None)"
    using std_empty by (simp_all add: std_host_def)
  show ?thesis
    using process_keeps_one_chain [OF w tiny.json_axioms s(2) std_empty(1) s(1) r] r by auto
qed

text \<open>With a manager, a request for a block by number returns and leaves the chain what it is.\<close>

lemma serve_by_number:
  assumes "chain_world (ne_chain N) len cell content eh eb et" and "chain_inv (ne_chain N) content eh eb et bs (fst (nm_chain pm))"
  shows "\<exists>pm'. serve N ecv sha1 sign now (ReqBlockByNumber \<lparr>gb_number = Some n, gb_hash = h, gb_full = full\<rparr>) (Some pm) = Done (Some pm')
    \<and> chain_inv (ne_chain N) content eh eb et bs (fst (nm_chain pm'))"
proof -
  have "in_i64 (i64_of_u64 n)" by (simp add: i64_of_u64_def)
  then obtain f c where "GetBlockByHeight (ne_chain N) (i64_of_u64 n) (fst (nm_chain pm)) = Done (f, c)"
    "chain_inv (ne_chain N) content eh eb et bs c"
    using chain_world.GetBlockByHeight_spec [OF assms(1), of bs "fst (nm_chain pm)"] assms(2)
    unfolding chain_world.inv_def [OF assms(1)] by blast
  then show ?thesis
    by (auto simp: rpc_GetBlockByNumber_def after_def set_chain_def split: option.split sum.split)
qed

lemma early_send:
  assumes "rpc_SendTransactionWithData N sha1 sign now req None = Done (res, inst)"
  shows "inst = None \<and> (\<exists>err. res = Inl err)"
proof -
  obtain r where "SendTransactionWithData (node_karmem N) (ne_curve N) (ce_sha (ne_chain N)) sha1 sign (ne_prv N) now req = Done r"
    using assms by (auto simp: rpc_SendTransactionWithData_def outcome_simps)
  then show ?thesis using assms by (cases r) (auto simp: rpc_SendTransactionWithData_def)
qed

text \<open>C21: The RPC server answers before there is a node. From the moment it listens until the manager is made,
  any request for the chain's height, a block by number, a contract's data or the connected nodes stops
  the process, and no transaction is accepted, neither a signed one nor one the node is to build. Once the manager
  exists, the height and the connected nodes are always answered, a contract's data when the request has address and
  key, and a block by number, whether the chain has it or not, when the manager's state represents a chain.\<close>

theorem early_request_stops_process:
  assumes "\<not> fl_help fl"
  shows "process_reach N J H fl Crashed
    \<and> (\<forall>r \<in> {ReqBlockNumber, ReqConnected, ReqReadContract c, ReqBlockByNumber \<lparr>gb_number = Some n, gb_hash = h, gb_full = full\<rparr>}.
         serve N ecv sha1 sign now r None = Panics)
    \<and> (\<forall>s st inst. SubmitTransaction N ecv s None = Done (st, inst) \<longrightarrow>
         inst = (None :: ('d, 'h, 'b, 't, 's, 'k) P2PManager option) \<and> st \<noteq> SUCCESS)
    \<and> (\<forall>req res inst. rpc_SendTransactionWithData N sha1 sign now req None = Done (res, inst) \<longrightarrow>
         inst = (None :: ('d, 'h, 'b, 't, 's, 'k) P2PManager option) \<and> (\<exists>err. res = Inl err))
    \<and> (\<forall>pm. serve N ecv sha1 sign now ReqBlockNumber (Some pm) = Done (Some pm)
         \<and> serve N ecv sha1 sign now ReqConnected (Some pm) = Done (Some pm)
         \<and> (\<forall>address key. serve N ecv sha1 sign now (ReqReadContract \<lparr>rc_address = Some address, rc_key = Some key\<rparr>) (Some pm)
              = Done (Some pm))
         \<and> (\<forall>len cell content eh eb et bs. chain_world (ne_chain N) len cell content eh eb et
                \<and> chain_inv (ne_chain N) content eh eb et bs (fst (nm_chain pm)) \<longrightarrow>
              (\<exists>pm'. serve N ecv sha1 sign now (ReqBlockByNumber \<lparr>gb_number = Some n, gb_hash = h, gb_full = full\<rparr>) (Some pm)
                   = Done (Some pm')
                 \<and> chain_inv (ne_chain N) content eh eb et bs (fst (nm_chain pm')))))"
proof -
  have early: "serve N ecv sha1 sign now ReqBlockNumber (None :: ('d, 'h, 'b, 't, 's, 'k) P2PManager option) = Panics"
    for N :: "('d, 'h, 'b, 't, 's, 'w, 'k, 'p) node_env" and ecv sha1 sign now
    by (simp add: after_def rpc_GetBlockNumber_def)
  have "process_reach N J H fl Listening"
    by (rule process_reach.more [OF process_reach.boot process_step.listen [OF assms]])
  then have "process_reach N J H fl Crashed" using process_reach.more process_step.early_crash [OF early] by blast
  moreover have "\<forall>r \<in> {ReqBlockNumber, ReqConnected, ReqReadContract c, ReqBlockByNumber \<lparr>gb_number = Some n, gb_hash = h, gb_full = full\<rparr>}.
      serve N ecv sha1 sign now r (None :: ('d, 'h, 'b, 't, 's, 'k) P2PManager option) = Panics"
    by (auto simp: after_def rpc_GetBlockNumber_def rpc_ReadContractAddress_def rpc_GetBlockByNumber_def Let_def ConnectedNodeList_def)
  moreover have "\<forall>s st inst. SubmitTransaction N ecv s (None :: ('d, 'h, 'b, 't, 's, 'k) P2PManager option) = Done (st, inst)
      \<longrightarrow> inst = None \<and> st \<noteq> SUCCESS"
    by (auto simp: SubmitTransaction_def Let_def outcome_simps split: option.splits if_splits)
  moreover have "\<forall>req res inst. rpc_SendTransactionWithData N sha1 sign now req (None :: ('d, 'h, 'b, 't, 's, 'k) P2PManager option)
      = Done (res, inst) \<longrightarrow> inst = None \<and> (\<exists>err. res = Inl err)"
    using early_send by blast
  moreover have "serve N ecv sha1 sign now ReqBlockNumber (Some pm) = Done (Some pm)"
    "serve N ecv sha1 sign now ReqConnected (Some pm) = Done (Some pm)"
    "serve N ecv sha1 sign now (ReqReadContract \<lparr>rc_address = Some address, rc_key = Some key\<rparr>) (Some pm) = Done (Some pm)"
    for address key and pm :: "('d, 'h, 'b, 't, 's, 'k) P2PManager"
    by (simp_all add: after_def rpc_GetBlockNumber_def rpc_ReadContractAddress_def ConnectedNodeList_def)
  moreover have "\<exists>pm'. serve N ecv sha1 sign now (ReqBlockByNumber \<lparr>gb_number = Some n, gb_hash = h, gb_full = full\<rparr>) (Some pm)
      = Done (Some pm') \<and> chain_inv (ne_chain N) content eh eb et bs (fst (nm_chain pm'))"
    if "chain_world (ne_chain N) len cell content eh eb et \<and> chain_inv (ne_chain N) content eh eb et bs (fst (nm_chain pm))"
    for len cell content eh eb et bs and pm :: "('d, 'h, 'b, 't, 's, 'k) P2PManager"
    using serve_by_number [of N len cell content eh eb et bs pm] that by blast
  ultimately show ?thesis by (intro conjI allI impI) simp_all
qed

text \<open>A process that was asked too early; and a started node that is asked for a block it has and one it lacks.\<close>

lemma early_request_stops_process_witness:
  "process_reach std_node tiny_json std_host default_flags Crashed
   \<and> (\<exists>pm pm1. serve std_node (\<lambda>k h s. Done True) (\<lambda>m. []) (\<lambda>k m. Inl []) 0
        (ReqBlockByNumber \<lparr>gb_number = Some 7, gb_hash = None, gb_full = None\<rparr>) (Some pm) = Done (Some pm1))"
proof -
  have fl: "\<not> fl_help default_flags" by (simp add: default_flags_def)
  obtain ch where c: "chain_inv (ne_chain std_node) (\<lambda>d. d) list_entries list_entries list_entries [sample_genesis]
      (fst (nm_chain (genesis_node ch)))"
    using genesis_node_exists by blast
  note e = early_request_stops_process [OF fl, where N = std_node and J = tiny_json and H = std_host and ecv = "\<lambda>k h s. Done True"
      and ?sha1.0 = "\<lambda>m. []" and sign = "\<lambda>k m. Inl []" and now = 0 and n = 7 and h = None and full = None]
  have "\<exists>pm'. serve std_node (\<lambda>k h s. Done True) (\<lambda>m. []) (\<lambda>k m. Inl []) 0
      (ReqBlockByNumber \<lparr>gb_number = Some 7, gb_hash = None, gb_full = None\<rparr>) (Some (genesis_node ch)) = Done (Some pm')"
    using e [THEN conjunct2, THEN conjunct2, THEN conjunct2, THEN conjunct2, THEN spec, THEN conjunct2, THEN conjunct2, THEN conjunct2,
        THEN spec, THEN spec, THEN spec, THEN spec, THEN spec, THEN spec, THEN spec, THEN mp, OF conjI [OF std_node_world c]] by blast
  then show ?thesis using e [THEN conjunct1] by blast
qed


text \<open>What the genesis routine does on a node that has just started.\<close>

lemma fresh_genesis_block:
  assumes "karmem (ce_karmem E) len cell" and "in_i64 now" and "33 \<le> length publicKey" and "length params < 2 ^ 31"
    and "\<And>m. 32 \<le> length (ce_sha E m)"
  shows "\<exists>g. genesis_block E now publicKey params = Done (Some g) \<and> IsGenesisBlock g \<and> blk_Height g = 0
    \<and> bh_Timestamp (blk_Header g) = now \<and> bh_Params (blk_Header g) = params \<and> blk_Transactions g = []"
proof -
  define header where "header = \<lparr>bh_Timestamp = now, bh_PrevBlockHash = replicate 32 0, bh_BlockHash = replicate 32 0,
     bh_MerkleRoot = replicate 32 0, bh_Height = 0, bh_PublicKey = take 33 publicKey, bh_Params = params, bh_GasLimit = 0\<rparr>"
  have "in_i64 0" by (simp add: in_i64_def)
  then have "wf_header header" using assms(2,3) by (simp add: wf_header_def header_def)
  then obtain bs where bs: "SerializeBlockHeader (ce_karmem E) header = Some bs"
    using karmem.header_roundtrip [OF assms(1)] by blast
  have k: "to_array 33 publicKey = Done (take 33 publicKey)" "to_array 32 (ce_sha E bs) = Done (take 32 (ce_sha E bs))"
    using assms(3) assms(5) [of bs] by (simp_all add: to_array_def)
  show ?thesis
    using bs by (simp add: genesis_block_def k header_def [symmetric])
      (simp add: header_def IsGenesisBlock_def PrevBlockHash_def hex_encode_zeros)
qed

lemma Synced_genesis:
  "fst (Synced (SetSynced (pm\<lparr>nm_chain := c\<rparr>))) \<longleftrightarrow> time_synced (nm_timeSyncer pm)"
  by (simp add: Synced_def SetSynced_def getStatus_def setSynced_def)

text \<open>A node started with the genesis flag declares itself synced after ten seconds, whatever it has. Over an
  empty data directory it first creates the chain, one block of height zero with the current time and the
  generated parameters. Over a directory that holds a chain it keeps that chain, however old, without having
  asked any peer: from then on it takes itself for synced, answers requests and packages blocks.\<close>

theorem genesis_node_claims_sync:
  assumes "chain_world (ne_chain N) len cell content eh eb et" and "he_open H (fl_datadir fl) = Some d"
    and "chain_of bs" and "stored (node_karmem N) (content d) bs" and "bs = [] \<or> height_at bs 0 \<noteq> None"
    and "main_start N H fl = Done (Some (self, pm))" and "fl_genesis fl"
    and "hex_decode (ne_pub N) = Some key" and "33 \<le> length key" and "\<And>m. 32 \<le> length (ce_sha (ne_chain N) m)"
    and "in_i64 now" and "wf_genesis gp"
  shows "getStatus (nm_blockSyncer pm) \<noteq> synced
    \<and> (\<exists>pm'. genesis_routine now (Done (Inr gp)) N pm = Done pm' \<and> fst (Synced pm')
      \<and> (if bs = []
         then \<exists>g. blk_Height g = 0 \<and> bh_Timestamp (blk_Header g) = now
           \<and> DeserializeGenesisParams (node_karmem N) (bh_Params (blk_Header g)) = gp
           \<and> chain_inv (ne_chain N) content eh eb et [g] (fst (nm_chain pm'))
         else chain_inv (ne_chain N) content eh eb et bs (fst (nm_chain pm')) \<and> Height (fst (nm_chain pm')) = tip_height bs))"
proof -
  note inv = chain_world.inv_def [OF assms(1)]
  have karm: "karmem (node_karmem N) len cell" using assms(1) by (simp add: chain_world_def)
  obtain ch calc where c: "NewBlockchain (ne_chain N) d None = Done (ch, calc)"
    "pm = NewP2PManager N (ch, Some (NewTxPool None), calc) True (fl_delta fl)"
    using main_start_Done [OF assms(6)] assms(2,7) by auto
  have n: "chain_inv (ne_chain N) content eh eb et bs ch" "ch_latestHeight ch = tip_height bs" "ch_dp ch = NewDataProcessor"
    "bs = [] \<longrightarrow> calc = None"
    using chain_world.NewBlockchain_spec [OF assms(1,3,4), of None] c(1) unfolding inv
    by (auto simp: height_at_def split: option.splits)
  have st: "getStatus (nm_blockSyncer pm) \<noteq> synced" "time_synced (nm_timeSyncer pm)"
    by (simp_all add: c(2) NewP2PManager_def getStatus_def BlockSyncer_Start_def NewBlockSyncer_def sync_codes
        time_synced_def TimeSyncer_Start_def NewTimeSyncer_def)
  have run: "genesis_routine now (Done (Inr gp)) N pm
      = bindO (NewGenesisBlock (ne_chain N) (ne_pub N) now (Done (Inr gp)) (ch, Some (NewTxPool None), calc))
          (\<lambda>c. Done (SetSynced (pm\<lparr>nm_chain := c\<rparr>)))"
    by (simp add: genesis_routine_def with_chain_def c(2) NewP2PManager_def)
      (cases "NewGenesisBlock (ne_chain N) (ne_pub N) now (Done (Inr gp)) (ch, Some (NewTxPool None), calc)"; simp)
  obtain r c1 c2 where r: "GetBlockByHeight (ne_chain N) 0 ch = Done (r, ch\<lparr>ch_blockHeightMap := c1, ch_blockCache := c2\<rparr>)"
    "chain_inv (ne_chain N) content eh eb et bs (ch\<lparr>ch_blockHeightMap := c1, ch_blockCache := c2\<rparr>)"
    "case height_at bs 0 of None \<Rightarrow> \<exists>e. r = Inl e | Some b \<Rightarrow> r = Inr b"
    using chain_world.GetBlockByHeight_spec [OF assms(1), of bs ch 0] n(1) unfolding inv by (auto simp: in_i64_def)
  define ch1 where "ch1 = ch\<lparr>ch_blockHeightMap := c1, ch_blockCache := c2\<rparr>"
  have ch1: "ch_latestHeight ch1 = tip_height bs" "ch_dp ch1 = NewDataProcessor" "chain_inv (ne_chain N) content eh eb et bs ch1"
    using n r(2) by (simp_all add: ch1_def)
  show ?thesis
  proof (cases "bs = []")
    case False
    then obtain b where "r = Inr b" using assms(5) r(3) by auto
    then have "genesis_routine now (Done (Inr gp)) N pm = Done (SetSynced (pm\<lparr>nm_chain := (ch1, Some (NewTxPool None), calc)\<rparr>))"
      using r(1) by (simp add: run NewGenesisBlock_def ch1_def)
    then show ?thesis using False st ch1 Synced_genesis [where pm = pm] by (simp add: SetSynced_def Height_def)
  next
    case True
    then obtain e where "r = Inl e" using r(3) by (auto simp: height_at_def)
    obtain pb where pb: "SerializeGenesisParams (node_karmem N) gp = Some pb" "length pb = 208"
      "DeserializeGenesisParams (node_karmem N) pb = gp"
      using karmem.genesis_roundtrip [OF karm assms(12)] by blast
    obtain g where g: "genesis_block (ne_chain N) now key pb = Done (Some g)" "IsGenesisBlock g" "blk_Height g = 0"
      "bh_Timestamp (blk_Header g) = now" "bh_Params (blk_Header g) = pb" "blk_Transactions g = []"
      using fresh_genesis_block [OF karm assms(11,9) _ assms(10), of pb] pb(2) by auto
    have fit: "fits g" using genesis_block_fits [OF g(1) assms(11)] pb(2) by simp
    have acc: "accepts [] g" using g(2,3) by (simp add: accepts_def tip_height_def)
    obtain ch2 p2 calc2 where i: "insertBlock (ne_chain N) g (ch1, Some (NewTxPool None), calc) = Done (ch2, p2, calc2)"
      "chain_inv (ne_chain N) content eh eb et [g] ch2"
      using chain_world.insertBlock_spec [OF assms(1), of "[]" ch1 g calc "NewTxPool None"] ch1 fit n(4) True g(6) acc
      unfolding inv by (fastforce simp: NewDataProcessor_def ChainStore.extend_def)
    have "genesis_routine now (Done (Inr gp)) N pm = Done (SetSynced (pm\<lparr>nm_chain := (ch2, p2, calc2)\<rparr>))"
      using r(1) \<open>r = Inl e\<close> assms(8) pb(1) g(1,2) i(1)
      by (simp add: run NewGenesisBlock_def ch1_def AppendBlockTask_def)
    then show ?thesis using True st Synced_genesis [where pm = pm] i(2) g(3,4,5) pb(3)
      by (auto simp: SetSynced_def intro!: exI [of _ g])
  qed
qed


definition sample_genesis_params :: GenesisParams where
  "sample_genesis_params = \<lparr>gp_Order = replicate 128 1, gp_TimeParam = 10, gp_Seed = replicate 32 2,
     gp_VerifyParam = replicate 32 3\<rparr>"

lemma genesis_node_claims_sync_witness:
  "\<exists>self pm pm'. main_start std_node std_host (default_flags\<lparr>fl_genesis := True\<rparr>) = Done (Some (self, pm))
    \<and> genesis_routine 1000 (Done (Inr sample_genesis_params)) std_node pm = Done pm' \<and> fst (Synced pm')"
proof -
  let ?fl = "default_flags\<lparr>fl_genesis := True\<rparr>"
  obtain ch where m: "main_start std_node std_host ?fl
      = Done (Some (''self'', NewP2PManager std_node (ch, Some (NewTxPool None), None) True 0))"
    using std_started [of ?fl] by (auto simp: default_flags_def)
  have w: "chain_world (ne_chain std_node) mw_len mw_cell (\<lambda>d. d) list_entries list_entries list_entries"
    using std_world.chain_world_axioms by simp
  have s: "stored (node_karmem std_node) (\<lambda>_. None) []" "he_open std_host (fl_datadir ?fl) = Some (\<lambda>_. None)"
    using std_empty by (simp_all add: std_host_def)
  have k: "hex_decode (ne_pub std_node) = Some (replicate 33 4)" "33 \<le> length (replicate 33 (4 :: byte))"
    "32 \<le> length (ce_sha (ne_chain std_node) x)" for x
    by (simp_all add: std_node_def std_env_def)
  have "in_i64 1000" "wf_genesis sample_genesis_params"
    by (simp_all add: in_i64_def wf_genesis_def sample_genesis_params_def)
  then show ?thesis
    using genesis_node_claims_sync [OF w s(2) std_empty(1) s(1) _ m _ k(1,2,3)] m by auto
qed


section \<open>Discovery\<close>

lemma CheckAndCreateStream_cases:
  obtains "CheckAndCreateStream now reachable stream self pid N pm = pm"
  | "CheckAndCreateStream now reachable stream self pid N pm = pm\<lparr>nm_triedPeers := (nm_triedPeers pm)(pid \<mapsto> now)\<rparr>"
    "reachable" "stream = None"
  | addr where "CheckAndCreateStream now reachable stream self pid N pm = manager_NewPeer N pid addr pm"
    "reachable" "stream = Some addr" "pid \<noteq> self" "card (dom (nm_peersById pm)) < streamLimit"
    "\<forall>p. nm_peersById pm pid = Some p \<longrightarrow> Stopped (nm_store pm p)"
proof -
  let ?tried = "case nm_triedPeers pm pid of None \<Rightarrow> False | Some tried \<Rightarrow> now - tried < retryInterval"
    and ?live = "case nm_peersById pm pid of None \<Rightarrow> False | Some remote \<Rightarrow> \<not> Stopped (nm_store pm remote)"
  note d = CheckAndCreateStream_def [of now reachable stream self pid N pm]
  consider "card (dom (nm_peersById pm)) \<ge> streamLimit \<or> pid = self \<or> ?tried \<or> ?live \<or> \<not> reachable"
    | "card (dom (nm_peersById pm)) < streamLimit" "pid \<noteq> self" "\<not> ?tried" "\<not> ?live" "reachable"
    by linarith
  then show thesis
  proof cases
    case 1
    then show ?thesis using that(1) by (auto simp: d)
  next
    case 2
    have e: "CheckAndCreateStream now reachable stream self pid N pm = (case stream of
        None \<Rightarrow> pm\<lparr>nm_triedPeers := (nm_triedPeers pm)(pid \<mapsto> now)\<rparr>
      | Some addr \<Rightarrow> manager_NewPeer N pid addr pm)"
      using 2 unfolding d by (simp only: not_le [symmetric] if_False not_True_eq_False simp_thms)
    from 2 have "\<forall>p. nm_peersById pm pid = Some p \<longrightarrow> Stopped (nm_store pm p)" by auto
    then show ?thesis using 2(1,2,5) e that(2,3) by (cases stream) simp_all
  qed
qed

text \<open>What a search keeps of the manager it began with; \<open>open\<close> are the peers that a stream was opened to.\<close>

definition search_ok ::
    "string \<Rightarrow> string set \<Rightarrow> ('d, 'h, 'b, 't, 's, 'k) P2PManager \<Rightarrow> ('d, 'h, 'b, 't, 's, 'k) P2PManager \<Rightarrow> bool" where
  "search_ok self opened pm0 pm \<longleftrightarrow> tables_ok pm \<and> nm_next pm0 \<le> nm_next pm
     \<and> card (dom (nm_peersById pm)) \<le> max streamLimit (card (dom (nm_peersById pm0)))
     \<and> nm_peersById pm self = nm_peersById pm0 self
     \<and> (\<forall>p < nm_next pm0. nm_store pm p = nm_store pm0 p)
     \<and> (\<forall>pid p. nm_peersById pm0 pid = Some p \<and> \<not> Stopped (nm_store pm0 p) \<longrightarrow> nm_peersById pm pid = Some p)
     \<and> (\<forall>pid. pid \<notin> opened \<longrightarrow> nm_peersById pm pid = nm_peersById pm0 pid)"

lemma search_ok_NewPeer:
  assumes "search_ok self opened pm0 pm" and "tables_ok pm0" and "pid \<in> opened" and "pid \<noteq> self"
    and "card (dom (nm_peersById pm)) < streamLimit"
    and "\<forall>p. nm_peersById pm pid = Some p \<longrightarrow> Stopped (nm_store pm p)"
  shows "search_ok self opened pm0 (manager_NewPeer N pid addr pm)"
proof -
  have ok: "tables_ok (manager_NewPeer N pid addr pm)" using tables_ok_NewPeer assms(1,5) by (auto simp: search_ok_def)
  have "card (dom (nm_peersById (manager_NewPeer N pid addr pm))) \<le> Suc (card (dom (nm_peersById pm)))"
    by (simp add: manager_NewPeer_def card_insert_le_m1)
  then have "card (dom (nm_peersById (manager_NewPeer N pid addr pm))) \<le> streamLimit" using assms(5) by linarith
  moreover have "p < nm_next pm0" if "nm_peersById pm0 k = Some p" for k p
    using that assms(2) ranI by (fastforce simp: tables_ok_def)
  ultimately show ?thesis using assms(1,3,4,6) ok
    by (auto simp: search_ok_def manager_NewPeer_def)
qed

lemma search_ok_foldl:
  assumes "tables_ok pm0" and "search_ok self opened pm0 pm"
    and "\<forall>(now, reachable, stream, pid) \<in> set ps. reachable \<and> stream \<noteq> None \<longrightarrow> pid \<in> opened"
  shows "search_ok self opened pm0
    (foldl (\<lambda>pm (now, reachable, stream, pid). CheckAndCreateStream now reachable stream self pid N pm) pm ps)"
  using assms(2,3)
proof (induction ps arbitrary: pm)
  case (Cons x ps)
  obtain now reachable stream pid where x: "x = (now, reachable, stream, pid)" by (cases x)
  have "search_ok self opened pm0 (CheckAndCreateStream now reachable stream self pid N pm)"
  proof (cases rule: CheckAndCreateStream_cases [of now reachable stream self pid N pm])
    case 1
    then show ?thesis using Cons.prems(1) by simp
  next
    case 2
    then show ?thesis using Cons.prems(1) by (simp add: search_ok_def tables_ok_def)
  next
    case (3 addr)
    then have "pid \<in> opened" using Cons.prems(2) by (simp add: x)
    then show ?thesis unfolding 3(1) using search_ok_NewPeer [OF Cons.prems(1) assms(1)] 3 by blast
  qed
  then show ?case using Cons by (simp add: x)
qed simp

lemma untried_foldl:
  assumes "\<forall>(now, reachable, stream, q) \<in> set ps. q = pid \<longrightarrow> \<not> reachable"
  shows "nm_triedPeers (foldl (\<lambda>pm (now, reachable, stream, pid). CheckAndCreateStream now reachable stream self pid N pm) pm ps) pid
    = nm_triedPeers pm pid"
  using assms
proof (induction ps arbitrary: pm)
  case (Cons x ps)
  obtain now reachable stream q where x: "x = (now, reachable, stream, q)" by (cases x)
  have "nm_triedPeers (CheckAndCreateStream now reachable stream self q N pm) pid = nm_triedPeers pm pid"
    by (cases rule: CheckAndCreateStream_cases [of now reachable stream self q N pm])
      (use Cons.prems in \<open>auto simp: x manager_NewPeer_def\<close>)
  then show ?case using Cons by (simp add: x)
qed simp

text \<open>C35: A search for peers stays within the limits. It never brings the table of peers above 20 identifiers,
  never registers the node itself, leaves every running peer as it is, and changes the entry of an identifier only
  when it has opened a stream to that peer in this search: a peer whose stream could not be opened is not registered.
  A peer that could not be dialled leaves no trace, so it is dialled again at the next
  tick, although failed attempts are meant to be skipped for ten minutes.\<close>

theorem discovery_respects_limits:
  assumes "tables_ok pm"
  shows "tables_ok (Discover_tick (Some ps) self N pm)
    \<and> card (dom (nm_peersById (Discover_tick (Some ps) self N pm))) \<le> max 20 (card (dom (nm_peersById pm)))
    \<and> nm_peersById (Discover_tick (Some ps) self N pm) self = nm_peersById pm self
    \<and> (\<forall>pid p. nm_peersById pm pid = Some p \<and> \<not> Stopped (nm_store pm p) \<longrightarrow>
         nm_peersById (Discover_tick (Some ps) self N pm) pid = Some p
         \<and> nm_store (Discover_tick (Some ps) self N pm) p = nm_store pm p)
    \<and> (\<forall>pid. nm_peersById (Discover_tick (Some ps) self N pm) pid \<noteq> nm_peersById pm pid \<longrightarrow>
         (\<exists>now addr. (now, True, Some addr, pid) \<in> set ps))
    \<and> (\<forall>pid. (\<forall>(now, reachable, stream, q) \<in> set ps. q = pid \<longrightarrow> \<not> reachable) \<longrightarrow>
         nm_peersById (Discover_tick (Some ps) self N pm) pid = nm_peersById pm pid
         \<and> nm_triedPeers (Discover_tick (Some ps) self N pm) pid = nm_triedPeers pm pid)"
proof -
  define opened where "opened = {pid. \<exists>now addr. (now, True, Some addr, pid) \<in> set ps}"
  have "search_ok self opened pm pm" using assms by (simp add: search_ok_def)
  moreover have "\<forall>(now, reachable, stream, pid) \<in> set ps. reachable \<and> stream \<noteq> None \<longrightarrow> pid \<in> opened"
    by (fastforce simp: opened_def)
  ultimately have s: "search_ok self opened pm (Discover_tick (Some ps) self N pm)"
    unfolding Discover_tick_def option.case by (rule search_ok_foldl [OF assms])
  have below: "p < nm_next pm" if "nm_peersById pm pid = Some p" for pid p
    using that assms ranI by (fastforce simp: tables_ok_def)
  have closed: "pid \<notin> opened" if "\<forall>(now, reachable, stream, q) \<in> set ps. q = pid \<longrightarrow> \<not> reachable" for pid
    using that by (fastforce simp: opened_def)
  have tried: "nm_triedPeers (Discover_tick (Some ps) self N pm) pid = nm_triedPeers pm pid"
    if "\<forall>(now, reachable, stream, q) \<in> set ps. q = pid \<longrightarrow> \<not> reachable" for pid
    using untried_foldl [OF that] by (simp add: Discover_tick_def)
  have new: "\<exists>now addr. (now, True, Some addr, pid) \<in> set ps" if "pid \<in> opened" for pid
    using that by (simp add: opened_def)
  from s show ?thesis unfolding search_ok_def streamLimit_def by (intro conjI) (use below closed tried new in blast)+
qed

text \<open>A peer to which no stream could be opened, although it could be dialled, and one that could not be dialled.\<close>

lemma discovery_respects_limits_witness:
  "nm_peersById (Discover_tick (Some [(0, True, None, ''q''), (0, False, None, ''p'')]) ''me'' std_node
      (NewP2PManager std_node (undefined, None, None) True 0)) ''q'' = None"
proof -
  let ?ps = "[(0, True, None, ''q''), (0, False, None, ''p'')] :: (int \<times> bool \<times> string option \<times> string) list"
    and ?pm = "NewP2PManager std_node (undefined, None, None) True 0"
  have "\<nexists>now addr. (now, True, Some addr, ''q'') \<in> set ?ps" by simp
  then have "nm_peersById (Discover_tick (Some ?ps) ''me'' std_node ?pm) ''q'' = nm_peersById ?pm ''q''"
    using discovery_respects_limits [OF tables_ok_new [of std_node "(undefined, None, None)" True 0], of ?ps "''me''" std_node]
    by blast
  then show ?thesis by (simp add: NewP2PManager_def)
qed

end
