(* ===== verification/Window.thy ===== *)
theory Window
  imports Buffer
begin

text \<open>
  The buffer while a chain is handed to it block by block: it keeps a window of at most thirteen blocks and pops
  the others in order. The calculator may follow the seeds of the blocks on the way.
\<close>

section \<open>The window\<close>

text \<open>How many blocks of the chain have left the buffer when \<open>P\<close> of them were given to it; the first is the one
  the buffer was made for.\<close>

definition left_buffer :: "nat \<Rightarrow> nat" where
  "left_buffer P = max 1 (P - 12)"

text \<open>A chain whose blocks lie at the heights of their positions.\<close>

definition dense :: "Block list \<Rightarrow> bool" where
  "dense bs \<longleftrightarrow> (\<forall>i < length bs. blk_Height (bs ! i) = int i)
     \<and> (\<forall>i. Suc i < length bs \<longrightarrow> PrevBlockHash (bs ! Suc i) = BlockHash (bs ! i))
     \<and> inj_on (\<lambda>i. BlockHash (bs ! i)) {0..<length bs} \<and> length bs < 2 ^ 62"

definition window_view :: "Block list \<Rightarrow> nat \<Rightarrow> int \<Rightarrow> Block option" where
  "window_view bs P h = (if int (max 1 (left_buffer P - 1)) \<le> h \<and> h < int P then Some (bs ! nat h) else None)"

definition window :: "'c lru_set \<Rightarrow> Block list \<Rightarrow> nat \<Rightarrow> 'c BlockBuffer \<Rightarrow> bool" where
  "window L bs P b \<longleftrightarrow> bf_latestBlock b = bs ! (left_buffer P - 1) \<and> bf_latestBlockHeight b = int (left_buffer P - 1)
     \<and> bf_bufferedHeight b = int (P - 1) \<and> bf_selectedBlock b = window_view bs P
     \<and> (\<forall>k. lru_contains L (bf_knownBlocks b) k \<longrightarrow> (\<exists>i \<in> {1..<P}. k = BlockHash (bs ! i)))"

lemma i64_small: "0 \<le> h \<Longrightarrow> h < 2 ^ 63 \<Longrightarrow> i64 h = h"
  by (rule i64_id) (simp add: in_i64_def)

lemma window_view_last:
  assumes "2 \<le> P"
  shows "window_view bs P (int (P - 1)) = Some (bs ! (P - 1))"
proof -
  have "max 1 (left_buffer P - 1) \<le> P - 1" using assms by (auto simp: left_buffer_def)
  then have "int (max 1 (left_buffer P - 1)) \<le> int (P - 1)" unfolding of_nat_le_iff .
  moreover have "int (P - 1) < int P" using assms by simp
  ultimately show ?thesis unfolding window_view_def nat_int by simp
qed

lemma window_view_Suc:
  "1 \<le> P \<Longrightarrow> P < 13 \<Longrightarrow> (window_view bs P)(int P \<mapsto> bs ! P, int P + 1 := None) = window_view bs (Suc P)"
  by (rule ext) (auto simp: window_view_def left_buffer_def)

lemma window_view_pop:
  "13 \<le> P \<Longrightarrow> (window_view bs P)(int P \<mapsto> bs ! P, int P + 1 := None, int (left_buffer P - 1) := None) = window_view bs (Suc P)"
  by (rule ext) (auto simp: window_view_def left_buffer_def)

context seen_cache
begin

lemma window_new:
  assumes "dense bs" and "bs \<noteq> []"
  shows "window L bs 1 (NewBlockBuffer L (bs ! 0))"
proof -
  have "blk_Height (bs ! 0) = 0" using assms by (simp add: dense_def)
  then show ?thesis
    by (auto simp: window_def NewBlockBuffer_def left_buffer_def window_view_def contains entries_new fun_eq_iff)
qed

text \<open>The next block of the chain: it is taken, and the oldest block of a full window is popped.\<close>

lemma window_Process:
  assumes w: "window L bs P b" and d: "dense bs" and P: "1 \<le> P" "P < length bs"
    and v: "block_seed K (bs ! P) = (seed, pf)" "VerifyBlockVDF calc seed pf = Done True" "AppendNewSeed seed pf calc = Done calc'"
  shows "\<exists>b'. Process_block L K (bs ! P) (b, pc, calc) =
      (if P < 13 then Done (b', pc, calc') else if length pc < bufferChanSize then Done (b', pc @ [bs ! left_buffer P], calc') else Blocks)
    \<and> window L bs (Suc P) b' \<and> bf_blockChan b' = bf_blockChan b \<and> bf_secondChan b' = bf_secondChan b"
proof -
  let ?x = "bs ! P"
  have n: "int P < 2 ^ 62" "int (length bs) < 2 ^ 62" using d P by (simp_all add: dense_def)
  have h: "blk_Height ?x = int P" "in_i64 (int P)" "int P < 2 ^ 63 - 1" using d P n by (simp_all add: dense_def in_i64_def)
  note tw = w [unfolded window_def]
  have lat: "left_buffer P - 1 < P" "1 \<le> left_buffer P" "left_buffer P \<le> P" using P by (auto simp: left_buffer_def)
  have prev: "PrevBlockHash ?x = BlockHash (bs ! (P - 1))" using d P by (cases P) (auto simp: dense_def)
  have new: "\<not> lru_contains L (bf_knownBlocks b) (BlockHash ?x)"
  proof
    assume "lru_contains L (bf_knownBlocks b) (BlockHash ?x)"
    then obtain j where "j \<in> {1..<P}" "BlockHash ?x = BlockHash (bs ! j)" using tw by blast
    then show False using d P inj_onD [of "\<lambda>i. BlockHash (bs ! i)" "{0..<length bs}" P j] by (auto simp: dense_def)
  qed
  have i1: "i64 (blk_Height ?x - 1) = int (P - 1)" using h P n by (simp add: i64_small of_nat_diff)
  have "\<not> orphan b ?x"
  proof (cases "P = 1")
    case True
    then show ?thesis using tw prev by (simp add: orphan_def left_buffer_def)
  next
    case False
    then have "bf_selectedBlock b (int (P - 1)) = Some (bs ! (P - 1))"
      using tw P window_view_last [of P bs] by simp
    then show ?thesis using prev i1 by (simp add: orphan_def)
  qed
  moreover have "bf_selectedBlock b (blk_Height ?x) = None" using tw h by (simp add: window_view_def)
  moreover have "bf_latestBlockHeight b < blk_Height ?x" using tw h lat(1) by simp
  ultimately obtain kn pr where p: "kn = lru_add L (bf_knownBlocks b) (BlockHash ?x) ()"
    "Process_block L K ?x (b, pc, calc) =
     bindO (pop_block ?x (b\<lparr>bf_knownBlocks := kn, bf_processedBlocks := pr, bf_bufferedHeight := blk_Height ?x,
         bf_selectedBlock := (bf_selectedBlock b)(blk_Height ?x \<mapsto> ?x, blk_Height ?x + 1 := None)\<rparr>) pc)
       (\<lambda>(b3, pc'). Done (b3, pc', calc'))"
    using Process_verified [OF v, of b L pc] new h by auto
  define b1 where "b1 = b\<lparr>bf_knownBlocks := kn, bf_processedBlocks := pr, bf_bufferedHeight := blk_Height ?x,
      bf_selectedBlock := (window_view bs P)(int P \<mapsto> ?x, int P + 1 := None)\<rparr>"
  have run: "Process_block L K ?x (b, pc, calc) = bindO (pop_block ?x b1 pc) (\<lambda>(b3, pc'). Done (b3, pc', calc'))"
    using p(2) tw h by (simp add: b1_def)
  have kn: "\<exists>i \<in> {1..<Suc P}. k = BlockHash (bs ! i)" if "lru_contains L kn k" for k
  proof -
    have "k = BlockHash ?x \<or> lru_contains L (bf_knownBlocks b) k" using that contains_add_old unfolding p(1) by metis
    then show ?thesis using tw P by (force simp: less_Suc_eq)
  qed
  have dist: "i64 (blk_Height ?x - bf_latestBlockHeight b1) = int P - int (left_buffer P - 1)"
    using tw h lat n by (simp add: b1_def i64_small)
  show ?thesis
  proof (cases "P < 13")
    case True
    then have "pop_block ?x b1 pc = Done (b1, pc)"
      using dist P by (auto simp: pop_block_def maxBufferSize_def left_buffer_def)
    moreover have "window L bs (Suc P) b1"
      using tw kn window_view_Suc [OF P(1) True] True h P by (simp add: window_def b1_def left_buffer_def)
    ultimately show ?thesis using run True by (intro exI [of _ b1]) (simp add: b1_def)
  next
    case False
    define b2 where "b2 = b1\<lparr>bf_latestBlockHash := BlockHash (bs ! left_buffer P), bf_latestBlockHeight := int (left_buffer P),
      bf_latestBlock := bs ! left_buffer P, bf_selectedBlock := (bf_selectedBlock b1)(int (left_buffer P - 1) := None)\<rparr>"
    have l: "left_buffer (Suc P) = Suc (left_buffer P)" "left_buffer P < P" "left_buffer P \<noteq> P" "13 \<le> P"
      using False by (auto simp: left_buffer_def)
    have "bf_selectedBlock b1 (int (left_buffer P)) = Some (bs ! left_buffer P)"
      using l lat by (auto simp: b1_def window_view_def)
    moreover have "i64 (bf_latestBlockHeight b1 + 1) = int (left_buffer P)" "i64 (int (left_buffer P) - 1) = int (left_buffer P - 1)"
      using tw lat n by (simp_all add: b1_def i64_small of_nat_diff)
    ultimately have "PopSelectedBlock b1 = Done (bs ! left_buffer P, b2)"
      by (simp add: PopSelectedBlock_def Let_def b2_def)
    then have "pop_block ?x b1 pc = (if length pc < bufferChanSize
        then Done (b2\<lparr>bf_bufferFull := True\<rparr>, pc @ [bs ! left_buffer P]) else Blocks)"
      using dist False by (auto simp: pop_block_def maxBufferSize_def left_buffer_def chan_send_def of_nat_diff)
    moreover have "window L bs (Suc P) (b2\<lparr>bf_bufferFull := True\<rparr>)"
      using kn l window_view_pop [OF l(4), of bs] h by (simp add: window_def b2_def b1_def)
    ultimately show ?thesis using run False by (intro exI [of _ "b2\<lparr>bf_bufferFull := True\<rparr>"]) (simp add: b2_def b1_def)
  qed
qed

text \<open>A full window of the whole chain offers the last block as the best leaf.\<close>

lemma window_leaf:
  assumes "window L bs P b" and "1 \<le> P" and "int P \<le> now"
  shows "GetPriorityLeaf b now = bs ! (P - 1)"
proof (cases "P = 1")
  case True
  then show ?thesis using assms(1) by (simp add: GetPriorityLeaf_def window_def left_buffer_def)
next
  case False
  then obtain n where "nat (bf_bufferedHeight b - bf_latestBlockHeight b) = Suc n"
    using assms(1,2) by (cases "nat (bf_bufferedHeight b - bf_latestBlockHeight b)") (auto simp: window_def left_buffer_def)
  moreover have "bf_selectedBlock b (bf_bufferedHeight b) = Some (bs ! (P - 1))"
    using assms(1,2) False window_view_last [of P bs] by (simp add: window_def)
  moreover have "bf_bufferedHeight b < now" using assms by (simp add: window_def)
  ultimately show ?thesis by (simp add: GetPriorityLeaf_def)
qed

end

end
