(* ===== verification/Clients.thy ===== *)
theory Clients
  imports Rpc
begin

text \<open>
  The clients of a node: cmd/chronos-cli (sending a data command, reading a value), cmd/sender (sending
  transactions in a loop) and the four copies of \<open>buildTransaction\<close> (core/test_tools.go, benchmark/utils.go,
  cmd/norn/utils.go, cmd/sender/utils.go). Keys, clock, signatures and the answers of the server are
  arguments; a server's status \<open>None\<close> is \<open>Default\<close>.
\<close>

section \<open>Building transactions\<close>

definition sender_body ::
    "'p curve_ops \<Rightarrow> (bytes \<Rightarrow> bytes) \<Rightarrow> 'p PrivateKey \<Rightarrow> int \<Rightarrow> bytes \<Rightarrow> bytes \<Rightarrow> TransactionBody outcome" where
  "sender_body C sha1 key timestamp receiver data =
     bindO (PublicKey2Bytes C (pk_Public key)) (\<lambda>pubBytes.
     bindO (to_array 33 pubBytes) (\<lambda>public.
     bindO (PublicKeyBytes2Address sha1 public) (\<lambda>address.
       Done (unsigned_body timestamp receiver public address data))))"

text \<open>Hashing and signing; \<open>None\<close> is the nil transaction after a failed signature.\<close>

definition sign_body ::
    "'w karmem_ops \<Rightarrow> (bytes \<Rightarrow> bytes) \<Rightarrow> (bytes \<Rightarrow> string + bytes) \<Rightarrow> TransactionBody \<Rightarrow> Transaction option outcome" where
  "sign_body K sha sign txBody =
     (let txHashBytes = sha (written (SerializeTransactionBody K txBody)) in
      case sign txHashBytes of
        Inl err \<Rightarrow> Done None
      | Inr sig \<Rightarrow>
          bindO (to_array 32 txHashBytes) (\<lambda>hash.
            Done (Some \<lparr>tx_Body = txBody\<lparr>tb_Hash := hash, tb_Signature := sig\<rparr>\<rparr>)))"

definition buildTransaction ::
    "'w karmem_ops \<Rightarrow> 'p curve_ops \<Rightarrow> (bytes \<Rightarrow> bytes) \<Rightarrow> (bytes \<Rightarrow> bytes) \<Rightarrow> ('p PrivateKey \<Rightarrow> bytes \<Rightarrow> string + bytes)
       \<Rightarrow> int \<Rightarrow> bytes \<Rightarrow> 'p PrivateKey \<Rightarrow> Transaction option outcome" where
  "buildTransaction K C sha sha1 SignASN1 now data key =
     bindO (sender_body C sha1 key now (replicate 20 0) data) (sign_body K sha (SignASN1 key))"

definition benchmark_buildTransaction ::
    "'w karmem_ops \<Rightarrow> 'p curve_ops \<Rightarrow> (bytes \<Rightarrow> bytes) \<Rightarrow> (bytes \<Rightarrow> bytes) \<Rightarrow> ('p PrivateKey \<Rightarrow> bytes \<Rightarrow> string + bytes)
       \<Rightarrow> int \<Rightarrow> bytes \<Rightarrow> 'p PrivateKey \<Rightarrow> Transaction option outcome" where
  "benchmark_buildTransaction K C sha sha1 SignASN1 now data key =
     bindO (sender_body C sha1 key now (replicate 20 0) data) (sign_body K sha (SignASN1 key))"

definition norn_buildTransaction ::
    "'w karmem_ops \<Rightarrow> 'p curve_ops \<Rightarrow> (bytes \<Rightarrow> bytes) \<Rightarrow> (bytes \<Rightarrow> bytes) \<Rightarrow> ('p PrivateKey \<Rightarrow> bytes \<Rightarrow> string + bytes)
       \<Rightarrow> int \<Rightarrow> bytes \<Rightarrow> 'p PrivateKey \<Rightarrow> Transaction option outcome" where
  "norn_buildTransaction K C sha sha1 SignASN1 now data key =
     bindO (sender_body C sha1 key now (replicate 20 0) data) (\<lambda>txBody.
       sign_body K sha (SignASN1 key) (txBody\<lparr>tb_Hash := replicate 32 0, tb_Signature := []\<rparr>))"

definition sender_buildTransaction ::
    "'w karmem_ops \<Rightarrow> 'p curve_ops \<Rightarrow> (bytes \<Rightarrow> bytes) \<Rightarrow> (bytes \<Rightarrow> bytes) \<Rightarrow> ('p PrivateKey \<Rightarrow> bytes \<Rightarrow> string + bytes)
       \<Rightarrow> int \<Rightarrow> bytes \<Rightarrow> 'p PrivateKey \<Rightarrow> Transaction option outcome" where
  "sender_buildTransaction K C sha sha1 SignASN1 now data key =
     bindO (sender_body C sha1 key now (replicate 20 0) data) (\<lambda>txBody.
       sign_body K sha (SignASN1 key) (txBody\<lparr>tb_Hash := replicate 32 0, tb_Signature := []\<rparr>))"

text \<open>One iteration of the loop that feeds a node with transactions; a nil transaction panics there.\<close>

definition sendTransaction ::
    "Transaction option outcome \<Rightarrow> ('d, 'h, 'b, 't, 's, 'w, 'k, 'p) node_op" where
  "sendTransaction built N pm =
     bindO built (\<lambda>tx. case tx of None \<Rightarrow> Panics | Some t \<Rightarrow> AddTransaction N t pm)"

section \<open>chronos-cli\<close>

datatype cli_log =
    Exit nat
  | Silent
  | Failure string
  | Submitted string
  | Found string

text \<open>
  The flag package on string flags: parsing stops at the first argument that is no flag, and every error
  ends the process with status 2, a request for help with status 0 (\<open>Inl\<close>).
\<close>

fun parse_flags :: "string set \<Rightarrow> string list \<Rightarrow> (string \<rightharpoonup> string) \<Rightarrow> nat + (string \<rightharpoonup> string)" where
  "parse_flags known [] m = Inr m"
| "parse_flags known (s # args) m =
     (if length s < 2 \<or> hd s \<noteq> CHR ''-'' \<or> s = ''--'' then Inr m
      else let text = (if s ! 1 = CHR ''-'' then drop 2 s else drop 1 s);
               name = takeWhile (\<lambda>c. c \<noteq> CHR ''='') text
           in if hd text = CHR ''-'' \<or> name = [] then Inl 2
              else if name \<notin> known then Inl (if name = ''help'' \<or> name = ''h'' then 0 else 2)
              else if name \<noteq> text then parse_flags known args (m(name \<mapsto> drop (Suc (length name)) text))
              else (case args of
                      [] \<Rightarrow> Inl 2
                    | v # rest \<Rightarrow> parse_flags known rest (m(name \<mapsto> v))))"

definition flag_value :: "(string \<rightharpoonup> string) \<Rightarrow> string \<Rightarrow> string" where
  "flag_value m name = (case m name of None \<Rightarrow> [] | Some v \<Rightarrow> v)"

text \<open>main, over the two commands; the first argument is the program.\<close>

definition cli_main ::
    "(string \<Rightarrow> string \<Rightarrow> string \<Rightarrow> cli_log outcome) \<Rightarrow> (string \<Rightarrow> string \<Rightarrow> cli_log outcome) \<Rightarrow> string list
       \<Rightarrow> cli_log outcome" where
  "cli_main send get args =
     (if length args < 2 then Done (Exit 1)
      else if args ! 1 = ''send'' then
        (case parse_flags {''receiver'', ''key'', ''value''} (drop 2 args) Map.empty of
           Inl status \<Rightarrow> Done (Exit status)
         | Inr m \<Rightarrow>
             if flag_value m ''receiver'' = [] then Done (Failure ''Argument receiver address is required.'')
             else send (flag_value m ''receiver'') (flag_value m ''key'') (flag_value m ''value''))
      else if args ! 1 = ''get'' then
        (case parse_flags {''address'', ''key''} (drop 2 args) Map.empty of
           Inl status \<Rightarrow> Done (Exit status)
         | Inr m \<Rightarrow> get (flag_value m ''address'') (flag_value m ''key''))
      else Done Silent)"

text \<open>
  \<open>key\<close> is the new key if one was made, \<open>dial\<close> whether the connection was set up, \<open>submit\<close> the server.
  The status in the answer is not looked at.
\<close>

definition executeSendCommand ::
    "'w karmem_ops \<Rightarrow> 'p curve_ops \<Rightarrow> (bytes \<Rightarrow> bytes) \<Rightarrow> (bytes \<Rightarrow> bytes) \<Rightarrow> ('p PrivateKey \<Rightarrow> bytes \<Rightarrow> string + bytes)
       \<Rightarrow> 'p PrivateKey option \<Rightarrow> int \<Rightarrow> bool \<Rightarrow> (string \<Rightarrow> string + SubmitTransactionStatus option)
       \<Rightarrow> string \<Rightarrow> string \<Rightarrow> string \<Rightarrow> cli_log outcome" where
  "executeSendCommand K C sha sha1 SignASN1 prv timestamp dial submit receiver key val =
     (case prv of
        None \<Rightarrow> Done (Failure ''Generate random key failed.'')
      | Some prv \<Rightarrow>
     (case hex_decode receiver of
        None \<Rightarrow> Done (Failure ''Decode address failed.'')
      | Some address \<Rightarrow>
          bindO (to_array 20 address) (\<lambda>rcv.
          let data = (if key \<noteq> []
                      then written (SerializeDataCommand K
                        \<lparr>dc_Opt = bytes_of_string ''set'', dc_Key = bytes_of_string key, dc_Value = bytes_of_string val\<rparr>)
                      else [])
          in bindO (sender_body C sha1 prv timestamp rcv data) (\<lambda>txBody.
             bindO (sign_body K sha (SignASN1 prv) (txBody\<lparr>tb_Hash := replicate 32 0, tb_Signature := []\<rparr>)) (\<lambda>tx.
               case tx of
                 None \<Rightarrow> Done (Failure ''Sign transaction failed.'')
               | Some t \<Rightarrow>
                   if \<not> dial then Done (Failure ''Start connect failed.'')
                   else (case submit (hex_encode (written (SerializeTransaction K t))) of
                           Inl err \<Rightarrow> Done (Failure ''Signed transaction send failed.'')
                         | Inr status \<Rightarrow> Done (Submitted (hex0x (tx_hash t)))))))))"

definition executeGetCommand ::
    "bool \<Rightarrow> (ReadContractAddressReq \<Rightarrow> string + string) \<Rightarrow> string \<Rightarrow> string \<Rightarrow> cli_log outcome" where
  "executeGetCommand dial read address key =
     (if \<not> dial then Done (Failure ''Start connect failed.'')
      else case read \<lparr>rc_address = Some address, rc_key = Some key\<rparr> of
        Inl err \<Rightarrow> Done (Failure ''Read address storage data failed.'')
      | Inr hex \<Rightarrow>
          (case hex_decode hex of
             None \<Rightarrow> Done (Failure ''Decode result failed.'')
           | Some decoded \<Rightarrow> Done (Found (string_of_bytes decoded))))"

section \<open>sender\<close>

text \<open>
  The inner loop over one connection, from its \<open>count\<close>: what was submitted, and whether the connection
  was closed. \<open>build\<close> and \<open>answer\<close> are the transaction and the server's answer of an iteration.
\<close>

function submit_loop ::
    "'w karmem_ops \<Rightarrow> (nat \<Rightarrow> Transaction option outcome) \<Rightarrow> (nat \<Rightarrow> string \<Rightarrow> string + SubmitTransactionStatus option)
       \<Rightarrow> nat \<Rightarrow> string list \<Rightarrow> (string list \<times> bool) outcome" where
  "submit_loop K build answer count sent =
     bindO (build count) (\<lambda>tx. case tx of
         None \<Rightarrow> Panics
       | Some t \<Rightarrow>
           (case SerializeTransaction K t of
              None \<Rightarrow> Done (sent, False)
            | Some bytesTransaction \<Rightarrow>
                (let encoded = hex_encode bytesTransaction in
                 case answer count encoded of
                   Inl err \<Rightarrow> Done (sent @ [encoded], False)
                 | Inr status \<Rightarrow>
                     if count \<ge> 3000 \<or> status = None then Done (sent @ [encoded], True)
                     else submit_loop K build answer (count + 1) (sent @ [encoded]))))"
  by pat_completeness auto
termination
  by (relation "measure (\<lambda>(K, build, answer, count, sent). 3001 - count)") auto

text \<open>One iteration of the outer loop, with the index drawn from the configured addresses.\<close>

definition sender_round ::
    "'w karmem_ops \<Rightarrow> string list \<Rightarrow> bool \<Rightarrow> 'p PrivateKey option \<Rightarrow> ('p PrivateKey \<Rightarrow> nat \<Rightarrow> Transaction option outcome)
       \<Rightarrow> (nat \<Rightarrow> string \<Rightarrow> string + SubmitTransactionStatus option) \<Rightarrow> (string list \<times> bool) outcome" where
  "sender_round K addresses dial prv build answer =
     (if addresses = [] then Panics
      else if \<not> dial then Done ([], True)
      else case prv of
        None \<Rightarrow> Done ([], False)
      | Some key \<Rightarrow> submit_loop K (build key) answer 0 [])"


section \<open>What a usable key gives\<close>

text \<open>The key's point is finite and its encoding can be read back, digests have their lengths, and signing succeeds.\<close>

definition usable_key ::
    "'p curve_ops \<Rightarrow> (bytes \<Rightarrow> bytes) \<Rightarrow> (bytes \<Rightarrow> bytes) \<Rightarrow> ('p PrivateKey \<Rightarrow> bytes \<Rightarrow> string + bytes)
       \<Rightarrow> ('p option \<Rightarrow> bytes \<Rightarrow> bytes \<Rightarrow> bool outcome) \<Rightarrow> 'p PrivateKey \<Rightarrow> bool" where
  "usable_key C sha sha1 sign ecv prv \<longleftrightarrow> \<not> ec_is_inf C (pk_Public prv)
     \<and> length (ec_Marshal C (pk_Public prv)) = 33 \<and> ec_Unmarshal C (ec_Marshal C (pk_Public prv)) = Some (pk_Public prv)
     \<and> (\<forall>m. length (sha m) = 32) \<and> (\<forall>m. length (sha1 m) = 20)
     \<and> (\<forall>h. \<exists>sig. sign prv h = Inr sig \<and> length sig \<le> 73 \<and> ecv (Some (pk_Public prv)) h sig = Done True)"

lemma signed_body:
  assumes "karmem K len cell" and "usable_key C sha sha1 sign ecv prv" and "length rcv = 20" and "in_i64 now"
    and "length data < 2 ^ 31"
  obtains body t where "sender_body C sha1 prv now rcv data = Done body"
    "body\<lparr>tb_Hash := replicate 32 0, tb_Signature := []\<rparr> = body"
    "sign_body K sha (sign prv) body = Done (Some t)" "wf_tx t" "tx_size t < 2 ^ 32" "Verify_tx K C sha ecv t = Done True"
    "tb_Data (tx_Body t) = data" "tb_Receiver (tx_Body t) = rcv" "tx_size t < 2 ^ 31 + 1008"
proof -
  let ?pub = "ec_Marshal C (pk_Public prv)"
  define addr where "addr = take 20 (sha1 ?pub)"
  define body where "body = unsigned_body now rcv ?pub addr data"
  define hash where "hash = sha (written (SerializeTransactionBody K body))"
  obtain sig where sig: "sign prv hash = Inr sig" "length sig \<le> 73" "ecv (Some (pk_Public prv)) hash sig = Done True"
    using assms(2) unfolding usable_key_def by blast
  define t where "t = \<lparr>tx_Body = body\<lparr>tb_Hash := hash, tb_Signature := sig\<rparr>\<rparr>"
  have l: "length addr = 20" "length ?pub = 33" "length hash = 32" using assms(2) by (simp_all add: usable_key_def addr_def hash_def)
  have v: "wf_tx t \<and> tx_size t < 2 ^ 32 \<and> Verify_tx K C sha ecv t = Done True"
    unfolding t_def body_def
    by (rule signed_verifies [where sha = sha and C = C and ecv = ecv, OF assms(1,3) l(2,1) assms(4,5) _ l(3) sig(2)])
      (use assms(2) sig(3) in \<open>simp_all add: usable_key_def hash_def body_def\<close>)
  have "sender_body C sha1 prv now rcv data = Done body"
    using assms(2) l by (simp add: sender_body_def usable_key_def PublicKey2Bytes_def MarshalCompressed_def
        PublicKeyBytes2Address_def body_def addr_def to_array_def)
  moreover have "sign_body K sha (sign prv) body = Done (Some t)"
    using sig(1) l(3) by (simp add: sign_body_def hash_def [symmetric] t_def Let_def)
  moreover have "tx_size t < 2 ^ 31 + 1008" using sig(2) assms(5) by (simp add: t_def body_def tx_size_def body_tail_unsigned)
  ultimately show thesis
    using that v by (simp add: body_def clear_unsigned_body t_def) (simp add: unsigned_body_def)
qed

section \<open>The sending loop\<close>

declare submit_loop.simps [simp del]

definition encoded_tx :: "'w karmem_ops \<Rightarrow> Transaction \<Rightarrow> string" where
  "encoded_tx K t = hex_encode (the (SerializeTransaction K t))"

lemma submit_loop_step:
  assumes "build count = Done (Some t)" and "SerializeTransaction K t \<noteq> None"
  shows "submit_loop K build answer count sent = (case answer count (encoded_tx K t) of
      Inl err \<Rightarrow> Done (sent @ [encoded_tx K t], False)
    | Inr status \<Rightarrow> if count \<ge> 3000 \<or> status = None then Done (sent @ [encoded_tx K t], True)
        else submit_loop K build answer (count + 1) (sent @ [encoded_tx K t]))"
  unfolding encoded_tx_def using assms by (subst submit_loop.simps) (auto simp: Let_def split: sum.split)

text \<open>The loop from \<open>count\<close> on, for transactions that can be encoded; \<open>n\<close> is the number of submissions.\<close>

lemma submit_loop_spec:
  assumes "\<And>i. build i = Done (Some (tx i))" and "\<And>i. SerializeTransaction K (tx i) \<noteq> None" and "count \<le> 3000"
  shows "\<exists>n closed. submit_loop K build answer count sent
      = Done (sent @ map (\<lambda>i. encoded_tx K (tx i)) [count..<count + Suc n], closed)
    \<and> count + n \<le> 3000
    \<and> (\<forall>i \<in> {count..<count + n}. \<exists>s. answer i (encoded_tx K (tx i)) = Inr (Some s))
    \<and> (closed \<longleftrightarrow> (\<exists>s. answer (count + n) (encoded_tx K (tx (count + n))) = Inr s))
    \<and> (count + n = 3000 \<or> (\<forall>s. answer (count + n) (encoded_tx K (tx (count + n))) \<noteq> Inr (Some s)))"
  using assms(3)
proof (induction "3000 - count" arbitrary: count sent)
  case (0 count)
  note s = submit_loop_step [where K = K and build = build and count = count and t = "tx count" and answer = answer and sent = sent, OF assms(1,2)]
  show ?case using s 0
    by (intro exI [of _ 0] exI [of _ "\<exists>s. answer count (encoded_tx K (tx count)) = Inr s"]) (auto split: sum.splits)
next
  case (Suc k)
  let ?a = "answer count (encoded_tx K (tx count))"
  note step = submit_loop_step [where K = K and build = build and count = count and t = "tx count" and answer = answer and sent = sent, OF assms(1,2)]
  have less: "\<not> 3000 \<le> count" using Suc.hyps(2) by simp
  show ?case
  proof (cases "\<exists>s. ?a = Inr (Some s)")
    case False
    then show ?thesis using step less
      by (intro exI [of _ 0] exI [of _ "\<exists>s. ?a = Inr s"]) (cases ?a, auto)
  next
    case True
    have k: "k = 3000 - (count + 1)" "count + 1 \<le> 3000" using Suc.hyps(2) by auto
    obtain n closed where n: "submit_loop K build answer (count + 1) (sent @ [encoded_tx K (tx count)])
      = Done ((sent @ [encoded_tx K (tx count)]) @ map (\<lambda>i. encoded_tx K (tx i)) [count + 1..<count + 1 + Suc n], closed)"
      "count + 1 + n \<le> 3000" "\<forall>i \<in> {count + 1..<count + 1 + n}. \<exists>s. answer i (encoded_tx K (tx i)) = Inr (Some s)"
      "closed \<longleftrightarrow> (\<exists>s. answer (count + 1 + n) (encoded_tx K (tx (count + 1 + n))) = Inr s)"
      "count + 1 + n = 3000 \<or> (\<forall>s. answer (count + 1 + n) (encoded_tx K (tx (count + 1 + n))) \<noteq> Inr (Some s))"
      using Suc.hyps(1) [of "count + 1", OF k(1,2), of "sent @ [encoded_tx K (tx count)]"] by blast
    have u: "[count..<count + Suc (Suc n)] = count # [count + 1..<count + 1 + Suc n]"
      by (simp add: upt_rec [of count])
    have "\<forall>i \<in> {count..<count + Suc n}. \<exists>s. answer i (encoded_tx K (tx i)) = Inr (Some s)"
      using n(3) True by (metis Suc_eq_plus1 add_Suc_right add_Suc_shift atLeastLessThan_iff le_eq_less_or_eq less_eq_Suc_le)
    moreover have "submit_loop K build answer count sent
        = Done (sent @ map (\<lambda>i. encoded_tx K (tx i)) [count..<count + Suc (Suc n)], closed)"
      using step less True n(1) by (auto simp only: u sum.case option.simps if_False simp_thms list.map append_assoc append_Cons append_Nil)
    moreover have "count + Suc n = count + 1 + n" by simp
    ultimately show ?thesis using n(2,4,5) by (intro exI [of _ "Suc n"] exI [of _ closed]) (simp del: upt_Suc)
  qed
qed


section \<open>The command line tool\<close>

text \<open>
  What the tool sends, and what nodes make of it: whatever the answer's status, the tool reports success.
\<close>

lemma cli_send_spec:
  assumes "karmem (node_karmem N) len cell"
    and "usable_key (ne_curve N) (ce_sha (ne_chain N)) sha1 sign ecv prv" and "in_i64 now"
    and "hex_decode receiver = Some rcv" and "length rcv = 20" and "key \<noteq> []"
    and "length key + length val < 2 ^ 30"
    and "nm_chain pm = (ch, Some pool, calc)" and "length (nm_txBroadcastQueue pm) < 10240"
  shows "\<exists>t bs pm'. SerializeTransaction (node_karmem N) t = Some bs \<and> wf_tx t \<and> tx_size t < 2 ^ 31 + 1008
    \<and> (\<forall>submit. cli_main (executeSendCommand (node_karmem N) (ne_curve N) (ce_sha (ne_chain N)) sha1 sign (Some prv) now True submit)
           get [prog, ''send'', ''-receiver'', receiver, ''-key'', key, ''-value'', val]
         = Done (case submit (hex_encode bs) of Inl err \<Rightarrow> Failure ''Signed transaction send failed.''
                 | Inr status \<Rightarrow> Submitted (hex0x (tx_hash t))))
    \<and> SubmitTransaction N ecv (Some (hex_encode bs)) (Some pm) = Done (SUCCESS, Some pm')
    \<and> nm_chain pm' = (ch, Some (Add t pool), calc)
    \<and> (\<forall>block i. tx_task (node_karmem N) block (placed_tx block i t) = Some
        \<lparr>dt_Type = ''set'', dt_Hash = tx_hash t, dt_Height = blk_Height block, dt_Address = rcv,
         dt_Key = bytes_of_string key, dt_Value = bytes_of_string val\<rparr>)"
proof -
  let ?dc = "\<lparr>dc_Opt = bytes_of_string ''set'', dc_Key = bytes_of_string key, dc_Value = bytes_of_string val\<rparr>"
  obtain data where d: "SerializeDataCommand (node_karmem N) ?dc = Some data"
    "length data = 51 + length key + length val" "length data < 2 ^ 32 \<longrightarrow> DeserializeDataCommand (node_karmem N) data = ?dc"
    using karmem.command_roundtrip [OF assms(1), of ?dc] by (auto simp: bytes_of_string_def)
  have size: "length data < 2 ^ 31" using d(2) assms(7) by simp
  obtain body t where t: "sender_body (ne_curve N) sha1 prv now rcv data = Done body"
    "body\<lparr>tb_Hash := replicate 32 0, tb_Signature := []\<rparr> = body"
    "sign_body (node_karmem N) (ce_sha (ne_chain N)) (sign prv) body = Done (Some t)" "wf_tx t" "tx_size t < 2 ^ 32"
    "Verify_tx (node_karmem N) (ne_curve N) (ce_sha (ne_chain N)) ecv t = Done True" "tb_Data (tx_Body t) = data"
    "tb_Receiver (tx_Body t) = rcv" "tx_size t < 2 ^ 31 + 1008"
    using signed_body [OF assms(1,2,5,3) size] by blast
  obtain bs pm' where s: "SerializeTransaction (node_karmem N) t = Some bs"
    "SubmitTransaction N ecv (Some (hex_encode bs)) (Some pm) = Done (SUCCESS, Some pm')"
    "nm_chain pm' = (ch, Some (Add t pool), calc)"
    using submit_spec [OF assms(1) t(4,5) assms(8,9) t(6)] by auto
  have "receiver \<noteq> []" using assms(4,5) by auto
  then have "cli_main (executeSendCommand (node_karmem N) (ne_curve N) (ce_sha (ne_chain N)) sha1 sign (Some prv) now True submit)
      get [prog, ''send'', ''-receiver'', receiver, ''-key'', key, ''-value'', val]
    = Done (case submit (hex_encode bs) of Inl err \<Rightarrow> Failure ''Signed transaction send failed.''
            | Inr status \<Rightarrow> Submitted (hex0x (tx_hash t)))" for submit
    using assms(4-6) d(1) t(1-3) s(1)
    by (simp add: cli_main_def flag_value_def executeSendCommand_def written_def Let_def split: sum.split)
  moreover have "DeserializeDataCommand (node_karmem N) data = ?dc" "data \<noteq> []" using d(2,3) size by auto
  then have "tx_task (node_karmem N) block (placed_tx block i t) = Some
      \<lparr>dt_Type = ''set'', dt_Hash = tx_hash t, dt_Height = blk_Height block, dt_Address = rcv,
       dt_Key = bytes_of_string key, dt_Value = bytes_of_string val\<rparr>" for block i
    using t(7,8) by (simp add: tx_task_def placed_tx_def Let_def)
  ultimately show ?thesis using s t(4,9) by blast
qed

section \<open>Properties\<close>

text \<open>Every tool sends transactions that nodes take. The four copies of \<open>buildTransaction\<close> build the same
  transaction from the same key, clock and data; with a usable key it is well-formed, its encoding passes the
  submit service, and the node adds exactly it to its pool.\<close>

theorem tools_build_valid_transactions:
  assumes "karmem (node_karmem N) len cell"
    and "usable_key (ne_curve N) (ce_sha (ne_chain N)) sha1 sign ecv prv" and "in_i64 now" and "length data = 32"
    and "nm_chain pm = (ch, Some pool, calc)" and "length (nm_txBroadcastQueue pm) < 10240"
  shows "\<exists>t bs pm'. wf_tx t \<and> tb_Data (tx_Body t) = data \<and> SerializeTransaction (node_karmem N) t = Some bs
    \<and> (\<forall>build \<in> {buildTransaction, benchmark_buildTransaction, norn_buildTransaction, sender_buildTransaction}.
         build (node_karmem N) (ne_curve N) (ce_sha (ne_chain N)) sha1 sign now data prv = Done (Some t))
    \<and> SubmitTransaction N ecv (Some (hex_encode bs)) (Some pm) = Done (SUCCESS, Some pm')
    \<and> nm_chain pm' = (ch, Some (Add t pool), calc)"
proof -
  have l: "length (replicate 20 0 :: bytes) = 20" "length data < 2 ^ 31" using assms(4) by simp_all
  obtain body t where t: "sender_body (ne_curve N) sha1 prv now (replicate 20 0) data = Done body"
    "body\<lparr>tb_Hash := replicate 32 0, tb_Signature := []\<rparr> = body"
    "sign_body (node_karmem N) (ce_sha (ne_chain N)) (sign prv) body = Done (Some t)" "wf_tx t" "tx_size t < 2 ^ 32"
    "Verify_tx (node_karmem N) (ne_curve N) (ce_sha (ne_chain N)) ecv t = Done True" "tb_Data (tx_Body t) = data"
    using signed_body [OF assms(1,2) l(1) assms(3) l(2)] by blast
  show ?thesis
    using submit_spec [OF assms(1) t(4,5) assms(5,6) t(6)] t(1-4,7)
    by (auto simp: buildTransaction_def benchmark_buildTransaction_def norn_buildTransaction_def sender_buildTransaction_def)
qed

text \<open>The command line tool cannot read back what it stored. After a set command the service answers with
  the stored text as it is, and the tool decodes this answer as hexadecimal text: it fails or shows other text for
  every value but the empty one, which is also what it shows for a key that was never written.\<close>

theorem cli_get_garbles_value:
  assumes "db_interface (ce_db (ne_chain N)) content" and "hex_decode address = Some rcv"
    and "setData J (ce_db (ne_chain N)) \<lparr>dt_Type = ''set'', dt_Hash = h, dt_Height = n, dt_Address = rcv,
        dt_Key = bytes_of_string key, dt_Value = bytes_of_string val\<rparr> (d, router) = Done (ch_db (fst (nm_chain pm)), router')"
  shows "rpc_ReadContractAddress N \<lparr>rc_address = Some address, rc_key = Some key\<rparr> (Some pm) = Done (Inr val)
    \<and> executeGetCommand True (\<lambda>_. Inr val) address key =
        Done (case hex_decode val of None \<Rightarrow> Failure ''Decode result failed.'' | Some bs \<Rightarrow> Found (string_of_bytes bs))
    \<and> (executeGetCommand True (\<lambda>_. Inr val) address key = Done (Found val) \<longleftrightarrow> val = [])"
proof -
  have "content (ch_db (fst (nm_chain pm))) (DataAddressKey2DBKey rcv (bytes_of_string key)) = Some (bytes_of_string val)"
  proof -
    have "ch_db (fst (nm_chain pm)) = snd (db_Insert (ce_db (ne_chain N)) d (DataAddressKey2DBKey rcv (bytes_of_string key)) (bytes_of_string val))"
      using assms(3) by (auto simp: setData_def Let_def outcome_simps task_key_def)
    then show ?thesis using db_interface.db_insert [OF assms(1)] by simp
  qed
  then have "rpc_ReadContractAddress N \<lparr>rc_address = Some address, rc_key = Some key\<rparr> (Some pm) = Done (Inr val)"
    using assms(2) db_interface.db_get [OF assms(1)]
    by (simp add: rpc_ReadContractAddress_def ReadAddressData_def)
  moreover have "string_of_bytes bs = val \<longleftrightarrow> val = []" if "hex_decode val = Some bs" for bs
  proof -
    have "length val = 2 * length bs" using that by (induction val arbitrary: bs rule: hex_decode.induct) (auto split: option.splits)
    then show ?thesis by (auto simp: string_of_bytes_def)
  qed
  ultimately show ?thesis by (auto simp: executeGetCommand_def split: option.split)
qed

text \<open>A connection of the sender carries a bounded number of transactions. With a usable key a round submits between
  one and 3001 transactions, in the order they were built; it stops early only at an error or a default status, and
  leaves the connection open exactly when an error ended it.\<close>

theorem sender_round_bounded:
  assumes "karmem K len cell" and "usable_key C sha sha1 sign ecv prv" and "addresses \<noteq> []"
    and "\<And>i. in_i64 (now i) \<and> length (data i) = 32"
  shows "\<exists>tx n closed. (\<forall>i. sender_buildTransaction K C sha sha1 sign (now i) (data i) prv = Done (Some (tx i)))
    \<and> sender_round K addresses True (Some prv) (\<lambda>key i. sender_buildTransaction K C sha sha1 sign (now i) (data i) key) answer
        = Done (map (\<lambda>i. encoded_tx K (tx i)) [0..<Suc n], closed)
    \<and> n \<le> 3000
    \<and> (\<forall>i < n. \<exists>s. answer i (encoded_tx K (tx i)) = Inr (Some s))
    \<and> (closed \<longleftrightarrow> (\<exists>s. answer n (encoded_tx K (tx n)) = Inr s))
    \<and> (n < 3000 \<longrightarrow> (\<forall>s. answer n (encoded_tx K (tx n)) \<noteq> Inr (Some s)))"
proof -
  have "\<exists>t. sender_buildTransaction K C sha sha1 sign (now i) (data i) prv = Done (Some t) \<and> SerializeTransaction K t \<noteq> None" for i
  proof -
    have l: "length (replicate 20 0 :: bytes) = 20" "length (data i) < 2 ^ 31" using assms(4) by simp_all
    obtain body t where t: "sender_body C sha1 prv (now i) (replicate 20 0) (data i) = Done body"
      "body\<lparr>tb_Hash := replicate 32 0, tb_Signature := []\<rparr> = body"
      "sign_body K sha (sign prv) body = Done (Some t)" "wf_tx t" "tx_size t < 2 ^ 32"
      using signed_body [OF assms(1,2) l(1) conjunct1 [OF assms(4)] l(2)] by blast
    then show ?thesis using karmem.tx_roundtrip [OF assms(1) t(4)] by (auto simp: sender_buildTransaction_def)
  qed
  then obtain tx where tx: "\<And>i. sender_buildTransaction K C sha sha1 sign (now i) (data i) prv = Done (Some (tx i))"
    "\<And>i. SerializeTransaction K (tx i) \<noteq> None" by metis
  obtain n closed where n: "submit_loop K (\<lambda>i. sender_buildTransaction K C sha sha1 sign (now i) (data i) prv) answer 0 []
      = Done ([] @ map (\<lambda>i. encoded_tx K (tx i)) [0..<0 + Suc n], closed)" "0 + n \<le> 3000"
    "\<forall>i \<in> {0..<0 + n}. \<exists>s. answer i (encoded_tx K (tx i)) = Inr (Some s)"
    "closed \<longleftrightarrow> (\<exists>s. answer (0 + n) (encoded_tx K (tx (0 + n))) = Inr s)"
    "0 + n = 3000 \<or> (\<forall>s. answer (0 + n) (encoded_tx K (tx (0 + n))) \<noteq> Inr (Some s))"
    using submit_loop_spec [where K = K and tx = tx and count = 0 and sent = "[]" and answer = answer
        and build = "\<lambda>i. sender_buildTransaction K C sha sha1 sign (now i) (data i) prv", OF tx] by auto
  then show ?thesis using tx(1) assms(3)
    by (intro exI [of _ tx] exI [of _ n] exI [of _ closed]) (auto simp: sender_round_def simp del: upt_Suc)
qed


section \<open>Witnesses\<close>

text \<open>A node whose curve has one point, and its key.\<close>

definition key_node ::
    "(bytes \<rightharpoonup> bytes, (int, bytes) lru_list, (string, Block) lru_list, (string, Transaction) lru_list,
      (string, unit) lru_list, mem_writer, (string, unit) lru_list, unit) node_env" where
  "key_node = std_node\<lparr>ne_curve := one_point_curve\<rparr>"

definition sample_key :: "unit PrivateKey" where
  "sample_key = \<lparr>pk_D = 1, pk_Public = ()\<rparr>"

lemma key_node_sels [simp]: "ne_chain key_node = std_env" "ne_curve key_node = one_point_curve"
  by (simp_all add: key_node_def)

lemma sample_key_usable:
  "usable_key one_point_curve (ce_sha std_env) (\<lambda>_. replicate 20 8) (\<lambda>_ _. Inr [1]) (\<lambda>k h s. Done True) sample_key"
  by (simp add: usable_key_def one_point_curve_def std_env_def)

lemma key_node_karmem: "karmem (node_karmem key_node) mw_len mw_cell"
  using std.karmem_axioms by simp

lemma fresh_queue: "nm_chain (NewP2PManager key_node (ch, Some pool, None) True 0) = (ch, Some pool, None)"
  "length (nm_txBroadcastQueue (NewP2PManager key_node (ch, Some pool, None) True 0)) < 10240"
  by (simp_all add: NewP2PManager_def)

lemma tools_build_valid_transactions_witness:
  "\<exists>t bs pm pm'. buildTransaction std_karmem one_point_curve (ce_sha std_env) (\<lambda>_. replicate 20 8) (\<lambda>_ _. Inr [1]) 1000
      (replicate 32 5) sample_key = Done (Some t)
    \<and> SubmitTransaction key_node (\<lambda>k h s. Done True) (Some (hex_encode bs)) (Some pm) = Done (SUCCESS, Some pm')
    \<and> tb_Data (tx_Body t) = replicate 32 5"
proof -
  have i: "in_i64 1000" "length (replicate 32 5 :: bytes) = 32" by (simp_all add: in_i64_def)
  show ?thesis
    using tools_build_valid_transactions [OF key_node_karmem _ i fresh_queue, of "\<lambda>_. replicate 20 8" "\<lambda>_ _. Inr [1]"
        "\<lambda>k h s. Done True" sample_key undefined "NewTxPool None"] sample_key_usable
    by auto
qed

lemma cli_get_garbles_value_witness:
  "\<exists>pm. rpc_ReadContractAddress std_node \<lparr>rc_address = Some ''0a'', rc_key = Some ''k''\<rparr> (Some pm) = Done (Inr ''41'')
    \<and> executeGetCommand True (\<lambda>_. Inr ''41'') ''0a'' ''k'' = Done (Found ''A'')"
proof -
  obtain ch where c: "chain_inv std_env (\<lambda>d. d) list_entries list_entries list_entries [sample_genesis] ch"
    using std_genesis [of tiny_json] by blast
  define task where "task = \<lparr>dt_Type = ''set'', dt_Hash = [], dt_Height = 1, dt_Address = [10 :: byte],
    dt_Key = bytes_of_string ''k'', dt_Value = bytes_of_string ''41''\<rparr>"
  obtain d' router' where s: "setData tiny_json (ce_db std_env) task (ch_db ch, CreateNewEventRouter None :: nat EventRouter) = Done (d', router')"
    by (auto simp: setData_def Let_def AppendEvent_def CreateNewEventRouter_def chan_send_def publishChanSize_def)
  define pm where "pm = genesis_node (ch\<lparr>ch_db := d'\<rparr>)"
  have "bytes_of_string ''A'' = [65]" by (simp add: bytes_of_string_def byte_of_char_def)
  then have h: "hex_decode ''0a'' = Some [10]" "hex_decode ''41'' = Some [65]" "string_of_bytes [65 :: byte] = ''A''"
    using string_of_bytes_of_string [of "''A''"] by (simp_all add: hex_value_def)
  have "db_interface (ce_db (ne_chain std_node)) (\<lambda>d. d)" using std_world.db_ok by simp
  moreover have "setData tiny_json (ce_db (ne_chain std_node)) task (ch_db ch, CreateNewEventRouter None :: nat EventRouter)
      = Done (ch_db (fst (nm_chain pm)), router')"
    using s by (simp add: pm_def)
  ultimately show ?thesis
    using cli_get_garbles_value [OF _ h(1), of std_node "\<lambda>d. d" tiny_json "[]" 1 "''k''" "''41''" "ch_db ch" "CreateNewEventRouter None" pm router']
      h(2,3) unfolding task_def by auto
qed

lemma sender_round_bounded_witness:
  "\<exists>sent. sender_round std_karmem [''host''] True (Some sample_key)
      (\<lambda>key i. sender_buildTransaction std_karmem one_point_curve (ce_sha std_env) (\<lambda>_. replicate 20 8) (\<lambda>_ _. Inr [1]) 1000
         (replicate 32 5) key) (\<lambda>_ _. Inr (Some SUCCESS)) = Done (sent, True)
    \<and> length sent = 3001"
proof -
  have a: "[''host''] \<noteq> []" and d: "\<And>i. in_i64 1000 \<and> length (replicate 32 5 :: bytes) = 32" by (simp_all add: in_i64_def)
  show ?thesis
    using sender_round_bounded [OF std.karmem_axioms sample_key_usable a d, of "\<lambda>_ _. Inr (Some SUCCESS)"]
    by auto
qed

end
