(* ===== verification/DataPath.thy ===== *)
theory DataPath
  imports Clients
begin

text \<open>
  The way of a value through the parts: from the command line to the pool of a node, with a block into the
  chain, through the data processor into the database, and back to a client that asks for it.
\<close>

section \<open>Draining the tasks\<close>

lemma foldl_bindO:
  "foldl (\<lambda>m t. bindO m (f t)) m ts = bindO m (\<lambda>s. foldl (\<lambda>m t. bindO m (f t)) (Done s) ts)"
  by (induction ts rule: rev_induct) (auto simp: outcome_simps, cases m, auto)

lemma run_tasks_Cons: "run_tasks J D (t # ts) s = bindO (run_task J D t s) (run_tasks J D ts)"
  unfolding run_tasks_def by (subst foldl_bindO) (simp add: foldl_bindO [symmetric])

lemma run_tasks_append: "run_tasks J D (xs @ ys) s = bindO (run_tasks J D xs s) (run_tasks J D ys)"
  unfolding run_tasks_def foldl_append by (rule foldl_bindO)

context data_store
begin

lemma run_task_room:
  assumes "length (er_publishChan r) < publishChanSize"
  shows "\<exists>d' r'. run_task J D task (d, r) = Done (d', r') \<and> length (er_publishChan r') \<le> Suc (length (er_publishChan r))"
proof -
  have ev: "AppendEvent e r = Done (r\<lparr>er_publishChan := er_publishChan r @ [e]\<rparr>)" for e
    using assms by (simp add: AppendEvent_def chan_send_def)
  show ?thesis
    by (auto simp: run_task_def setData_def appendData_def Let_def ev split: option.split sum.split)
qed

lemma run_tasks_room:
  "length (er_publishChan r) + length ts \<le> publishChanSize \<Longrightarrow> \<exists>d' r'. run_tasks J D ts (d, r) = Done (d', r')"
proof (induction ts arbitrary: d r)
  case Nil
  then show ?case by (simp add: run_tasks_def)
next
  case (Cons t ts)
  obtain d1 r1 where "run_task J D t (d, r) = Done (d1, r1)" "length (er_publishChan r1) \<le> Suc (length (er_publishChan r))"
    using run_task_room [of r t d] Cons.prems by auto
  then show ?case using Cons.IH [of r1 d1] Cons.prems by (simp add: run_tasks_Cons)
qed

lemma run_tasks_frame:
  "run_tasks J D ts (d, r) = Done (d', r') \<Longrightarrow> \<forall>t \<in> set ts. k \<noteq> task_key t \<Longrightarrow> content d' k = content d k"
proof (induction ts arbitrary: d r)
  case Nil
  then show ?case by (simp add: run_tasks_def)
next
  case (Cons t ts)
  then obtain d1 r1 where "run_task J D t (d, r) = Done (d1, r1)" "run_tasks J D ts (d1, r1) = Done (d', r')"
    by (auto simp: run_tasks_Cons outcome_simps)
  then show ?case using Cons.IH [of d1 r1] Cons.prems(2) run_task_frame [of t d r d1 r1 k] by auto
qed

text \<open>The last command on a key decides what is stored, when it is a set command.\<close>

lemma run_tasks_last_set:
  assumes "run_tasks J D (pre @ task # post) (d, r) = Done (d', r')" and "dt_Type task = ''set''"
    and "\<forall>t \<in> set post. task_key t \<noteq> task_key task"
  shows "content d' (task_key task) = Some (dt_Value task)"
proof -
  obtain d1 r1 d2 r2 where "run_task J D task (d1, r1) = Done (d2, r2)" "run_tasks J D post (d2, r2) = Done (d', r')"
    using assms(1) by (auto simp: run_tasks_append run_tasks_Cons outcome_simps)
  moreover have "\<forall>t \<in> set post. task_key task \<noteq> task_key t" using assms(3) by metis
  ultimately show ?thesis
    using setData_spec [of task d1 r1 d2 r2] run_tasks_frame [of post d2 r2 d' r' "task_key task"] assms(2)
    by (auto simp: run_task_def)
qed

end

section \<open>The tasks of a block\<close>

lemma tx_task_placed [simp]: "tx_task K b (placed_tx c i t) = tx_task K b t"
  by (simp add: tx_task_def placed_tx_def Let_def)

lemma map_filter_placed: "List.map_filter (tx_task K b) (placed_from b i ts) = List.map_filter (tx_task K b) ts"
  by (induction ts arbitrary: i) (auto simp: List.map_filter_simps split: option.split)

context chain_world
begin

text \<open>Running tasks keeps the chain.\<close>

lemma run_tasks_inv:
  assumes "json J ok" and "inv bs ch" and "\<forall>t \<in> set tasks. length (dt_Address t) = 20"
    and "run_tasks J (ce_db E) tasks (ch_db ch, r) = Done (d, r')"
  shows "inv bs (ch\<lparr>ch_db := d\<rparr>)"
proof (rule inv_data [OF assms(2)])
  fix k assume k: "chain_key k"
  have "db_key_bytes k \<noteq> task_key t" if "t \<in> set tasks" for t
  proof -
    have "wf_key k" "k \<noteq> DataKey (dt_Address t) (dt_Key t)" using k by (cases k; simp)+
    then show ?thesis
      using db_key_bytes_inject [of k "DataKey (dt_Address t) (dt_Key t)"] assms(3) that by (auto simp: task_key_def)
  qed
  then show "content d (db_key_bytes k) = content (ch_db ch) (db_key_bytes k)"
    using data_store.run_tasks_frame [OF data_store.intro [OF assms(1) db_ok] assms(4)] by blast
qed

lemma committed_set_is_stored:
  assumes "json J ok" and "inv bs ch" and "ch_latestHeight ch = tip_height bs" and "bs = [] \<longrightarrow> calc = None"
    and "fits b" and "accepts bs b" and "blk_Transactions b = pre @ t # post" and "dp_taskChannel (ch_dp ch) = []"
    and "length (er_publishChan r) + length (blk_Transactions b) \<le> publishChanSize"
    and task: "tx_task (ce_karmem E) b t = Some task" "dt_Type task = ''set''"
    and "\<forall>t' \<in> set post. \<forall>task'. tx_task (ce_karmem E) b t' = Some task' \<longrightarrow> task_key task' \<noteq> task_key task"
  shows "\<exists>ch' pool' calc' d r'. insertBlock E b (ch, Some p, calc) = Done (ch', pool', calc')
    \<and> run_tasks J (ce_db E) (dp_taskChannel (ch_dp ch')) (ch_db ch', r) = Done (d, r')
    \<and> content d (task_key task) = Some (dt_Value task)
    \<and> inv (bs @ [b]) (ch'\<lparr>ch_db := d\<rparr>)"
proof -
  let ?f = "tx_task (ce_karmem E) b"
  note store = data_store.intro [OF assms(1) db_ok]
  have room: "length (dp_taskChannel (ch_dp ch)) + length (blk_Transactions b) \<le> taskChannelSize"
    using assms(8,9) by (simp add: publishChanSize_def taskChannelSize_def)
  obtain ch' pool' calc' where i: "insertBlock E b (ch, Some p, calc) = Done (ch', pool', calc')"
    "inv (ChainStore.extend bs b) ch'"
    "ch_dp ch' = (ch_dp ch)\<lparr>dp_taskChannel := dp_taskChannel (ch_dp ch) @ List.map_filter ?f (placed_from b 0 (blk_Transactions b))\<rparr>"
    using insertBlock_spec [OF assms(2,5,4,3), of p] room assms(6) by auto
  have q0: "dp_taskChannel (ch_dp ch') = List.map_filter ?f (blk_Transactions b)"
    using i(3) assms(8) by (simp add: map_filter_placed)
  then have q: "dp_taskChannel (ch_dp ch') = List.map_filter ?f pre @ task # List.map_filter ?f post"
    using assms(7) task(1) by (simp add: List.map_filter_def)
  have "length (dp_taskChannel (ch_dp ch')) \<le> length (blk_Transactions b)" unfolding q0 by (simp add: List.map_filter_def)
  then have "length (er_publishChan r) + length (dp_taskChannel (ch_dp ch')) \<le> publishChanSize"
    using assms(9) by simp
  then obtain d r' where run: "run_tasks J (ce_db E) (dp_taskChannel (ch_dp ch')) (ch_db ch', r) = Done (d, r')"
    using data_store.run_tasks_room [OF store] by blast
  have "\<forall>x \<in> set (List.map_filter ?f post). task_key x \<noteq> task_key task"
    using assms(12) by (auto simp: List.map_filter_def)
  then have v: "content d (task_key task) = Some (dt_Value task)"
    using data_store.run_tasks_last_set [OF store run [unfolded q] task(2)] by blast
  have "\<forall>x \<in> set (dp_taskChannel (ch_dp ch')). length (dt_Address x) = 20"
  proof
    fix x assume "x \<in> set (dp_taskChannel (ch_dp ch'))"
    then obtain u where "u \<in> set (blk_Transactions b)" "?f u = Some x"
      unfolding q0 by (fastforce simp: List.map_filter_def)
    moreover from this have "wf_tx u" using assms(5) by (auto simp: fits_def wf_block_def)
    ultimately show "length (dt_Address x) = 20"
      by (auto simp: tx_task_def Let_def wf_tx_def wf_body_def split: if_splits)
  qed
  then have "inv (bs @ [b]) (ch'\<lparr>ch_db := d\<rparr>)"
    using run_tasks_inv [OF assms(1) _ _ run] i(2) assms(6) by (simp add: ChainStore.extend_def)
  then show ?thesis using i(1) run v by blast
qed

end


section \<open>Properties\<close>

text \<open>C5: A value sent with the command line tool is what a client reads once a block with it is in the chain. The
  command line \<open>send -receiver r -key k -value v\<close> submits a transaction that the node verifies and adds to
  its pool. Take any block that the chain accepts and that contains it, with no later command on the same
  address and key: inserting the block and draining the data processor succeed, the service then
  answers \<open>v\<close> for \<open>k\<close> of \<open>r\<close>, and the database holds the chain with the block.\<close>

theorem sent_value_is_answered:
  assumes "chain_world (ne_chain N) len cell content eh eb et" and "json J ok"
    and "usable_key (ne_curve N) (ce_sha (ne_chain N)) sha1 sign ecv prv" and "in_i64 now"
    and "hex_decode receiver = Some rcv" and "length rcv = 20" and "key \<noteq> []" and "length key + length val < 2 ^ 30"
    and "nm_chain pm = (ch, Some pool, calc)" and "length (nm_txBroadcastQueue pm) < 10240"
    and "chain_inv (ne_chain N) content eh eb et bs ch" and "Height ch = tip_height bs" and "bs = [] \<longrightarrow> calc = None"
    and "dp_taskChannel (ch_dp ch) = []"
  shows "\<exists>t enc pm1. SerializeTransaction (node_karmem N) t = Some enc \<and> wf_tx t \<and> tx_size t < 2 ^ 31 + 1008
    \<and> (\<forall>submit. cli_main (executeSendCommand (node_karmem N) (ne_curve N) (ce_sha (ne_chain N)) sha1 sign (Some prv) now True submit)
           get [prog, ''send'', ''-receiver'', receiver, ''-key'', key, ''-value'', val]
         = Done (case submit (hex_encode enc) of Inl err \<Rightarrow> Failure ''Signed transaction send failed.''
                 | Inr status \<Rightarrow> Submitted (hex0x (tx_hash t))))
    \<and> SubmitTransaction N ecv (Some (hex_encode enc)) (Some pm) = Done (SUCCESS, Some pm1)
    \<and> nm_chain pm1 = (ch, Some (Add t pool), calc)
    \<and> (\<forall>b pre post (r :: 'ev EventRouter). fits b \<and> accepts bs b \<and> blk_Transactions b = pre @ t # post
         \<and> length (er_publishChan r) + length (blk_Transactions b) \<le> 256
         \<and> (\<forall>t' \<in> set post. \<forall>task. tx_task (node_karmem N) b t' = Some task \<longrightarrow>
              task_key task \<noteq> DataAddressKey2DBKey rcv (bytes_of_string key))
         \<longrightarrow> (\<exists>ch' pool' calc' d r'. insertBlock (ne_chain N) b (nm_chain pm1) = Done (ch', pool', calc')
            \<and> run_tasks J (ce_db (ne_chain N)) (dp_taskChannel (ch_dp ch')) (ch_db ch', r) = Done (d, r')
            \<and> rpc_ReadContractAddress N \<lparr>rc_address = Some receiver, rc_key = Some key\<rparr>
                (Some (pm1\<lparr>nm_chain := (ch'\<lparr>ch_db := d\<rparr>, pool', calc')\<rparr>)) = Done (Inr val)
            \<and> chain_inv (ne_chain N) content eh eb et (bs @ [b]) (ch'\<lparr>ch_db := d\<rparr>)))"
proof -
  note inv = chain_world.inv_def [OF assms(1)] and h = assms(12) [unfolded Height_def]
  have K: "karmem (node_karmem N) len cell" by (rule chain_world.karmem_ok [OF assms(1)])
  obtain t enc pm1 where t: "SerializeTransaction (node_karmem N) t = Some enc" "wf_tx t \<and> tx_size t < 2 ^ 31 + 1008"
    "\<forall>submit. cli_main (executeSendCommand (node_karmem N) (ne_curve N) (ce_sha (ne_chain N)) sha1 sign (Some prv) now True submit)
           get [prog, ''send'', ''-receiver'', receiver, ''-key'', key, ''-value'', val]
         = Done (case submit (hex_encode enc) of Inl err \<Rightarrow> Failure ''Signed transaction send failed.''
                 | Inr status \<Rightarrow> Submitted (hex0x (tx_hash t)))"
    "SubmitTransaction N ecv (Some (hex_encode enc)) (Some pm) = Done (SUCCESS, Some pm1)"
    "nm_chain pm1 = (ch, Some (Add t pool), calc)"
    and task: "\<And>b. tx_task (node_karmem N) b t = Some
        \<lparr>dt_Type = ''set'', dt_Hash = tx_hash t, dt_Height = blk_Height b, dt_Address = rcv,
         dt_Key = bytes_of_string key, dt_Value = bytes_of_string val\<rparr>"
    using cli_send_spec [OF K assms(3-10), of get prog] unfolding tx_task_placed by blast
  have "\<exists>ch' pool' calc' d r'. insertBlock (ne_chain N) b (nm_chain pm1) = Done (ch', pool', calc')
      \<and> run_tasks J (ce_db (ne_chain N)) (dp_taskChannel (ch_dp ch')) (ch_db ch', r) = Done (d, r')
      \<and> rpc_ReadContractAddress N \<lparr>rc_address = Some receiver, rc_key = Some key\<rparr>
          (Some (pm1\<lparr>nm_chain := (ch'\<lparr>ch_db := d\<rparr>, pool', calc')\<rparr>)) = Done (Inr val)
      \<and> chain_inv (ne_chain N) content eh eb et (bs @ [b]) (ch'\<lparr>ch_db := d\<rparr>)"
    if b: "fits b" "accepts bs b" "blk_Transactions b = pre @ t # post"
      "length (er_publishChan r) + length (blk_Transactions b) \<le> 256"
      "\<forall>t' \<in> set post. \<forall>task. tx_task (node_karmem N) b t' = Some task \<longrightarrow>
         task_key task \<noteq> DataAddressKey2DBKey rcv (bytes_of_string key)" for b pre post r
  proof -
    let ?task = "\<lparr>dt_Type = ''set'', dt_Hash = tx_hash t, dt_Height = blk_Height b, dt_Address = rcv,
      dt_Key = bytes_of_string key, dt_Value = bytes_of_string val\<rparr>"
    have key: "task_key ?task = DataAddressKey2DBKey rcv (bytes_of_string key)" by (simp add: task_key_def)
    have post: "\<forall>t' \<in> set post. \<forall>task'. tx_task (node_karmem N) b t' = Some task' \<longrightarrow> task_key task' \<noteq> task_key ?task"
      using b(5) unfolding key .
    have room: "length (er_publishChan r) + length (blk_Transactions b) \<le> publishChanSize"
      using b(4) by (simp add: publishChanSize_def)
    obtain ch' pool' calc' d r' where s: "insertBlock (ne_chain N) b (ch, Some (Add t pool), calc) = Done (ch', pool', calc')"
      "run_tasks J (ce_db (ne_chain N)) (dp_taskChannel (ch_dp ch')) (ch_db ch', r) = Done (d, r')"
      "content d (task_key ?task) = Some (dt_Value ?task)"
      "chain_inv (ne_chain N) content eh eb et (bs @ [b]) (ch'\<lparr>ch_db := d\<rparr>)"
      using chain_world.committed_set_is_stored [OF assms(1,2) assms(11) [folded inv] h assms(13) b(1-3) assms(14) room task _ post,
          where p = "Add t pool"]
      unfolding inv by auto
    note s = s(1,2) s(3) [unfolded key] s(4)
    have "rpc_ReadContractAddress N \<lparr>rc_address = Some receiver, rc_key = Some key\<rparr>
        (Some (pm1\<lparr>nm_chain := (ch'\<lparr>ch_db := d\<rparr>, pool', calc')\<rparr>)) = Done (Inr val)"
      using assms(5) s(3) db_interface.db_get [OF chain_world.db_ok [OF assms(1)]]
      by (simp add: rpc_ReadContractAddress_def ReadAddressData_def)
    then show ?thesis using s(1,2,4) t(5) by (intro exI [of _ ch'] exI [of _ pool'] exI [of _ calc'] exI [of _ d] exI [of _ r']) simp
  qed
  then show ?thesis using t by blast
qed

section \<open>Witnesses\<close>

lemma sent_value_is_answered_witness:
  "\<exists>enc hash pm pm1 pm2. cli_main (executeSendCommand std_karmem one_point_curve (ce_sha std_env) (\<lambda>_. replicate 20 8)
        (\<lambda>_ _. Inr [1]) (Some sample_key) 1000 True (\<lambda>_. Inr (Some SUCCESS))) (\<lambda>_ _. Panics)
        [''cli'', ''send'', ''-receiver'', ''0102030405060708090a0b0c0d0e0f1011121314'', ''-key'', ''k'', ''-value'', ''v'']
      = Done (Submitted hash)
    \<and> SubmitTransaction key_node (\<lambda>k h s. Done True) (Some (hex_encode enc)) (Some pm) = Done (SUCCESS, Some pm1)
    \<and> rpc_ReadContractAddress key_node
        \<lparr>rc_address = Some ''0102030405060708090a0b0c0d0e0f1011121314'', rc_key = Some ''k''\<rparr> (Some pm2) = Done (Inr ''v'')"
proof -
  let ?receiver = "''0102030405060708090a0b0c0d0e0f1011121314''"
  let ?rcv = "[1, 2, 3, 4, 5, 6, 7, 8, 9, 10, 11, 12, 13, 14, 15, 16, 17, 18, 19, 20] :: bytes"
  obtain ch where c: "chain_inv std_env (\<lambda>d. d) list_entries list_entries list_entries [sample_genesis] ch"
    "ch_latestHeight ch = tip_height [sample_genesis]" "dp_taskChannel (ch_dp ch) = []"
    using std_genesis [of tiny_json] by blast
  have args: "in_i64 1000" "hex_decode ?receiver = Some ?rcv" "length ?rcv = 20" "''k'' \<noteq> []" "length ''k'' + length ''v'' < 2 ^ 30"
    "Height ch = tip_height [sample_genesis]" "[sample_genesis] = [] \<longrightarrow> (None :: Calculator option) = None"
    using c(2) by (simp_all add: in_i64_def hex_value_def Height_def)
  note key = sample_key_usable [folded key_node_sels]
  have r0: "length (er_publishChan (CreateNewEventRouter None :: unit EventRouter)) = 0" by (simp add: CreateNewEventRouter_def)
  let ?pm = "NewP2PManager key_node (ch, Some (NewTxPool None), None) True 0"
  obtain t enc pm1 where t: "wf_tx t" "tx_size t < 2 ^ 31 + 1008"
    "\<forall>submit. cli_main (executeSendCommand (node_karmem key_node) (ne_curve key_node) (ce_sha (ne_chain key_node)) (\<lambda>_. replicate 20 8)
        (\<lambda>_ _. Inr [1]) (Some sample_key) 1000 True submit) (\<lambda>_ _. Panics)
        [''cli'', ''send'', ''-receiver'', ?receiver, ''-key'', ''k'', ''-value'', ''v'']
      = Done (case submit (hex_encode enc) of Inl err \<Rightarrow> Failure ''Signed transaction send failed.''
              | Inr status \<Rightarrow> Submitted (hex0x (tx_hash t)))"
    "SubmitTransaction key_node (\<lambda>k h s. Done True) (Some (hex_encode enc)) (Some ?pm) = Done (SUCCESS, Some pm1)"
    "\<forall>b pre post (r :: unit EventRouter). fits b \<and> accepts [sample_genesis] b \<and> blk_Transactions b = pre @ t # post
         \<and> length (er_publishChan r) + length (blk_Transactions b) \<le> 256
         \<and> (\<forall>t' \<in> set post. \<forall>task. tx_task (node_karmem key_node) b t' = Some task \<longrightarrow>
              task_key task \<noteq> DataAddressKey2DBKey ?rcv (bytes_of_string ''k''))
         \<longrightarrow> (\<exists>ch' pool' calc' d r'. insertBlock (ne_chain key_node) b (nm_chain pm1) = Done (ch', pool', calc')
            \<and> run_tasks tiny_json (ce_db (ne_chain key_node)) (dp_taskChannel (ch_dp ch')) (ch_db ch', r) = Done (d, r')
            \<and> rpc_ReadContractAddress key_node \<lparr>rc_address = Some ?receiver, rc_key = Some ''k''\<rparr>
                (Some (pm1\<lparr>nm_chain := (ch'\<lparr>ch_db := d\<rparr>, pool', calc')\<rparr>)) = Done (Inr ''v'')
            \<and> chain_inv (ne_chain key_node) (\<lambda>d. d) list_entries list_entries list_entries ([sample_genesis] @ [b]) (ch'\<lparr>ch_db := d\<rparr>))"
    using sent_value_is_answered [OF std_world.chain_world_axioms [folded key_node_sels] tiny.json_axioms key args(1-5) fresh_queue
        c(1) [folded key_node_sels] args(6,7) c(3), where 'ev = unit and get = "\<lambda>_ _. Panics" and prog = "''cli''" and pool = "NewTxPool None"]
    by (elim exE conjE) (rule that; assumption)
  define b where "b = sample_block\<lparr>blk_Transactions := [t]\<rparr>"
  have "fits b" using t(1,2) wf_sample_block by (simp add: b_def fits_def wf_block_def block_size_def sample_block_def sample_header_def)
  moreover have "accepts [sample_genesis] b"
    using accepts_sample_block by (simp add: b_def accepts_def IsGenesisBlock_iff isPrevBlock_def)
  ultimately have "\<exists>pm2. rpc_ReadContractAddress key_node \<lparr>rc_address = Some ?receiver, rc_key = Some ''k''\<rparr> (Some pm2) = Done (Inr ''v'')"
    using t(5) [rule_format, of b "[]" "[]" "CreateNewEventRouter None"] r0 by (simp add: b_def) blast
  then show ?thesis using t(3,4) by simp blast
qed

end
