(* ===== verification/LiveChain.thy ===== *)
theory LiveChain
  imports Window DataPath
begin

text \<open>
  The goroutines around one chain at work together: the two of its buffer, the one that stores what the buffer
  pops, the calculator, the data processor, and whoever hands blocks in. What a run keeps, and what a restart
  does to it: the calculator begins without a seed and nothing ever gives it one.
\<close>

section \<open>The routines on the chain's state\<close>

text \<open>
  The buffer works on its own state, the chain's channel of popped blocks and the calculator. A buffer without
  calculator is not made by any path; its first verification would dereference nil.
\<close>

definition on_buffer ::
    "('s view_state \<Rightarrow> ('a \<times> 's view_state) outcome) \<Rightarrow> ('d, 'h, 'b, 't, 's) chain_state
       \<Rightarrow> ('a \<times> ('d, 'h, 'b, 't, 's) chain_state) outcome" where
  "on_buffer f s =
     (case s of (ch, pool, calc) \<Rightarrow>
       (case ch_buffer ch of
          None \<Rightarrow> Blocks
        | Some b \<Rightarrow>
            (case calc of
               None \<Rightarrow> Panics
             | Some c \<Rightarrow> bindO (f (b, ch_bufferChan ch, c)) (\<lambda>(r, b', q, c').
                 Done (r, ch\<lparr>ch_buffer := Some b', ch_bufferChan := q\<rparr>, pool, Some c')))))"

definition buffer_process ::
    "('d, 'h, 'b, 't, 's, 'w) chain_env \<Rightarrow> ('d, 'h, 'b, 't, 's) chain_state \<Rightarrow> ('d, 'h, 'b, 't, 's) chain_state outcome" where
  "buffer_process E s = bindO (on_buffer (\<lambda>v. bindO (Process (ce_seen E) (ce_karmem E) v) (\<lambda>v'. Done ((), v'))) s) (\<lambda>(_, s'). Done s')"

definition buffer_receive :: "('d, 'h, 'b, 't, 's) chain_state \<Rightarrow> (Block \<times> ('d, 'h, 'b, 't, 's) chain_state) outcome" where
  "buffer_receive s = on_buffer second_receive s"

definition buffer_second ::
    "('d, 'h, 'b, 't, 's, 'w) chain_env \<Rightarrow> Block \<Rightarrow> ('d, 'h, 'b, 't, 's) chain_state \<Rightarrow> ('d, 'h, 'b, 't, 's) chain_state outcome" where
  "buffer_second E x s = bindO (on_buffer (\<lambda>v. bindO (secondProcess_block (ce_seen E) (ce_karmem E) x v) (\<lambda>v'. Done ((), v'))) s) (\<lambda>(_, s'). Done s')"

text \<open>The two halves of an iteration of the calculator; between them it works on the seed it took.\<close>

definition calculator_take ::
    "('d, 'h, 'b, 't, 's) chain_state \<Rightarrow> (nat \<times> ('d, 'h, 'b, 't, 's) chain_state) outcome" where
  "calculator_take s =
     (case s of
        (ch, pool, None) \<Rightarrow> Blocks
      | (ch, pool, Some c) \<Rightarrow> bindO (run_take c) (\<lambda>(seed, c'). Done (seed, ch, pool, Some c')))"

definition calculator_deliver ::
    "(nat \<Rightarrow> bool) \<Rightarrow> nat \<Rightarrow> ('d, 'h, 'b, 't, 's) chain_state \<Rightarrow> ('d, 'h, 'b, 't, 's) chain_state outcome" where
  "calculator_deliver changed seed s =
     (case s of
        (ch, pool, None) \<Rightarrow> Blocks
      | (ch, pool, Some c) \<Rightarrow>
          bindO (calculate c changed seed) (\<lambda>out. bindO (run_deliver out c) (\<lambda>c'. Done (ch, pool, Some c'))))"

definition packager_seed ::
    "('d, 'h, 'b, 't, 's) chain_state \<Rightarrow> ((nat \<times> nat) \<times> ('d, 'h, 'b, 't, 's) chain_state) outcome" where
  "packager_seed s =
     (case s of
        (ch, pool, None) \<Rightarrow> Panics
      | (ch, pool, Some c) \<Rightarrow> bindO (GetSeedParams c) (\<lambda>(sp, c'). Done (sp, ch, pool, Some c')))"

definition run_data ::
    "json_ops \<Rightarrow> ('d, 'h, 'b, 't, 's, 'w) chain_env \<Rightarrow> 'n EventRouter \<Rightarrow> ('d, 'h, 'b, 't, 's) chain_state
       \<Rightarrow> ('d, 'h, 'b, 't, 's) chain_state outcome" where
  "run_data J E r s =
     (case s of (ch, pool, calc) \<Rightarrow>
       bindO (dp_Run J (ce_db E) (ch_dp ch) (ch_db ch, r)) (\<lambda>(dp, d, r'). Done (ch\<lparr>ch_dp := dp, ch_db := d\<rparr>, pool, calc)))"

section \<open>What storing a block leaves alone\<close>

lemma insert_txs_frame:
  "insert_txs K block i ts kv pool dp = Done (fin, kv', pool', dp') \<Longrightarrow>
     (pool \<noteq> None \<longrightarrow> pool' \<noteq> None)
     \<and> (\<exists>q. dp_taskChannel dp' = dp_taskChannel dp @ q \<and> length q \<le> length ts
          \<and> (\<forall>x \<in> set q. \<exists>t \<in> set ts. tx_task K block t = Some x))"
proof (induction ts arbitrary: i kv pool dp)
  case Nil
  then show ?case by auto
next
  case (Cons t ts)
  obtain p where p: "pool = Some p" using Cons.prems by (cases pool) auto
  show ?case
  proof (cases "SerializeTransaction K (placed_tx block i t)")
    case None
    then show ?thesis using Cons.prems p by (auto simp: Let_def)
  next
    case (Some w)
    obtain dp1 where d: "insert_txs K block (Suc i) ts (fst kv @ [TxHash2DBKey (tx_hash t)], snd kv @ [w])
        (Some (RemoveTx (tx_hash t) p)) dp1 = Done (fin, kv', pool', dp')"
      "dp_taskChannel dp1 = dp_taskChannel dp @ (case tx_task K block t of None \<Rightarrow> [] | Some x \<Rightarrow> [x])"
      using Cons.prems p Some by (auto simp: Let_def outcome_simps split: option.splits)
    obtain q where q: "dp_taskChannel dp' = dp_taskChannel dp1 @ q" "length q \<le> length ts"
      "\<forall>x \<in> set q. \<exists>t \<in> set ts. tx_task K block t = Some x" "pool' \<noteq> None"
      using Cons.IH [OF d(1)] by auto
    then show ?thesis using d(2)
      by (intro conjI exI [of _ "(case tx_task K block t of None \<Rightarrow> [] | Some x \<Rightarrow> [x]) @ q"])
        (auto split: option.splits)
  qed
qed

lemma tx_task_address: "wf_tx t \<Longrightarrow> tx_task K b t = Some x \<Longrightarrow> length (dt_Address x) = 20"
  by (auto simp: tx_task_def Let_def wf_tx_def wf_body_def split: if_splits)

lemma store_block_frame:
  assumes "store_block E b (ch, pool, calc) = Done (ch', pool', calc')" and "0 \<le> ch_latestHeight ch" and "fits b"
  shows "ch_buffer ch' = ch_buffer ch \<and> ch_bufferChan ch' = ch_bufferChan ch \<and> calc' = calc
    \<and> (pool \<noteq> None \<longrightarrow> pool' \<noteq> None)
    \<and> (\<exists>q. dp_taskChannel (ch_dp ch') = dp_taskChannel (ch_dp ch) @ q \<and> length q \<le> length (blk_Transactions b)
         \<and> (\<forall>x \<in> set q. length (dt_Address x) = 20))"
proof (cases "blk_Height b \<le> ch_latestHeight ch")
  case True
  then show ?thesis using assms(1) by (simp add: store_block_def)
next
  case False
  then have h: "blk_Height b \<noteq> 0" using assms(2) by simp
  let ?ch1 = "writeBlockCache E b (ch\<lparr>ch_latestBlock := Some b, ch_latestHeight := blk_Height b\<rparr>)"
  have c1: "ch_buffer ?ch1 = ch_buffer ch" "ch_bufferChan ?ch1 = ch_bufferChan ch" "ch_dp ?ch1 = ch_dp ch"
    by (simp_all add: writeBlockCache_def)
  show ?thesis
  proof (cases "SerializeBlock (ce_karmem E) b")
    case None
    then show ?thesis using assms(1) False c1 by (simp add: store_block_def Let_def)
  next
    case (Some v)
    obtain fin kv pool1 dp1 where i: "insert_txs (ce_karmem E) b 0 (blk_Transactions b)
        ([BlockHash2DBKey (blk_hash b), latest_key, BlockHeight2DBKey (blk_Height b)], [v, blk_hash b, blk_hash b])
        pool (ch_dp ?ch1) = Done (fin, kv, pool1, dp1)"
      "ch_buffer ch' = ch_buffer ch" "ch_bufferChan ch' = ch_bufferChan ch" "calc' = calc" "pool' = pool1" "ch_dp ch' = dp1"
      using assms(1) False Some h c1 by (auto simp: store_block_def Let_def outcome_simps split: if_splits)
    have "\<forall>t \<in> set (blk_Transactions b). wf_tx t" using assms(3) by (simp add: fits_def wf_block_def)
    then show ?thesis using insert_txs_frame [OF i(1)] i(2-) c1(3) tx_task_address by metis
  qed
qed

context chain_world
begin

lemma insertBlock_frame:
  assumes "inv bs ch" and "fits b" and "ch_latestHeight ch = tip_height bs" and "\<not> IsGenesisBlock b"
    and "insertBlock E b (ch, pool, calc) = Done (ch', pool', calc')"
  shows "ch_buffer ch' = ch_buffer ch \<and> ch_bufferChan ch' = ch_bufferChan ch \<and> calc' = calc
    \<and> (pool \<noteq> None \<longrightarrow> pool' \<noteq> None)
    \<and> (\<exists>q. dp_taskChannel (ch_dp ch') = dp_taskChannel (ch_dp ch) @ q \<and> length q \<le> length (blk_Transactions b)
         \<and> (\<forall>x \<in> set q. length (dt_Address x) = 20))"
proof -
  have chain: "chain_of bs" by (rule inv_chain [OF assms(1)])
  have len: "length (blk_hash b) = 32" using assms(2) by (simp add: fits_def wf_block_def wf_header_def)
  obtain c1 c2 where g: "GetBlockByHash E (blk_hash b) ch = (case block_at bs (blk_hash b) of None \<Rightarrow> Inl ErrNotFound
      | Some b \<Rightarrow> Inr b, ch\<lparr>ch_blockHeightMap := c1, ch_blockCache := c2\<rparr>)"
    "inv bs (ch\<lparr>ch_blockHeightMap := c1, ch_blockCache := c2\<rparr>)"
    using GetBlockByHash_spec [OF assms(1) len] by blast
  define ch1 where "ch1 = ch\<lparr>ch_blockHeightMap := c1, ch_blockCache := c2\<rparr>"
  show ?thesis
  proof (cases "block_at bs (blk_hash b)")
    case (Some c)
    then show ?thesis using assms(5) by (auto simp: insertBlock_def g ch1_def)
  next
    case None
    obtain c3 c4 ch2 where l: "GetLatestBlock E ch1 = Done (if bs = [] then Inl ErrNotFound else Inr (last bs), ch2)"
      "ch2 = ch1\<lparr>ch_latestBlock := (if bs = [] then None else Some (last bs)), ch_latestHeight := tip_height bs,
         ch_blockHeightMap := c3, ch_blockCache := c4\<rparr>"
      using GetLatestBlock_spec [OF g(2)] unfolding ch1_def by blast
    have ch2: "ch_dp ch2 = ch_dp ch" "ch_buffer ch2 = ch_buffer ch" "ch_bufferChan ch2 = ch_bufferChan ch"
      "ch_latestHeight ch2 = tip_height bs"
      by (simp_all add: l(2) ch1_def)
    have ins: "(ch', pool', calc') = (ch2, pool, calc) \<or> bs \<noteq> [] \<and> store_block E b (ch2, pool, calc) = Done (ch', pool', calc')"
      using assms(4,5) None by (auto simp: insertBlock_def g ch1_def [symmetric] l(1) split: if_splits)
    have "0 \<le> tip_height bs" if "bs \<noteq> []"
      using chain_heights [OF chain] that last_in_set by (fastforce simp: tip_height_def)
    then show ?thesis using ins store_block_frame [of E b ch2 pool calc ch' pool' calc'] ch2 assms(2) by auto
  qed
qed

end

end
