(* ===== verification/Restart.thy ===== *)
theory Restart
  imports LiveChain
begin

text \<open>
  What a restart does to a node: the calculator of the new process has no seed, only the insertion of the genesis
  block gives one, and the stored genesis block is not inserted again.
\<close>

section \<open>Runs\<close>

text \<open>
  The routines around a chain, one iteration at a time; \<open>good\<close> says which blocks are handed in. The state is the
  chain's, the block the second goroutine of the buffer holds, and the seed the calculator works on.
\<close>

inductive live_step ::
    "('d, 'h, 'b, 't, 's, 'w) chain_env \<Rightarrow> json_ops \<Rightarrow> (Block \<Rightarrow> bool)
       \<Rightarrow> ('d, 'h, 'b, 't, 's) chain_state \<times> Block option \<times> nat option
       \<Rightarrow> ('d, 'h, 'b, 't, 's) chain_state \<times> Block option \<times> nat option \<Rightarrow> bool" for E J good where
  append: "good b \<Longrightarrow> AppendBlockTask E b s = Done s' \<Longrightarrow> live_step E J good (s, held, w) (s', held, w)"
| process: "buffer_process E s = Done s' \<Longrightarrow> live_step E J good (s, held, w) (s', held, w)"
| receive: "buffer_receive s = Done (x, s') \<Longrightarrow> live_step E J good (s, None, w) (s', Some x, w)"
| second: "buffer_second E x s = Done s' \<Longrightarrow> live_step E J good (s, Some x, w) (s', None, w)"
| store: "BlockProcessRoutine E s = Done s' \<Longrightarrow> live_step E J good (s, held, w) (s', held, w)"
| take_seed: "calculator_take s = Done (seed, s') \<Longrightarrow> live_step E J good (s, held, None) (s', held, Some seed)"
| deliver: "calculator_deliver changed seed s = Done s' \<Longrightarrow> live_step E J good (s, held, Some seed) (s', held, None)"
| package: "packager_seed s = Done (sp, s') \<Longrightarrow> live_step E J good (s, held, w) (s', held, w)"
| data: "run_data J E (r :: nat EventRouter) s = Done s' \<Longrightarrow> live_step E J good (s, held, w) (s', held, w)"
| by_hash: "length h = 32 \<Longrightarrow>
    live_step E J good ((ch, pool, calc), held, w) ((snd (GetBlockByHash E h ch), pool, calc), held, w)"
| by_height: "in_i64 n \<Longrightarrow> GetBlockByHeight E n ch = Done (r, ch') \<Longrightarrow>
    live_step E J good ((ch, pool, calc), held, w) ((ch', pool, calc), held, w)"
| by_transaction: "length h = 32 \<Longrightarrow>
    live_step E J good ((ch, pool, calc), held, w) ((snd (GetTransactionByHash E h ch), pool, calc), held, w)"
| pool: "live_step E J good ((ch, pool, calc), held, w) ((ch, pool', calc), held, w)"

inductive live_reach ::
    "('d, 'h, 'b, 't, 's, 'w) chain_env \<Rightarrow> json_ops \<Rightarrow> (Block \<Rightarrow> bool) \<Rightarrow> ('d, 'h, 'b, 't, 's) chain_state
       \<Rightarrow> ('d, 'h, 'b, 't, 's) chain_state \<times> Block option \<times> nat option \<Rightarrow> bool" for E J good s0 where
  start: "live_reach E J good s0 (s0, None, None)"
| more: "live_reach E J good s0 s \<Longrightarrow> live_step E J good s s' \<Longrightarrow> live_reach E J good s0 s'"

section \<open>A calculator without a seed\<close>

definition cold :: "Calculator \<Rightarrow> bool" where
  "cold c \<longleftrightarrow> c_seedChannel c = [] \<and> c_prevProofChannel c = [] \<and> c_resultChannel c = [] \<and> c_proofChannel c = []
     \<and> c_prevSeed c = 0 \<and> c_seed c = 0 \<and> c_proof c = 0"

definition seedless :: "'w karmem_ops \<Rightarrow> Block \<Rightarrow> bool" where
  "seedless K b \<longleftrightarrow> fst (block_seed K b) = 0"

lemma cold_verify: "cold c \<Longrightarrow> VerifyBlockVDF c seed pf = Done (seed = 0)"
  by (auto simp: cold_def VerifyBlockVDF_def)

lemma cold_same: "cold c \<Longrightarrow> AppendNewSeed 0 pf c = Done c" "cold c \<Longrightarrow> run_take c = Blocks"
    "cold c \<Longrightarrow> GetSeedParams c = Done ((0, 0), c)"
  by (simp_all add: cold_def AppendNewSeed_def run_take_def GetSeedParams_def)

lemma cold_new: "cold (the (CalculatorInitialization None pp ord t))"
  by (simp add: cold_def CalculatorInitialization_def)

text \<open>What may be selected and popped satisfies \<open>P\<close>.\<close>

definition view_all :: "(Block \<Rightarrow> bool) \<Rightarrow> 'c BlockBuffer \<Rightarrow> Block list \<Rightarrow> bool" where
  "view_all P b pc \<longleftrightarrow> (\<forall>h y. bf_selectedBlock b h = Some y \<longrightarrow> P y) \<and> (\<forall>y \<in> set pc. P y)"

lemma select_block_all:
  assumes "select_block x b = Done b'" and "view_all P b pc" and "P x" and "in_i64 (blk_Height x)"
  shows "view_all P b' pc \<and> bf_blockChan b' = bf_blockChan b \<and> bf_secondChan b' = bf_secondChan b"
  using select_block_cases [OF assms(1,4)] assms(2,3) by (auto simp: view_all_def split: if_splits)

lemma pop_block_all:
  assumes "pop_block x b pc = Done (b', pc')" and "view_all P b pc"
  shows "view_all P b' pc' \<and> bf_blockChan b' = bf_blockChan b \<and> bf_secondChan b' = bf_secondChan b"
  using assms by (auto simp: pop_block_def PopSelectedBlock_def Let_def outcome_simps view_all_def split: if_splits option.splits)

lemma accept_cold:
  assumes "accept_block L K x (b, pc, c) = Done (b', pc', c')" and "cold c" and "view_all P b pc"
    and "seedless K x \<longrightarrow> P x" and "in_i64 (blk_Height x)"
  shows "c' = c \<and> view_all P b' pc' \<and> bf_blockChan b' = bf_blockChan b \<and> bf_secondChan b' = bf_secondChan b"
proof -
  define b1 where "b1 = b\<lparr>bf_processedBlocks := lru_add L (bf_processedBlocks b) (BlockHash x) ()\<rparr>"
  obtain seed pf where sp: "block_seed K x = (seed, pf)" by (cases "block_seed K x")
  note run = assms(1) [unfolded accept_block_def prod.case Let_def sp b1_def [symmetric] cold_verify [OF assms(2)] bindO.simps]
  have v1: "view_all P b1 pc" using assms(3) by (simp add: b1_def view_all_def)
  show ?thesis
  proof (cases "seed = 0")
    case True
    then have "P x" using assms(4) sp by (simp add: seedless_def)
    obtain b2 where s: "select_block x b1 = Done b2" "pop_block x b2 pc = Done (b', pc')" "c' = c"
      using run True cold_same(1) [OF assms(2)] by (auto simp: outcome_simps)
    note v2 = select_block_all [OF s(1) v1 \<open>P x\<close> assms(5)]
    then show ?thesis using pop_block_all [OF s(2), of P] s(3) by (simp add: b1_def)
  next
    case False
    then show ?thesis using run v1 by (auto simp: b1_def)
  qed
qed

lemma second_or_drop_all:
  assumes "second_or_drop L x b = Done b'"
  shows "bf_selectedBlock b' = bf_selectedBlock b \<and> bf_blockChan b' = bf_blockChan b
    \<and> set (bf_secondChan b') \<subseteq> insert x (set (bf_secondChan b))"
  using assms by (auto simp: second_or_drop_def outcome_simps split: if_splits)

text \<open>Both goroutines keep a calculator without a seed as it is, and let only blocks without a seed pass.\<close>

lemma second_cold:
  assumes "secondProcess_block L K x (b, pc, c) = Done (b', pc', c')" and "cold c" and "view_all P b pc"
    and "seedless K x \<longrightarrow> P x" and "in_i64 (blk_Height x)"
  shows "c' = c \<and> view_all P b' pc' \<and> bf_blockChan b' = bf_blockChan b
    \<and> set (bf_secondChan b') \<subseteq> insert x (set (bf_secondChan b))"
proof -
  note run = assms(1) [unfolded secondProcess_block_def prod.case]
  show ?thesis
  proof (cases "blk_Height x \<le> bf_latestBlockHeight b")
    case True
    then show ?thesis using run assms(3) by auto
  next
    case low: False
    show ?thesis
    proof (cases "orphan b x")
      case True
      then have "second_or_drop L x b = Done b'" "pc' = pc" "c' = c"
        using run [unfolded if_not_P [OF low] if_P [OF True]] unfolding bindO_Done_iff by auto
      then show ?thesis using second_or_drop_all [of L x b b'] assms(3) by (simp add: view_all_def)
    next
      case False
      show ?thesis
        using accept_cold [OF run [unfolded if_not_P [OF low] if_not_P [OF False]] assms(2-5)] by auto
    qed
  qed
qed

lemma Process_cold:
  assumes "Process L K (b, pc, c) = Done (b', pc', c')" and "cold c" and "view_all P b pc"
    and "\<forall>x \<in> set (bf_blockChan b). (seedless K x \<longrightarrow> P x) \<and> in_i64 (blk_Height x)"
  shows "c' = c \<and> view_all P b' pc' \<and> set (bf_blockChan b') \<subseteq> set (bf_blockChan b)
    \<and> set (bf_secondChan b') \<subseteq> set (bf_blockChan b) \<union> set (bf_secondChan b)"
proof -
  obtain x rest where x: "bf_blockChan b = x # rest"
    "Process_block L K x (b\<lparr>bf_blockChan := rest\<rparr>, pc, c) = Done (b', pc', c')"
    using assms(1) by (auto simp: Process_def split: list.splits)
  define b1 where "b1 = b\<lparr>bf_blockChan := rest, bf_knownBlocks := lru_add L (bf_knownBlocks b) (BlockHash x) ()\<rparr>"
  have v: "view_all P b1 pc" "view_all P (b\<lparr>bf_blockChan := rest\<rparr>) pc" using assms(3) by (simp_all add: b1_def view_all_def)
  show ?thesis
  proof (cases "blk_Height x \<le> bf_latestBlockHeight b \<or> lru_contains L (bf_knownBlocks b) (BlockHash x)")
    case True
    then have "(b', pc', c') = (b\<lparr>bf_blockChan := rest\<rparr>, pc, c)"
      using x(2) by (auto simp: Process_block_def split: if_splits)
    then show ?thesis using v(2) x(1) by auto
  next
    case False
    then have 2: "secondProcess_block L K x (b1, pc, c) = Done (b', pc', c')"
      using x(2) by (simp add: Process_block_def secondProcess_block_def b1_def Let_def)
    have q: "seedless K x \<longrightarrow> P x" "in_i64 (blk_Height x)" using assms(4) x(1) by simp_all
    have "c' = c \<and> view_all P b' pc' \<and> bf_blockChan b' = bf_blockChan b1 \<and> set (bf_secondChan b') \<subseteq> insert x (set (bf_secondChan b1))"
      by (rule second_cold [OF 2 assms(2) v(1) q])
    then show ?thesis using x(1) by (auto simp: b1_def)
  qed
qed

section \<open>What a run keeps\<close>

text \<open>A block that goes through the buffer, and the state of a process that found the chain \<open>bs\<close> at its start.\<close>

definition ordinary :: "Block \<Rightarrow> bool" where
  "ordinary b \<longleftrightarrow> fits b \<and> \<not> IsGenesisBlock b"

definition restarted ::
    "('d, 'h, 'b, 't, 's, 'w) chain_env \<Rightarrow> (Block list \<Rightarrow> ('d, 'h, 'b, 't, 's) BlockChain \<Rightarrow> bool) \<Rightarrow> Block list
       \<Rightarrow> ('d, 'h, 'b, 't, 's) chain_state \<times> Block option \<times> nat option \<Rightarrow> bool" where
  "restarted E is_chain bs s \<longleftrightarrow> (case s of ((ch, pool, calc), held, w) \<Rightarrow> w = None
     \<and> (\<exists>c. calc = Some c \<and> cold c)
     \<and> (\<exists>ext. is_chain (bs @ ext) ch \<and> ch_latestHeight ch = tip_height (bs @ ext) \<and> (\<forall>b \<in> set ext. seedless (ce_karmem E) b))
     \<and> (\<exists>b. ch_buffer ch = Some b
          \<and> (\<forall>x \<in> set (bf_blockChan b) \<union> set (bf_secondChan b) \<union> set_option held. ordinary x)
          \<and> view_all (\<lambda>x. ordinary x \<and> seedless (ce_karmem E) x) b (ch_bufferChan ch))
     \<and> (\<forall>x \<in> set (dp_taskChannel (ch_dp ch)). length (dt_Address x) = 20))"

lemma ordinary_i64: "ordinary x \<Longrightarrow> in_i64 (blk_Height x)"
  by (simp add: ordinary_def fits_def wf_block_def wf_header_def)

lemma on_buffer_Done:
  "on_buffer f (ch, pool, calc) = Done (r, s') \<longleftrightarrow> (\<exists>b c b' q c'. ch_buffer ch = Some b \<and> calc = Some c
     \<and> f (b, ch_bufferChan ch, c) = Done (r, b', q, c') \<and> s' = (ch\<lparr>ch_buffer := Some b', ch_bufferChan := q\<rparr>, pool, Some c'))"
  by (auto simp: on_buffer_def outcome_simps split: option.splits)

lemma buffer_process_Done:
  "buffer_process E (ch, pool, calc) = Done s' \<longleftrightarrow> (\<exists>b c b' q c'. ch_buffer ch = Some b \<and> calc = Some c
     \<and> Process (ce_seen E) (ce_karmem E) (b, ch_bufferChan ch, c) = Done (b', q, c')
     \<and> s' = (ch\<lparr>ch_buffer := Some b', ch_bufferChan := q\<rparr>, pool, Some c'))"
  by (auto simp: buffer_process_def bindO_Done_iff on_buffer_Done)

lemma buffer_receive_Done:
  "buffer_receive (ch, pool, calc) = Done (x, s') \<longleftrightarrow> (\<exists>b rest c. ch_buffer ch = Some b \<and> bf_secondChan b = x # rest
     \<and> calc = Some c \<and> s' = (ch\<lparr>ch_buffer := Some (b\<lparr>bf_secondChan := rest\<rparr>)\<rparr>, pool, Some c))"
  by (auto simp: buffer_receive_def on_buffer_def second_receive_def split: option.splits list.splits)

lemma buffer_second_Done:
  "buffer_second E x (ch, pool, calc) = Done s' \<longleftrightarrow> (\<exists>b c b' q c'. ch_buffer ch = Some b \<and> calc = Some c
     \<and> secondProcess_block (ce_seen E) (ce_karmem E) x (b, ch_bufferChan ch, c) = Done (b', q, c')
     \<and> s' = (ch\<lparr>ch_buffer := Some b', ch_bufferChan := q\<rparr>, pool, Some c'))"
  by (auto simp: buffer_second_def bindO_Done_iff on_buffer_Done)

context chain_world
begin

lemma inv_buffer: "inv bs ch \<Longrightarrow> inv bs (ch\<lparr>ch_buffer := b, ch_bufferChan := q\<rparr>)"
  by (rule inv_caches [of bs ch]) simp_all

lemma known_genesis:
  assumes "inv bs ch" and "b \<in> set bs" and "fits b" and "insertBlock E b (ch, pool, calc) = Done (ch', pool', calc')"
  shows "\<exists>c1 c2. ch' = ch\<lparr>ch_blockHeightMap := c1, ch_blockCache := c2\<rparr> \<and> pool' = pool \<and> calc' = calc
    \<and> inv bs (ch\<lparr>ch_blockHeightMap := c1, ch_blockCache := c2\<rparr>)"
proof -
  have len: "length (blk_hash b) = 32" using assms(3) by (simp add: fits_def wf_block_def wf_header_def)
  obtain c1 c2 where g: "GetBlockByHash E (blk_hash b) ch = (case block_at bs (blk_hash b) of None \<Rightarrow> Inl ErrNotFound
      | Some b \<Rightarrow> Inr b, ch\<lparr>ch_blockHeightMap := c1, ch_blockCache := c2\<rparr>)"
    "inv bs (ch\<lparr>ch_blockHeightMap := c1, ch_blockCache := c2\<rparr>)"
    using GetBlockByHash_spec [OF assms(1) len] by blast
  have "block_at bs (blk_hash b) = Some b" using block_at_eq [OF inv_chain [OF assms(1)]] assms(2) by blast
  then show ?thesis using assms(4) g by (intro exI [of _ c1] exI [of _ c2]) (simp add: insertBlock_def)
qed

text \<open>A task of the data processor.\<close>

lemma run_data_inv:
  assumes "json J ok" and "inv bs ch" and "run_data J E r (ch, pool, calc) = Done s'"
    and "\<forall>x \<in> set (dp_taskChannel (ch_dp ch)). length (dt_Address x) = 20"
  shows "\<exists>task rest d. dp_taskChannel (ch_dp ch) = task # rest
    \<and> s' = (ch\<lparr>ch_dp := (ch_dp ch)\<lparr>dp_taskChannel := rest\<rparr>, ch_db := d\<rparr>, pool, calc)
    \<and> inv bs (ch\<lparr>ch_dp := (ch_dp ch)\<lparr>dp_taskChannel := rest\<rparr>, ch_db := d\<rparr>)"
proof -
  obtain task rest d r' where t: "dp_taskChannel (ch_dp ch) = task # rest" "run_task J (ce_db E) task (ch_db ch, r) = Done (d, r')"
    "s' = (ch\<lparr>ch_dp := (ch_dp ch)\<lparr>dp_taskChannel := rest\<rparr>, ch_db := d\<rparr>, pool, calc)"
    using assms(3) by (auto simp: run_data_def dp_Run_def outcome_simps split: list.splits)
  have "run_tasks J (ce_db E) [task] (ch_db ch, r) = Done (d, r')" using t(2) by (simp add: run_tasks_def)
  then have i: "inv bs (ch\<lparr>ch_db := d\<rparr>)" by (rule run_tasks_inv [OF assms(1,2), rotated]) (use assms(4) t(1) in simp)
  have "inv bs (ch\<lparr>ch_dp := (ch_dp ch)\<lparr>dp_taskChannel := rest\<rparr>, ch_db := d\<rparr>)" by (rule inv_caches [OF i]) simp_all
  then show ?thesis using t(1,3) by blast
qed


abbreviation "after_restart bs \<equiv> restarted E inv bs"

lemma after_restartI:
  assumes "inv (bs @ ext) ch" and "ch_latestHeight ch = tip_height (bs @ ext)" and "\<forall>b \<in> set ext. seedless (ce_karmem E) b"
    and "cold c" and "ch_buffer ch = Some b"
    and "\<forall>x \<in> set (bf_blockChan b) \<union> set (bf_secondChan b) \<union> set_option held. ordinary x"
    and "view_all (\<lambda>x. ordinary x \<and> seedless (ce_karmem E) x) b (ch_bufferChan ch)"
    and "\<forall>x \<in> set (dp_taskChannel (ch_dp ch)). length (dt_Address x) = 20"
  shows "after_restart bs ((ch, pool, Some c), held, None)"
  using assms unfolding restarted_def by auto

text \<open>Only a block without a seed can extend the chain.\<close>

lemma restarted_store:
  assumes "after_restart bs ((ch, pool, calc), held, w)" and "BlockProcessRoutine E (ch, pool, calc) = Done s'"
  shows "after_restart bs (s', held, w)"
proof -
  obtain c ext b where r: "calc = Some c" "cold c" "w = None" "inv (bs @ ext) ch" "ch_latestHeight ch = tip_height (bs @ ext)"
    "\<forall>b \<in> set ext. seedless (ce_karmem E) b" "ch_buffer ch = Some b"
    "\<forall>x \<in> set (bf_blockChan b) \<union> set (bf_secondChan b) \<union> set_option held. ordinary x"
    "view_all (\<lambda>x. ordinary x \<and> seedless (ce_karmem E) x) b (ch_bufferChan ch)"
    "\<forall>x \<in> set (dp_taskChannel (ch_dp ch)). length (dt_Address x) = 20"
    using assms(1) by (auto simp: restarted_def)
  obtain x rest ch' pool' calc' where x: "ch_bufferChan ch = x # rest" "s' = (ch', pool', calc')"
    "insertBlock E x (ch\<lparr>ch_bufferChan := rest\<rparr>, pool, calc) = Done (ch', pool', calc')"
    using assms(2) by (cases s') (auto simp: BlockProcessRoutine_def split: list.splits)
  define ch1 where "ch1 = ch\<lparr>ch_bufferChan := rest\<rparr>"
  have i1: "inv (bs @ ext) ch1" "ch_latestHeight ch1 = tip_height (bs @ ext)" "ch_buffer ch1 = Some b"
    "ch_bufferChan ch1 = rest" "ch_dp ch1 = ch_dp ch"
    using inv_caches [OF r(4), of ch1] r(5,7) by (simp_all add: ch1_def)
  have o: "ordinary x" "seedless (ce_karmem E) x" using r(9) x(1) by (simp_all add: view_all_def)
  then have f: "fits x" "\<not> IsGenesisBlock x" by (simp_all add: ordinary_def)
  note ins = x(3) [folded ch1_def]
  obtain q where fr: "ch_buffer ch' = Some b" "ch_bufferChan ch' = rest" "calc' = calc"
    "dp_taskChannel (ch_dp ch') = dp_taskChannel (ch_dp ch) @ q" "\<forall>x \<in> set q. length (dt_Address x) = 20"
    using insertBlock_frame [OF i1(1) f(1) i1(2) f(2) ins] i1(3-5) by auto
  have ext: "inv (ChainStore.extend (bs @ ext) x) ch'" "ch_latestHeight ch' = tip_height (ChainStore.extend (bs @ ext) x)"
    using insertBlock_Done [OF i1(1) f(1) i1(2) ins] by simp_all
  obtain ext' where e: "ChainStore.extend (bs @ ext) x = bs @ ext'" "\<forall>b \<in> set ext'. seedless (ce_karmem E) b"
    using r(6) o(2) by (cases "accepts (bs @ ext) x") (auto simp: ChainStore.extend_def)
  show ?thesis unfolding x(2) r(1,3) fr(3)
    by (rule after_restartI [OF ext [unfolded e(1)] e(2) r(2) fr(1) r(8)]) (use r(9,10) fr x(1) in \<open>auto simp: view_all_def\<close>)
qed

lemma restarted_append:
  assumes "after_restart bs ((ch, pool, calc), held, w)" and "fits b" and "IsGenesisBlock b \<longrightarrow> b \<in> set bs"
    and "AppendBlockTask E b (ch, pool, calc) = Done s'"
  shows "after_restart bs (s', held, w)"
proof -
  obtain c ext v where r: "calc = Some c" "cold c" "w = None" "inv (bs @ ext) ch" "ch_latestHeight ch = tip_height (bs @ ext)"
    "\<forall>b \<in> set ext. seedless (ce_karmem E) b" "ch_buffer ch = Some v"
    "\<forall>x \<in> set (bf_blockChan v) \<union> set (bf_secondChan v) \<union> set_option held. ordinary x"
    "view_all (\<lambda>x. ordinary x \<and> seedless (ce_karmem E) x) v (ch_bufferChan ch)"
    "\<forall>x \<in> set (dp_taskChannel (ch_dp ch)). length (dt_Address x) = 20"
    using assms(1) by (auto simp: restarted_def)
  show ?thesis
  proof (cases "IsGenesisBlock b")
    case True
    obtain ch' pool' calc' where s': "s' = (ch', pool', calc')" by (cases s')
    have ins: "insertBlock E b (ch, pool, calc) = Done (ch', pool', calc')" using assms(4) True s' by (simp add: AppendBlockTask_def)
    have "b \<in> set (bs @ ext)" using assms(3) True by simp
    then obtain c1 c2 where k: "ch' = ch\<lparr>ch_blockHeightMap := c1, ch_blockCache := c2\<rparr>" "calc' = calc" "inv (bs @ ext) ch'"
      using known_genesis [OF r(4) _ assms(2) ins] by auto
    show ?thesis unfolding s' k(2) r(1,3)
      by (rule after_restartI [OF k(3) _ r(6,2) _ r(8)]) (use r(5,7,9,10) k(1) in simp_all)
  next
    case False
    then obtain v' where a: "AppendBlock b v = Done v'" "s' = (ch\<lparr>ch_buffer := Some v'\<rparr>, pool, calc)"
      using assms(4) r(7) by (auto simp: AppendBlockTask_def outcome_simps)
    have i: "inv (bs @ ext) (ch\<lparr>ch_buffer := Some v'\<rparr>)" by (rule inv_caches [OF r(4)]) simp_all
    have "ordinary b" using False assms(2) by (simp add: ordinary_def)
    then show ?thesis unfolding a(2) r(1,3)
      by (intro after_restartI [OF i _ r(6,2), of v'])
        (use r(5,8-10) a(1) in \<open>auto simp: AppendBlock_def outcome_simps view_all_def\<close>)
  qed
qed

lemma restarted_step:
  assumes "json J ok" and "live_step E J (\<lambda>b. fits b \<and> (IsGenesisBlock b \<longrightarrow> b \<in> set bs)) s s'" and "after_restart bs s"
  shows "after_restart bs s'"
  using assms(2,3)
proof (cases rule: live_step.cases)
  case (append b t t' held w)
  obtain ch pool calc where t: "t = (ch, pool, calc)" by (cases t)
  show ?thesis unfolding append(2)
    by (rule restarted_append [OF _ _ _ append(4) [unfolded t]]) (use append(1,3) assms(3) t in simp_all)
next
  case (store t t' held w)
  obtain ch pool calc where t: "t = (ch, pool, calc)" by (cases t)
  show ?thesis unfolding store(2)
    by (rule restarted_store [OF _ store(3) [unfolded t]]) (use store(1) assms(3) t in simp)
next
  case (process t t' held w)
  obtain ch pool calc where t: "t = (ch, pool, calc)" by (cases t)
  obtain c ext v where r: "calc = Some c" "cold c" "w = None" "inv (bs @ ext) ch" "ch_latestHeight ch = tip_height (bs @ ext)"
    "\<forall>b \<in> set ext. seedless (ce_karmem E) b" "ch_buffer ch = Some v"
    "\<forall>x \<in> set (bf_blockChan v) \<union> set (bf_secondChan v) \<union> set_option held. ordinary x"
    "view_all (\<lambda>x. ordinary x \<and> seedless (ce_karmem E) x) v (ch_bufferChan ch)"
    "\<forall>x \<in> set (dp_taskChannel (ch_dp ch)). length (dt_Address x) = 20"
    using assms(3) process(1) t by (auto simp: restarted_def)
  obtain v' q c' where p: "Process (ce_seen E) (ce_karmem E) (v, ch_bufferChan ch, c) = Done (v', q, c')"
    "t' = (ch\<lparr>ch_buffer := Some v', ch_bufferChan := q\<rparr>, pool, Some c')"
    using process(3) r(1,7) by (auto simp: t buffer_process_Done)
  have k: "c' = c" "view_all (\<lambda>x. ordinary x \<and> seedless (ce_karmem E) x) v' q" "set (bf_blockChan v') \<subseteq> set (bf_blockChan v)"
    "set (bf_secondChan v') \<subseteq> set (bf_blockChan v) \<union> set (bf_secondChan v)"
    using Process_cold [OF p(1) r(2,9)] r(8) ordinary_i64 by auto
  show ?thesis unfolding process(2) p(2) k(1) r(3)
    by (rule after_restartI [OF inv_buffer [OF r(4)] _ r(6,2)]) (use r(5,8,10) k in auto)
next
  case (receive t x t' w)
  obtain ch pool calc where t: "t = (ch, pool, calc)" by (cases t)
  then obtain v rest c where v: "ch_buffer ch = Some v" "bf_secondChan v = x # rest" "calc = Some c"
    "t' = (ch\<lparr>ch_buffer := Some (v\<lparr>bf_secondChan := rest\<rparr>)\<rparr>, pool, Some c)"
    using receive(3) buffer_receive_Done by blast
  obtain ext where r: "cold c" "w = None" "inv (bs @ ext) ch" "ch_latestHeight ch = tip_height (bs @ ext)"
    "\<forall>b \<in> set ext. seedless (ce_karmem E) b" "\<forall>x \<in> set (bf_blockChan v) \<union> set (bf_secondChan v). ordinary x"
    "view_all (\<lambda>x. ordinary x \<and> seedless (ce_karmem E) x) v (ch_bufferChan ch)"
    "\<forall>x \<in> set (dp_taskChannel (ch_dp ch)). length (dt_Address x) = 20"
    using assms(3) receive(1) v(1,3) t by (auto simp: restarted_def)
  have i: "inv (bs @ ext) (ch\<lparr>ch_buffer := Some (v\<lparr>bf_secondChan := rest\<rparr>)\<rparr>)" by (rule inv_caches [OF r(3)]) simp_all
  show ?thesis unfolding receive(2) v(4) r(2)
    by (rule after_restartI [OF i _ r(5,1)]) (use r(4,6-8) v(2) in \<open>auto simp: view_all_def\<close>)
next
  case (second x t t' w)
  obtain ch pool calc where t: "t = (ch, pool, calc)" by (cases t)
  obtain c ext v where r: "calc = Some c" "cold c" "w = None" "inv (bs @ ext) ch" "ch_latestHeight ch = tip_height (bs @ ext)"
    "\<forall>b \<in> set ext. seedless (ce_karmem E) b" "ch_buffer ch = Some v"
    "\<forall>x \<in> set (bf_blockChan v) \<union> set (bf_secondChan v). ordinary x" "ordinary x"
    "view_all (\<lambda>x. ordinary x \<and> seedless (ce_karmem E) x) v (ch_bufferChan ch)"
    "\<forall>x \<in> set (dp_taskChannel (ch_dp ch)). length (dt_Address x) = 20"
    using assms(3) second(1) t by (auto simp: restarted_def)
  obtain v' q c' where p: "secondProcess_block (ce_seen E) (ce_karmem E) x (v, ch_bufferChan ch, c) = Done (v', q, c')"
    "t' = (ch\<lparr>ch_buffer := Some v', ch_bufferChan := q\<rparr>, pool, Some c')"
    using second(3) r(1,7) by (auto simp: t buffer_second_Done)
  have k: "c' = c" "view_all (\<lambda>x. ordinary x \<and> seedless (ce_karmem E) x) v' q" "bf_blockChan v' = bf_blockChan v"
    "set (bf_secondChan v') \<subseteq> insert x (set (bf_secondChan v))"
    using second_cold [OF p(1) r(2,10) _ ordinary_i64 [OF r(9)]] r(9) by auto
  show ?thesis unfolding second(2) p(2) k(1) r(3)
    by (rule after_restartI [OF inv_buffer [OF r(4)] _ r(6,2)]) (use r(5,8,9,11) k in auto)
next
  case (data r t t' held w)
  obtain ch pool calc where t: "t = (ch, pool, calc)" by (cases t)
  then obtain ext where e: "inv (bs @ ext) ch" "\<forall>x \<in> set (dp_taskChannel (ch_dp ch)). length (dt_Address x) = 20"
    "ch_latestHeight ch = tip_height (bs @ ext)" "\<forall>b \<in> set ext. seedless (ce_karmem E) b"
    using assms(3) data(1) by (auto simp: restarted_def)
  obtain task rest d where d: "dp_taskChannel (ch_dp ch) = task # rest"
    "t' = (ch\<lparr>ch_dp := (ch_dp ch)\<lparr>dp_taskChannel := rest\<rparr>, ch_db := d\<rparr>, pool, calc)"
    "inv (bs @ ext) (ch\<lparr>ch_dp := (ch_dp ch)\<lparr>dp_taskChannel := rest\<rparr>, ch_db := d\<rparr>)"
    using run_data_inv [OF assms(1) e(1) data(3) [unfolded t] e(2)] by blast
  then show ?thesis using assms(3) data(1,2) t e unfolding restarted_def by auto
next
  case (package t sp t' held w)
  then show ?thesis using assms(3) cold_same(3)
    by (cases t) (auto simp: restarted_def packager_seed_def outcome_simps split: option.splits)
next
  case (take_seed t seed t' held)
  then show ?thesis using assms(3) cold_same(2)
    by (cases t) (auto simp: restarted_def calculator_take_def)
next
  case (by_hash h ch pool calc held w)
  obtain ext where e: "inv (bs @ ext) ch" using assms(3) by_hash(1) by (auto simp: restarted_def)
  obtain c1 c2 where "snd (GetBlockByHash E h ch) = ch\<lparr>ch_blockHeightMap := c1, ch_blockCache := c2\<rparr>"
    using GetBlockByHash_spec [OF e by_hash(3)] by auto
  moreover have "inv es ch \<Longrightarrow> inv es (snd (GetBlockByHash E h ch))" for es using GetBlockByHash_spec [of es ch h] by_hash(3) by auto
  ultimately show ?thesis using assms(3) unfolding by_hash(1,2) restarted_def by auto
next
  case (by_height n ch r ch' pool calc held w)
  obtain ext where e: "inv (bs @ ext) ch" using assms(3) by_height(1) by (auto simp: restarted_def)
  obtain c1 c2 where "ch' = ch\<lparr>ch_blockHeightMap := c1, ch_blockCache := c2\<rparr>"
    using GetBlockByHeight_spec [OF e by_height(3)] by_height(4) by auto
  moreover have "inv es ch \<Longrightarrow> inv es ch'" for es using GetBlockByHeight_spec [of es ch n] by_height(3,4) by auto
  ultimately show ?thesis using assms(3) unfolding by_height(1,2) restarted_def by auto
next
  case (by_transaction h ch pool calc held w)
  obtain ext where e: "inv (bs @ ext) ch" using assms(3) by_transaction(1) by (auto simp: restarted_def)
  obtain c1 where "snd (GetTransactionByHash E h ch) = ch\<lparr>ch_txCache := c1\<rparr>"
    using GetTransactionByHash_spec [OF e by_transaction(3)] by auto
  moreover have "inv es ch \<Longrightarrow> inv es (snd (GetTransactionByHash E h ch))" for es
    using GetTransactionByHash_spec [of es ch h] by_transaction(3) by auto
  ultimately show ?thesis using assms(3) unfolding by_transaction(1,2) restarted_def by auto
qed (use assms(3) in \<open>auto simp: restarted_def\<close>)

lemma restarted_start:
  assumes "chain_of bs" and "bs \<noteq> []" and "height_at bs 0 \<noteq> None" and "stored (ce_karmem E) (content d) bs"
    and "NewBlockchain E d None = Done (ch, calc)"
  shows "after_restart bs ((ch, pool, calc), None, None)"
proof -
  obtain ch' calc' where n: "NewBlockchain E d None = Done (ch', calc')" "inv bs ch'" "ch_latestHeight ch' = tip_height bs"
    "ch_dp ch' = NewDataProcessor" "ch_buffer ch' = Some (NewBlockBuffer (ce_seen E) (last bs))" "calc' \<noteq> None"
    using NewBlockchain_spec [OF assms(1,4), of None] assms(2,3) by (auto split: option.splits)
  have e: "ch' = ch" "calc' = calc" using n(1) assms(5) by simp_all
  define ch0 where "ch0 = \<lparr>ch_db = d, ch_blockHeightMap = lru_new (ce_heights E) maxBlockCache,
      ch_blockCache = lru_new (ce_blocks E) maxBlockCache, ch_txCache = lru_new (ce_txs E) maxTransactionCache,
      ch_latestBlock = None, ch_latestHeight = -1, ch_bufferChan = [], ch_buffer = (None :: 's BlockBuffer option), ch_dp = NewDataProcessor,
      ch_genesisParams = None, ch_genesisTime = 0\<rparr>"
  have i0: "inv bs ch0" unfolding ch0_def by (rule fresh_inv [OF assms(1,4)])
  obtain ch1 where l1: "GetLatestBlock E ch0 = Done (Inr (last bs), ch1)" "inv bs ch1" "ch_bufferChan ch1 = []"
    using GetLatestBlock_spec [OF i0] assms(2) by (auto simp: ch0_def)
  have l: "bindO (GetBlockByHeight E 0 (createBlockBuffer E (last bs) ch1)) (\<lambda>(genesis, ch2).
       Done (genesisInitialization E (case genesis of Inl _ \<Rightarrow> None | Inr g \<Rightarrow> Some g) (ch2, None))) = Done (ch, calc)"
    using assms(5) l1(1) by (simp add: NewBlockchain_def Let_def ch0_def)
  have "calc = None \<or> (\<exists>c. calc = Some c \<and> cold c)"
    using l by (auto simp: bindO_Done_iff genesisInitialization_def Let_def CalculatorInitialization_def cold_def split: option.splits sum.splits)
  then obtain c where c: "calc = Some c" "cold c" using n(6) e by auto
  have "ch_bufferChan ch = []"
  proof -
    note i0 = l1(3)
    have "inv bs ch1" by (rule l1(2))
    then have "inv bs (createBlockBuffer E (last bs) ch1)" by (rule inv_caches) (simp_all add: createBlockBuffer_def)
    then obtain g c1 c2 where "GetBlockByHeight E 0 (createBlockBuffer E (last bs) ch1)
        = Done (g, (createBlockBuffer E (last bs) ch1)\<lparr>ch_blockHeightMap := c1, ch_blockCache := c2\<rparr>)"
      using GetBlockByHeight_spec [of bs "createBlockBuffer E (last bs) ch1" 0] by (auto simp: in_i64_def)
    then show ?thesis using l i0 by (cases g) (auto simp: genesisInitialization_def createBlockBuffer_def Let_def)
  qed
  then show ?thesis unfolding c(1) e(1) [symmetric]
    by (intro after_restartI [where ext = "[]", OF _ _ _ c(2)])
      (use n e in \<open>auto simp: NewBlockBuffer_def view_all_def NewDataProcessor_def\<close>)
qed

lemma restarted_reach:
  assumes "json J ok" and "after_restart bs (s0, None, None)"
    and "live_reach E J (\<lambda>b. fits b \<and> (IsGenesisBlock b \<longrightarrow> b \<in> set bs)) s0 s"
  shows "after_restart bs s"
  using assms(3) by (induction rule: live_reach.induct) (use assms(2) restarted_step [OF assms(1)] in blast)+

end

section \<open>Properties\<close>

text \<open>C7: A node that was restarted never again stores a block of the network. From a database with a chain, in every run
  of the routines around the chain, whatever blocks are handed in (no second genesis block among them) and whatever is read:
  the stored chain grows only by blocks whose delay function output is zero, the calculator has no seed, and what the
  packager gets for the node's own blocks is zero output with zero proof. The reason is that a seed only comes in
  with the insertion of the genesis block, and a restarted node has it already.\<close>

theorem restart_ends_verification:
  assumes "chain_world E len cell content eh eb et" and "json J ok"
    and "chain_of bs" and "bs \<noteq> []" and "height_at bs 0 \<noteq> None" and "stored (ce_karmem E) (content d) bs"
    and "NewBlockchain E d None = Done (ch0, calc0)"
    and "live_reach E J (\<lambda>b. fits b \<and> (IsGenesisBlock b \<longrightarrow> b \<in> set bs)) (ch0, pool0, calc0) ((ch, pool, calc), held, working)"
  shows "\<exists>ext. chain_inv E content eh eb et (bs @ ext) ch \<and> (\<forall>b \<in> set ext. fst (block_seed (ce_karmem E) b) = 0)
    \<and> calculator_take (ch, pool, calc) = Blocks
    \<and> packager_seed (ch, pool, calc) = Done ((0, 0), ch, pool, calc)"
proof -
  note start = chain_world.restarted_start [OF assms(1,3-7), of pool0]
  have "restarted E (chain_world.inv E content eh eb et) bs ((ch, pool, calc), held, working)"
    by (rule chain_world.restarted_reach [OF assms(1,2) start assms(8)])
  then show ?thesis
    by (auto simp: restarted_def seedless_def calculator_take_def packager_seed_def cold_same chain_world.inv_def [OF assms(1)])
qed

section \<open>Witnesses\<close>

lemma restart_ends_verification_witness:
  "\<exists>d ch0 calc0 ch pool calc held w ext. NewBlockchain std_env d None = Done (ch0, calc0)
    \<and> live_reach std_env tiny_json (\<lambda>b. fits b \<and> (IsGenesisBlock b \<longrightarrow> b \<in> set [sample_genesis])) (ch0, None, calc0)
        ((ch, pool, calc), held, w)
    \<and> (\<exists>b. ch_buffer ch = Some b \<and> bf_blockChan b = [sample_block])
    \<and> chain_inv std_env (\<lambda>d. d) list_entries list_entries list_entries ([sample_genesis] @ ext) ch
    \<and> packager_seed (ch, pool, calc) = Done ((0, 0), ch, pool, calc)"
proof -
  obtain ch1 where c: "chain_inv std_env (\<lambda>d. d) list_entries list_entries list_entries [sample_genesis] ch1"
    using std_genesis [of tiny_json] by blast
  have st: "chain_of [sample_genesis]" "[sample_genesis] \<noteq> []" "height_at [sample_genesis] 0 \<noteq> None"
    "stored (ce_karmem std_env) (ch_db ch1) [sample_genesis]"
    using c by (simp_all add: chain_inv_def height_at_def sample_genesis_def)
  obtain ch0 calc0 where n: "NewBlockchain std_env (ch_db ch1) None = Done (ch0, calc0)"
    "ch_buffer ch0 = Some (NewBlockBuffer (ce_seen std_env) sample_genesis)"
    using std_world.NewBlockchain_spec [OF st(1,4), of None] by auto
  define b' where "b' = (NewBlockBuffer (ce_seen std_env) sample_genesis)\<lparr>bf_blockChan := [sample_block]\<rparr>"
  have g: "\<not> IsGenesisBlock sample_block" by (simp add: IsGenesisBlock_iff sample_block_def sample_header_def)
  have "AppendBlockTask std_env sample_block (ch0, None, calc0) = Done (ch0\<lparr>ch_buffer := Some b'\<rparr>, None, calc0)"
    using n(2) g by (simp add: AppendBlockTask_def AppendBlock_def chan_send_def maxQueueBlock_def NewBlockBuffer_def b'_def)
  then have r: "live_reach std_env tiny_json (\<lambda>b. fits b \<and> (IsGenesisBlock b \<longrightarrow> b \<in> set [sample_genesis])) (ch0, None, calc0)
      ((ch0\<lparr>ch_buffer := Some b'\<rparr>, None, calc0), None, None)"
    using g by (intro live_reach.more [OF live_reach.start] live_step.append [of _ sample_block]) auto
  have "ch_buffer (ch0\<lparr>ch_buffer := Some b'\<rparr>) = Some b'" "bf_blockChan b' = [sample_block]" by (simp_all add: b'_def)
  then show ?thesis
    using restart_ends_verification [OF std_world.chain_world_axioms tiny.json_axioms st n(1) r] n(1) r by blast
qed

end
