(* ===== verification/CatchUp.thy ===== *)
theory CatchUp
  imports Restart BlockSync
begin

text \<open>
  A new node catches up with a chain: the blocks its peers send, the syncer that hands them over, the buffer, the
  calculator, the routine that stores popped blocks and the data processor, in any order. Then what goes wrong
  when the calculator is slower than the buffer.
\<close>

section \<open>Following the seeds\<close>

text \<open>The calculator after it took over the seed of a block.\<close>

definition moved :: "Calculator \<Rightarrow> nat \<Rightarrow> Calculator" where
  "moved c seed = (if c_prevSeed c = seed \<or> c_seed c = seed then c else c\<lparr>c_prevSeed := c_seed c, c_seed := seed\<rparr>)"

fun follows :: "'w karmem_ops \<Rightarrow> Calculator \<Rightarrow> Block list \<Rightarrow> bool" where
  "follows K c [] = True"
| "follows K c (b # bs) = (VerifyBlockVDF c (fst (block_seed K b)) (snd (block_seed K b)) = Done True
     \<and> follows K (moved c (fst (block_seed K b))) bs)"

definition moved_by :: "'w karmem_ops \<Rightarrow> Calculator \<Rightarrow> Block list \<Rightarrow> Calculator" where
  "moved_by K c bs = foldl (\<lambda>c b. moved c (fst (block_seed K b))) c bs"

lemma follows_nth:
  "follows K c bs \<Longrightarrow> i < length bs \<Longrightarrow>
     VerifyBlockVDF (moved_by K c (take i bs)) (fst (block_seed K (bs ! i))) (snd (block_seed K (bs ! i))) = Done True"
proof (induction bs arbitrary: c i)
  case (Cons b bs)
  then show ?case by (cases i) (simp_all add: moved_by_def)
qed simp

lemma moved_by_Suc: "i < length bs \<Longrightarrow> moved_by K c (take (Suc i) bs) = moved (moved_by K c (take i bs)) (fst (block_seed K (bs ! i)))"
  by (simp add: moved_by_def take_Suc_conv_app_nth)

text \<open>What the seed that the genesis block gives makes of a new calculator.\<close>

definition genesis_calculator :: "('d, 'h, 'b, 't, 's, 'w) chain_env \<Rightarrow> Block \<Rightarrow> Calculator" where
  "genesis_calculator E g =
     (let gp = DeserializeGenesisParams (ce_karmem E) (bh_Params (blk_Header g))
      in moved (the (CalculatorInitialization None (be_dec (gp_VerifyParam gp)) (be_dec (gp_Order gp)) (nat (gp_TimeParam gp))))
           (be_dec (gp_Seed gp)))"

definition same_vdf :: "Calculator \<Rightarrow> Calculator \<Rightarrow> bool" where
  "same_vdf c c' \<longleftrightarrow> c_order c = c_order c' \<and> c_proofParam c = c_proofParam c' \<and> c_timeParam c = c_timeParam c'
     \<and> c_prevSeed c = c_prevSeed c' \<and> c_seed c = c_seed c'"

text \<open>The calculator is as \<open>v\<close>, or will be when it takes the one seed that waits.\<close>

definition calc_at :: "Calculator \<Rightarrow> Calculator \<Rightarrow> bool" where
  "calc_at v c \<longleftrightarrow> (c_seedChannel c = [] \<and> c_prevProofChannel c = [] \<and> same_vdf c v)
     \<or> (\<exists>s p. c_seedChannel c = [s] \<and> c_prevProofChannel c = [p] \<and> same_vdf (c\<lparr>c_prevSeed := c_seed c, c_seed := s\<rparr>) v)"

lemma same_vdf_verify: "same_vdf c v \<Longrightarrow> VerifyBlockVDF c s p = VerifyBlockVDF v s p"
  by (simp add: same_vdf_def VerifyBlockVDF_def Verify_vdf_def)

lemma calc_at_append:
  assumes "calc_at v c" and "c_seedChannel c = []" and "VerifyBlockVDF v s p = Done True"
  shows "VerifyBlockVDF c s p = Done True \<and> (\<exists>c'. AppendNewSeed s p c = Done c' \<and> calc_at (moved v s) c'
    \<and> length (c_seedChannel c') \<le> 1)"
proof -
  have v: "same_vdf c v" "c_prevProofChannel c = []" using assms(1,2) by (auto simp: calc_at_def)
  then have ok: "VerifyBlockVDF c s p = Done True" using same_vdf_verify assms(3) by metis
  show ?thesis
  proof (cases "c_prevSeed c = s \<or> c_seed c = s")
    case True
    then have "AppendNewSeed s p c = Done c" "moved v s = v" using v(1) by (auto simp: AppendNewSeed_def moved_def same_vdf_def)
    then show ?thesis using ok assms(1,2) by simp
  next
    case False
    then have "c_seed c \<noteq> 0" "Verify_vdf c (c_seed c) p s = Done True" using ok by (auto simp: VerifyBlockVDF_def split: if_splits)
    then have "AppendNewSeed s p c = Done (c\<lparr>c_changed := True, c_seedChannel := [s], c_prevProofChannel := [p]\<rparr>)"
      using False assms(2) v(2) by (auto simp: AppendNewSeed_def chan_send_def calc_chan_cap_def)
    moreover have "calc_at (moved v s) (c\<lparr>c_changed := True, c_seedChannel := [s], c_prevProofChannel := [p]\<rparr>)"
      using False v(1) by (simp add: calc_at_def moved_def same_vdf_def)
    ultimately show ?thesis using ok by simp
  qed
qed

lemma calc_at_take: "calc_at v c \<Longrightarrow> run_take c = Done (s, c') \<Longrightarrow> calc_at v c' \<and> c_seedChannel c' = [] \<and> c_seedChannel c \<noteq> []"
  by (auto simp: calc_at_def run_take_def same_vdf_def split: list.splits)

lemma calc_at_enabled: "calc_at v c \<Longrightarrow> c_seedChannel c \<noteq> [] \<Longrightarrow> \<exists>s c'. run_take c = Done (s, c')"
  by (auto simp: calc_at_def run_take_def)

section \<open>Steps\<close>

text \<open>
  The routines that bring blocks from the syncer into the chain. The syncer's loop hands over one block under its lock
  at a time. The buffer handles a block when the calculator has taken the seed of the one before: this is the
  assumption that the calculator keeps up.
\<close>

definition calculator_idle :: "('d, 'h, 'b, 't, 's) chain_state \<Rightarrow> bool" where
  "calculator_idle s \<longleftrightarrow> (case s of (ch, pool, calc) \<Rightarrow> \<forall>c. calc = Some c \<longrightarrow> c_seedChannel c = [])"

inductive catch_work ::
    "('d, 'h, 'b, 't, 's, 'w) chain_env \<Rightarrow> json_ops \<Rightarrow> BlockSyncer \<times> ('d, 'h, 'b, 't, 's) chain_state
       \<Rightarrow> BlockSyncer \<times> ('d, 'h, 'b, 't, 's) chain_state \<Rightarrow> bool" for E J where
  hand: "h = i64 (by_knownHeight sy + 1) \<Longrightarrow> h \<le> by_remoteHeight sy \<Longrightarrow> by_blockMap sy h \<noteq> None \<Longrightarrow>
    syncer_insertBlock E h (sy, c) = Done s' \<Longrightarrow> catch_work E J (sy, c) s'"
| handle: "calculator_idle c \<Longrightarrow> buffer_process E c = Done c' \<Longrightarrow> catch_work E J (sy, c) (sy, c')"
| store: "BlockProcessRoutine E c = Done c' \<Longrightarrow> catch_work E J (sy, c) (sy, c')"
| calculate: "calculator_take c = Done (seed, c') \<Longrightarrow> catch_work E J (sy, c) (sy, c')"
| data: "run_data J E (r :: nat EventRouter) c = Done c' \<Longrightarrow> catch_work E J (sy, c) (sy, c')"

text \<open>Peers send blocks of the chain \<open>bs\<close> at any time, in any order, and as often as they like.\<close>

inductive catch_reach ::
    "('d, 'h, 'b, 't, 's, 'w) chain_env \<Rightarrow> json_ops \<Rightarrow> Block list \<Rightarrow> BlockSyncer \<times> ('d, 'h, 'b, 't, 's) chain_state
       \<Rightarrow> BlockSyncer \<times> ('d, 'h, 'b, 't, 's) chain_state \<Rightarrow> bool" for E J bs s0 where
  start: "catch_reach E J bs s0 s0"
| receive: "catch_reach E J bs s0 (sy, c) \<Longrightarrow> b \<in> set bs \<Longrightarrow> catch_reach E J bs s0 (syncer_appendBlock b sy, c)"
| work: "catch_reach E J bs s0 s \<Longrightarrow> catch_work E J s s' \<Longrightarrow> catch_reach E J bs s0 s'"

section \<open>The states on the way\<close>

text \<open>\<open>K\<close> blocks were handed over, \<open>P\<close> handled by the buffer, \<open>S\<close> stored.\<close>

definition part :: "nat \<Rightarrow> nat \<Rightarrow> 'a list \<Rightarrow> 'a list" where
  "part i j xs = take (j - i) (drop i xs)"

lemma part_empty [simp]: "part i i xs = []" by (simp add: part_def)

lemma part_snoc: "i \<le> j \<Longrightarrow> j < length xs \<Longrightarrow> part i j xs @ [xs ! j] = part i (Suc j) xs"
  by (simp add: part_def Suc_diff_le take_Suc_conv_app_nth)

lemma part_Cons:
  assumes "i < j" and "j \<le> length xs"
  shows "part i j xs = xs ! i # part (Suc i) j xs"
proof -
  have "drop i xs = xs ! i # drop (Suc i) xs" using assms Cons_nth_drop_Suc [of i xs] by simp
  moreover have "j - i = Suc (j - Suc i)" using assms by simp
  ultimately show ?thesis by (simp add: part_def)
qed

lemma length_part [simp]: "j \<le> length xs \<Longrightarrow> length (part i j xs) = j - i" by (simp add: part_def)


text \<open>
  Assumed of the chain: its blocks lie at the heights of their positions, only the first passes for a genesis
  block, the seeds follow each other, and no block has more transactions than the data processor's queue takes.
\<close>

definition served :: "('d, 'h, 'b, 't, 's, 'w) chain_env \<Rightarrow> Block list \<Rightarrow> bool" where
  "served E bs \<longleftrightarrow> chain_of bs \<and> bs \<noteq> [] \<and> dense bs \<and> (\<forall>i. 0 < i \<and> i < length bs \<longrightarrow> \<not> IsGenesisBlock (bs ! i))
     \<and> follows (ce_karmem E) (genesis_calculator E (bs ! 0)) (tl bs)
     \<and> (\<forall>b \<in> set bs. length (blk_Transactions b) \<le> taskChannelSize)"

definition synced_upto ::
    "Block list \<Rightarrow> nat \<Rightarrow> BlockSyncer \<Rightarrow> bool" where
  "synced_upto bs K sy \<longleftrightarrow> K \<le> length bs \<and> by_knownHeight sy = int K - 1 \<and> by_remoteHeight sy = int (length bs) - 1
     \<and> (\<forall>h b. by_blockMap sy h = Some b \<longrightarrow> (\<exists>i < length bs. h = int i \<and> b = bs ! i))"

definition catching ::
    "('d, 'h, 'b, 't, 's, 'w) chain_env \<Rightarrow> (Block list \<Rightarrow> ('d, 'h, 'b, 't, 's) BlockChain \<Rightarrow> bool) \<Rightarrow> Block list
       \<Rightarrow> nat \<Rightarrow> nat \<Rightarrow> nat \<Rightarrow> BlockSyncer \<times> ('d, 'h, 'b, 't, 's) chain_state \<Rightarrow> bool" where
  "catching E is_chain bs K P S s \<longleftrightarrow> (case s of (sy, ch, pool, calc) \<Rightarrow>
     synced_upto bs K sy \<and> pool \<noteq> None \<and> is_chain (take S bs) ch \<and> ch_latestHeight ch = int S - 1
     \<and> (\<forall>x \<in> set (dp_taskChannel (ch_dp ch)). length (dt_Address x) = 20)
     \<and> (if K = 0
        then P = 0 \<and> S = 0 \<and> ch_buffer ch = None \<and> calc = None \<and> ch_bufferChan ch = [] \<and> dp_taskChannel (ch_dp ch) = []
        else 1 \<le> P \<and> P \<le> K \<and> 1 \<le> S \<and> S \<le> left_buffer P \<and> ch_bufferChan ch = part S (left_buffer P) bs
          \<and> (\<exists>b c. ch_buffer ch = Some b \<and> calc = Some c \<and> window (ce_seen E) bs P b \<and> bf_blockChan b = part P K bs
               \<and> calc_at (moved_by (ce_karmem E) (genesis_calculator E (bs ! 0)) (take (P - 1) (tl bs))) c)))"

text \<open>What is left to do.\<close>

definition effort :: "nat \<Rightarrow> nat \<Rightarrow> nat \<Rightarrow> nat \<Rightarrow> BlockSyncer \<times> ('d, 'h, 'b, 't, 's) chain_state \<Rightarrow> nat" where
  "effort m K P S s = (case s of (sy, ch, pool, calc) \<Rightarrow> 20481 * (m - S) + 3 * (m - K) + 3 * (m - P)
     + (case calc of None \<Rightarrow> 0 | Some c \<Rightarrow> length (c_seedChannel c)) + length (dp_taskChannel (ch_dp ch)))"

lemma left_buffer_bounds: "1 \<le> P \<Longrightarrow> left_buffer P \<le> P" "1 \<le> left_buffer P" "left_buffer P \<le> left_buffer (Suc P)"
  by (simp_all add: left_buffer_def)

lemma left_buffer_Suc: "left_buffer (Suc P) = (if P < 13 then left_buffer P else Suc (left_buffer P))"
  by (simp add: left_buffer_def) arith

lemma chain_prefix: "chain_of bs \<Longrightarrow> i < length bs \<Longrightarrow> accepts (take i bs) (bs ! i) \<and> fits (bs ! i)"
proof (induction rule: chain_of.induct)
  case (extended bs b)
  then show ?case by (cases "i < length bs") (simp_all add: nth_append)
qed simp

lemma dense_tip: "dense bs \<Longrightarrow> S \<le> length bs \<Longrightarrow> tip_height (take S bs) = int S - 1"
proof (cases S)
  case (Suc n)
  assume d: "dense bs" and l: "S \<le> length bs"
  then have "last (take S bs) = bs ! n" using Suc by (simp add: take_Suc_conv_app_nth)
  then show ?thesis using d l Suc by (auto simp: tip_height_def dense_def)
qed (simp add: tip_height_def)

lemma synced_receive:
  assumes "synced_upto bs K sy" and "b \<in> set bs" and "dense bs"
  shows "synced_upto bs K (syncer_appendBlock b sy)"
proof -
  obtain i where "i < length bs" "b = bs ! i" using assms(2) by (metis in_set_conv_nth)
  then show ?thesis using assms(1,3) by (auto simp: synced_upto_def syncer_appendBlock_def dense_def)
qed

lemma fresh_seed_at:
  assumes "AppendNewSeed s 0 (the (CalculatorInitialization None pp ord t)) = Done c"
  shows "calc_at (moved (the (CalculatorInitialization None pp ord t)) s) c \<and> length (c_seedChannel c) \<le> 1"
proof (cases "s = 0")
  case True
  then show ?thesis using assms by (auto simp: AppendNewSeed_def CalculatorInitialization_def moved_def calc_at_def same_vdf_def)
next
  case False
  then have "c = (the (CalculatorInitialization None pp ord t))\<lparr>c_changed := True, c_seedChannel := [s], c_prevProofChannel := [0]\<rparr>"
    using assms by (simp add: AppendNewSeed_def CalculatorInitialization_def outcome_simps)
  then show ?thesis using False by (simp add: calc_at_def same_vdf_def moved_def CalculatorInitialization_def)
qed

context chain_world
begin

lemma genesis_stored:
  assumes "inv [] ch" and "ch_latestHeight ch = -1" and "accepts [] g" and "fits g" and "blk_Height g = 0"
    and "dp_taskChannel (ch_dp ch) = []" and "length (blk_Transactions g) \<le> taskChannelSize"
  shows "\<exists>ch' pool' c. insertBlock E g (ch, Some p, None) = Done (ch', Some pool', Some c)
    \<and> inv [g] ch' \<and> ch_latestHeight ch' = 0 \<and> ch_bufferChan ch' = ch_bufferChan ch
    \<and> ch_buffer ch' = Some (NewBlockBuffer (ce_seen E) g) \<and> calc_at (genesis_calculator E g) c \<and> length (c_seedChannel c) \<le> 1
    \<and> (\<forall>x \<in> set (dp_taskChannel (ch_dp ch')). length (dt_Address x) = 20)
    \<and> length (dp_taskChannel (ch_dp ch')) \<le> length (blk_Transactions g)"
proof -
  let ?gp = "DeserializeGenesisParams (ce_karmem E) (bh_Params (blk_Header g))"
  define c0 where "c0 = the (CalculatorInitialization None (be_dec (gp_VerifyParam ?gp)) (be_dec (gp_Order ?gp)) (nat (gp_TimeParam ?gp)))"
  have gen: "IsGenesisBlock g" using assms(3) by (simp add: accepts_def)
  have h: "ch_latestHeight ch = tip_height []" using assms(2) by (simp add: tip_height_def)
  obtain ch' pool' calc' where i: "insertBlock E g (ch, Some p, None) = Done (ch', pool', calc')"
    "inv (ChainStore.extend [] g) ch'" "ch_latestHeight ch' = tip_height (ChainStore.extend [] g)" "ch_bufferChan ch' = ch_bufferChan ch"
    "ch_buffer ch' = Some (NewBlockBuffer (ce_seen E) g)" "pool' = Some (fold (\<lambda>t. RemoveTx (tx_hash t)) (blk_Transactions g) p)"
    "dp_taskChannel (ch_dp ch') = List.map_filter (tx_task (ce_karmem E) g) (blk_Transactions g)"
    using insertBlock_spec [OF assms(1,4) _ h, of None p] assms(3,6,7) gen by (auto simp: map_filter_placed)
  have len: "length (blk_hash g) = 32" using assms(4) by (simp add: fits_def wf_block_def wf_header_def)
  obtain ch1 where g: "GetBlockByHash E (blk_hash g) ch = (Inl ErrNotFound, ch1)" "inv [] ch1"
    using GetBlockByHash_spec [OF assms(1) len] by (auto simp: block_at_def)
  obtain ch2 where l: "GetLatestBlock E ch1 = Done (Inl ErrNotFound, ch2)" "ch_latestHeight ch2 = -1"
    using GetLatestBlock_spec [OF g(2)] by (auto simp: tip_height_def)
  obtain ch3 where s3: "genesisInitialization E (Some g) (createBlockBuffer E g ch2, None) = (ch3, Some c0)" "ch_latestHeight ch3 = -1"
    using l(2) by (simp add: genesisInitialization_def Let_def c0_def CalculatorInitialization_def createBlockBuffer_def)
  have st: "store_block E g (ch3, Some p, Some c0) = Done (ch', pool', calc')"
    using i(1) gen by (simp add: insertBlock_def g(1) l(1) s3(1))
  obtain v where v: "SerializeBlock (ce_karmem E) g = Some v" using block_bytes [OF assms(4)] by blast
  let ?ch4 = "writeBlockCache E g (ch3\<lparr>ch_latestBlock := Some g, ch_latestHeight := blk_Height g\<rparr>)"
  obtain r where r: "insert_txs (ce_karmem E) g 0 (blk_Transactions g) ([BlockHash2DBKey (blk_hash g), latest_key,
      BlockHeight2DBKey (blk_Height g)], [v, blk_hash g, blk_hash g]) (Some p) (ch_dp ?ch4) = Done r"
    using st s3(2) v assms(5) by (auto simp: store_block_def Let_def bindO_Done_iff)
  then obtain kv pool1 dp where "r = (True, kv, pool1, dp)"
    using insert_txs_Done [OF _ r] encodes [OF assms(4)] by auto
  then obtain c where c: "AppendNewSeed (be_dec (gp_Seed ?gp)) 0 c0 = Done c" "calc' = Some c"
    using st s3(2) v r assms(5)
    by (cases "AppendNewSeed (be_dec (gp_Seed ?gp)) 0 c0") (auto simp: store_block_def Let_def split: prod.splits)
  have "calc_at (genesis_calculator E g) c \<and> length (c_seedChannel c) \<le> 1"
    using fresh_seed_at [OF c(1) [unfolded c0_def]] by (simp add: genesis_calculator_def Let_def)
  moreover have "length (dt_Address x) = 20" if m: "x \<in> set (dp_taskChannel (ch_dp ch'))" for x
  proof -
    obtain t where "t \<in> set (blk_Transactions g)" "tx_task (ce_karmem E) g t = Some x"
      using m i(7) by (fastforce simp: List.map_filter_def)
    moreover from this have "wf_tx t" using assms(4) by (simp add: fits_def wf_block_def)
    ultimately show ?thesis using tx_task_address by blast
  qed
  ultimately show ?thesis using i c(2) assms(3,5)
    by (intro exI [of _ ch'] exI [of _ "fold (\<lambda>t. RemoveTx (tx_hash t)) (blk_Transactions g) p"] exI [of _ c])
      (auto simp: ChainStore.extend_def tip_height_def List.map_filter_def)
qed

end

text \<open>The world of the chain together with the caches of its buffer.\<close>

locale node_world = chain_world + seen: seen_cache "ce_seen E" es for es
begin

abbreviation "catching_up bs \<equiv> catching E inv bs"

lemma catchingD:
  assumes "catching_up bs K P S (sy, ch, pool, calc)" and "K \<noteq> 0"
  obtains b c p where "synced_upto bs K sy" "pool = Some p" "inv (take S bs) ch" "ch_latestHeight ch = int S - 1"
    "\<forall>x \<in> set (dp_taskChannel (ch_dp ch)). length (dt_Address x) = 20" "1 \<le> P" "P \<le> K" "1 \<le> S" "S \<le> left_buffer P"
    "ch_bufferChan ch = part S (left_buffer P) bs" "ch_buffer ch = Some b" "calc = Some c" "window (ce_seen E) bs P b"
    "bf_blockChan b = part P K bs" "calc_at (moved_by (ce_karmem E) (genesis_calculator E (bs ! 0)) (take (P - 1) (tl bs))) c"
  using assms by (auto simp: catching_def)

lemma catchingI:
  assumes "synced_upto bs K sy" and "inv (take S bs) ch" and "ch_latestHeight ch = int S - 1"
    and "\<forall>x \<in> set (dp_taskChannel (ch_dp ch)). length (dt_Address x) = 20" and "1 \<le> P" and "P \<le> K" and "1 \<le> S" and "S \<le> left_buffer P"
    and "ch_bufferChan ch = part S (left_buffer P) bs" and "ch_buffer ch = Some b" and "window (ce_seen E) bs P b"
    and "bf_blockChan b = part P K bs"
    and "calc_at (moved_by (ce_karmem E) (genesis_calculator E (bs ! 0)) (take (P - 1) (tl bs))) c"
  shows "catching_up bs K P S (sy, ch, Some p, Some c)"
  using assms by (simp add: catching_def)

lemma synced_handed:
  assumes "synced_upto bs K sy" and "K < length bs"
  shows "synced_upto bs (Suc K) (sy\<lparr>by_knownHeight := int K, by_requestTimestamp := f, by_blockMap := (by_blockMap sy)(int K := None)\<rparr>)"
  using assms by (auto simp: synced_upto_def)

text \<open>Handing over a block: the first one makes the chain, the others wait for the buffer.\<close>

lemma catching_hand:
  assumes sv: "served E bs" and c: "catching_up bs K P S (sy, ch, pool, calc)"
    and h: "h = i64 (by_knownHeight sy + 1)" "h \<le> by_remoteHeight sy" "by_blockMap sy h \<noteq> None"
    and s: "syncer_insertBlock E h (sy, ch, pool, calc) = Done s'"
  shows "\<exists>P' S'. catching_up bs (Suc K) P' S' s' \<and> effort (length bs) (Suc K) P' S' s' < effort (length bs) K P S (sy, ch, pool, calc)"
proof -
  have d: "dense bs" "chain_of bs" "bs \<noteq> []" using sv by (simp_all add: served_def)
  have sy: "synced_upto bs K sy" using c by (simp add: catching_def)
  have m: "int (length bs) < 2 ^ 62" using d(1) by (simp add: dense_def)
  have hK: "h = int K"
    using sy m unfolding h(1) by (auto simp: synced_upto_def intro!: i64_small)
  then have K: "K < length bs" using h(2) sy by (simp add: synced_upto_def)
  have blk: "by_blockMap sy (int K) = Some (bs ! K)" using h(3) sy unfolding hK synced_upto_def by fastforce
  define sy' where "sy' = sy\<lparr>by_knownHeight := int K, by_requestTimestamp := (by_requestTimestamp sy)(int K := None),
    by_blockMap := (by_blockMap sy)(int K := None)\<rparr>"
  have sy': "synced_upto bs (Suc K) sy'" unfolding sy'_def by (rule synced_handed [OF sy K])
  obtain c' where a: "AppendBlockTask E (bs ! K) (ch, pool, calc) = Done c'" "s' = (sy', c')"
    using s blk unfolding hK by (auto simp: syncer_insertBlock_def outcome_simps sy'_def)
  note acc = chain_prefix [OF d(2) K]
  show ?thesis
  proof (cases "K = 0")
    case True
    note z = c [unfolded catching_def prod.case True]
    obtain p where p: "pool = Some p" using z by auto
    have z': "inv [] ch" "ch_latestHeight ch = -1" "dp_taskChannel (ch_dp ch) = []" "calc = None" "ch_bufferChan ch = []" "S = 0" "P = 0"
      using z by auto
    have g: "accepts [] (bs ! 0)" "fits (bs ! 0)" "blk_Height (bs ! 0) = 0" "length (blk_Transactions (bs ! 0)) \<le> taskChannelSize"
      using acc True d sv by (auto simp: dense_def served_def)
    obtain ch' pool' k where n: "insertBlock E (bs ! 0) (ch, Some p, None) = Done (ch', Some pool', Some k)"
      "inv [bs ! 0] ch'" "ch_latestHeight ch' = 0" "ch_bufferChan ch' = []"
      "ch_buffer ch' = Some (NewBlockBuffer (ce_seen E) (bs ! 0))" "calc_at (genesis_calculator E (bs ! 0)) k" "length (c_seedChannel k) \<le> 1"
      "\<forall>x \<in> set (dp_taskChannel (ch_dp ch')). length (dt_Address x) = 20"
      "length (dp_taskChannel (ch_dp ch')) \<le> length (blk_Transactions (bs ! 0))"
      using genesis_stored [OF z'(1,2) g(1-3) z'(3) g(4), of p] z'(5) by auto
    have s'': "s' = (sy', ch', Some pool', Some k)"
      using a n(1) g(1) True z'(4) p by (simp add: AppendBlockTask_def accepts_def)
    have w: "window (ce_seen E) bs 1 (NewBlockBuffer (ce_seen E) (bs ! 0))"
      by (rule seen.window_new [OF d(1,3)])
    have t1: "take (Suc 0) bs = [bs ! 0]" using d(3) by (cases bs) simp_all
    have "catching_up bs (Suc K) 1 1 s'" unfolding s''
      by (rule catchingI [OF sy' _ _ n(8) _ _ _ _ _ n(5) w])
        (use True t1 n d(3) in \<open>auto simp: left_buffer_def moved_by_def NewBlockBuffer_def\<close>)
    moreover have "effort (length bs) (Suc K) 1 1 s' < effort (length bs) K P S (sy, ch, pool, calc)"
      using n(7,9) g(4) K True z' unfolding s'' effort_def taskChannelSize_def by (cases "length bs") simp_all
    ultimately show ?thesis by blast
  next
    case False
    obtain b k p where r: "pool = Some p" "inv (take S bs) ch" "ch_latestHeight ch = int S - 1"
      "\<forall>x \<in> set (dp_taskChannel (ch_dp ch)). length (dt_Address x) = 20" "1 \<le> P" "P \<le> K" "1 \<le> S" "S \<le> left_buffer P"
      "ch_bufferChan ch = part S (left_buffer P) bs" "ch_buffer ch = Some b" "calc = Some k" "window (ce_seen E) bs P b"
      "bf_blockChan b = part P K bs" "calc_at (moved_by (ce_karmem E) (genesis_calculator E (bs ! 0)) (take (P - 1) (tl bs))) k"
      using catchingD [OF c False] by metis
    have "\<not> IsGenesisBlock (bs ! K)" using sv False K by (simp add: served_def)
    then obtain b' where b': "AppendBlock (bs ! K) b = Done b'" "c' = (ch\<lparr>ch_buffer := Some b'\<rparr>, Some p, Some k)"
      using a(1) r(1,10,11) by (auto simp: AppendBlockTask_def outcome_simps)
    have q: "bf_blockChan b' = part P (Suc K) bs" "window (ce_seen E) bs P b'"
      using b'(1) r(6,12,13) part_snoc [OF r(6) K] by (auto simp: AppendBlock_def outcome_simps window_def)
    have i: "inv (take S bs) (ch\<lparr>ch_buffer := Some b'\<rparr>)" by (rule inv_caches [OF r(2)]) simp_all
    have "catching_up bs (Suc K) P S s'" unfolding a(2) b'(2)
      by (rule catchingI [OF sy' i _ _ r(5) _ r(7,8) _ _ q(2,1) r(14)]) (use r in simp_all)
    moreover have "effort (length bs) (Suc K) P S s' < effort (length bs) K P S (sy, ch, pool, calc)"
      using K r(11) unfolding a(2) b'(2) effort_def by simp
    ultimately show ?thesis by blast
  qed
qed

text \<open>A block goes through the buffer.\<close>

lemma catching_handle:
  assumes sv: "served E bs" and c: "catching_up bs K P S (sy, ch, pool, calc)"
    and idle: "calculator_idle (ch, pool, calc)" and s: "buffer_process E (ch, pool, calc) = Done c'"
  shows "catching_up bs K (Suc P) S (sy, c') \<and> effort (length bs) K (Suc P) S (sy, c') < effort (length bs) K P S (sy, ch, pool, calc)"
proof -
  have d: "dense bs" "bs \<noteq> []" using sv by (simp_all add: served_def)
  have "K \<noteq> 0" using c s by (cases "K = 0") (auto simp: catching_def buffer_process_Done)
  then obtain b k p where r: "synced_upto bs K sy" "pool = Some p" "inv (take S bs) ch" "ch_latestHeight ch = int S - 1"
      "\<forall>x \<in> set (dp_taskChannel (ch_dp ch)). length (dt_Address x) = 20" "1 \<le> P" "P \<le> K" "1 \<le> S" "S \<le> left_buffer P"
      "ch_bufferChan ch = part S (left_buffer P) bs" "ch_buffer ch = Some b" "calc = Some k" "window (ce_seen E) bs P b"
      "bf_blockChan b = part P K bs" "calc_at (moved_by (ce_karmem E) (genesis_calculator E (bs ! 0)) (take (P - 1) (tl bs))) k"
    using catchingD [OF c] by metis
  have Km: "K \<le> length bs" using r(1) by (simp add: synced_upto_def)
  obtain b' q k' where t: "Process (ce_seen E) (ce_karmem E) (b, ch_bufferChan ch, k) = Done (b', q, k')"
    "c' = (ch\<lparr>ch_buffer := Some b', ch_bufferChan := q\<rparr>, pool, Some k')"
    using s r(11,12) by (auto simp: buffer_process_Done)
  have "P < K" using t(1) r(7,14) by (cases "P = K") (auto simp: Process_def)
  then have P: "P < length bs" "part P K bs = bs ! P # part (Suc P) K bs" using Km part_Cons by auto
  define b1 where "b1 = b\<lparr>bf_blockChan := part (Suc P) K bs\<rparr>"
  have w1: "window (ce_seen E) bs P b1" using r(13) by (simp add: window_def b1_def)
  have run: "Process_block (ce_seen E) (ce_karmem E) (bs ! P) (b1, ch_bufferChan ch, k) = Done (b', q, k')"
    using t(1) r(14) P(2) by (simp add: Process_def b1_def)
  let ?v = "moved_by (ce_karmem E) (genesis_calculator E (bs ! 0)) (take (P - 1) (tl bs))"
  let ?sp = "block_seed (ce_karmem E) (bs ! P)"
  have tlP: "tl bs ! (P - 1) = bs ! P" "P - 1 < length (tl bs)" using P(1) r(6) by (auto simp: nth_tl)
  have "VerifyBlockVDF ?v (fst ?sp) (snd ?sp) = Done True"
    using follows_nth [of "ce_karmem E" "genesis_calculator E (bs ! 0)" "tl bs" "P - 1"] sv tlP by (simp add: served_def)
  moreover have "c_seedChannel k = []" using idle r(12) by (simp add: calculator_idle_def)
  ultimately obtain k1 where k1: "VerifyBlockVDF k (fst ?sp) (snd ?sp) = Done True" "AppendNewSeed (fst ?sp) (snd ?sp) k = Done k1"
    "calc_at (moved ?v (fst ?sp)) k1" "length (c_seedChannel k1) \<le> 1"
    using calc_at_append [OF r(15)] by blast
  have "moved ?v (fst ?sp) = moved_by (ce_karmem E) (genesis_calculator E (bs ! 0)) (take (Suc P - 1) (tl bs))"
    using moved_by_Suc [OF tlP(2), of "ce_karmem E" "genesis_calculator E (bs ! 0)"] tlP(1) r(6) by auto
  note k3 = k1(3) [unfolded this]
  obtain b2 where b2: "Process_block (ce_seen E) (ce_karmem E) (bs ! P) (b1, ch_bufferChan ch, k) =
      (if P < 13 then Done (b2, ch_bufferChan ch, k1)
       else if length (ch_bufferChan ch) < bufferChanSize then Done (b2, ch_bufferChan ch @ [bs ! left_buffer P], k1) else Blocks)"
    "window (ce_seen E) bs (Suc P) b2" "bf_blockChan b2 = part (Suc P) K bs"
    using seen.window_Process [OF w1 d(1) r(6) P(1) surjective_pairing k1(1,2), of "ch_bufferChan ch"] by (auto simp: b1_def)
  have "part S (left_buffer P) bs @ [bs ! left_buffer P] = part S (Suc (left_buffer P)) bs"
    using left_buffer_bounds(1) [OF r(6)] P(1) by (intro part_snoc [OF r(9)]) simp
  then have q: "b' = b2" "k' = k1" "q = part S (left_buffer (Suc P)) bs"
    using run b2(1) r(10) by (auto simp: left_buffer_Suc split: if_splits)
  have S: "S \<le> left_buffer (Suc P)" using left_buffer_bounds(3) [of P] r(9) by simp
  have "catching_up bs K (Suc P) S (sy, c')" unfolding t(2) q r(2)
    by (rule catchingI [OF r(1) inv_buffer [OF r(3)] _ _ _ _ r(8) S _ _ b2(2,3) k3]) (use r \<open>P < K\<close> in simp_all)
  moreover have "effort (length bs) K (Suc P) S (sy, c') < effort (length bs) K P S (sy, ch, pool, calc)"
    using P(1) k1(4) r(12) unfolding t(2) q effort_def by simp
  ultimately show ?thesis by blast
qed

text \<open>A popped block is stored.\<close>

lemma catching_store:
  assumes sv: "served E bs" and c: "catching_up bs K P S (sy, ch, pool, calc)"
    and s: "BlockProcessRoutine E (ch, pool, calc) = Done c'"
  shows "catching_up bs K P (Suc S) (sy, c') \<and> effort (length bs) K P (Suc S) (sy, c') < effort (length bs) K P S (sy, ch, pool, calc)"
proof -
  have d: "dense bs" "chain_of bs" using sv by (simp_all add: served_def)
  have "K \<noteq> 0" using c s by (cases "K = 0") (auto simp: catching_def BlockProcessRoutine_def)
  then obtain b k p where r: "synced_upto bs K sy" "pool = Some p" "inv (take S bs) ch" "ch_latestHeight ch = int S - 1"
      "\<forall>x \<in> set (dp_taskChannel (ch_dp ch)). length (dt_Address x) = 20" "1 \<le> P" "P \<le> K" "1 \<le> S" "S \<le> left_buffer P"
      "ch_bufferChan ch = part S (left_buffer P) bs" "ch_buffer ch = Some b" "calc = Some k" "window (ce_seen E) bs P b"
      "bf_blockChan b = part P K bs" "calc_at (moved_by (ce_karmem E) (genesis_calculator E (bs ! 0)) (take (P - 1) (tl bs))) k"
    using catchingD [OF c] by metis
  have Km: "K \<le> length bs" using r(1) by (simp add: synced_upto_def)
  have "S \<noteq> left_buffer P" using s r(10) by (auto simp: BlockProcessRoutine_def)
  then have S: "S < left_buffer P" "left_buffer P \<le> length bs" "S < length bs"
    using r(6,7,9) Km left_buffer_bounds(1) [OF r(6)] by auto
  have hd: "ch_bufferChan ch = bs ! S # part (Suc S) (left_buffer P) bs" using part_Cons [OF S(1,2)] r(10) by simp
  define ch1 where "ch1 = ch\<lparr>ch_bufferChan := part (Suc S) (left_buffer P) bs\<rparr>"
  obtain ch' pool' k' where i: "insertBlock E (bs ! S) (ch1, pool, calc) = Done (ch', pool', k')" "c' = (ch', pool', k')"
    using s hd by (cases c') (auto simp: BlockProcessRoutine_def ch1_def)
  have i1: "inv (take S bs) ch1" "ch_latestHeight ch1 = tip_height (take S bs)"
    using inv_caches [OF r(3), of ch1] r(4) dense_tip [OF d(1), of S] S(3) by (simp_all add: ch1_def)
  have a: "accepts (take S bs) (bs ! S)" "fits (bs ! S)" using chain_prefix [OF d(2) S(3)] by simp_all
  have g: "\<not> IsGenesisBlock (bs ! S)" using sv r(8) S(3) by (simp add: served_def)
  have tS: "ChainStore.extend (take S bs) (bs ! S) = take (Suc S) bs" using a(1) S(3) by (simp add: ChainStore.extend_def take_Suc_conv_app_nth)
  have st: "inv (take (Suc S) bs) ch'" "ch_latestHeight ch' = int (Suc S) - 1"
    using insertBlock_Done [OF i1(1) a(2) i1(2) i(1)] dense_tip [OF d(1), of "Suc S"] S(3) by (simp_all add: tS)
  obtain q where f: "ch_buffer ch' = Some b" "ch_bufferChan ch' = part (Suc S) (left_buffer P) bs" "k' = calc" "pool' \<noteq> None"
    "dp_taskChannel (ch_dp ch') = dp_taskChannel (ch_dp ch) @ q" "length q \<le> length (blk_Transactions (bs ! S))"
    "\<forall>x \<in> set q. length (dt_Address x) = 20"
    using insertBlock_frame [OF i1(1) a(2) i1(2) g i(1)] r(2,11) by (auto simp: ch1_def)
  obtain p' where p': "pool' = Some p'" using f(4) by blast
  have "length (blk_Transactions (bs ! S)) \<le> taskChannelSize" using sv S(3) nth_mem unfolding served_def by blast
  then have len: "length q \<le> 10240" using f(6) by (simp add: taskChannelSize_def)
  have "catching_up bs K P (Suc S) (sy, c')" unfolding i(2) p' f(3) r(12)
    by (rule catchingI [OF r(1) st _ r(6,7) _ _ f(2,1) r(13-15)]) (use r f S in auto)
  moreover have "effort (length bs) K P (Suc S) (sy, c') < effort (length bs) K P S (sy, ch, pool, calc)"
  proof -
    obtain n where "length bs - S = Suc n" "length bs - Suc S = n" using S(3) by (cases "length bs - S") auto
    then show ?thesis using len unfolding i(2) effort_def prod.case f(3,5) length_append by simp
  qed
  ultimately show ?thesis by blast
qed

end

context node_world
begin

text \<open>The calculator takes the seed that waits.\<close>

lemma catching_calculate:
  assumes c: "catching_up bs K P S (sy, ch, pool, calc)" and s: "calculator_take (ch, pool, calc) = Done (seed, c')"
  shows "catching_up bs K P S (sy, c') \<and> effort (length bs) K P S (sy, c') < effort (length bs) K P S (sy, ch, pool, calc)"
proof -
  have "K \<noteq> 0" using c s by (cases "K = 0") (auto simp: catching_def calculator_take_def)
  then obtain b k p where r: "synced_upto bs K sy" "pool = Some p" "inv (take S bs) ch" "ch_latestHeight ch = int S - 1"
      "\<forall>x \<in> set (dp_taskChannel (ch_dp ch)). length (dt_Address x) = 20" "1 \<le> P" "P \<le> K" "1 \<le> S" "S \<le> left_buffer P"
      "ch_bufferChan ch = part S (left_buffer P) bs" "ch_buffer ch = Some b" "calc = Some k" "window (ce_seen E) bs P b"
      "bf_blockChan b = part P K bs" "calc_at (moved_by (ce_karmem E) (genesis_calculator E (bs ! 0)) (take (P - 1) (tl bs))) k"
    using catchingD [OF c] by metis
  obtain k' where k: "run_take k = Done (seed, k')" "c' = (ch, pool, Some k')"
    using s r(12) by (auto simp: calculator_take_def outcome_simps)
  note t = calc_at_take [OF r(15) k(1)]
  have "catching_up bs K P S (sy, c')" unfolding k(2) r(2)
    by (rule catchingI [OF r(1,3-11,13,14)]) (use t in simp)
  moreover have "effort (length bs) K P S (sy, c') < effort (length bs) K P S (sy, ch, pool, calc)"
    using t unfolding k(2) effort_def r(12) by simp
  ultimately show ?thesis ..
qed

text \<open>The data processor carries out a task.\<close>

lemma catching_data:
  assumes "json J ok" and c: "catching_up bs K P S (sy, ch, pool, calc)" and s: "run_data J E r (ch, pool, calc) = Done c'"
  shows "catching_up bs K P S (sy, c') \<and> effort (length bs) K P S (sy, c') < effort (length bs) K P S (sy, ch, pool, calc)"
proof -
  have i: "inv (take S bs) ch" "\<forall>x \<in> set (dp_taskChannel (ch_dp ch)). length (dt_Address x) = 20" using c by (simp_all add: catching_def)
  obtain task rest d where t: "dp_taskChannel (ch_dp ch) = task # rest"
    "c' = (ch\<lparr>ch_dp := (ch_dp ch)\<lparr>dp_taskChannel := rest\<rparr>, ch_db := d\<rparr>, pool, calc)"
    "inv (take S bs) (ch\<lparr>ch_dp := (ch_dp ch)\<lparr>dp_taskChannel := rest\<rparr>, ch_db := d\<rparr>)"
    using run_data_inv [OF assms(1) i(1) s i(2)] by blast
  have "K \<noteq> 0" using c t(1) by (cases "K = 0") (auto simp: catching_def)
  then obtain b k p where r: "synced_upto bs K sy" "pool = Some p" "inv (take S bs) ch" "ch_latestHeight ch = int S - 1"
      "\<forall>x \<in> set (dp_taskChannel (ch_dp ch)). length (dt_Address x) = 20" "1 \<le> P" "P \<le> K" "1 \<le> S" "S \<le> left_buffer P"
      "ch_bufferChan ch = part S (left_buffer P) bs" "ch_buffer ch = Some b" "calc = Some k" "window (ce_seen E) bs P b"
      "bf_blockChan b = part P K bs" "calc_at (moved_by (ce_karmem E) (genesis_calculator E (bs ! 0)) (take (P - 1) (tl bs))) k"
    using catchingD [OF c] by metis
  have "catching_up bs K P S (sy, c')" unfolding t(2) r(2) r(12)
    by (rule catchingI [OF r(1) t(3) _ _ r(6-9) _ _ r(13-15)]) (use r t(1) in simp_all)
  then show ?thesis using t(1) unfolding t(2) effort_def by simp
qed

lemma catching_work:
  assumes "served E bs" and "json J ok" and "catching_up bs K P S s" and "catch_work E J s s'"
  shows "\<exists>K' P' S'. catching_up bs K' P' S' s' \<and> effort (length bs) K' P' S' s' < effort (length bs) K P S s"
proof -
  obtain sy ch pool calc where s: "s = (sy, ch, pool, calc)" by (cases s)
  note c = assms(3) [unfolded s]
  from assms(4) show ?thesis
  proof (cases rule: catch_work.cases)
    case (hand h sy' c)
    then show ?thesis using catching_hand [OF assms(1) c, of h s'] s by (simp only: prod.inject) blast
  next
    case (handle c0 c' sy')
    then show ?thesis using catching_handle [OF assms(1) c, of c'] s by auto
  next
    case (store c0 c' sy')
    then show ?thesis using catching_store [OF assms(1) c, of c'] s by auto
  next
    case (calculate c0 seed c' sy')
    then show ?thesis using catching_calculate [OF c, of seed c'] s by auto
  next
    case (data r c0 c' sy')
    then show ?thesis using catching_data [OF assms(2) c, of r c'] s by auto
  qed
qed

text \<open>Work comes to an end.\<close>

lemma catching_ends:
  assumes "served E bs" and "json J ok" and "catching_up bs K P S (f 0)" and "\<forall>n. catch_work E J (f n) (f (Suc n))"
  shows False
proof -
  have "\<exists>K' P' S'. catching_up bs K' P' S' (f n) \<and> effort (length bs) K' P' S' (f n) + n \<le> effort (length bs) K P S (f 0)" for n
  proof (induction n)
    case 0
    then show ?case using assms(3) by auto
  next
    case (Suc n)
    then obtain K1 P1 S1 where 1: "catching_up bs K1 P1 S1 (f n)" "effort (length bs) K1 P1 S1 (f n) + n \<le> effort (length bs) K P S (f 0)"
      by blast
    obtain K2 P2 S2 where "catching_up bs K2 P2 S2 (f (Suc n))" "effort (length bs) K2 P2 S2 (f (Suc n)) < effort (length bs) K1 P1 S1 (f n)"
      using catching_work [OF assms(1,2) 1(1)] assms(4) by blast
    then show ?case using 1(2) by (intro exI [of _ K2] exI [of _ P2] exI [of _ S2]) simp
  qed
  from this [of "Suc (effort (length bs) K P S (f 0))"] show False by auto
qed

end

context node_world
begin

text \<open>When nothing more can be done and every block was received, the whole chain went through.\<close>

lemma catching_done:
  assumes sv: "served E bs" and "json J ok" and c: "catching_up bs K P S (sy, ch, pool, calc)"
    and stuck: "\<forall>s'. \<not> catch_work E J (sy, ch, pool, calc) s'"
    and received: "\<forall>i < length bs. by_knownHeight sy < int i \<longrightarrow> by_blockMap sy (int i) \<noteq> None"
  shows "K = length bs \<and> P = K \<and> S = left_buffer K \<and> dp_taskChannel (ch_dp ch) = []"
proof -
  have d: "dense bs" "chain_of bs" "bs \<noteq> []" using sv by (simp_all add: served_def)
  have sy: "synced_upto bs K sy" "K \<le> length bs" using c by (simp_all add: catching_def synced_upto_def)
  have m: "int (length bs) < 2 ^ 62" using d(1) by (simp add: dense_def)
  have txs: "length (blk_Transactions (bs ! i)) \<le> taskChannelSize" if "i < length bs" for i using sv that nth_mem unfolding served_def by blast
  have hand: "K = length bs" if ok: "AppendBlockTask E (bs ! K) (ch, pool, calc) = Done s'" for s'
  proof (rule ccontr)
    assume "K \<noteq> length bs"
    then have K: "K < length bs" using sy(2) by simp
    have h: "i64 (by_knownHeight sy + 1) = int K" using sy(1) m by (auto simp: synced_upto_def intro!: i64_small)
    have "by_blockMap sy (int K) \<noteq> None" using received K sy(1) by (simp add: synced_upto_def)
    moreover from this have "by_blockMap sy (int K) = Some (bs ! K)" using sy(1) unfolding synced_upto_def by fastforce
    ultimately obtain s'' where "syncer_insertBlock E (int K) (sy, ch, pool, calc) = Done s''" "int K \<le> by_remoteHeight sy" "by_blockMap sy (int K) \<noteq> None"
      using ok K sy(1) by (simp add: syncer_insertBlock_def synced_upto_def)
    then show False using stuck catch_work.hand [OF h [symmetric]] by blast
  qed
  have K0: "K \<noteq> 0"
  proof
    assume "K = 0"
    note z = c [unfolded catching_def prod.case this]
    obtain p where p: "pool = Some p" using z by auto
    have z': "inv [] ch" "ch_latestHeight ch = -1" "dp_taskChannel (ch_dp ch) = []" "calc = None" using z by auto
    have g: "accepts [] (bs ! 0)" "fits (bs ! 0)" "blk_Height (bs ! 0) = 0" "0 < length bs"
      using chain_prefix [OF d(2), of 0] d by (auto simp: dense_def)
    show False
      using genesis_stored [OF z'(1,2) g(1-3) z'(3) txs [OF g(4)], of p] hand g \<open>K = 0\<close> z'(4) p
      by (auto simp: AppendBlockTask_def accepts_def)
  qed
  then obtain b k p where r: "synced_upto bs K sy" "pool = Some p" "inv (take S bs) ch" "ch_latestHeight ch = int S - 1"
      "\<forall>x \<in> set (dp_taskChannel (ch_dp ch)). length (dt_Address x) = 20" "1 \<le> P" "P \<le> K" "1 \<le> S" "S \<le> left_buffer P"
      "ch_bufferChan ch = part S (left_buffer P) bs" "ch_buffer ch = Some b" "calc = Some k" "window (ce_seen E) bs P b"
      "bf_blockChan b = part P K bs" "calc_at (moved_by (ce_karmem E) (genesis_calculator E (bs ! 0)) (take (P - 1) (tl bs))) k"
    using catchingD [OF c] by metis
  have q: "dp_taskChannel (ch_dp ch) = []"
  proof (cases "dp_taskChannel (ch_dp ch)")
    case (Cons task rest)
    define er where "er = (CreateNewEventRouter None :: nat EventRouter)"
    have "length (er_publishChan er) < publishChanSize" by (simp add: er_def CreateNewEventRouter_def publishChanSize_def)
    then obtain d' r' where "run_task J (ce_db E) task (ch_db ch, er) = Done (d', r')"
      using data_store.run_task_room [OF data_store.intro [OF assms(2) db_ok]] by blast
    then have "run_data J E er (ch, pool, calc) = Done (ch\<lparr>ch_dp := (ch_dp ch)\<lparr>dp_taskChannel := rest\<rparr>, ch_db := d'\<rparr>, pool, calc)"
      using Cons by (simp add: run_data_def dp_Run_def)
    then show ?thesis using stuck catch_work.data by blast
  qed simp
  have S: "S = left_buffer P"
  proof (rule ccontr)
    assume "S \<noteq> left_buffer P"
    then have S: "S < left_buffer P" "left_buffer P \<le> length bs" "S < length bs"
      using r(6,7,9) sy(2) left_buffer_bounds(1) [OF r(6)] by auto
    define ch1 where "ch1 = ch\<lparr>ch_bufferChan := part (Suc S) (left_buffer P) bs\<rparr>"
    have i: "inv (take S bs) ch1" "ch_latestHeight ch1 = tip_height (take S bs)" "dp_taskChannel (ch_dp ch1) = []"
      using inv_caches [OF r(3), of ch1] r(4) dense_tip [OF d(1), of S] S(3) q by (simp_all add: ch1_def)
    have "\<exists>s'. insertBlock E (bs ! S) (ch1, Some p, calc) = Done s'"
      using insertBlock_spec [OF i(1) conjunct2 [OF chain_prefix [OF d(2) S(3)]] _ i(2), of calc p] i(3) txs [OF S(3)] r(8) S(3) by fastforce
    then obtain s' where "BlockProcessRoutine E (ch, pool, calc) = Done s'"
      using part_Cons [OF S(1,2)] r(2,10) by (auto simp: BlockProcessRoutine_def ch1_def)
    then show False using stuck catch_work.store by blast
  qed
  have idle: "calculator_idle (ch, pool, calc)"
  proof (rule ccontr)
    assume "\<not> calculator_idle (ch, pool, calc)"
    then obtain s k' where "run_take k = Done (s, k')" using calc_at_enabled [OF r(15)] r(12) by (auto simp: calculator_idle_def)
    then have "calculator_take (ch, pool, calc) = Done (s, ch, pool, Some k')" using r(12) by (simp add: calculator_take_def)
    then show False using stuck catch_work.calculate by blast
  qed
  have P: "P = K"
  proof (rule ccontr)
    assume "P \<noteq> K"
    then have P: "P < K" "P < length bs" "part P K bs = bs ! P # part (Suc P) K bs" using r(7) sy(2) part_Cons [of P K bs] by auto
    define b1 where "b1 = b\<lparr>bf_blockChan := part (Suc P) K bs\<rparr>"
    have w1: "window (ce_seen E) bs P b1" using r(13) by (simp add: window_def b1_def)
    let ?sp = "block_seed (ce_karmem E) (bs ! P)"
    have tlP: "tl bs ! (P - 1) = bs ! P" "P - 1 < length (tl bs)" using P(2) r(6) by (auto simp: nth_tl)
    have "VerifyBlockVDF (moved_by (ce_karmem E) (genesis_calculator E (bs ! 0)) (take (P - 1) (tl bs))) (fst ?sp) (snd ?sp) = Done True"
      using follows_nth [of "ce_karmem E" "genesis_calculator E (bs ! 0)" "tl bs" "P - 1"] sv tlP by (simp add: served_def)
    moreover have "c_seedChannel k = []" using idle r(12) by (simp add: calculator_idle_def)
    ultimately obtain k1 where k1: "VerifyBlockVDF k (fst ?sp) (snd ?sp) = Done True" "AppendNewSeed (fst ?sp) (snd ?sp) k = Done k1"
      using calc_at_append [OF r(15)] by blast
    have "ch_bufferChan ch = []" using r(10) S by simp
    moreover obtain v where "Process_block (ce_seen E) (ce_karmem E) (bs ! P) (b1, [], k) = Done v"
      using seen.window_Process [OF w1 d(1) r(6) P(2) surjective_pairing k1, of "[]"] by (auto simp: bufferChanSize_def split: if_splits)
    ultimately have "\<exists>s'. buffer_process E (ch, pool, calc) = Done s'"
      using r(11,12,14) P(3) by (cases v) (auto simp: buffer_process_Done Process_def b1_def)
    then show False using stuck catch_work.handle [OF idle] by blast
  qed
  have "AppendBlockTask E (bs ! K) (ch, pool, calc) = Done (ch\<lparr>ch_buffer := Some (b\<lparr>bf_blockChan := [bs ! K]\<rparr>)\<rparr>, pool, calc)"
    if "K < length bs"
    using sv K0 that r(11,14) P by (simp add: served_def AppendBlockTask_def AppendBlock_def chan_send_def maxQueueBlock_def)
  then have "K = length bs" using hand sy(2) by (cases "K = length bs") auto
  then show ?thesis using S P q by simp
qed

end

context node_world
begin

lemma catching_start:
  assumes "served E bs" and "stored (ce_karmem E) (content d) []" and "NewBlockchain E d None = Done (ch0, None)"
    and "by_knownHeight sy0 = -1" and "by_remoteHeight sy0 = int (length bs) - 1" and "by_blockMap sy0 = (\<lambda>_. None)"
  shows "catching_up bs 0 0 0 (sy0, ch0, Some p, None)"
proof -
  obtain ch where n: "NewBlockchain E d None = Done (ch, None)" "inv [] ch" "ch_latestHeight ch = tip_height []"
    "ch_dp ch = NewDataProcessor" "ch_buffer ch = None"
    using NewBlockchain_spec [OF chain_of.empty assms(2), of None] by (auto simp: height_at_def)
  have e: "ch = ch0" using n(1) assms(3) by simp
  have "ch_bufferChan ch0 = []"
  proof -
    define ch1 where "ch1 = \<lparr>ch_db = d, ch_blockHeightMap = lru_new (ce_heights E) maxBlockCache,
        ch_blockCache = lru_new (ce_blocks E) maxBlockCache, ch_txCache = lru_new (ce_txs E) maxTransactionCache,
        ch_latestBlock = None, ch_latestHeight = -1, ch_bufferChan = [], ch_buffer = (None :: 'e BlockBuffer option), ch_dp = NewDataProcessor,
        ch_genesisParams = None, ch_genesisTime = 0\<rparr>"
    have i1: "inv [] ch1" unfolding ch1_def by (rule fresh_inv [OF chain_of.empty assms(2)])
    obtain ch2 where l1: "GetLatestBlock E ch1 = Done (Inl ErrNotFound, ch2)" "ch_bufferChan ch2 = []"
      using GetLatestBlock_spec [OF i1] by (auto simp: ch1_def)
    then show ?thesis using assms(3) by (simp add: NewBlockchain_def Let_def ch1_def)
  qed
  then show ?thesis using n(2-5) assms(4-6) unfolding e
    by (auto simp: catching_def synced_upto_def tip_height_def NewDataProcessor_def)
qed

lemma catching_reach:
  assumes "served E bs" and "json J ok" and "catching_up bs K P S s0" and "catch_reach E J bs s0 s"
  shows "\<exists>K P S. catching_up bs K P S s"
  using assms(4)
proof (induction rule: catch_reach.induct)
  case start
  then show ?case using assms(3) by blast
next
  case (receive sy c b)
  then show ?case using synced_receive [of bs _ sy b] assms(1) by (fastforce simp: catching_def served_def)
next
  case (work s s')
  then show ?case using catching_work [OF assms(1,2)] by blast
qed

end

section \<open>Properties\<close>

text \<open>C4: A fresh node catches up. It starts on an empty database and its syncer knows of a chain of blocks at
  consecutive heights, whose seeds verify one after the other from the genesis block on. Peers send the blocks in any
  order and repeatedly, and the syncer, the buffer, the calculator, the storing routine and the data processor
  work in any order, the buffer waiting for the calculator. Then at all times the stored chain is a prefix of
  the served one; work always comes to an end; and when every block was received and no work is left, all blocks but
  the newest twelve are stored, their data commands are carried out, and the leaf to build on is the newest block.\<close>

theorem fresh_node_catches_up:
  assumes "chain_world E len cell content eh eb et" and "seen_cache (ce_seen E) es" and "json J ok" and "served E bs"
    and "stored (ce_karmem E) (content d) []" and "NewBlockchain E d None = Done (ch0, None)"
    and "by_knownHeight sy0 = -1" and "by_remoteHeight sy0 = int (length bs) - 1" and "by_blockMap sy0 = (\<lambda>_. None)"
    and "catch_reach E J bs (sy0, ch0, Some p, None) (sy, ch, pool, calc)"
  shows "(\<exists>S. chain_inv E content eh eb et (take S bs) ch)
    \<and> \<not> (\<exists>f. f 0 = (sy, ch, pool, calc) \<and> (\<forall>n. catch_work E J (f n) (f (Suc n))))
    \<and> ((\<forall>s'. \<not> catch_work E J (sy, ch, pool, calc) s')
         \<and> (\<forall>i < length bs. by_knownHeight sy < int i \<longrightarrow> by_blockMap sy (int i) \<noteq> None)
       \<longrightarrow> chain_inv E content eh eb et (take (max 1 (length bs - 12)) bs) ch \<and> dp_taskChannel (ch_dp ch) = []
         \<and> (\<exists>b. ch_buffer ch = Some b \<and> (\<forall>now \<ge> int (length bs). GetPriorityLeaf b now = last bs)))"
proof -
  have nw: "node_world E len cell content eh eb et es" by (intro node_world.intro assms(1,2))
  let ?at = "catching E (chain_world.inv E content eh eb et) bs"
  have "?at 0 0 0 (sy0, ch0, Some p, None)"
    by (rule node_world.catching_start [OF nw assms(4-9)])
  then obtain K P S where c: "?at K P S (sy, ch, pool, calc)"
    using node_world.catching_reach [OF nw assms(4,3) _ assms(10)] by blast
  have ends: "\<not> (f 0 = (sy, ch, pool, calc) \<and> (\<forall>n. catch_work E J (f n) (f (Suc n))))" for f
    using node_world.catching_ends [OF nw assms(4,3), of K P S f] c by metis
  have "K = length bs \<and> P = K \<and> S = left_buffer K \<and> dp_taskChannel (ch_dp ch) = []"
    if "\<forall>s'. \<not> catch_work E J (sy, ch, pool, calc) s'" "\<forall>i < length bs. by_knownHeight sy < int i \<longrightarrow> by_blockMap sy (int i) \<noteq> None"
    using node_world.catching_done [OF nw assms(4,3) c that] .
  moreover have "\<exists>b. ch_buffer ch = Some b \<and> (\<forall>now \<ge> int (length bs). GetPriorityLeaf b now = last bs)" if "K = length bs" "P = K"
  proof -
    have bs: "bs \<noteq> []" using assms(4) by (simp add: served_def)
    then have "K \<noteq> 0" using that by simp
    then obtain b where b: "ch_buffer ch = Some b" "window (ce_seen E) bs P b" "1 \<le> P"
      using node_world.catchingD [OF nw c] by metis
    have "GetPriorityLeaf b now = last bs" if "int (length bs) \<le> now" for now
      using seen_cache.window_leaf [OF assms(2) b(2,3), of now] that \<open>K = length bs\<close> \<open>P = K\<close> bs by (simp add: last_conv_nth)
    then show ?thesis using b(1) by blast
  qed
  ultimately show ?thesis using c ends
    unfolding catching_def prod.case left_buffer_def chain_world.inv_def [OF assms(1)] by blast
qed

section \<open>Witnesses\<close>

text \<open>A chain of fourteen blocks, the first of them genesis.\<close>

definition test_chain :: "Block list" where
  "test_chain = map test_run [0..<14]"

lemma length_test_chain [simp]: "length test_chain = 14" by (simp add: test_chain_def)

lemma test_chain_nth [simp]: "i < 14 \<Longrightarrow> test_chain ! i = test_run i" by (simp add: test_chain_def del: upt_Suc)

interpretation std_node_world: node_world std_env mw_len mw_cell "\<lambda>d. d" list_entries list_entries list_entries list_entries
  by (intro node_world.intro std_world.chain_world_axioms) (simp add: std_env_def list_seen.seen_cache_axioms)

lemma test_run_inj: "i < 14 \<Longrightarrow> j < 14 \<Longrightarrow> BlockHash (test_run i) = BlockHash (test_run j) \<Longrightarrow> i = j"
  using test_run_of inj_onD [of "\<lambda>i. BlockHash (test_run i)" "{0..14}" i j] by (auto simp: run_of_def)

lemma test_run_genesis: "i < 14 \<Longrightarrow> IsGenesisBlock (test_run i) = (i = 0)"
proof -
  assume "i < 14"
  then have "unat (word_of_nat i :: byte) = i" by (simp add: unat_of_nat)
  then have "((word_of_nat i :: byte) = 0) = (i = 0)" unfolding unat_0_iff [symmetric] by (rule arg_cong)
  then show ?thesis by (simp add: IsGenesisBlock_iff test_run_def test_block_def)
qed

lemma test_run_chain: "n \<le> 14 \<Longrightarrow> chain_of (map test_run [0..<n])"
proof (induction n)
  case 0
  then show ?case by (simp add: chain_of.empty)
next
  case (Suc n)
  let ?bs = "map test_run [0..<n]"
  have "blk_hash (test_run n) \<noteq> blk_hash (test_run i)" if "i < n" for i
    using test_run_inj [of i n] that Suc.prems by (auto simp: BlockHash_def)
  then have new: "blk_hash (test_run n) \<notin> blk_hash ` set ?bs" by fastforce
  have "tip_height ?bs < blk_Height (test_run n)"
    by (cases n) (simp_all add: tip_height_def test_run_def)
  moreover have "IsGenesisBlock (test_run n) \<or> ?bs \<noteq> [] \<and> isPrevBlock (last ?bs) (test_run n)"
    using test_run_genesis [of 0] by (cases n) (simp_all add: isPrevBlock_def test_run_def test_block_def)
  ultimately have "accepts ?bs (test_run n)" using new by (simp add: accepts_def)
  moreover have "fits (test_run n)"
    using Suc.prems by (simp add: fits_def wf_block_def wf_header_def block_size_def test_run_def test_block_def in_i64_def)
  ultimately show ?case using chain_of.extended [of ?bs "test_run n"] Suc by simp
qed

lemma follows_zero: "\<forall>b \<in> set bs. block_seed K b = (0, 0) \<Longrightarrow> c_prevSeed c = 0 \<Longrightarrow> follows K c bs"
  by (induction bs arbitrary: c) (simp_all add: VerifyBlockVDF_def moved_def)

lemma served_test_chain: "served std_env test_chain"
proof -
  have k: "ce_karmem std_env = std_karmem" by (simp add: std_env_def)
  have "BlockHash (test_chain ! i) = BlockHash (test_chain ! j) \<Longrightarrow> i < 14 \<Longrightarrow> j < 14 \<Longrightarrow> i = j" for i j
    using test_run_inj [of i j] by simp
  then have "inj_on (\<lambda>i. BlockHash (test_chain ! i)) {0..<length test_chain}" by (auto intro!: inj_onI)
  moreover have "\<forall>i < length test_chain. blk_Height (test_chain ! i) = int i" by (simp add: test_run_def)
  moreover have "\<forall>i. Suc i < length test_chain \<longrightarrow> PrevBlockHash (test_chain ! Suc i) = BlockHash (test_chain ! i)"
    by (simp add: test_run_def)
  ultimately have "dense test_chain" by (simp add: dense_def)
  have b: "block_seed std_karmem b = (0, 0)" "blk_Transactions b = []" if "b \<in> set test_chain" for b
    using that by (auto simp: test_chain_def test_run_def)
  have "c_prevSeed (genesis_calculator std_env (test_chain ! 0)) = 0"
    by (simp add: genesis_calculator_def Let_def moved_def CalculatorInitialization_def)
  moreover have "block_seed std_karmem b = (0, 0)" if "b \<in> set (tl test_chain)" for b
    using b(1) list.set_sel(2) [OF _ that] by (cases "test_chain = []") (simp_all add: test_chain_def)
  ultimately have "follows std_karmem (genesis_calculator std_env (test_chain ! 0)) (tl test_chain)"
    by (intro follows_zero) simp_all
  then show ?thesis
    using \<open>dense test_chain\<close> test_run_chain [of 14] test_run_genesis b(2) length_test_chain
    by (auto simp: served_def k test_chain_def [symmetric] simp del: length_test_chain)
qed

text \<open>A syncer that has received the blocks, and a run to the end.\<close>

lemma all_received:
  "set xs \<subseteq> set bs \<Longrightarrow> \<exists>sy. catch_reach E J bs (sy0, c) (sy, c) \<and> by_knownHeight sy = by_knownHeight sy0
    \<and> (\<forall>b \<in> set xs. by_blockMap sy (blk_Height b) \<noteq> None)"
proof (induction xs)
  case Nil
  then show ?case using catch_reach.start by (intro exI [of _ sy0]) simp
next
  case (Cons b xs)
  then obtain sy where "catch_reach E J bs (sy0, c) (sy, c)" "by_knownHeight sy = by_knownHeight sy0"
    "\<forall>b \<in> set xs. by_blockMap sy (blk_Height b) \<noteq> None" "b \<in> set bs" by auto
  then show ?case using catch_reach.receive [of E J bs "(sy0, c)" sy c b]
    by (intro exI [of _ "syncer_appendBlock b sy"]) (auto simp: syncer_appendBlock_def)
qed

definition received_all :: "Block list \<Rightarrow> BlockSyncer \<Rightarrow> bool" where
  "received_all bs sy \<longleftrightarrow> (\<forall>i < length bs. by_knownHeight sy < int i \<longrightarrow> by_blockMap sy (int i) \<noteq> None)"

lemma received_work:
  assumes "catch_work E J s s'" and "received_all bs (fst s)" and "in_i64 (by_knownHeight (fst s) + 1)"
  shows "received_all bs (fst s')"
  using assms(1)
proof (cases rule: catch_work.cases)
  case (hand h sy c)
  have "h = by_knownHeight sy + 1" using hand(1,2) assms(3) by (simp add: i64_id)
  then show ?thesis using hand assms(2) by (auto simp: syncer_insertBlock_def outcome_simps received_all_def split: option.splits)
qed (use assms(2) in auto)

context node_world
begin

lemma catching_settles:
  assumes "served E bs" and "json J ok" and "catching_up bs K P S s" and "received_all bs (fst s)" and "catch_reach E J bs s0 s"
  shows "\<exists>s'. catch_reach E J bs s0 s' \<and> received_all bs (fst s') \<and> (\<forall>s''. \<not> catch_work E J s' s'')"
  using assms(3-5)
proof (induction "effort (length bs) K P S s" arbitrary: K P S s rule: less_induct)
  case less
  show ?case
  proof (cases "\<exists>s'. catch_work E J s s'")
    case True
    then obtain s' where w: "catch_work E J s s'" by blast
    have "in_i64 (by_knownHeight (fst s) + 1)"
      using less(2) assms(1) by (auto simp: catching_def synced_upto_def served_def dense_def in_i64_def)
    then show ?thesis
      using less(1) catching_work [OF assms(1,2) less(2) w] received_work [OF w less(3)] catch_reach.work [OF less(4) w] by blast
  next
    case False
    then show ?thesis using less(3,4) by blast
  qed
qed

end

lemma fresh_node_catches_up_witness:
  "\<exists>ch0 sy0 sy ch pool calc b. NewBlockchain std_env (\<lambda>_. None) None = Done (ch0, None)
    \<and> catch_reach std_env tiny_json test_chain (sy0, ch0, Some (NewTxPool None), None) (sy, ch, pool, calc)
    \<and> (\<forall>s'. \<not> catch_work std_env tiny_json (sy, ch, pool, calc) s')
    \<and> chain_inv std_env (\<lambda>d. d) list_entries list_entries list_entries [test_run 0, test_run 1] ch
    \<and> ch_buffer ch = Some b \<and> GetPriorityLeaf b 14 = test_run 13"
proof -
  obtain ch0 where c: "NewBlockchain std_env (\<lambda>_. None) None = Done (ch0, None)" "std_world.inv [] ch0" "ch_db ch0 = (\<lambda>_. None)"
    using std_fresh std_world.inv_def by auto
  have st: "stored (ce_karmem std_env) (\<lambda>_. None) []" using c(2,3) by (simp add: std_world.inv_def chain_inv_def)
  define sy0 where "sy0 = NewBlockSyncer\<lparr>by_remoteHeight := int (length test_chain) - 1\<rparr>"
  have sy0: "by_knownHeight sy0 = -1" "by_remoteHeight sy0 = int (length test_chain) - 1" "by_blockMap sy0 = (\<lambda>_. None)"
    by (simp_all add: sy0_def NewBlockSyncer_def)
  let ?s0 = "(sy0, ch0, Some (NewTxPool None), None)"
  obtain sy1 where r: "catch_reach std_env tiny_json test_chain ?s0 (sy1, ch0, Some (NewTxPool None), None)"
    "by_knownHeight sy1 = -1" "\<forall>b \<in> set test_chain. by_blockMap sy1 (blk_Height b) \<noteq> None"
    using all_received [of test_chain test_chain std_env tiny_json sy0 "(ch0, Some (NewTxPool None), None)"] sy0(1) by auto
  have "by_blockMap sy1 (int i) \<noteq> None" if "i < length test_chain" for i
    using r(3) nth_mem [OF that] that by (auto simp: test_run_def)
  then have all: "received_all test_chain sy1" by (simp add: received_all_def)
  note start = std_node_world.catching_start [OF served_test_chain st c(1) sy0, of "NewTxPool None"]
  obtain K P S where "std_node_world.catching_up test_chain K P S (sy1, ch0, Some (NewTxPool None), None)"
    using std_node_world.catching_reach [OF served_test_chain tiny.json_axioms start r(1)] by blast
  then obtain sy ch pool calc where e: "catch_reach std_env tiny_json test_chain ?s0 (sy, ch, pool, calc)"
    "received_all test_chain sy" "\<forall>s'. \<not> catch_work std_env tiny_json (sy, ch, pool, calc) s'"
    using std_node_world.catching_settles [OF served_test_chain tiny.json_axioms _ _ r(1)] all by fastforce
  have sc: "seen_cache (ce_seen std_env) list_entries" by (simp add: std_env_def list_seen.seen_cache_axioms)
  have "test_chain \<noteq> []" by (simp add: test_chain_def)
  then have t: "take 2 test_chain = [test_run 0, test_run 1]" "last test_chain = test_run 13"
    by (simp_all add: last_conv_nth) (simp add: test_chain_def upt_rec)
  have "chain_inv std_env (\<lambda>d. d) list_entries list_entries list_entries (take (max 1 (length test_chain - 12)) test_chain) ch
      \<and> (\<exists>b. ch_buffer ch = Some b \<and> (\<forall>now \<ge> int (length test_chain). GetPriorityLeaf b now = last test_chain))"
    using fresh_node_catches_up [OF std_world.chain_world_axioms sc tiny.json_axioms served_test_chain st c(1) sy0 e(1)] e(2,3)
    unfolding received_all_def by blast
  then obtain b where b: "chain_inv std_env (\<lambda>d. d) list_entries list_entries list_entries [test_run 0, test_run 1] ch"
    "ch_buffer ch = Some b" "GetPriorityLeaf b 14 = test_run 13"
    using t by (auto simp: numeral_2_eq_2)
  show ?thesis using c(1) e(1,3) b by blast
qed

end
