(* ===== verification/EarlyBlock.thy ===== *)
theory EarlyBlock
  imports Window
begin

text \<open>
  A block that reaches the buffer before the calculator took the seed of the block under it: it fails the check
  of its delay function output, counts as known and processed all the same, and takes the chain above it along.
\<close>

section \<open>The chain above a lost block\<close>

text \<open>The buffer when the blocks up to \<open>i\<close> were given to it and only the first was taken.\<close>

definition stalled :: "'c lru_set \<Rightarrow> Block list \<Rightarrow> nat \<Rightarrow> 'c BlockBuffer \<Rightarrow> bool" where
  "stalled L bs i b \<longleftrightarrow> bf_latestBlock b = bs ! 0 \<and> bf_latestBlockHeight b = 0 \<and> bf_selectedBlock b = [1 \<mapsto> bs ! 1]
     \<and> bf_secondChan b = [] \<and> lru_contains L (bf_processedBlocks b) (BlockHash (bs ! i))
     \<and> (\<forall>k. lru_contains L (bf_knownBlocks b) k \<longrightarrow> (\<exists>j \<in> {1..i}. k = BlockHash (bs ! j)))"

lemma Verify_False: "VerifyBlockVDF c s p = Done False \<Longrightarrow> s \<noteq> c_seed c \<and> s \<noteq> c_prevSeed c"
  by (auto simp: VerifyBlockVDF_def split: if_splits)

lemma Verify_take:
  assumes "VerifyBlockVDF c s p = Done True" and "s \<noteq> c_seed c" and "s \<noteq> c_prevSeed c"
    and "c_seedChannel c = []" and "c_prevProofChannel c = []"
  shows "\<exists>c1. AppendNewSeed s p c = Done c1
    \<and> run_take c1 = Done (s, c\<lparr>c_changed := False, c_prevSeed := c_seed c, c_seed := s, c_proof := p\<rparr>)
    \<and> (\<forall>s' p'. VerifyBlockVDF c1 s' p' = VerifyBlockVDF c s' p')"
proof -
  have "c_seed c \<noteq> 0" "Verify_vdf c (c_seed c) p s = Done True" using assms(1-3) by (auto simp: VerifyBlockVDF_def split: if_splits)
  then show ?thesis using assms(2-5)
    by (auto simp: AppendNewSeed_def chan_send_def calc_chan_cap_def run_take_def VerifyBlockVDF_def Verify_vdf_def)
qed

context seen_cache
begin

text \<open>A block that fails the check is known and processed, and nothing else.\<close>

lemma failed_block:
  assumes "\<not> orphan b x" and "bf_latestBlockHeight b < blk_Height x" and "\<not> lru_contains L (bf_knownBlocks b) (BlockHash x)"
    and "block_seed K x = (r, p)" and "VerifyBlockVDF c r p = Done False"
  shows "Process_block L K x (b, pc, c) = Done (b\<lparr>bf_knownBlocks := lru_add L (bf_knownBlocks b) (BlockHash x) (),
    bf_processedBlocks := lru_add L (bf_processedBlocks b) (BlockHash x) ()\<rparr>, pc, c)"
proof -
  have "\<not> orphan (b\<lparr>bf_knownBlocks := k\<rparr>) x" for k using assms(1) by (simp add: orphan_def)
  then show ?thesis using assms(2-5) by (simp add: Process_block_def accept_block_def Let_def)
qed

text \<open>The next block of the chain has a predecessor that was processed and is not in the view.\<close>

lemma stalled_Process:
  assumes s: "stalled L bs i b" and d: "dense bs" and i: "2 \<le> i" "Suc i < length bs"
  shows "\<exists>b'. Process_block L K (bs ! Suc i) (b, pc, c) = Done (b', pc, c) \<and> stalled L bs (Suc i) b'"
proof -
  let ?x = "bs ! Suc i"
  have h: "blk_Height ?x = int (Suc i)" "PrevBlockHash ?x = BlockHash (bs ! i)" "int (Suc i) < 2 ^ 62"
    using d i by (simp_all add: dense_def)
  have inj: "BlockHash (bs ! j) = BlockHash (bs ! k) \<Longrightarrow> j < length bs \<Longrightarrow> k < length bs \<Longrightarrow> j = k" for j k
    using d inj_onD [of "\<lambda>i. BlockHash (bs ! i)" "{0..<length bs}" j k] by (simp add: dense_def)
  have new: "\<not> lru_contains L (bf_knownBlocks b) (BlockHash ?x)"
  proof
    assume "lru_contains L (bf_knownBlocks b) (BlockHash ?x)"
    then obtain j where "j \<in> {1..i}" "BlockHash ?x = BlockHash (bs ! j)" using s unfolding stalled_def by blast
    then show False using inj [of "Suc i" j] i by auto
  qed
  define b1 where "b1 = b\<lparr>bf_knownBlocks := lru_add L (bf_knownBlocks b) (BlockHash ?x) ()\<rparr>"
  define b2 where "b2 = b1\<lparr>bf_processedBlocks := lru_add L (bf_processedBlocks b1) (BlockHash ?x) ()\<rparr>"
  have "BlockHash (bs ! i) \<noteq> BlockHash (bs ! 0)" using inj [of i 0] i by force
  moreover have "i64 (blk_Height ?x - 1) = int i" using h by (simp add: i64_small)
  ultimately have "orphan b1 ?x" using s h(2) i by (simp add: orphan_def stalled_def b1_def)
  moreover have "second_or_drop L ?x b1 = Done b2" using s h(2) by (simp add: second_or_drop_def stalled_def b1_def b2_def)
  ultimately have "Process_block L K ?x (b, pc, c) = Done (b2, pc, c)"
    using s h(1) new by (simp add: Process_block_def stalled_def b1_def)
  moreover have "\<exists>j \<in> {1..Suc i}. k = BlockHash (bs ! j)" if k: "lru_contains L (bf_knownBlocks b2) k" for k
  proof -
    have "k = BlockHash ?x \<or> lru_contains L (bf_knownBlocks b) k" using k contains_add_old unfolding b2_def b1_def by simp
    then show ?thesis using s unfolding stalled_def by force
  qed
  ultimately show ?thesis using s by (intro exI [of _ b2]) (simp add: stalled_def b2_def b1_def)
qed

lemma stalled_run:
  assumes "stalled L bs 2 b" and "dense bs" and "n + 3 \<le> length bs"
  shows "\<exists>b'. run_blocks L K (take n (drop 3 bs)) (b, pc, c) = Done (b', pc, c) \<and> stalled L bs (n + 2) b'"
  using assms(3)
proof (induction n)
  case 0
  then show ?case using assms(1) by (simp add: run_blocks_Nil numeral_2_eq_2)
next
  case (Suc n)
  then obtain b1 where 1: "run_blocks L K (take n (drop 3 bs)) (b, pc, c) = Done (b1, pc, c)" "stalled L bs (n + 2) b1" by auto
  have t: "take (Suc n) (drop 3 bs) = take n (drop 3 bs) @ [bs ! Suc (n + 2)]"
    using Suc.prems by (simp add: take_Suc_conv_app_nth add.commute numeral_3_eq_3)
  obtain b2 where "Process_block L K (bs ! Suc (n + 2)) (b1, pc, c) = Done (b2, pc, c)" "stalled L bs (Suc (n + 2)) b2"
    using stalled_Process [OF 1(2) assms(2), of K pc c] Suc.prems by auto
  then show ?case using 1(1) unfolding t run_blocks_snoc by simp
qed

end

section \<open>Properties\<close>

text \<open>C9: The buffer does not wait for the calculator, and a block that comes too early takes the rest of the
  chain with it. The chain is correct: the seed of block 1 verifies, and the seed of block 2 verifies once the
  calculator took the seed of block 1. If it did, block 2 is selected. If it did not, block 2 is dropped; it counts
  as known, so sending it again has no effect, whatever the calculator did since; it counts as processed, so
  every later block of the chain is dropped as well instead of waiting, and only block 1 is ever selected.\<close>

theorem early_block_stalls_chain:
  assumes "seen_cache L es" and "dense bs" and "3 \<le> length bs"
    and "c_seedChannel c = []" and "c_prevProofChannel c = []"
    and "block_seed K (bs ! 1) = (r1, p1)" and "VerifyBlockVDF c r1 p1 = Done True" and "r1 \<noteq> c_seed c" and "r1 \<noteq> c_prevSeed c"
    and "block_seed K (bs ! 2) = (r2, p2)" and "VerifyBlockVDF c r2 p2 = Done False"
    and "VerifyBlockVDF (c\<lparr>c_prevSeed := c_seed c, c_seed := r1\<rparr>) r2 p2 = Done True"
  shows "\<exists>b1 c1. Process_block L K (bs ! 1) (NewBlockBuffer L (bs ! 0), [], c) = Done (b1, [], c1)
    \<and> (\<exists>c2. run_take c1 = Done (r1, c2)
         \<and> (\<exists>b c3. Process_block L K (bs ! 2) (b1, [], c2) = Done (b, [], c3) \<and> bf_selectedBlock b 2 = Some (bs ! 2)))
    \<and> (\<exists>b. Process_block L K (bs ! 2) (b1, [], c1) = Done (b, [], c1)
         \<and> (\<forall>c'. Process_block L K (bs ! 2) (b, [], c') = Done (b, [], c')
              \<and> (\<exists>b'. run_blocks L K (drop 3 bs) (b, [], c') = Done (b', [], c')
                   \<and> bf_selectedBlock b' = [1 \<mapsto> bs ! 1] \<and> bf_secondChan b' = [])))"
proof -
  define c2 where "c2 = c\<lparr>c_changed := False, c_prevSeed := c_seed c, c_seed := r1, c_proof := p1\<rparr>"
  obtain c1 where c1: "AppendNewSeed r1 p1 c = Done c1" "run_take c1 = Done (r1, c2)" "\<And>s p. VerifyBlockVDF c1 s p = VerifyBlockVDF c s p"
    using Verify_take [OF assms(7-9,4,5)] unfolding c2_def by blast
  have bs: "bs \<noteq> []" "1 < length bs" "2 < length bs" using assms(3) by auto
  note seen = assms(1)
  have w0: "window L bs 1 (NewBlockBuffer L (bs ! 0))" by (rule seen_cache.window_new [OF seen assms(2) bs(1)])
  obtain b1 where b1: "Process_block L K (bs ! 1) (NewBlockBuffer L (bs ! 0), [], c) = Done (b1, [], c1)"
    "window L bs 2 b1" "bf_secondChan b1 = []"
    using seen_cache.window_Process [OF seen w0 assms(2) _ bs(2) assms(6,7) c1(1), of "[]"]
    by (auto simp: numeral_2_eq_2 NewBlockBuffer_def)
  have late: "\<exists>b c3. Process_block L K (bs ! 2) (b1, [], c2) = Done (b, [], c3) \<and> bf_selectedBlock b 2 = Some (bs ! 2)"
  proof -
    have "VerifyBlockVDF c2 r2 p2 = VerifyBlockVDF (c\<lparr>c_prevSeed := c_seed c, c_seed := r1\<rparr>) r2 p2"
      by (simp add: c2_def VerifyBlockVDF_def Verify_vdf_def)
    then have v: "VerifyBlockVDF c2 r2 p2 = Done True" "c_seedChannel c2 = []" "c_prevProofChannel c2 = []"
      using assms(4,5,12) by (simp_all add: c2_def)
    obtain c3 where "AppendNewSeed r2 p2 c2 = Done c3"
      using v Verify_take [OF v(1)] by (cases "r2 = c_seed c2 \<or> r2 = c_prevSeed c2") (auto simp: AppendNewSeed_def)
    then obtain b where "Process_block L K (bs ! 2) (b1, [], c2) = Done (b, [], c3)" "window L bs 3 b"
      using seen_cache.window_Process [OF seen b1(2) assms(2) _ bs(3) assms(10) v(1), of c3 "[]"] by (auto simp: numeral_3_eq_3)
    moreover from this have "bf_selectedBlock b 2 = Some (bs ! 2)" by (simp add: window_def window_view_def left_buffer_def)
    ultimately show ?thesis by blast
  qed
  define b where "b = b1\<lparr>bf_knownBlocks := lru_add L (bf_knownBlocks b1) (BlockHash (bs ! 2)) (),
      bf_processedBlocks := lru_add L (bf_processedBlocks b1) (BlockHash (bs ! 2)) ()\<rparr>"
  have h: "blk_Height (bs ! 2) = 2" "PrevBlockHash (bs ! 2) = BlockHash (bs ! 1)"
    using assms(2) bs by (auto simp: dense_def numeral_2_eq_2)
  have view: "bf_latestBlock b1 = bs ! 0" "bf_latestBlockHeight b1 = 0" "bf_selectedBlock b1 = [1 \<mapsto> bs ! 1]"
    using b1(2) by (auto simp: window_def left_buffer_def window_view_def fun_eq_iff)
  have known: "k = BlockHash (bs ! 1)" if k: "lru_contains L (bf_knownBlocks b1) k" for k
  proof -
    obtain j where "j \<in> {1..<2}" "k = BlockHash (bs ! j)" using b1(2) k unfolding window_def by blast
    then show ?thesis by (cases "j = 1") auto
  qed
  have fresh: "BlockHash (bs ! 2) \<noteq> BlockHash (bs ! 1)"
    using assms(2) bs inj_onD [of "\<lambda>i. BlockHash (bs ! i)" "{0..<length bs}" 2 1] by (auto simp: dense_def)
  then have new: "\<not> lru_contains L (bf_knownBlocks b1) (BlockHash (bs ! 2))" using known by auto
  have "i64 (blk_Height (bs ! 2) - 1) = 1" using h(1) by (simp add: i64_small)
  then have "\<not> orphan b1 (bs ! 2)" using h(2) view(3) by (simp add: orphan_def)
  then have early: "Process_block L K (bs ! 2) (b1, [], c1) = Done (b, [], c1)"
    unfolding b_def using seen_cache.failed_block [OF seen _ _ new assms(10), of c1 "[]"] view(2) h(1) c1(3) assms(11) by simp
  note add = lru.contains_add [OF seen_cache.axioms(1) [OF seen]] and add_old = lru.contains_add_old [OF seen_cache.axioms(1) [OF seen]]
  have again: "Process_block L K (bs ! 2) (b, [], c') = Done (b, [], c')" for c'
    by (simp add: Process_block_def b_def add)
  have "\<exists>j \<in> {1..2}. k = BlockHash (bs ! j)" if "lru_contains L (bf_knownBlocks b) k" for k
  proof -
    have "k = BlockHash (bs ! 2) \<or> lru_contains L (bf_knownBlocks b1) k" using that add_old unfolding b_def by simp
    then show ?thesis using known by force
  qed
  then have "stalled L bs 2 b" using view b1(3) by (simp add: stalled_def b_def add)
  then have "\<exists>b'. run_blocks L K (drop 3 bs) (b, [], c') = Done (b', [], c') \<and> bf_selectedBlock b' = [1 \<mapsto> bs ! 1] \<and> bf_secondChan b' = []" for c'
    using seen_cache.stalled_run [OF seen _ assms(2), of b "length bs - 3" K "[]" c'] assms(3) by (auto simp: stalled_def)
  then show ?thesis using b1(1) c1(2) late early again by blast
qed

section \<open>Witnesses\<close>

text \<open>Four blocks; the seeds of the second and third follow a calculator with order 7, parameter 3 and one round.\<close>

definition race_params :: "byte \<Rightarrow> byte \<Rightarrow> GeneralParams" where
  "race_params r p = \<lparr>gn_Result = [r], gn_Proof = [p], gn_RandomNumber = replicate 33 0, gn_S = [], gn_T = []\<rparr>"

definition race_block :: "nat \<Rightarrow> byte \<Rightarrow> byte \<Rightarrow> Block" where
  "race_block i r p = (test_run i)\<lparr>blk_Header := (blk_Header (test_run i))
     \<lparr>bh_Params := the (SerializeGeneralParams std_karmem (race_params r p))\<rparr>\<rparr>"

definition race_chain :: "Block list" where
  "race_chain = [test_run 0, race_block 1 4 1, race_block 2 5 3, test_run 3]"

lemma race_block_sels [simp]:
  "BlockHash (race_block i r p) = BlockHash (test_run i)" "PrevBlockHash (race_block i r p) = PrevBlockHash (test_run i)"
  "bh_Height (blk_Header (race_block i r p)) = int i"
  by (simp_all add: race_block_def BlockHash_def PrevBlockHash_def) (simp add: test_run_def)

lemma race_block_seed: "block_seed std_karmem (race_block i r p) = (unat r, unat p)"
proof -
  obtain pb where "SerializeGeneralParams std_karmem (race_params r p) = Some pb"
    "DeserializeGeneralParams std_karmem pb = race_params r p"
    using std.general_roundtrip [of "race_params r p"] by (auto simp: wf_general_def race_params_def)
  then show ?thesis by (simp add: block_seed_def race_block_def race_params_def be_dec_def le_dec.simps)
qed

lemma race_chain_dense: "dense race_chain"
proof -
  have "BlockHash (race_chain ! i) = BlockHash (test_run i)" if "i < 4" for i
    using that by (auto simp: race_chain_def less_Suc_eq numeral_eq_Suc)
  then have "inj_on (\<lambda>i. BlockHash (race_chain ! i)) {0..<4} = inj_on (\<lambda>i. BlockHash (test_run i)) {0..<4}"
    by (intro inj_on_cong) simp
  moreover have "inj_on (\<lambda>i. BlockHash (test_run i)) {0..<4}"
    using test_run_of by (auto simp: run_of_def intro: inj_on_subset)
  moreover have "\<forall>i < 4. blk_Height (race_chain ! i) = int i"
    by (auto simp: race_chain_def less_Suc_eq numeral_eq_Suc) (simp_all add: test_run_def)
  moreover have "PrevBlockHash (test_run (Suc i)) = BlockHash (test_run i)" for i by (simp add: test_run_def)
  then have "\<forall>i. Suc i < 4 \<longrightarrow> PrevBlockHash (race_chain ! Suc i) = BlockHash (race_chain ! i)"
    by (auto simp: race_chain_def less_Suc_eq numeral_eq_Suc)
  moreover have "length race_chain = 4" by (simp add: race_chain_def)
  ultimately show ?thesis unfolding dense_def by simp
qed

lemma early_block_stalls_chain_witness:
  "\<exists>c1 b1 b b'. Process_block list_lru std_karmem (race_chain ! 1)
      (NewBlockBuffer list_lru (race_chain ! 0), [], sample_calc\<lparr>c_order := 7, c_timeParam := 1, c_seed := 2\<rparr>) = Done (b1, [], c1)
    \<and> Process_block list_lru std_karmem (race_chain ! 2) (b1, [], c1) = Done (b, [], c1)
    \<and> run_blocks list_lru std_karmem (drop 3 race_chain) (b, [], c1) = Done (b', [], c1)
    \<and> bf_selectedBlock b' = [1 \<mapsto> race_chain ! 1]"
proof -
  let ?c = "sample_calc\<lparr>c_order := 7, c_timeParam := 1, c_seed := 2\<rparr>"
  have s: "block_seed std_karmem (race_chain ! 1) = (4, 1)" "block_seed std_karmem (race_chain ! 2) = (5, 3)"
    by (simp_all add: race_chain_def race_block_seed)
  have v: "VerifyBlockVDF ?c 4 1 = Done True" "VerifyBlockVDF ?c 5 3 = Done False"
    "VerifyBlockVDF (?c\<lparr>c_prevSeed := c_seed ?c, c_seed := 4\<rparr>) 5 3 = Done True"
    by (simp_all add: VerifyBlockVDF_def Verify_vdf_def big_Exp_def sample_calc_def)
  have "3 \<le> length race_chain" "c_seedChannel ?c = []" "c_prevProofChannel ?c = []" "4 \<noteq> c_seed ?c" "4 \<noteq> c_prevSeed ?c"
    by (simp_all add: race_chain_def sample_calc_def)
  then show ?thesis
    using early_block_stalls_chain [OF list_seen.seen_cache_axioms race_chain_dense _ _ _ s(1) v(1) _ _ s(2) v(2,3)] by blast
qed

end
