(* ===== verification/ForkChoice.thy ===== *)
theory ForkChoice
  imports Window
begin

text \<open>
  Two nodes that get the same blocks of a height in different orders: when they select the same one, and what it
  means when they do not.
\<close>

section \<open>Siblings\<close>

definition siblings :: "Block \<Rightarrow> Block list \<Rightarrow> bool" where
  "siblings g xs \<longleftrightarrow> (\<forall>x \<in> set xs. links g x \<and> BlockHash x \<noteq> BlockHash g) \<and> distinct (map BlockHash xs)
     \<and> in_i64 (blk_Height g) \<and> blk_Height g < 2 ^ 62"

definition chosen :: "'c lru_set \<Rightarrow> Block \<Rightarrow> Block list \<Rightarrow> 'c BlockBuffer \<Rightarrow> bool" where
  "chosen L g xs b \<longleftrightarrow> bf_latestBlock b = g \<and> bf_latestBlockHeight b = blk_Height g
     \<and> bf_selectedBlock b = (\<lambda>h. if h = blk_Height g + 1 then selectBlockFromList xs else None) \<and> bf_secondChan b = []
     \<and> (\<forall>k. lru_contains L (bf_knownBlocks b) k \<longrightarrow> k \<in> BlockHash ` set xs)"

lemma select_snoc:
  "selectBlockFromList (xs @ [x]) = Some (case selectBlockFromList xs of None \<Rightarrow> x | Some y \<Rightarrow> fst (compareBlock y x))"
  by (cases xs) simp_all

lemma select_spec:
  assumes "siblings g xs" and "xs \<noteq> []"
  shows "\<exists>r. selectBlockFromList xs = Some r \<and> r \<in> set xs \<and> (\<forall>c \<in> set xs. \<not> beats c r)"
proof -
  have "\<forall>c \<in> set (tl xs). PrevBlockHash c = PrevBlockHash (hd xs)"
    using assms by (cases xs) (auto simp: siblings_def links_def)
  then show ?thesis using fold_best [of "tl xs" "hd xs"] assms(2) by (cases xs) auto
qed

text \<open>Without ties the selected block is the same in every order.\<close>

lemma select_untied:
  assumes "siblings g xs" and "siblings g ys" and "set xs = set ys" and "xs \<noteq> []"
    and "\<forall>x \<in> set xs. \<forall>y \<in> set xs. x \<noteq> y \<longrightarrow> beats x y \<or> beats y x"
  shows "selectBlockFromList xs = selectBlockFromList ys"
proof -
  have "ys \<noteq> []" using assms(3,4) by auto
  then obtain r s where "selectBlockFromList xs = Some r" "r \<in> set xs" "\<forall>c \<in> set xs. \<not> beats c r"
    "selectBlockFromList ys = Some s" "s \<in> set xs" "\<forall>c \<in> set xs. \<not> beats c s"
    using select_spec [OF assms(1,4)] select_spec [OF assms(2)] assms(3) by auto
  then show ?thesis using assms(5) by metis
qed

text \<open>With a tie the last one wins.\<close>

lemma select_tied:
  assumes "siblings g (zs @ [x, y])" and "\<not> beats x y" and "\<forall>z \<in> set zs. \<not> beats z y"
  shows "selectBlockFromList (zs @ [x, y]) = Some y"
proof -
  have s: "siblings g (zs @ [x])" using assms(1) by (auto simp: siblings_def)
  obtain r where r: "selectBlockFromList (zs @ [x]) = Some r" "r \<in> set (zs @ [x])" using select_spec [OF s] by auto
  have "PrevBlockHash y = PrevBlockHash r" using assms(1) r(2) by (auto simp: siblings_def links_def)
  moreover have "\<not> beats r y" using r(2) assms(2,3) by auto
  ultimately show ?thesis using select_snoc [of "zs @ [x]" y] r(1) by (simp add: compareBlock_fst)
qed

text \<open>The next height is too close to the chain to be handed over.\<close>

lemma pop_next_height:
  "i64 (blk_Height x - bf_latestBlockHeight b) = 1 \<Longrightarrow> pop_block x b pc = Done (b, pc)"
  by (simp add: pop_block_def maxBufferSize_def)

context seen_cache
begin

text \<open>A block whose seed is current and which loses against the selected one.\<close>

lemma Process_kept:
  assumes "settled K calc x" and "bf_latestBlockHeight b < blk_Height x" and "\<not> lru_contains L (bf_knownBlocks b) (BlockHash x)"
    and "\<not> orphan b x" and "bf_selectedBlock b (blk_Height x) = Some y" and "compareBlock y x = (y, False)"
  shows "Process_block L K x (b, pc, calc) =
    bindO (pop_block x (b\<lparr>bf_knownBlocks := lru_add L (bf_knownBlocks b) (BlockHash x) (),
        bf_processedBlocks := lru_add L (bf_processedBlocks b) (BlockHash x) ()\<rparr>) pc) (\<lambda>(b3, pc'). Done (b3, pc', calc))"
proof -
  obtain seed pf where sp: "block_seed K x = (seed, pf)" by (cases "block_seed K x")
  have v: "VerifyBlockVDF calc seed pf = Done True" "AppendNewSeed seed pf calc = Done calc"
    using assms(1) by (auto simp: settled_def sp VerifyBlockVDF_def AppendNewSeed_def)
  have o: "\<not> orphan (b\<lparr>bf_knownBlocks := k\<rparr>) x" for k using assms(4) by (simp add: orphan_def)
  have s: "select_block x (b\<lparr>bf_knownBlocks := k, bf_processedBlocks := q\<rparr>) = Done (b\<lparr>bf_knownBlocks := k, bf_processedBlocks := q\<rparr>)" for k q
    using assms(5,6) by (simp add: select_block_def Let_def fun_upd_idem)
  show ?thesis using assms(2,3) o s v sp
    by (simp add: Process_block_def accept_block_def Let_def)
qed

lemma chosen_Process:
  assumes c: "chosen L g xs b" and s: "siblings g (xs @ [x])" and v: "settled K calc x"
  shows "\<exists>b'. Process_block L K x (b, pc, calc) = Done (b', pc, calc) \<and> chosen L g (xs @ [x]) b'"
proof -
  have h: "blk_Height x = blk_Height g + 1" "PrevBlockHash x = BlockHash g" "in_i64 (blk_Height x)" "blk_Height x < 2 ^ 63 - 1"
    "i64 (blk_Height x - blk_Height g) = 1"
    using s by (auto simp: siblings_def links_def in_i64_def i64_small)
  have new: "\<not> lru_contains L (bf_knownBlocks b) (BlockHash x)" using c s by (auto simp: chosen_def siblings_def)
  have o: "\<not> orphan b x" using c h(2) by (simp add: orphan_def chosen_def)
  have low: "bf_latestBlockHeight b < blk_Height x" using c h(1) by (simp add: chosen_def)
  have gap: "i64 (blk_Height x - bf_latestBlockHeight b) = 1" using c h(5) by (simp add: chosen_def)
  have known: "k \<in> BlockHash ` set (xs @ [x])" if k: "lru_contains L (lru_add L (bf_knownBlocks b) (BlockHash x) ()) k" for k
    using contains_add_old [OF k] c by (auto simp: chosen_def)
  show ?thesis
  proof (cases "\<exists>y. selectBlockFromList xs = Some y \<and> compareBlock y x = (y, False)")
    case True
    then obtain y where y: "selectBlockFromList xs = Some y" "compareBlock y x = (y, False)" by blast
    have sel: "bf_selectedBlock b (blk_Height x) = Some y" using c y(1) h(1) by (simp add: chosen_def)
    have "Process_block L K x (b, pc, calc) = Done (b\<lparr>bf_knownBlocks := lru_add L (bf_knownBlocks b) (BlockHash x) (),
        bf_processedBlocks := lru_add L (bf_processedBlocks b) (BlockHash x) ()\<rparr>, pc, calc)" (is "_ = Done (?b', _)")
      using Process_kept [OF v low new o sel y(2), of pc] gap by (simp add: pop_next_height)
    moreover have "chosen L g (xs @ [x]) ?b'"
      using c y known by (auto simp: chosen_def select_snoc)
    ultimately show ?thesis by blast
  next
    case False
    have sel: "bf_selectedBlock b (blk_Height x) = selectBlockFromList xs" using c h(1) by (simp add: chosen_def)
    have win: "compareBlock y x = (x, True)" if "selectBlockFromList xs = Some y" for y
    proof (cases "compareBlock y x")
      case (Pair z r)
      then show ?thesis using False that compareBlock_kept compareBlock_replaced by (cases r) auto
    qed
    have "case bf_selectedBlock b (blk_Height x) of None \<Rightarrow> True | Some y \<Rightarrow> compareBlock y x = (x, True)"
      using win by (simp add: sel split: option.split)
    from Process_settled [OF v h(3,4) low new o this, of pc]
    obtain kn pr where p: "kn = lru_add L (bf_knownBlocks b) (BlockHash x) ()"
      "Process_block L K x (b, pc, calc) = bindO (pop_block x (b\<lparr>bf_knownBlocks := kn, bf_processedBlocks := pr,
         bf_bufferedHeight := blk_Height x,
         bf_selectedBlock := (bf_selectedBlock b)(blk_Height x \<mapsto> x, blk_Height x + 1 := None)\<rparr>) pc)
       (\<lambda>(b3, pc'). Done (b3, pc', calc))" by blast
    define b' where "b' = b\<lparr>bf_knownBlocks := kn, bf_processedBlocks := pr, bf_bufferedHeight := blk_Height x,
      bf_selectedBlock := (bf_selectedBlock b)(blk_Height x \<mapsto> x, blk_Height x + 1 := None)\<rparr>"
    have "Process_block L K x (b, pc, calc) = Done (b', pc, calc)"
      using p(2) gap by (simp add: b'_def pop_next_height)
    moreover have "selectBlockFromList (xs @ [x]) = Some x" using win by (simp add: select_snoc split: option.split)
    then have "chosen L g (xs @ [x]) b'"
      using c known h(1) unfolding p(1) b'_def by (auto simp: chosen_def p(1) fun_eq_iff)
    ultimately show ?thesis by blast
  qed
qed

lemma chosen_run:
  assumes "siblings g xs" and "\<forall>x \<in> set xs. settled K calc x"
  shows "\<exists>b. run_blocks L K xs (NewBlockBuffer L g, pc, calc) = Done (b, pc, calc) \<and> chosen L g xs b"
  using assms
proof (induction xs rule: rev_induct)
  case Nil
  then show ?case by (auto simp: run_blocks_Nil chosen_def NewBlockBuffer_def contains entries_new)
next
  case (snoc x xs)
  have "siblings g xs" using snoc.prems(1) by (auto simp: siblings_def)
  then obtain b where "run_blocks L K xs (NewBlockBuffer L g, pc, calc) = Done (b, pc, calc)" "chosen L g xs b"
    using snoc by auto
  then show ?case using chosen_Process [OF _ snoc.prems(1), of b K calc pc] snoc.prems(2) by (simp add: run_blocks_snoc)
qed

text \<open>A block on a sibling that was not selected finds no place.\<close>

lemma chosen_other_child:
  assumes c: "chosen L g xs b" and s: "siblings g xs" and r: "selectBlockFromList xs = Some r" "r \<in> set xs"
    and y: "y \<in> set xs" "y \<noteq> r" and z: "links y z"
  shows "\<exists>b'. Process_block L K z (b, pc, calc) = Done (b', pc, calc) \<and> bf_selectedBlock b' = bf_selectedBlock b"
proof -
  have h: "blk_Height z = blk_Height g + 2" "PrevBlockHash z = BlockHash y" "i64 (blk_Height z - 1) = blk_Height g + 1"
    using s y(1) z by (auto simp: siblings_def links_def in_i64_def intro!: i64_id)
  have ne: "BlockHash y \<noteq> BlockHash g" "BlockHash y \<noteq> BlockHash r"
    using s y r(2) by (auto simp: siblings_def distinct_map dest: inj_onD)
  define b1 where "b1 = b\<lparr>bf_knownBlocks := lru_add L (bf_knownBlocks b) (BlockHash z) ()\<rparr>"
  have o: "orphan b1 z" using c h ne r(1) by (simp add: orphan_def chosen_def b1_def)
  obtain b2 where d: "second_or_drop L z b1 = Done b2" "bf_selectedBlock b2 = bf_selectedBlock b"
    using c by (cases "lru_contains L (bf_processedBlocks b) (PrevBlockHash z)")
      (simp_all add: second_or_drop_def chan_send_def maxQueueBlock_def chosen_def b1_def)
  show ?thesis
  proof (cases "lru_contains L (bf_knownBlocks b) (BlockHash z)")
    case True
    then show ?thesis using c h(1) by (simp add: Process_block_def chosen_def)
  next
    case False
    then have "Process_block L K z (b, pc, calc) = Done (b2, pc, calc)"
      using c h(1) o d(1) by (simp add: Process_block_def chosen_def b1_def)
    then show ?thesis using d(2) by blast
  qed
qed

end

section \<open>Properties\<close>

text \<open>C13: Two nodes get the same blocks on one predecessor in different orders. Both select one that no other beats (more
  transactions first, the earlier timestamp second). If of any two blocks one beats the other, they select the same. If the
  last two are tied and nothing beats them, each node selects the one it got last, so that they differ; and
  whenever they differ, a block on the one node's choice finds no place in the view of the other.\<close>

theorem fork_choice:
  assumes "seen_cache L es" and "siblings g xs" and "siblings g ys" and "set xs = set ys" and "xs \<noteq> []"
    and "\<forall>x \<in> set xs. settled K calc x"
  shows "\<exists>a b r s. run_blocks L K xs (NewBlockBuffer L g, [], calc) = Done (a, [], calc)
    \<and> run_blocks L K ys (NewBlockBuffer L g, [], calc) = Done (b, [], calc)
    \<and> bf_selectedBlock a = [blk_Height g + 1 \<mapsto> r] \<and> bf_selectedBlock b = [blk_Height g + 1 \<mapsto> s]
    \<and> r \<in> set xs \<and> s \<in> set xs \<and> (\<forall>c \<in> set xs. \<not> beats c r \<and> \<not> beats c s)
    \<and> ((\<forall>x \<in> set xs. \<forall>y \<in> set xs. x \<noteq> y \<longrightarrow> beats x y \<or> beats y x) \<longrightarrow> r = s)
    \<and> (\<forall>zs x y. xs = zs @ [x, y] \<and> ys = zs @ [y, x] \<and> \<not> beats x y \<and> \<not> beats y x
         \<and> (\<forall>z \<in> set zs. \<not> beats z x \<and> \<not> beats z y) \<longrightarrow> r = y \<and> s = x)
    \<and> (r \<noteq> s \<longrightarrow> (\<forall>z. (links s z \<longrightarrow> (\<exists>a'. Process_block L K z (a, [], calc) = Done (a', [], calc)
             \<and> bf_selectedBlock a' = bf_selectedBlock a))
         \<and> (links r z \<longrightarrow> (\<exists>b'. Process_block L K z (b, [], calc) = Done (b', [], calc)
             \<and> bf_selectedBlock b' = bf_selectedBlock b))))"
proof -
  have ys: "ys \<noteq> []" "\<forall>x \<in> set ys. settled K calc x" using assms(4-6) by auto
  obtain a where a: "run_blocks L K xs (NewBlockBuffer L g, [], calc) = Done (a, [], calc)" "chosen L g xs a"
    using seen_cache.chosen_run [OF assms(1,2,6), of "[]"] by blast
  obtain b where b: "run_blocks L K ys (NewBlockBuffer L g, [], calc) = Done (b, [], calc)" "chosen L g ys b"
    using seen_cache.chosen_run [OF assms(1,3) ys(2), of "[]"] by blast
  obtain r where r: "selectBlockFromList xs = Some r" "r \<in> set xs" "\<forall>c \<in> set xs. \<not> beats c r"
    using select_spec [OF assms(2,5)] by blast
  obtain s where s: "selectBlockFromList ys = Some s" "s \<in> set ys" "\<forall>c \<in> set ys. \<not> beats c s"
    using select_spec [OF assms(3) ys(1)] by blast
  have sel: "bf_selectedBlock a = [blk_Height g + 1 \<mapsto> r]" "bf_selectedBlock b = [blk_Height g + 1 \<mapsto> s]"
    using a(2) b(2) r(1) s(1) by (auto simp: chosen_def fun_eq_iff)
  have untied: "r = s" if "\<forall>x \<in> set xs. \<forall>y \<in> set xs. x \<noteq> y \<longrightarrow> beats x y \<or> beats y x"
    using select_untied [OF assms(2-5) that] r(1) s(1) by simp
  have tied: "r = y \<and> s = x" if t: "xs = zs @ [x, y]" "ys = zs @ [y, x]" "\<not> beats x y" "\<not> beats y x"
      "\<forall>z \<in> set zs. \<not> beats z x \<and> \<not> beats z y" for zs x y
    using select_tied [of g zs x y] select_tied [of g zs y x] assms(2,3) r(1) s(1) t by auto
  have left: "\<exists>a'. Process_block L K z (a, [], calc) = Done (a', [], calc) \<and> bf_selectedBlock a' = bf_selectedBlock a"
    if "r \<noteq> s" "links s z" for z
    using seen_cache.chosen_other_child [OF assms(1) a(2) assms(2) r(1,2) _ _ that(2)] s(2) assms(4) that(1) by blast
  have right: "\<exists>b'. Process_block L K z (b, [], calc) = Done (b', [], calc) \<and> bf_selectedBlock b' = bf_selectedBlock b"
    if "r \<noteq> s" "links r z" for z
    using seen_cache.chosen_other_child [OF assms(1) b(2) assms(3) s(1,2) _ _ that(2)] r(2) assms(4) that(1) by blast
  show ?thesis
    by (intro exI [of _ a] exI [of _ b] exI [of _ r] exI [of _ s] conjI a(1) b(1) sel r(2))
      (use s(2,3) r(3) assms(4) untied tied left right in blast)+
qed

section \<open>Witnesses\<close>

text \<open>Two blocks with the same number of transactions and the same timestamp.\<close>

lemma fork_choice_witness:
  "\<exists>a b. run_blocks list_lru std_karmem [test_block 2 1 1 10, test_block 3 1 1 10]
        (NewBlockBuffer list_lru (test_block 1 0 0 0), [], sample_calc) = Done (a, [], sample_calc)
    \<and> run_blocks list_lru std_karmem [test_block 3 1 1 10, test_block 2 1 1 10]
        (NewBlockBuffer list_lru (test_block 1 0 0 0), [], sample_calc) = Done (b, [], sample_calc)
    \<and> bf_selectedBlock a 1 = Some (test_block 3 1 1 10) \<and> bf_selectedBlock b 1 = Some (test_block 2 1 1 10)"
proof -
  let ?g = "test_block 1 0 0 0" and ?x = "test_block 2 1 1 10" and ?y = "test_block 3 1 1 10"
  have s: "siblings ?g [?x, ?y]" "siblings ?g [?y, ?x]" by (auto simp: siblings_def links_def in_i64_def)
  have st: "set [?x, ?y] = set [?y, ?x]" "[?x, ?y] \<noteq> []" "\<forall>x \<in> set [?x, ?y]. settled std_karmem sample_calc x"
    by (auto simp: test_settled)
  have t: "\<not> beats ?x ?y" "\<not> beats ?y ?x" by (simp_all add: beats_def)
  obtain a b r s where f: "run_blocks list_lru std_karmem [?x, ?y] (NewBlockBuffer list_lru ?g, [], sample_calc) = Done (a, [], sample_calc)"
    "run_blocks list_lru std_karmem [?y, ?x] (NewBlockBuffer list_lru ?g, [], sample_calc) = Done (b, [], sample_calc)"
    "bf_selectedBlock a = [blk_Height ?g + 1 \<mapsto> r]" "bf_selectedBlock b = [blk_Height ?g + 1 \<mapsto> s]"
    "\<forall>zs x y. [?x, ?y] = zs @ [x, y] \<and> [?y, ?x] = zs @ [y, x] \<and> \<not> beats x y \<and> \<not> beats y x
         \<and> (\<forall>z \<in> set zs. \<not> beats z x \<and> \<not> beats z y) \<longrightarrow> r = y \<and> s = x"
    using fork_choice [OF list_seen.seen_cache_axioms s st] by blast
  have "r = ?y \<and> s = ?x" using f(5) [rule_format, of "[]" ?x ?y] t by simp
  then show ?thesis using f(1-4) by simp
qed

end
