(* ===== verification/Crash.thy ===== *)
theory Crash
  imports LiveChain
begin

text \<open>
  A process that ends between storing a block and carrying out its data commands: the commands are only in the
  memory of the process, and a block that is stored is not looked at again.
\<close>

section \<open>Storing a block writes only keys of the chain\<close>

lemma insert_txs_keys:
  "insert_txs K block i ts kv pool dp = Done (fin, kv', pool', dp') \<Longrightarrow>
     set (fst kv') \<subseteq> set (fst kv) \<union> (\<lambda>t. TxHash2DBKey (tx_hash t)) ` set ts
     \<and> (length (fst kv) = length (snd kv) \<longrightarrow> length (fst kv') = length (snd kv'))"
proof (induction ts arbitrary: i kv pool dp)
  case Nil
  then show ?case by auto
next
  case (Cons t ts)
  obtain p where p: "pool = Some p" using Cons.prems by (cases pool) auto
  show ?case
  proof (cases "SerializeTransaction K (placed_tx block i t)")
    case None
    then show ?thesis using Cons.prems p by (auto simp: Let_def)
  next
    case (Some w)
    obtain dp1 where d: "insert_txs K block (Suc i) ts (fst kv @ [TxHash2DBKey (tx_hash t)], snd kv @ [w])
        (Some (RemoveTx (tx_hash t) p)) dp1 = Done (fin, kv', pool', dp')"
      using Cons.prems p Some by (auto simp: Let_def outcome_simps split: option.splits)
    then show ?thesis using Cons.IH [OF d] by auto
  qed
qed

context chain_world
begin

lemma store_block_other_key:
  assumes "store_block E b (ch, pool, calc) = Done (ch', pool', calc')"
    and "k \<notin> {BlockHash2DBKey (blk_hash b), latest_key, BlockHeight2DBKey (blk_Height b)}"
    and "\<forall>t \<in> set (blk_Transactions b). k \<noteq> TxHash2DBKey (tx_hash t)"
  shows "content (ch_db ch') k = content (ch_db ch) k"
proof (cases "blk_Height b \<le> ch_latestHeight ch")
  case True
  then show ?thesis using assms(1) by (simp add: store_block_def)
next
  case False
  define ch1 where "ch1 = writeBlockCache E b (ch\<lparr>ch_latestBlock := Some b, ch_latestHeight := blk_Height b\<rparr>)"
  have db: "ch_db ch1 = ch_db ch" by (simp add: ch1_def writeBlockCache_def)
  show ?thesis
  proof (cases "SerializeBlock (ce_karmem E) b")
    case None
    then show ?thesis using assms(1) False db by (simp add: store_block_def Let_def ch1_def)
  next
    case (Some v)
    obtain fin ks vs pool1 dp1 where i: "insert_txs (ce_karmem E) b 0 (blk_Transactions b)
        ([BlockHash2DBKey (blk_hash b), latest_key, BlockHeight2DBKey (blk_Height b)], [v, blk_hash b, blk_hash b])
        pool (ch_dp ch1) = Done (fin, (ks, vs), pool1, dp1)"
      "ch_db ch' = ch_db ch \<or> ch_db ch' = snd (db_BatchInsert (ce_db E) (ch_db ch) ks vs)"
      using assms(1) False Some db
      by (auto simp: store_block_def Let_def outcome_simps ch1_def split: if_splits option.splits)
    have k: "k \<notin> set ks" "length ks = length vs" using insert_txs_keys [OF i(1)] assms(2,3) by auto
    have "content (snd (db_BatchInsert (ce_db E) (ch_db ch) ks vs)) k = content (ch_db ch) k"
      using db_interface.db_batch_insert [OF db_ok k(2)] k(1) by (simp add: map_upds_apply_nontin)
    then show ?thesis using i(2) by auto
  qed
qed

lemma insertBlock_data:
  assumes "inv bs ch" and "fits b" and "insertBlock E b (ch, pool, calc) = Done (ch', pool', calc')" and "length a = 20"
  shows "content (ch_db ch') (DataAddressKey2DBKey a k) = content (ch_db ch) (DataAddressKey2DBKey a k)"
proof -
  have wf: "wf_block b" using assms(2) by (simp add: fits_def)
  then have len: "length (blk_hash b) = 32" "in_i64 (blk_Height b)" by (simp_all add: wf_block_def wf_header_def)
  have dk: "db_key_bytes (DataKey a k) = DataAddressKey2DBKey a k" "wf_key (DataKey a k)" using assms(4) by simp_all
  have ne: "DataAddressKey2DBKey a k \<noteq> db_key_bytes c" if "wf_key c" "c \<noteq> DataKey a k" for c
    using db_key_bytes_inject [OF dk(2) that(1)] that(2) dk(1) by metis
  have other: "DataAddressKey2DBKey a k \<notin> {BlockHash2DBKey (blk_hash b), latest_key, BlockHeight2DBKey (blk_Height b)}"
    using ne [of "BlockKey (blk_hash b)"] ne [of LatestKey] ne [of "HeightKey (blk_Height b)"] len by auto
  have "length (tx_hash t) = 32" if "t \<in> set (blk_Transactions b)" for t
    using wf that by (auto simp: wf_block_def wf_tx_def wf_body_def)
  then have txs: "\<forall>t \<in> set (blk_Transactions b). DataAddressKey2DBKey a k \<noteq> TxHash2DBKey (tx_hash t)"
    using ne [of "TxKey (tx_hash _)"] by auto
  obtain c1 c2 where g: "GetBlockByHash E (blk_hash b) ch = (case block_at bs (blk_hash b) of None \<Rightarrow> Inl ErrNotFound
      | Some b \<Rightarrow> Inr b, ch\<lparr>ch_blockHeightMap := c1, ch_blockCache := c2\<rparr>)"
    "inv bs (ch\<lparr>ch_blockHeightMap := c1, ch_blockCache := c2\<rparr>)"
    using GetBlockByHash_spec [OF assms(1) len(1)] by blast
  define ch1 where "ch1 = ch\<lparr>ch_blockHeightMap := c1, ch_blockCache := c2\<rparr>"
  obtain c3 c4 ch2 where l: "GetLatestBlock E ch1 = Done (if bs = [] then Inl ErrNotFound else Inr (last bs), ch2)"
    "ch2 = ch1\<lparr>ch_latestBlock := (if bs = [] then None else Some (last bs)), ch_latestHeight := tip_height bs,
       ch_blockHeightMap := c3, ch_blockCache := c4\<rparr>"
    using GetLatestBlock_spec [OF g(2)] unfolding ch1_def by blast
  have db2: "ch_db ch2 = ch_db ch" by (simp add: l(2) ch1_def)
  consider "ch_db ch' = ch_db ch" | "store_block E b (ch2, pool, calc) = Done (ch', pool', calc')"
    | ch3 calc3 where "genesisInitialization E (Some b) (createBlockBuffer E b ch2, calc) = (ch3, calc3)"
        "store_block E b (ch3, pool, calc3) = Done (ch', pool', calc')"
    using assms(3) db2
    by (auto simp: insertBlock_def g(1) l(1) ch1_def [symmetric] split: option.splits if_splits prod.splits)
      (auto simp: ch1_def dest: arg_cong [where f = ch_db])
  then show ?thesis
  proof cases
    case 2
    then show ?thesis using store_block_other_key [OF 2 other txs] db2 by simp
  next
    case 3
    have "ch_db ch3 = ch_db ch2" using 3(1) by (auto simp: genesisInitialization_def createBlockBuffer_def Let_def)
    then show ?thesis using store_block_other_key [OF 3(2) other txs] db2 by simp
  qed simp
qed

end

section \<open>Properties\<close>

text \<open>C10: A process that ends between storing a block and carrying out its data commands loses them for good. If the
  process lives on, the value of a set command is in the database when its queue is empty. If it ends before and a
  new one starts on the database, this has the block, but the key of the command keeps its old value, the queue is empty, and
  inserting the block again changes neither.\<close>

theorem crash_loses_commands:
  assumes "chain_world E len cell content eh eb et" and "json J ok" and "chain_inv E content eh eb et bs ch"
    and "ch_latestHeight ch = tip_height bs" and "bs = [] \<longrightarrow> calc = None" and "fits b" and "accepts bs b"
    and "blk_Transactions b = pre @ t # post" and "dp_taskChannel (ch_dp ch) = []"
    and "length (er_publishChan r) + length (blk_Transactions b) \<le> publishChanSize"
    and "tx_task (ce_karmem E) b t = Some task" and "dt_Type task = ''set''"
    and "\<forall>t' \<in> set post. \<forall>task'. tx_task (ce_karmem E) b t' = Some task' \<longrightarrow> task_key task' \<noteq> task_key task"
  shows "\<exists>ch1 pool1 calc1. insertBlock E b (ch, Some p, calc) = Done (ch1, pool1, calc1)
    \<and> (\<exists>d r'. run_tasks J (ce_db E) (dp_taskChannel (ch_dp ch1)) (ch_db ch1, r) = Done (d, r')
         \<and> content d (task_key task) = Some (dt_Value task))
    \<and> (\<exists>ch2 calc2. NewBlockchain E (ch_db ch1) None = Done (ch2, calc2)
         \<and> chain_inv E content eh eb et (bs @ [b]) ch2 \<and> dp_taskChannel (ch_dp ch2) = []
         \<and> content (ch_db ch2) (task_key task) = content (ch_db ch) (task_key task)
         \<and> (\<exists>ch3 calc3. insertBlock E b (ch2, Some p2, calc2) = Done (ch3, Some p2, calc3)
              \<and> ch_db ch3 = ch_db ch2 \<and> dp_taskChannel (ch_dp ch3) = []))"
proof -
  note inv = chain_world.inv_def [OF assms(1)]
  have w: "chain_world E len cell content eh eb et" by (rule assms(1))
  note i0 = assms(3) [folded inv]
  obtain ch1 pool1 calc1 d r' where i: "insertBlock E b (ch, Some p, calc) = Done (ch1, pool1, calc1)"
    "run_tasks J (ce_db E) (dp_taskChannel (ch_dp ch1)) (ch_db ch1, r) = Done (d, r')"
    "content d (task_key task) = Some (dt_Value task)"
    using chain_world.committed_set_is_stored [OF w assms(2) i0 assms(4-13), of p] by blast
  have st1: "chain_world.inv E content eh eb et (ChainStore.extend bs b) ch1"
    using chain_world.insertBlock_Done [OF w i0 assms(6,4) i(1)] by simp
  have ext: "ChainStore.extend bs b = bs @ [b]" using assms(7) by (simp add: ChainStore.extend_def)
  have "chain_of (bs @ [b])" "stored (ce_karmem E) (content (ch_db ch1)) (bs @ [b])"
    using st1 unfolding ext inv by (simp_all add: chain_inv_def)
  then obtain ch2 calc2 where n: "NewBlockchain E (ch_db ch1) None = Done (ch2, calc2)"
    "chain_world.inv E content eh eb et (bs @ [b]) ch2" "ch_latestHeight ch2 = tip_height (bs @ [b])"
    "ch_db ch2 = ch_db ch1" "ch_dp ch2 = NewDataProcessor"
    using chain_world.NewBlockchain_spec [OF w, of "bs @ [b]" "ch_db ch1" None] by blast
  have "wf_tx t" using assms(6,8) by (simp add: fits_def wf_block_def)
  then have "length (dt_Address task) = 20" using tx_task_address assms(11) by blast
  then have old: "content (ch_db ch2) (task_key task) = content (ch_db ch) (task_key task)"
    using chain_world.insertBlock_data [OF w i0 assms(6) i(1)] n(4) by (simp add: task_key_def)
  have "\<not> accepts (bs @ [b]) b" by (simp add: accepts_def)
  then have again: "\<exists>ch3 calc3. insertBlock E b (ch2, Some p2, calc2) = Done (ch3, Some p2, calc3)
      \<and> ch_db ch3 = ch_db ch2 \<and> dp_taskChannel (ch_dp ch3) = []"
    using chain_world.insertBlock_spec [OF w n(2) assms(6) _ n(3), of calc2 p2] n(5) by (auto simp: NewDataProcessor_def)
  have "dp_taskChannel (ch_dp ch2) = []" using n(5) by (simp add: NewDataProcessor_def)
  then show ?thesis using i n(1,2) old again unfolding inv by blast
qed

section \<open>Witnesses\<close>

definition set_tx :: Transaction where
  "set_tx = \<lparr>tx_Body = (tx_Body sample_tx)\<lparr>tb_Data := the (SerializeDataCommand std_karmem
     \<lparr>dc_Opt = bytes_of_string ''set'', dc_Key = [1], dc_Value = [2]\<rparr>)\<rparr>\<rparr>"

lemma set_tx_ok: "wf_tx set_tx" "tx_size set_tx < 2 ^ 20"
    "\<exists>task. tx_task std_karmem b set_tx = Some task \<and> dt_Type task = ''set'' \<and> dt_Value task = [2]"
proof -
  let ?c = "\<lparr>dc_Opt = bytes_of_string ''set'', dc_Key = [1], dc_Value = [2]\<rparr>"
  obtain cb where cb: "SerializeDataCommand std_karmem ?c = Some cb" "length cb = 53" "DeserializeDataCommand std_karmem cb = ?c"
    using std.command_roundtrip [of ?c] by (auto simp: bytes_of_string_def)
  then have e: "set_tx = \<lparr>tx_Body = (tx_Body sample_tx)\<lparr>tb_Data := cb\<rparr>\<rparr>" by (simp add: set_tx_def)
  show "wf_tx set_tx" "tx_size set_tx < 2 ^ 20"
    "\<exists>task. tx_task std_karmem b set_tx = Some task \<and> dt_Type task = ''set'' \<and> dt_Value task = [2]"
    using cb wf_sample_tx unfolding e
    by (auto simp: wf_tx_def wf_body_def tx_size_def body_tail_def sample_tx_def tx_task_def Let_def)
qed

lemma crash_loses_commands_witness:
  "\<exists>b ch ch1 pool1 calc1 ch2 calc2 key. insertBlock std_env b (ch, Some (NewTxPool None), None) = Done (ch1, pool1, calc1)
    \<and> (\<exists>d r'. run_tasks tiny_json (ce_db std_env) (dp_taskChannel (ch_dp ch1)) (ch_db ch1, CreateNewEventRouter None :: nat EventRouter)
          = Done (d, r') \<and> d key = Some [2])
    \<and> NewBlockchain std_env (ch_db ch1) None = Done (ch2, calc2) \<and> dp_taskChannel (ch_dp ch2) = []
    \<and> ch_db ch2 key = ch_db ch key"
proof -
  obtain ch where c: "chain_inv std_env (\<lambda>d. d) list_entries list_entries list_entries [sample_genesis] ch"
    "ch_latestHeight ch = tip_height [sample_genesis]" "dp_taskChannel (ch_dp ch) = []"
    using std_genesis [of tiny_json] by blast
  define b where "b = sample_block\<lparr>blk_Transactions := [set_tx]\<rparr>"
  have fit: "fits b" using set_tx_ok(1,2) wf_sample_block
    by (simp add: b_def fits_def wf_block_def block_size_def sample_block_def sample_header_def)
  have acc: "accepts [sample_genesis] b"
    using accepts_sample_block by (simp add: b_def accepts_def IsGenesisBlock_iff isPrevBlock_def)
  obtain task where t: "tx_task std_karmem b set_tx = Some task" "dt_Type task = ''set''" "dt_Value task = [2]"
    using set_tx_ok(3) by blast
  have k: "ce_karmem std_env = std_karmem" by (simp add: std_env_def)
  have ts: "blk_Transactions b = [] @ set_tx # []" by (simp add: b_def)
  have room: "length (er_publishChan (CreateNewEventRouter None :: nat EventRouter)) + length (blk_Transactions b) \<le> publishChanSize"
    by (simp add: CreateNewEventRouter_def b_def publishChanSize_def)
  show ?thesis
    using crash_loses_commands [OF std_world.chain_world_axioms tiny.json_axioms c(1,2) _ fit acc ts c(3) room t(1) [folded k] t(2),
      of None "NewTxPool None"] t(3) by auto blast
qed

end
