(* ===== verification/Metrics.thy ===== *)
theory Metrics
  imports Chain TimeSync BlockSync
begin

text \<open>
  src/metrics: the gauges and counters a node exports, and the operations of the other parts together with the calls
  by which they report. A gauge is a float64 in Prometheus; the values here are integers, which it holds exactly below
  \<open>2 ^ 53\<close>. A labelled counter is kept by the number its label writes out.
\<close>

section \<open>Gauges and counters\<close>

record CoreMetrics =
  poolTransactionsMetric :: int
  packageBlockMetric :: int
  verifyTransactionMetric :: int
  coreBufferSecondQueueMetrices :: int

record NodeMetrics =
  timeSyncDelta :: int
  transactionInsertCount :: int
  connectNodeCount :: int
  blockHeightCount :: int
  RoutineCreateCodeCounter :: "int \<Rightarrow> nat"
  HandleReceivedMessageCodeCounter :: "int \<Rightarrow> nat"
  TimeSyncrStatus :: int
  BlockSyncrStatus :: int
  transactionInsertCounter :: nat

record P2PMetrics =
  sendQueueCounter :: nat
  recvQueueCounter :: nat
  gossipReceiveCounter :: nat
  gossipBlockReceiveCounter :: nat
  gossipBlockBroadcastCounter :: nat
  gossipUDPSendCounter :: nat
  gossipUDPRecvCounter :: nat

text \<open>All start at zero.\<close>

definition new_core :: CoreMetrics where
  "new_core = \<lparr>poolTransactionsMetric = 0, packageBlockMetric = 0, verifyTransactionMetric = 0, coreBufferSecondQueueMetrices = 0\<rparr>"

definition new_node :: NodeMetrics where
  "new_node = \<lparr>timeSyncDelta = 0, transactionInsertCount = 0, connectNodeCount = 0, blockHeightCount = 0,
     RoutineCreateCodeCounter = (\<lambda>_. 0), HandleReceivedMessageCodeCounter = (\<lambda>_. 0), TimeSyncrStatus = 0,
     BlockSyncrStatus = 0, transactionInsertCounter = 0\<rparr>"

definition new_p2p :: P2PMetrics where
  "new_p2p = \<lparr>sendQueueCounter = 0, recvQueueCounter = 0, gossipReceiveCounter = 0, gossipBlockReceiveCounter = 0,
     gossipBlockBroadcastCounter = 0, gossipUDPSendCounter = 0, gossipUDPRecvCounter = 0\<rparr>"

definition TxPoolMetricsInc :: "CoreMetrics \<Rightarrow> CoreMetrics" where
  "TxPoolMetricsInc m = m\<lparr>poolTransactionsMetric := poolTransactionsMetric m + 1\<rparr>"
definition TxPoolMetricsDec :: "CoreMetrics \<Rightarrow> CoreMetrics" where
  "TxPoolMetricsDec m = m\<lparr>poolTransactionsMetric := poolTransactionsMetric m - 1\<rparr>"
definition PackageBlockMetricsSet :: "int \<Rightarrow> CoreMetrics \<Rightarrow> CoreMetrics" where
  "PackageBlockMetricsSet usage m = m\<lparr>packageBlockMetric := usage\<rparr>"
definition VerifyTransactionMetricsSet :: "int \<Rightarrow> CoreMetrics \<Rightarrow> CoreMetrics" where
  "VerifyTransactionMetricsSet usage m = m\<lparr>verifyTransactionMetric := usage\<rparr>"
definition SecondBufferInc :: "CoreMetrics \<Rightarrow> CoreMetrics" where
  "SecondBufferInc m = m\<lparr>coreBufferSecondQueueMetrices := coreBufferSecondQueueMetrices m + 1\<rparr>"
definition SecondBufferDec :: "CoreMetrics \<Rightarrow> CoreMetrics" where
  "SecondBufferDec m = m\<lparr>coreBufferSecondQueueMetrices := coreBufferSecondQueueMetrices m - 1\<rparr>"

definition TimeSyncDeltaSet :: "int \<Rightarrow> NodeMetrics \<Rightarrow> NodeMetrics" where
  "TimeSyncDeltaSet val m = m\<lparr>timeSyncDelta := val\<rparr>"
definition TransactionInsertAdd :: "int \<Rightarrow> NodeMetrics \<Rightarrow> NodeMetrics" where
  "TransactionInsertAdd val m = m\<lparr>transactionInsertCount := transactionInsertCount m + val\<rparr>"
definition ConnectedNodeInc :: "NodeMetrics \<Rightarrow> NodeMetrics" where
  "ConnectedNodeInc m = m\<lparr>connectNodeCount := connectNodeCount m + 1\<rparr>"
definition ConnectedNodeDec :: "NodeMetrics \<Rightarrow> NodeMetrics" where
  "ConnectedNodeDec m = m\<lparr>connectNodeCount := connectNodeCount m - 1\<rparr>"
definition RoutineCreateCounterObserve :: "int \<Rightarrow> NodeMetrics \<Rightarrow> NodeMetrics" where
  "RoutineCreateCounterObserve val m =
     m\<lparr>RoutineCreateCodeCounter := (RoutineCreateCodeCounter m)(val := Suc (RoutineCreateCodeCounter m val))\<rparr>"
definition BlockHeightSet :: "int \<Rightarrow> NodeMetrics \<Rightarrow> NodeMetrics" where
  "BlockHeightSet height m = m\<lparr>blockHeightCount := height\<rparr>"
definition RecordHandleReceivedCode :: "int \<Rightarrow> NodeMetrics \<Rightarrow> NodeMetrics" where
  "RecordHandleReceivedCode code m =
     m\<lparr>HandleReceivedMessageCodeCounter := (HandleReceivedMessageCodeCounter m)(code := Suc (HandleReceivedMessageCodeCounter m code))\<rparr>"
definition TimeSyncerStatusSet :: "int \<Rightarrow> NodeMetrics \<Rightarrow> NodeMetrics" where
  "TimeSyncerStatusSet code m = m\<lparr>TimeSyncrStatus := code\<rparr>"
definition BlockSyncerStatusSet :: "int \<Rightarrow> NodeMetrics \<Rightarrow> NodeMetrics" where
  "BlockSyncerStatusSet code m = m\<lparr>BlockSyncrStatus := code\<rparr>"
definition TransactionInsertInc :: "NodeMetrics \<Rightarrow> NodeMetrics" where
  "TransactionInsertInc m = m\<lparr>transactionInsertCounter := Suc (transactionInsertCounter m)\<rparr>"

definition SendQueueCountInc :: "P2PMetrics \<Rightarrow> P2PMetrics" where
  "SendQueueCountInc m = m\<lparr>sendQueueCounter := Suc (sendQueueCounter m)\<rparr>"
definition RecvQueueCountInc :: "P2PMetrics \<Rightarrow> P2PMetrics" where
  "RecvQueueCountInc m = m\<lparr>recvQueueCounter := Suc (recvQueueCounter m)\<rparr>"
definition GossipReceiveCountInc :: "P2PMetrics \<Rightarrow> P2PMetrics" where
  "GossipReceiveCountInc m = m\<lparr>gossipReceiveCounter := Suc (gossipReceiveCounter m)\<rparr>"
definition GossipReceiveBlocksCountInc :: "P2PMetrics \<Rightarrow> P2PMetrics" where
  "GossipReceiveBlocksCountInc m = m\<lparr>gossipBlockReceiveCounter := Suc (gossipBlockReceiveCounter m)\<rparr>"
definition GossipBroadcastBlocksCountInc :: "P2PMetrics \<Rightarrow> P2PMetrics" where
  "GossipBroadcastBlocksCountInc m = m\<lparr>gossipBlockBroadcastCounter := Suc (gossipBlockBroadcastCounter m)\<rparr>"
definition GossipUDPSendCountInc :: "P2PMetrics \<Rightarrow> P2PMetrics" where
  "GossipUDPSendCountInc m = m\<lparr>gossipUDPSendCounter := Suc (gossipUDPSendCounter m)\<rparr>"
definition GossipUDPRecvCountInc :: "P2PMetrics \<Rightarrow> P2PMetrics" where
  "GossipUDPRecvCountInc m = m\<lparr>gossipUDPRecvCounter := Suc (gossipUDPRecvCounter m)\<rparr>"

definition SubmitTxCountsMetricsInc :: "nat \<Rightarrow> nat" where
  "SubmitTxCountsMetricsInc submitTransactionCountsMetric = Suc submitTransactionCountsMetric"

text \<open>
  A tick of the routine that reads the processor load: \<open>percent\<close> is what the library returned, the empty list with an
  error, which is not looked at.
\<close>

definition getCpuPercent :: "int list \<Rightarrow> int outcome" where
  "getCpuPercent percent = (case percent of [] \<Rightarrow> Panics | p # _ \<Rightarrow> Done p)"

definition RegularMetricsRoutine :: "int list \<Rightarrow> int \<Rightarrow> int outcome" where
  "RegularMetricsRoutine percent cpuPercentGauge = getCpuPercent percent"

lemmas core_metric_defs = TxPoolMetricsInc_def TxPoolMetricsDec_def SecondBufferInc_def SecondBufferDec_def
lemmas node_metric_defs = TimeSyncDeltaSet_def ConnectedNodeInc_def ConnectedNodeDec_def RoutineCreateCounterObserve_def
  TimeSyncerStatusSet_def BlockSyncerStatusSet_def

section \<open>The operations with their reports\<close>

subsection \<open>Transaction pool\<close>

definition metered_Add :: "Transaction \<Rightarrow> TxPool \<times> CoreMetrics \<Rightarrow> TxPool \<times> CoreMetrics" where
  "metered_Add t s =
     (case s of (pool, m) \<Rightarrow> if tp_count pool > maxTxPoolSize then (pool, m) else (Add t pool, TxPoolMetricsInc m))"

definition metered_RemoveTx :: "bytes \<Rightarrow> TxPool \<times> CoreMetrics \<Rightarrow> TxPool \<times> CoreMetrics" where
  "metered_RemoveTx hash s =
     (case s of (pool, m) \<Rightarrow>
       if tp_txs pool (hex_encode hash) = None then (pool, m) else (RemoveTx hash pool, TxPoolMetricsDec m))"

fun metered_package_loop ::
    "('ch \<Rightarrow> bytes \<Rightarrow> (Transaction option \<times> 'ch)) \<Rightarrow> nat \<Rightarrow> nat \<Rightarrow> Transaction list \<Rightarrow> TxPool \<times> CoreMetrics \<Rightarrow> 'ch
       \<Rightarrow> (Transaction list \<times> (TxPool \<times> CoreMetrics) \<times> 'ch) outcome" where
  "metered_package_loop get 0 count result pm ch = Done (result, pm, ch)"
| "metered_package_loop get (Suc n) count result (pool, m) ch =
     (case tp_txQueue pool of
        [] \<Rightarrow> Done (result, (pool, m), ch)
      | txHash # rest \<Rightarrow>
          if count > maxTxPackageCount then Done (result, (pool, m), ch)
          else let pool1 = pool\<lparr>tp_txQueue := rest\<rparr> in
            (case hex_decode txHash of
               None \<Rightarrow> metered_package_loop get n count result (pool1, m) ch
             | Some commonHash \<Rightarrow>
                (case tp_txs pool1 txHash of
                   None \<Rightarrow> metered_package_loop get n count result (pool1, m) ch
                 | Some val \<Rightarrow>
                     bindO (to_array 32 commonHash) (\<lambda>h.
                       case get ch h of
                         (Some tx, ch1) \<Rightarrow>
                           metered_package_loop get n count result (delete_tx txHash pool1, TxPoolMetricsDec m) ch1
                       | (None, ch1) \<Rightarrow>
                           metered_package_loop get n (Suc count) (result @ [val]) (delete_tx txHash pool1, TxPoolMetricsDec m) ch1))))"

definition metered_Package ::
    "('ch \<Rightarrow> bytes \<Rightarrow> (Transaction option \<times> 'ch)) \<Rightarrow> string list \<Rightarrow> TxPool \<times> CoreMetrics \<Rightarrow> 'ch
       \<Rightarrow> (Transaction list \<times> (TxPool \<times> CoreMetrics) \<times> 'ch) outcome" where
  "metered_Package get order s ch =
     (case s of (pool, m) \<Rightarrow> bindO (range_txs order (tp_txQueue pool))
       (\<lambda>q. metered_package_loop get maxTxPackageCount 0 [] (pool\<lparr>tp_txQueue := q\<rparr>, m) ch))"

subsection \<open>Buffer\<close>

text \<open>The gauge is raised before the send.\<close>

definition metered_second_or_drop ::
    "'c lru_set \<Rightarrow> Block \<Rightarrow> 'c BlockBuffer \<times> CoreMetrics \<Rightarrow> ('c BlockBuffer \<times> CoreMetrics) outcome" where
  "metered_second_or_drop L block s =
     (case s of (b, m) \<Rightarrow>
       bindO (second_or_drop L block b) (\<lambda>b'.
         Done (b', if \<not> lru_contains L (bf_processedBlocks b) (PrevBlockHash block) then SecondBufferInc m else m)))"

definition metered_second_receive ::
    "'c view_state \<times> CoreMetrics \<Rightarrow> (Block \<times> 'c view_state \<times> CoreMetrics) outcome" where
  "metered_second_receive s =
     (case s of (v, m) \<Rightarrow> bindO (second_receive v) (\<lambda>(block, v'). Done (block, v', SecondBufferDec m)))"

subsection \<open>Synchronisers\<close>

definition time_code :: "SyncStatus \<Rightarrow> int" where
  "time_code s = (case s of INITIAL \<Rightarrow> 1 | SYNCED \<Rightarrow> 2 | CONFIRMING \<Rightarrow> 3)"

definition metered_NewTimeSyncer :: "bool \<Rightarrow> int \<Rightarrow> NodeMetrics \<Rightarrow> TimeSyncer \<times> NodeMetrics" where
  "metered_NewTimeSyncer genesis delta m = (NewTimeSyncer genesis delta, TimeSyncerStatusSet (time_code INITIAL) m)"

definition metered_TimeSyncer_Start :: "TimeSyncer \<times> NodeMetrics \<Rightarrow> TimeSyncer \<times> NodeMetrics" where
  "metered_TimeSyncer_Start s =
     (case s of (ts, m) \<Rightarrow>
       if \<not> tsy_genesis ts then (ts, RoutineCreateCounterObserve 27 m)
       else (TimeSyncer_Start ts, TimeSyncerStatusSet (time_code SYNCED) m))"

definition metered_ProcessSyncRespond :: "TimeSyncMsg \<Rightarrow> TimeSyncer \<times> NodeMetrics \<Rightarrow> TimeSyncer \<times> NodeMetrics" where
  "metered_ProcessSyncRespond msg s =
     (case s of (ts, m) \<Rightarrow>
       if ts_Code msg \<noteq> 0 then (ts, m)
       else let delta = sync_delta msg; ts' = ProcessSyncRespond msg ts in
         if tsy_status ts = INITIAL then (ts', TimeSyncerStatusSet (time_code CONFIRMING) m)
         else let m1 = (if go_abs delta < availableThreshold then TimeSyncDeltaSet delta m else m);
                  confirmed = (if go_abs delta < availableThreshold
                    then (if tsy_status ts = CONFIRMING then i64 (tsy_confirmTimes ts + 1) else tsy_confirmTimes ts) else 0)
              in (ts', if tsy_status ts = CONFIRMING \<and> confirmed = confirmThreshold
                       then TimeSyncerStatusSet (time_code SYNCED) m1 else m1))"

definition metered_NewBlockSyncer :: "NodeMetrics \<Rightarrow> BlockSyncer \<times> NodeMetrics" where
  "metered_NewBlockSyncer m = (NewBlockSyncer, BlockSyncerStatusSet (int syncPaused) m)"

definition metered_BlockSyncer_Start :: "BlockSyncer \<times> NodeMetrics \<Rightarrow> BlockSyncer \<times> NodeMetrics" where
  "metered_BlockSyncer_Start s =
     (case s of (bs, m) \<Rightarrow> (BlockSyncer_Start bs, BlockSyncerStatusSet (int blockSyncing) (RoutineCreateCounterObserve 11 m)))"

definition metered_process_status :: "int \<Rightarrow> SyncStatusMsg \<Rightarrow> BlockSyncer \<times> NodeMetrics \<Rightarrow> BlockSyncer \<times> NodeMetrics" where
  "metered_process_status chainHeight msg s =
     (case s of (bs, m) \<Rightarrow>
       let height = ss_LatestHeight msg; bufferHeight = ss_BufferedEndHeight msg in
       if height = -1 then (bs, m)
       else let remote = max height (by_remoteHeight bs);
                target = (if bufferHeight \<noteq> -1 \<and> by_status bs = blockSyncing
                  then max bufferHeight (by_targetHeight bs) else by_targetHeight bs);
                m1 = (if remote = by_knownHeight bs then BlockSyncerStatusSet (int bufferSyncing) m else m)
            in (process_status chainHeight msg bs,
                if chainHeight = target then BlockSyncerStatusSet (int synced) m1 else m1))"

definition metered_setSynced :: "BlockSyncer \<times> NodeMetrics \<Rightarrow> BlockSyncer \<times> NodeMetrics" where
  "metered_setSynced s = (case s of (bs, m) \<Rightarrow> (setSynced bs, BlockSyncerStatusSet (int synced) m))"

subsection \<open>Connections\<close>

text \<open>\<open>NewPeer\<close> of the manager is followed by the report; a write error marks the peer and reports.\<close>

definition metered_NewP2PPeer :: "P2PPeer list \<times> NodeMetrics \<Rightarrow> P2PPeer list \<times> NodeMetrics" where
  "metered_NewP2PPeer s =
     (case s of (peers, m) \<Rightarrow> (peers @ [NewP2PPeer], ConnectedNodeInc (RoutineCreateCounterObserve 13 m)))"

definition metered_writeLoop ::
    "'w karmem_ops \<Rightarrow> nat option \<Rightarrow> (P2PPeer \<times> bytes) \<times> NodeMetrics \<Rightarrow> ((P2PPeer \<times> bytes) \<times> NodeMetrics) outcome" where
  "metered_writeLoop K failure s =
     (case s of ((p, stream), m) \<Rightarrow>
       bindO (writeLoop K failure (p, stream)) (\<lambda>(p', stream').
         Done ((p', stream'), if \<not> pp_stopped p \<and> failure \<noteq> None
             \<and> SerializeMessage K (hd (pp_sendQueue p)) \<noteq> None then ConnectedNodeDec m else m)))"

definition metered_Send :: "nat \<Rightarrow> bytes \<Rightarrow> P2PPeer \<times> P2PMetrics \<Rightarrow> (P2PPeer \<times> P2PMetrics) outcome" where
  "metered_Send msgCode payload s =
     (case s of (p, m) \<Rightarrow> bindO (Send msgCode payload p) (\<lambda>p'. Done (p', SendQueueCountInc m)))"

section \<open>Runs\<close>

record 'c metered =
  me_pool :: TxPool
  me_buffer :: "'c view_state"
  me_time :: TimeSyncer
  me_block :: BlockSyncer
  me_peers :: "P2PPeer list"
  me_core :: CoreMetrics
  me_node :: NodeMetrics

definition metered_start :: "'c view_state \<Rightarrow> bool \<Rightarrow> int \<Rightarrow> 'c metered" where
  "metered_start v genesis delta =
     (let (ts, m1) = metered_NewTimeSyncer genesis delta new_node; (bs, m2) = metered_NewBlockSyncer m1
      in \<lparr>me_pool = NewTxPool None, me_buffer = v, me_time = ts, me_block = bs, me_peers = [], me_core = new_core, me_node = m2\<rparr>)"

inductive metered_reach ::
    "'c lru_set \<Rightarrow> 'w karmem_ops \<Rightarrow> ('ch \<Rightarrow> bytes \<Rightarrow> (Transaction option \<times> 'ch)) \<Rightarrow> 'c metered \<Rightarrow> 'c metered \<Rightarrow> bool"
    for L K get s0 where
  start: "metered_reach L K get s0 s0"
| add: "metered_reach L K get s0 s \<Longrightarrow> metered_Add t (me_pool s, me_core s) = (p, m) \<Longrightarrow>
    metered_reach L K get s0 (s\<lparr>me_pool := p, me_core := m\<rparr>)"
| remove: "metered_reach L K get s0 s \<Longrightarrow> metered_RemoveTx h (me_pool s, me_core s) = (p, m) \<Longrightarrow>
    metered_reach L K get s0 (s\<lparr>me_pool := p, me_core := m\<rparr>)"
| package: "metered_reach L K get s0 s \<Longrightarrow> metered_Package get order (me_pool s, me_core s) ch = Done (txs, (p, m), ch') \<Longrightarrow>
    metered_reach L K get s0 (s\<lparr>me_pool := p, me_core := m\<rparr>)"
| put_second: "metered_reach L K get s0 s \<Longrightarrow> me_buffer s = (b, rest) \<Longrightarrow>
    metered_second_or_drop L block (b, me_core s) = Done (b', m) \<Longrightarrow>
    metered_reach L K get s0 (s\<lparr>me_buffer := (b', rest), me_core := m\<rparr>)"
| take_second: "metered_reach L K get s0 s \<Longrightarrow> metered_second_receive (me_buffer s, me_core s) = Done (block, v, m) \<Longrightarrow>
    metered_reach L K get s0 (s\<lparr>me_buffer := v, me_core := m\<rparr>)"
| accept: "metered_reach L K get s0 s \<Longrightarrow> accept_block L K block (me_buffer s) = Done v \<Longrightarrow>
    metered_reach L K get s0 (s\<lparr>me_buffer := v\<rparr>)"
| time_start: "metered_reach L K get s0 s \<Longrightarrow> metered_TimeSyncer_Start (me_time s, me_node s) = (ts, m) \<Longrightarrow>
    metered_reach L K get s0 (s\<lparr>me_time := ts, me_node := m\<rparr>)"
| time_respond: "metered_reach L K get s0 s \<Longrightarrow> metered_ProcessSyncRespond msg (me_time s, me_node s) = (ts, m) \<Longrightarrow>
    metered_reach L K get s0 (s\<lparr>me_time := ts, me_node := m\<rparr>)"
| block_start: "metered_reach L K get s0 s \<Longrightarrow> metered_BlockSyncer_Start (me_block s, me_node s) = (bs, m) \<Longrightarrow>
    metered_reach L K get s0 (s\<lparr>me_block := bs, me_node := m\<rparr>)"
| block_status: "metered_reach L K get s0 s \<Longrightarrow> metered_process_status height status (me_block s, me_node s) = (bs, m) \<Longrightarrow>
    metered_reach L K get s0 (s\<lparr>me_block := bs, me_node := m\<rparr>)"
| block_synced: "metered_reach L K get s0 s \<Longrightarrow> metered_setSynced (me_block s, me_node s) = (bs, m) \<Longrightarrow>
    metered_reach L K get s0 (s\<lparr>me_block := bs, me_node := m\<rparr>)"
| connect: "metered_reach L K get s0 s \<Longrightarrow> metered_NewP2PPeer (me_peers s, me_node s) = (ps, m) \<Longrightarrow>
    metered_reach L K get s0 (s\<lparr>me_peers := ps, me_node := m\<rparr>)"
| send: "metered_reach L K get s0 s \<Longrightarrow> i < length (me_peers s) \<Longrightarrow> Send code payload (me_peers s ! i) = Done p \<Longrightarrow>
    metered_reach L K get s0 (s\<lparr>me_peers := (me_peers s)[i := p]\<rparr>)"
| reads: "metered_reach L K get s0 s \<Longrightarrow> i < length (me_peers s) \<Longrightarrow> readLoop K now (me_peers s ! i, stream) = Done (p, stream') \<Longrightarrow>
    metered_reach L K get s0 (s\<lparr>me_peers := (me_peers s)[i := p]\<rparr>)"
| writes: "metered_reach L K get s0 s \<Longrightarrow> i < length (me_peers s) \<Longrightarrow>
    metered_writeLoop K failure ((me_peers s ! i, stream), me_node s) = Done ((p, stream'), m) \<Longrightarrow>
    metered_reach L K get s0 (s\<lparr>me_peers := (me_peers s)[i := p], me_node := m\<rparr>)"

section \<open>Lemmas\<close>

lemma metered_package_loop_gauge:
  "metered_package_loop get n count result (pool, m) ch = Done (txs, (pool', m'), ch') \<Longrightarrow>
     poolTransactionsMetric m' - tp_count pool' = poolTransactionsMetric m - tp_count pool
     \<and> coreBufferSecondQueueMetrices m' = coreBufferSecondQueueMetrices m"
proof (induction n arbitrary: count result pool m ch)
  case (Suc n)
  show ?case
  proof (cases "tp_txQueue pool = [] \<or> count > maxTxPackageCount")
    case True
    then show ?thesis using Suc.prems by (auto split: list.splits)
  next
    case False
    then obtain h rest where q: "tp_txQueue pool = h # rest" by (cases "tp_txQueue pool") auto
    define pool1 where "pool1 = pool\<lparr>tp_txQueue := rest\<rparr>"
    have c: "tp_count pool1 = tp_count pool" "tp_count (delete_tx h pool1) = tp_count pool - 1"
      by (simp_all add: pool1_def delete_tx_def)
    note run = Suc.prems [simplified metered_package_loop.simps q list.case Let_def pool1_def [symmetric]]
    show ?thesis
    proof (cases "hex_decode h = None \<or> tp_txs pool1 h = None")
      case True
      then have "metered_package_loop get n count result (pool1, m) ch = Done (txs, (pool', m'), ch')"
        using run False by (auto split: option.splits)
      then show ?thesis using Suc.IH c(1) by fastforce
    next
      case hit: False
      then obtain a t where a: "hex_decode h = Some a" "tp_txs pool1 h = Some t" by auto
      obtain h32 where h: "to_array 32 a = Done h32" using run False a by (auto simp: outcome_simps)
      obtain f ch2 where f: "get ch h32 = (f, ch2)" by (cases "get ch h32")
      obtain ch1 count1 result1 where
        "metered_package_loop get n count1 result1 (delete_tx h pool1, TxPoolMetricsDec m) ch1 = Done (txs, (pool', m'), ch')"
        using run False a h f by (cases f) auto
      then show ?thesis using Suc.IH c(2) by (fastforce simp: TxPoolMetricsDec_def)
    qed
  qed
qed simp

lemma select_block_queue: "select_block x b = Done b' \<Longrightarrow> bf_secondChan b' = bf_secondChan b"
  by (auto simp: select_block_def Let_def updateTreeView_def split: option.splits prod.splits if_splits)

lemma pop_block_queue: "pop_block x b q = Done (b', q') \<Longrightarrow> bf_secondChan b' = bf_secondChan b"
  by (auto simp: pop_block_def PopSelectedBlock_def Let_def outcome_simps split: option.splits if_splits)

lemma accept_block_queue:
  assumes "accept_block L K x (b, q, c) = Done (b', q', c')"
  shows "bf_secondChan b' = bf_secondChan b"
  using assms select_block_queue pop_block_queue
  by (fastforce simp: accept_block_def Let_def outcome_simps split: if_splits prod.splits)

text \<open>How many connections run.\<close>

definition running :: "P2PPeer list \<Rightarrow> int" where
  "running ps = (\<Sum>p\<leftarrow>ps. if pp_stopped p then 0 else 1)"

lemma running_update:
  "i < length ps \<Longrightarrow> running (ps[i := p]) = running ps + (if pp_stopped (ps ! i) then 1 else 0) - (if pp_stopped p then 1 else 0)"
proof (induction ps arbitrary: i)
  case (Cons q ps)
  have q: "running (q # ps) = (if pp_stopped q then 0 else 1) + running ps" for q ps by (simp add: running_def)
  show ?case
  proof (cases i)
    case (Suc n)
    then show ?thesis using Cons by (simp add: q)
  qed (simp add: q)
qed simp

lemma running_same: "i < length ps \<Longrightarrow> pp_stopped p = pp_stopped (ps ! i) \<Longrightarrow> running (ps[i := p]) = running ps"
  by (simp add: running_update)

lemma send_keeps_stopped: "Send code payload p = Done p' \<Longrightarrow> pp_stopped p' = pp_stopped p"
  by (auto simp: Send_def outcome_simps)

lemma read_keeps_stopped:
  assumes "readLoop K now (p, stream) = Done (p', stream')"
  shows "pp_stopped p' = pp_stopped p"
proof -
  have "pp_stopped p' = pp_stopped p" if "p2p_handle msg p = Done p'" for msg
    using that send_keeps_stopped [of StatusCodePongMsg "[]" p p'] by (auto simp: p2p_handle_def outcome_simps split: if_splits)
  then show ?thesis using assms by (auto simp: readLoop_def Let_def outcome_simps split: if_splits option.splits)
qed

lemma write_stops:
  assumes "metered_writeLoop K failure ((p, stream), m) = Done ((p', stream'), m')"
  shows "connectNodeCount m' = connectNodeCount m + (if pp_stopped p then 1 else 0) - (if pp_stopped p' then 1 else 0)
    \<and> TimeSyncrStatus m' = TimeSyncrStatus m \<and> BlockSyncrStatus m' = BlockSyncrStatus m"
  using assms
  by (auto simp: metered_writeLoop_def writeLoop_def Let_def ConnectedNodeDec_def outcome_simps
      split: if_splits option.splits list.splits)

text \<open>What the gauges say.\<close>

definition gauges_ok :: "'c metered \<Rightarrow> bool" where
  "gauges_ok s \<longleftrightarrow> poolTransactionsMetric (me_core s) = tp_count (me_pool s)
     \<and> coreBufferSecondQueueMetrices (me_core s) = int (length (bf_secondChan (fst (me_buffer s))))
     \<and> TimeSyncrStatus (me_node s) = time_code (tsy_status (me_time s))
     \<and> BlockSyncrStatus (me_node s) = int (by_status (me_block s))
     \<and> connectNodeCount (me_node s) = running (me_peers s)"

lemma time_respond_gauge:
  assumes "metered_ProcessSyncRespond msg (ts, m) = (ts', m')" and "TimeSyncrStatus m = time_code (tsy_status ts)"
  shows "TimeSyncrStatus m' = time_code (tsy_status ts') \<and> BlockSyncrStatus m' = BlockSyncrStatus m
    \<and> connectNodeCount m' = connectNodeCount m"
proof (cases "ts_Code msg = 0")
  case code: True
  show ?thesis
  proof (cases "tsy_status ts = INITIAL")
    case True
    then show ?thesis using assms code
      by (simp add: metered_ProcessSyncRespond_def ProcessSyncRespond_def Let_def node_metric_defs) (elim conjE, hypsubst, simp)
  next
    case False
    then show ?thesis using assms code
      by (cases "tsy_status ts"; cases "go_abs (sync_delta msg) < availableThreshold")
        (auto simp: metered_ProcessSyncRespond_def ProcessSyncRespond_def Let_def node_metric_defs confirmThreshold_def split: if_splits)
  qed
next
  case False
  then show ?thesis using assms by (simp add: metered_ProcessSyncRespond_def ProcessSyncRespond_def)
qed

lemma process_status_code:
  assumes "ss_LatestHeight msg \<noteq> -1" and "remote = max (ss_LatestHeight msg) (by_remoteHeight bs)"
    and "target = (if ss_BufferedEndHeight msg \<noteq> -1 \<and> by_status bs = blockSyncing
      then max (ss_BufferedEndHeight msg) (by_targetHeight bs) else by_targetHeight bs)"
  shows "by_status (process_status h msg bs) =
    (if h = target then synced else if remote = by_knownHeight bs then bufferSyncing else by_status bs)"
proof -
  have run: "process_status h msg bs =
      (let bs1 = bs\<lparr>by_remoteHeight := remote\<rparr>;
           bs2 = (if ss_BufferedEndHeight msg \<noteq> -1 \<and> by_status bs1 = blockSyncing
             then bs1\<lparr>by_targetHeight := max (ss_BufferedEndHeight msg) (by_targetHeight bs1)\<rparr> else bs1);
           bs3 = (if by_remoteHeight bs2 = by_knownHeight bs2 then bs2\<lparr>by_status := bufferSyncing\<rparr> else bs2)
       in if h = by_targetHeight bs3 then bs3\<lparr>by_status := synced\<rparr> else bs3)"
    unfolding process_status_def Let_def assms(2) if_not_P [OF assms(1)] ..
  define t where "t = max (ss_BufferedEndHeight msg) (by_targetHeight bs)"
  show ?thesis
  proof (cases "ss_BufferedEndHeight msg \<noteq> -1 \<and> by_status bs = blockSyncing")
    case True
    then have "target = t" by (simp add: assms(3) t_def)
    moreover have "process_status h msg bs =
      (let bs3 = (if remote = by_knownHeight bs then bs\<lparr>by_remoteHeight := remote, by_targetHeight := t, by_status := bufferSyncing\<rparr>
                  else bs\<lparr>by_remoteHeight := remote, by_targetHeight := t\<rparr>)
       in if h = by_targetHeight bs3 then bs3\<lparr>by_status := synced\<rparr> else bs3)"
      using True by (simp add: run Let_def t_def)
    ultimately show ?thesis by (simp add: Let_def)
  next
    case False
    then have "target = by_targetHeight bs" unfolding assms(3) by (rule if_not_P)
    moreover have "process_status h msg bs =
      (let bs3 = (if remote = by_knownHeight bs then bs\<lparr>by_remoteHeight := remote, by_status := bufferSyncing\<rparr>
                  else bs\<lparr>by_remoteHeight := remote\<rparr>)
       in if h = by_targetHeight bs3 then bs3\<lparr>by_status := synced\<rparr> else bs3)"
      by (simp add: run Let_def False)
    ultimately show ?thesis by (simp add: Let_def)
  qed
qed

lemma block_status_gauge:
  assumes "metered_process_status h msg (bs, m) = (bs', m')" and "BlockSyncrStatus m = int (by_status bs)"
  shows "BlockSyncrStatus m' = int (by_status bs') \<and> TimeSyncrStatus m' = TimeSyncrStatus m
    \<and> connectNodeCount m' = connectNodeCount m"
proof (cases "ss_LatestHeight msg = -1")
  case True
  then show ?thesis using assms by (simp add: metered_process_status_def)
next
  case False
  define remote where "remote = max (ss_LatestHeight msg) (by_remoteHeight bs)"
  define target where "target = (if ss_BufferedEndHeight msg \<noteq> -1 \<and> by_status bs = blockSyncing
      then max (ss_BufferedEndHeight msg) (by_targetHeight bs) else by_targetHeight bs)"
  note code = process_status_code [OF False remote_def target_def]
  have "bs' = process_status h msg bs"
    "m' = (if h = target then BlockSyncerStatusSet (int synced) (if remote = by_knownHeight bs then BlockSyncerStatusSet (int bufferSyncing) m else m)
       else if remote = by_knownHeight bs then BlockSyncerStatusSet (int bufferSyncing) m else m)"
    using assms(1) False unfolding metered_process_status_def Let_def prod.case if_not_P [OF False] remote_def [symmetric] target_def [symmetric]
    by simp_all
  then show ?thesis using assms(2) by (simp add: code BlockSyncerStatusSet_def)
qed

lemma second_put_gauge:
  assumes "metered_second_or_drop L x (b, m) = Done (b', m')" and "coreBufferSecondQueueMetrices m = int (length (bf_secondChan b))"
  shows "coreBufferSecondQueueMetrices m' = int (length (bf_secondChan b')) \<and> poolTransactionsMetric m' = poolTransactionsMetric m"
  using assms by (auto simp: metered_second_or_drop_def second_or_drop_def chan_send_def outcome_simps core_metric_defs split: if_splits)

lemma second_take_gauge:
  assumes "metered_second_receive (v, m) = Done (x, v', m')" and "coreBufferSecondQueueMetrices m = int (length (bf_secondChan (fst v)))"
  shows "coreBufferSecondQueueMetrices m' = int (length (bf_secondChan (fst v'))) \<and> poolTransactionsMetric m' = poolTransactionsMetric m"
  using assms by (auto simp: metered_second_receive_def second_receive_def outcome_simps core_metric_defs split: prod.splits list.splits)

section \<open>Properties\<close>

text \<open>C40: The exported gauges say what the state is, after any sequence of the operations that report: the gauge of the
  pool is its counter (not the number of its transactions, which is smaller when one was added twice), the gauge of the
  second queue its length, the two status gauges the states of the clock and the block syncer, and the gauge of
  connections the number of those whose writer has not failed.\<close>

theorem gauges_follow_state:
  assumes "metered_reach L K get (metered_start (NewBlockBuffer L g, [], c) genesis delta) s"
  shows "poolTransactionsMetric (me_core s) = tp_count (me_pool s)
    \<and> coreBufferSecondQueueMetrices (me_core s) = int (length (bf_secondChan (fst (me_buffer s))))
    \<and> TimeSyncrStatus (me_node s) = time_code (tsy_status (me_time s))
    \<and> BlockSyncrStatus (me_node s) = int (by_status (me_block s))
    \<and> connectNodeCount (me_node s) = (\<Sum>p\<leftarrow>me_peers s. if pp_stopped p then 0 else 1)"
proof -
  have "gauges_ok s" using assms
  proof (induction rule: metered_reach.induct)
    case start
    then show ?case
      by (simp add: gauges_ok_def metered_start_def metered_NewTimeSyncer_def metered_NewBlockSyncer_def new_core_def new_node_def
          NewTxPool_def NewBlockBuffer_def NewTimeSyncer_def NewBlockSyncer_def node_metric_defs running_def)
  next
    case (add s t p m)
    then show ?case by (auto simp: gauges_ok_def metered_Add_def Add_def core_metric_defs split: if_splits)
  next
    case (remove s h p m)
    then show ?case
      by (auto simp: gauges_ok_def metered_RemoveTx_def RemoveTx_def delete_tx_def Let_def core_metric_defs split: if_splits)
  next
    case (package s order ch txs p m ch')
    then obtain q where "metered_package_loop get maxTxPackageCount 0 [] ((me_pool s)\<lparr>tp_txQueue := q\<rparr>, me_core s) ch = Done (txs, (p, m), ch')"
      by (auto simp: metered_Package_def outcome_simps)
    from metered_package_loop_gauge [OF this] show ?case using package.IH by (simp add: gauges_ok_def)
  next
    case (put_second s b rest block b' m)
    then show ?case using second_put_gauge [of L block b "me_core s" b' m] by (simp add: gauges_ok_def)
  next
    case (take_second s block v m)
    then show ?case using second_take_gauge [of "me_buffer s" "me_core s" block v m] by (simp add: gauges_ok_def)
  next
    case (accept s block v)
    obtain b q c where b: "me_buffer s = (b, q, c)" by (cases "me_buffer s")
    obtain b' q' c' where v: "v = (b', q', c')" by (cases v)
    show ?case using accept accept_block_queue [of L K block b q c b' q' c'] by (simp add: gauges_ok_def b v)
  next
    case (time_start s ts m)
    then show ?case
      by (auto simp: gauges_ok_def metered_TimeSyncer_Start_def TimeSyncer_Start_def node_metric_defs split: if_splits)
  next
    case (time_respond s msg ts m)
    then show ?case using time_respond_gauge [of msg "me_time s" "me_node s" ts m] by (simp add: gauges_ok_def)
  next
    case (block_start s bs m)
    then show ?case by (auto simp: gauges_ok_def metered_BlockSyncer_Start_def BlockSyncer_Start_def node_metric_defs)
  next
    case (block_status s height status bs m)
    then show ?case using block_status_gauge [of height status "me_block s" "me_node s" bs m] by (simp add: gauges_ok_def)
  next
    case (block_synced s bs m)
    then show ?case by (auto simp: gauges_ok_def metered_setSynced_def setSynced_def node_metric_defs)
  next
    case (connect s ps m)
    then show ?case by (auto simp: gauges_ok_def metered_NewP2PPeer_def NewP2PPeer_def running_def node_metric_defs)
  next
    case (send s i code payload p)
    then show ?case using running_same [of i "me_peers s" p] send_keeps_stopped [of code payload "me_peers s ! i" p] by (simp add: gauges_ok_def)
  next
    case (reads s i now stream p stream')
    then show ?case using running_same [of i "me_peers s" p] read_keeps_stopped [of K now "me_peers s ! i" stream p stream'] by (simp add: gauges_ok_def)
  next
    case (writes s i failure stream p stream' m)
    then show ?case using write_stops [of K failure "me_peers s ! i" stream "me_node s" p stream' m] running_update [of i "me_peers s" p]
      by (simp add: gauges_ok_def)
  qed
  then show ?thesis by (simp add: gauges_ok_def running_def)
qed

section \<open>Witnesses\<close>

text \<open>The same transaction twice: the gauge says two.\<close>

lemma gauges_follow_state_witness:
  "\<exists>s :: (string, unit) lru_list metered.
     metered_reach list_lru std_karmem (\<lambda>(ch :: unit) h. (None, ())) (metered_start (NewBlockBuffer list_lru sample_block, [], sample_calc) True 0) s
   \<and> poolTransactionsMetric (me_core s) = 2 \<and> card (dom (tp_txs (me_pool s))) = 1"
proof -
  let ?get = "\<lambda>(ch :: unit) (h :: bytes). (None :: Transaction option, ())"
  let ?s0 = "metered_start (NewBlockBuffer list_lru sample_block, [], sample_calc) True 0"
  define s1 where "s1 = ?s0\<lparr>me_pool := Add sample_tx (me_pool ?s0), me_core := TxPoolMetricsInc (me_core ?s0)\<rparr>"
  define s2 where "s2 = s1\<lparr>me_pool := Add sample_tx (me_pool s1), me_core := TxPoolMetricsInc (me_core s1)\<rparr>"
  have p0: "me_pool ?s0 = NewTxPool None" by (simp add: metered_start_def Let_def split: prod.split)
  then have c: "tp_count (me_pool ?s0) = 0" "tp_count (me_pool s1) = 1"
    by (simp_all add: s1_def NewTxPool_def Add_def maxTxPoolSize_def)
  have r1: "metered_reach list_lru std_karmem ?get ?s0 s1" unfolding s1_def
    by (rule metered_reach.add [OF metered_reach.start]) (simp add: metered_Add_def c maxTxPoolSize_def)
  have r2: "metered_reach list_lru std_karmem ?get ?s0 s2" unfolding s2_def
    by (rule metered_reach.add [OF r1]) (simp add: metered_Add_def c maxTxPoolSize_def)
  have "tp_count (me_pool s2) = 2" "dom (tp_txs (me_pool s2)) = {tx_hash_hex sample_tx}"
    by (simp_all add: s2_def s1_def p0 NewTxPool_def Add_def maxTxPoolSize_def)
  then show ?thesis using gauges_follow_state [OF r2] r2 by (intro exI [of _ s2]) simp
qed

end
