(* ===== verification/ChainScan.thy ===== *)
theory ChainScan
  imports ChainHistory
begin

text \<open>
  cmd/graph/main.go: the tool that opens the database of a node and reports, block by block, the time to
  the previous block, the number of transactions and the packager. Flags and the opened database are
  arguments; what is printed is the result.
\<close>

section \<open>main\<close>

record scan =
  sc_timestamps :: "int list"
  sc_txs :: "nat list"
  sc_total :: nat
  sc_packageAddr :: "string \<rightharpoonup> int"

definition scan_empty :: scan where
  "scan_empty = \<lparr>sc_timestamps = [], sc_txs = [], sc_total = 0, sc_packageAddr = Map.empty\<rparr>"

definition package_addr :: "Block \<Rightarrow> string" where
  "package_addr block = take 8 (hex_encode (bh_PublicKey (blk_Header block)))"

definition scan_add :: "Block \<Rightarrow> Block \<Rightarrow> scan \<Rightarrow> scan" where
  "scan_add prevBlock block s =
     (let addr = package_addr block;
          counts = (case sc_packageAddr s addr of None \<Rightarrow> (sc_packageAddr s)(addr \<mapsto> 0) | Some _ \<Rightarrow> sc_packageAddr s)
      in \<lparr>sc_timestamps = sc_timestamps s @ [i64 (bh_Timestamp (blk_Header block) - bh_Timestamp (blk_Header prevBlock))],
          sc_txs = sc_txs s @ [length (blk_Transactions block)],
          sc_total = sc_total s + length (blk_Transactions block),
          sc_packageAddr = counts(addr \<mapsto> the (counts addr) + 1)\<rparr>)"

text \<open>A block that was not found is only logged: the next use of the nil block panics.\<close>

definition scan_block :: "Block option \<Rightarrow> Block option \<Rightarrow> scan \<Rightarrow> scan outcome" where
  "scan_block prevBlock block s =
     (case (block, prevBlock) of
        (Some b, Some p) \<Rightarrow> Done (scan_add p b s)
      | _ \<Rightarrow> Panics)"

definition found :: "'e + Block \<Rightarrow> Block option" where
  "found r = (case r of Inl _ \<Rightarrow> None | Inr b \<Rightarrow> Some b)"

text \<open>The loop from height \<open>i\<close> on, with \<open>n\<close> rounds to go.\<close>

fun scan_from ::
    "('d, 'h, 'b, 't, 's, 'w) chain_env \<Rightarrow> nat \<Rightarrow> int \<Rightarrow> Block option \<Rightarrow> ('d, 'h, 'b, 't, 's) BlockChain \<Rightarrow> scan
       \<Rightarrow> scan outcome" where
  "scan_from E 0 i prevBlock chain s = Done s"
| "scan_from E (Suc n) i prevBlock chain s =
     bindO (GetBlockByHeight E i chain) (\<lambda>(r, chain').
     bindO (scan_block prevBlock (found r) s) (\<lambda>s'.
       scan_from E n (i + 1) (found r) chain' s'))"

text \<open>\<open>None\<close> is a run that prints nothing: the help text was asked for, or the database did not open.\<close>

definition graph_main ::
    "('d, 'h, 'b, 't, 's, 'w) chain_env \<Rightarrow> bool \<Rightarrow> 'd option \<Rightarrow> int \<Rightarrow> scan option outcome" where
  "graph_main E help db height =
     (if help then Done None
      else case db of
        None \<Rightarrow> Done None
      | Some d \<Rightarrow>
          bindO (NewBlockchain E d None) (\<lambda>(chain, calc).
          bindO (GetBlockByHeight E 0 chain) (\<lambda>(r, chain').
          bindO (scan_from E (nat (height - 1)) 1 (found r) chain' scan_empty) (\<lambda>s. Done (Some s)))))"

section \<open>What a scan should report\<close>

fun scan_blocks :: "Block \<Rightarrow> Block list \<Rightarrow> scan \<Rightarrow> scan" where
  "scan_blocks p [] s = s"
| "scan_blocks p (b # bs) s = scan_blocks b bs (scan_add p b s)"

text \<open>The report on a list of blocks; the first one is only the reference for the second one's time.\<close>

definition report :: "Block list \<Rightarrow> scan" where
  "report bs = \<lparr>
     sc_timestamps = map2 (\<lambda>p b. i64 (bh_Timestamp (blk_Header b) - bh_Timestamp (blk_Header p))) bs (tl bs),
     sc_txs = map (\<lambda>b. length (blk_Transactions b)) (tl bs),
     sc_total = length (concat (map blk_Transactions (tl bs))),
     sc_packageAddr = (\<lambda>a. let n = count_list (map package_addr (tl bs)) a in if n = 0 then None else Some (int n))\<rparr>"

lemma report_snoc: "bs \<noteq> [] \<Longrightarrow> report (bs @ [b]) = scan_add (last bs) b (report bs)"
proof -
  assume "bs \<noteq> []"
  then obtain p rest where bs: "bs = p # rest" by (cases bs) auto
  have z: "map2 f (ys @ [b]) (tl ys @ [b]) = map2 f ys (tl ys) @ [f (last ys) b]" if "ys \<noteq> []"
    for f :: "Block \<Rightarrow> Block \<Rightarrow> int" and ys
    using that by (induction ys rule: induct_list012) auto
  have c: "(\<lambda>a. let n = count_list (map package_addr rest @ [package_addr b]) a in if n = 0 then None else Some (int n))
    = (let m = (\<lambda>a. let n = count_list (map package_addr rest) a in if n = 0 then None else Some (int n));
           m' = (case m (package_addr b) of None \<Rightarrow> m(package_addr b \<mapsto> 0) | Some _ \<Rightarrow> m)
       in m'(package_addr b \<mapsto> the (m' (package_addr b)) + 1))"
    by (rule ext) (simp add: Let_def count_list_append)
  show ?thesis
    using z [of bs] c unfolding bs by (simp add: report_def scan_add_def Let_def)
qed

lemma scan_blocks_report: "scan_blocks (last (p # done)) bs (report (p # done)) = report (p # done @ bs)"
proof (induction bs arbitrary: "done")
  case (Cons b bs)
  show ?case using Cons.IH [of "done @ [b]"] report_snoc [of "p # done" b] by simp
qed simp

lemma report_empty: "report [p] = scan_empty"
  by (simp add: report_def scan_empty_def)

section \<open>The loop\<close>

context chain_world
begin

lemma scan_from_spec:
  assumes "inv bs ch" and "in_i64 i" and "in_i64 (i + int n)"
  shows "scan_from E n i (Some p) ch s =
     (if \<forall>j < n. height_at bs (i + int j) \<noteq> None
      then Done (scan_blocks p (map (\<lambda>j. the (height_at bs (i + int j))) [0..<n]) s) else Panics)"
  using assms
proof (induction n arbitrary: i ch p s)
  case 0
  then show ?case by simp
next
  case (Suc n)
  obtain r c1 c2 where g: "GetBlockByHeight E i ch = Done (r, ch\<lparr>ch_blockHeightMap := c1, ch_blockCache := c2\<rparr>)"
    "inv bs (ch\<lparr>ch_blockHeightMap := c1, ch_blockCache := c2\<rparr>)"
    "case height_at bs i of None \<Rightarrow> \<exists>e. r = Inl e | Some b \<Rightarrow> r = Inr b"
    using GetBlockByHeight_spec [OF Suc.prems(1,2)] by auto
  have all: "(\<forall>j < Suc n. height_at bs (i + int j) \<noteq> None)
      \<longleftrightarrow> height_at bs i \<noteq> None \<and> (\<forall>j < n. height_at bs (i + 1 + int j) \<noteq> None)"
    by (auto simp: less_Suc_eq_0_disj add.assoc add.commute [of 1])
  have upt: "map (\<lambda>j. the (height_at bs (i + int j))) [0..<Suc n]
      = the (height_at bs i) # map (\<lambda>j. the (height_at bs (i + 1 + int j))) [0..<n]"
    by (simp add: upt_conv_Cons map_Suc_upt [symmetric] add.assoc add.commute [of 1] comp_def del: upt_Suc)
  have b: "in_i64 (i + 1)" "in_i64 (i + 1 + int n)" using Suc.prems(2,3) by (auto simp: in_i64_def)
  show ?case
  proof (cases "height_at bs i")
    case None
    then show ?thesis using g by (auto simp: found_def scan_block_def)
  next
    case (Some b)
    then have r: "r = Inr b" using g(3) by simp
    have "scan_from E (Suc n) i (Some p) ch s
      = scan_from E n (i + 1) (Some b) (ch\<lparr>ch_blockHeightMap := c1, ch_blockCache := c2\<rparr>) (scan_add p b s)"
      using g(1) by (simp add: r found_def scan_block_def)
    then show ?thesis
      unfolding Suc.IH [OF g(2) b] all upt using Some by simp
  qed
qed

end

section \<open>Properties\<close>

text \<open>C39: The scan of a database reports the chain that is in it: with every height below the given one
  present, the times between successive blocks, their transaction counts and total, and how many blocks
  each packager made, from height 1 up to the one before \<open>height\<close>; the block at \<open>height\<close> itself is left
  out. If a height is missing the tool crashes, since a failed lookup is only logged.\<close>

theorem scan_reports_chain:
  assumes "chain_world E len cell content eh eb et" and "chain_of bs" and "stored (ce_karmem E) (content d) bs"
    and "in_i64 height" and "2 \<le> height"
  shows "graph_main E False (Some d) height =
     (if \<forall>i < nat height. height_at bs (int i) \<noteq> None
      then Done (Some (report (map (\<lambda>i. the (height_at bs (int i))) [0..<nat height]))) else Panics)"
proof -
  note inv = chain_world.inv_def [OF assms(1)]
  obtain ch calc where n: "NewBlockchain E d None = Done (ch, calc)" "chain_inv E content eh eb et bs ch"
    using chain_world.NewBlockchain_spec [OF assms(1-3), of None] unfolding inv by blast
  obtain r c1 c2 where g: "GetBlockByHeight E 0 ch = Done (r, ch\<lparr>ch_blockHeightMap := c1, ch_blockCache := c2\<rparr>)"
    "chain_inv E content eh eb et bs (ch\<lparr>ch_blockHeightMap := c1, ch_blockCache := c2\<rparr>)"
    "case height_at bs 0 of None \<Rightarrow> \<exists>e. r = Inl e | Some b \<Rightarrow> r = Inr b"
    using chain_world.GetBlockByHeight_spec [OF assms(1), of bs ch 0] n(2) unfolding inv by (auto simp: in_i64_def)
  define m where "m = nat (height - 1)"
  have m: "nat height = Suc m" "m \<noteq> 0" "in_i64 (1 + int m)" "in_i64 1" using assms(4,5) by (auto simp: m_def in_i64_def)
  have all: "(\<forall>i < Suc m. height_at bs (int i) \<noteq> None)
      \<longleftrightarrow> height_at bs 0 \<noteq> None \<and> (\<forall>j < m. height_at bs (1 + int j) \<noteq> None)"
    by (auto simp: less_Suc_eq_0_disj)
  have upt: "map (\<lambda>i. the (height_at bs (int i))) [0..<Suc m]
      = the (height_at bs 0) # map (\<lambda>j. the (height_at bs (1 + int j))) [0..<m]"
    by (simp add: upt_conv_Cons map_Suc_upt [symmetric] comp_def del: upt_Suc)
  show ?thesis
  proof (cases "height_at bs 0")
    case None
    then obtain e where "r = Inl e" using g(3) by auto
    moreover obtain k where "m = Suc k" using m(2) by (cases m) auto
    moreover have "chain_world.inv E content eh eb et = chain_inv E content eh eb et" by (intro ext) (simp add: inv)
    moreover have "\<exists>r' ch'. GetBlockByHeight E 1 (ch\<lparr>ch_blockHeightMap := c1, ch_blockCache := c2\<rparr>) = Done (r', ch')"
      using chain_world.GetBlockByHeight_spec [OF assms(1), of bs _ 1] g(2) m(4) unfolding inv by blast
    ultimately show ?thesis using n(1) g(1) None
      by (auto simp: graph_main_def m_def [symmetric] found_def scan_block_def m(1) split: option.split)
  next
    case (Some b)
    then have "r = Inr b" using g(3) by simp
    then have "graph_main E False (Some d) height
        = bindO (scan_from E m 1 (Some b) (ch\<lparr>ch_blockHeightMap := c1, ch_blockCache := c2\<rparr>) scan_empty) (\<lambda>s. Done (Some s))"
      using n(1) g(1) by (simp add: graph_main_def m_def found_def)
    then show ?thesis
      using chain_world.scan_from_spec [OF assms(1), of bs _ 1 m b scan_empty] g(2) m(3,4) scan_blocks_report [of b "[]"]
      unfolding inv m(1) all upt by (simp add: Some report_empty)
  qed
qed


text \<open>A database with two blocks.\<close>

lemma std_two_blocks:
  "\<exists>d. chain_of [sample_genesis, sample_block] \<and> stored (ce_karmem std_env) d [sample_genesis, sample_block]"
proof -
  obtain ch where c: "chain_inv std_env (\<lambda>d. d) list_entries list_entries list_entries [sample_genesis] ch"
    "ch_latestHeight ch = tip_height [sample_genesis]" "dp_taskChannel (ch_dp ch) = []"
    using std_genesis [of tiny_json] by blast
  have room: "length (dp_taskChannel (ch_dp ch)) + length (blk_Transactions sample_block) \<le> taskChannelSize"
    using c(3) by (simp add: sample_block_def taskChannelSize_def)
  obtain ch' where "std_world.inv (ChainStore.extend [sample_genesis] sample_block) ch'"
    using std_world.insertBlock_spec [OF _ sample_block_fits _ c(2), of None "NewTxPool None"] c(1) room
    unfolding std_world.inv_def by blast
  then show ?thesis by (auto simp: ChainStore.extend_def std_world.inv_def chain_inv_def)
qed

lemma scan_reports_chain_witness:
  "\<exists>d s. graph_main std_env False (Some d) 2 = Done (Some s)
    \<and> sc_txs s = [1] \<and> sc_timestamps s = [0] \<and> sc_total s = 1 \<and> graph_main std_env False (Some d) 3 = Panics"
proof -
  obtain d where d: "chain_of [sample_genesis, sample_block]" "stored (ce_karmem std_env) d [sample_genesis, sample_block]"
    using std_two_blocks by blast
  have h: "height_at [sample_genesis, sample_block] 0 = Some sample_genesis"
    "height_at [sample_genesis, sample_block] 1 = Some sample_block"
    "height_at [sample_genesis, sample_block] 2 = None"
    by (simp_all add: height_at_def sample_genesis_def sample_block_def sample_header_def)
  have n: "(\<forall>i < 2. P i) \<longleftrightarrow> P 0 \<and> P (1::nat)" "(\<forall>i < 3. P i) \<longleftrightarrow> P 0 \<and> P 1 \<and> P (2::nat)" for P
    by (auto simp: less_Suc_eq numeral_2_eq_2 numeral_3_eq_3)
  have "in_i64 2" "in_i64 3" by (simp_all add: in_i64_def)
  note s = scan_reports_chain [OF std_world.chain_world_axioms d]
  have "graph_main std_env False (Some d) 2 = Done (Some (report [sample_genesis, sample_block]))"
    unfolding s [OF \<open>in_i64 2\<close> order_refl] using h by (simp add: n upt_rec)
  moreover have "graph_main std_env False (Some d) 3 = Panics"
    using s [OF \<open>in_i64 3\<close>] h by (simp add: n)
  moreover have "sc_txs (report [sample_genesis, sample_block]) = [1]" "sc_total (report [sample_genesis, sample_block]) = 1"
    "sc_timestamps (report [sample_genesis, sample_block]) = [0]"
    by (simp_all add: report_def sample_genesis_def sample_block_def sample_header_def i64_def)
  ultimately show ?thesis by blast
qed

end
