(* ===== verification/NodeGraph.thy ===== *)
theory NodeGraph
  imports Rpc
begin

text \<open>
  cmd/node-graph: the service that polls nodes for their connections and keeps a graph of them
  (nodes.go, services.go). The answers of a round are the arguments of a tick; \<open>None\<close> is a failed call.
\<close>

section \<open>State\<close>

record GraphNode =
  gn_Id :: int
  gn_Identity :: string
  gn_Title :: string

record Edge =
  ge_Id :: int
  ge_Source :: int
  ge_Target :: int

text \<open>The published nodes and edges, and the map and the counter of the routine.\<close>

record graph =
  gr_nodes :: "GraphNode list"
  gr_edges :: "Edge list"
  gr_nodesMap :: "string \<rightharpoonup> GraphNode"
  gr_count :: int

definition graph_init :: graph where
  "graph_init = \<lparr>gr_nodes = [], gr_edges = [], gr_nodesMap = Map.empty, gr_count = 1\<rparr>"

datatype NodeStatusRespCodes = DEFAULT | NODE_STATUS_SUCCESS

record ConnectedNodeResp =
  cr_Code :: "NodeStatusRespCodes option"
  cr_Local :: "string option"
  cr_Remote :: "string list"

definition GetCode :: "ConnectedNodeResp option \<Rightarrow> NodeStatusRespCodes" where
  "GetCode resp = (case resp of
     None \<Rightarrow> DEFAULT
   | Some r \<Rightarrow> (case cr_Code r of None \<Rightarrow> DEFAULT | Some c \<Rightarrow> c))"

section \<open>ConnectNodeInfoRoutine\<close>

text \<open>The node of an identity, made when it is new; the title is its first five characters.\<close>

definition graph_node :: "string \<Rightarrow> graph \<Rightarrow> (GraphNode \<times> graph) outcome" where
  "graph_node identity g =
     (case gr_nodesMap g identity of
        Some n \<Rightarrow> Done (n, g)
      | None \<Rightarrow>
          if length identity < 5 then Panics
          else let n = \<lparr>gn_Id = gr_count g, gn_Identity = identity, gn_Title = take 5 identity\<rparr>
               in Done (n, g\<lparr>gr_nodes := gr_nodes g @ [n], gr_nodesMap := (gr_nodesMap g)(identity \<mapsto> n),
                              gr_count := gr_count g + 1\<rparr>))"

fun add_remotes :: "GraphNode \<Rightarrow> string list \<Rightarrow> Edge list \<times> graph \<Rightarrow> (Edge list \<times> graph) outcome" where
  "add_remotes node [] s = Done s"
| "add_remotes node (remoteId # rest) (result, g) =
     bindO (graph_node remoteId g) (\<lambda>(remote, g').
       add_remotes node rest
         (result @ [\<lparr>ge_Id = int (length result) + 1, ge_Source = gn_Id node, ge_Target = gn_Id remote\<rparr>], g'))"

definition add_response :: "ConnectedNodeResp option \<Rightarrow> Edge list \<times> graph \<Rightarrow> (Edge list \<times> graph) outcome" where
  "add_response resp = (\<lambda>(result, g).
     if GetCode resp \<noteq> NODE_STATUS_SUCCESS then Done (result, g)
     else case resp of
       None \<Rightarrow> Panics
     | Some r \<Rightarrow>
         (case cr_Local r of
            None \<Rightarrow> Panics
          | Some hostId \<Rightarrow>
              bindO (graph_node hostId g) (\<lambda>(node, g'). add_remotes node (cr_Remote r) (result, g'))))"

fun add_responses :: "ConnectedNodeResp option list \<Rightarrow> Edge list \<times> graph \<Rightarrow> (Edge list \<times> graph) outcome" where
  "add_responses [] s = Done s"
| "add_responses (r # rs) s = bindO (add_response r s) (add_responses rs)"

text \<open>One tick; without any edge the old ones stay.\<close>

definition graph_tick :: "ConnectedNodeResp option list \<Rightarrow> graph \<Rightarrow> graph outcome" where
  "graph_tick resps g =
     bindO (add_responses resps ([], g)) (\<lambda>(edgesResult, g').
       Done (if length edgesResult \<noteq> 0 then g'\<lparr>gr_edges := edgesResult\<rparr> else g'))"

fun graph_run :: "ConnectedNodeResp option list list \<Rightarrow> graph \<Rightarrow> graph outcome" where
  "graph_run [] g = Done g"
| "graph_run (t # ts) g = bindO (graph_tick t g) (graph_run ts)"

text \<open>The answers of the HTTP service.\<close>

definition GraphDataService :: "graph \<Rightarrow> Edge list \<times> GraphNode list" where
  "GraphDataService g = (gr_edges g, gr_nodes g)"

text \<open>What a node with the manager \<open>pm\<close> answers.\<close>

definition node_response :: "('d, 'h, 'b, 't, 's, 'k) P2PManager option \<Rightarrow> ConnectedNodeResp outcome" where
  "node_response inst = bindO (ConnectedNodeList inst) (\<lambda>(local, remotes).
     Done \<lparr>cr_Code = Some NODE_STATUS_SUCCESS, cr_Local = Some local, cr_Remote = remotes\<rparr>)"

section \<open>The invariant\<close>

text \<open>
  Identifiers count from 1 in the order of the list, identities differ and have at least five characters,
  and the map finds exactly the listed nodes.
\<close>

definition graph_ok :: "graph \<Rightarrow> bool" where
  "graph_ok g \<longleftrightarrow> map gn_Id (gr_nodes g) = map int [1..<Suc (length (gr_nodes g))]
     \<and> gr_count g = int (length (gr_nodes g)) + 1
     \<and> distinct (map gn_Identity (gr_nodes g))
     \<and> (\<forall>n \<in> set (gr_nodes g). gn_Title n = take 5 (gn_Identity n) \<and> 5 \<le> length (gn_Identity n))
     \<and> (\<forall>i. gr_nodesMap g i = find (\<lambda>n. gn_Identity n = i) (gr_nodes g))"

definition identities :: "graph \<Rightarrow> string set" where
  "identities g = gn_Identity ` set (gr_nodes g)"

text \<open>A graph that grew by the nodes of some identities.\<close>

definition grown :: "string set \<Rightarrow> graph \<Rightarrow> graph \<Rightarrow> bool" where
  "grown I g g' \<longleftrightarrow> graph_ok g' \<and> gr_edges g' = gr_edges g \<and> (\<exists>new. gr_nodes g' = gr_nodes g @ new)
     \<and> identities g' = identities g \<union> I"

lemma grown_refl: "graph_ok g \<Longrightarrow> grown {} g g"
  by (simp add: grown_def)

lemma grown_trans: "grown I g g' \<Longrightarrow> grown J g' g'' \<Longrightarrow> grown (I \<union> J) g g''"
  by (auto simp: grown_def)

lemma grown_insert: "grown {i} g g' \<Longrightarrow> grown J g' g'' \<Longrightarrow> grown (insert i J) g g''"
  by (auto simp: grown_def)

lemma grown_ok: "grown I g g' \<Longrightarrow> graph_ok g'"
  by (simp add: grown_def)

text \<open>An edge and the identities of its ends.\<close>

definition joins :: "GraphNode list \<Rightarrow> Edge \<Rightarrow> string \<times> string \<Rightarrow> bool" where
  "joins ns e p \<longleftrightarrow> (\<exists>a \<in> set ns. \<exists>b \<in> set ns.
     gn_Id a = ge_Source e \<and> gn_Id b = ge_Target e \<and> p = (gn_Identity a, gn_Identity b))"

text \<open>Edges that count from 1 and stand for the given pairs, in their order.\<close>

definition edges_ok :: "GraphNode list \<Rightarrow> Edge list \<Rightarrow> (string \<times> string) list \<Rightarrow> bool" where
  "edges_ok ns es ps \<longleftrightarrow> map ge_Id es = map int [1..<Suc (length es)] \<and> list_all2 (joins ns) es ps"

lemma edges_ok_mono: "edges_ok ns es ps \<Longrightarrow> edges_ok (ns @ ms) es ps"
  unfolding edges_ok_def joins_def by (auto elim!: list_all2_mono)

lemma edges_ok_grown: "edges_ok (gr_nodes g) es ps \<Longrightarrow> grown I g g' \<Longrightarrow> edges_ok (gr_nodes g') es ps"
  using edges_ok_mono by (auto simp: grown_def)

lemma edges_ok_snoc:
  assumes "edges_ok ns es ps" and "a \<in> set ns" and "b \<in> set ns"
  shows "edges_ok ns (es @ [\<lparr>ge_Id = int (length es) + 1, ge_Source = gn_Id a, ge_Target = gn_Id b\<rparr>])
    (ps @ [(gn_Identity a, gn_Identity b)])"
proof -
  have "joins ns \<lparr>ge_Id = int (length es) + 1, ge_Source = gn_Id a, ge_Target = gn_Id b\<rparr> (gn_Identity a, gn_Identity b)"
    using assms(2,3) by (auto simp: joins_def)
  then show ?thesis using assms(1) by (simp add: edges_ok_def list_all2_appendI)
qed

lemma edges_ok_empty: "edges_ok ns [] ps \<longleftrightarrow> ps = []"
  by (simp add: edges_ok_def)

section \<open>What the operations do\<close>

lemma graph_node_short:
  assumes "graph_ok g" and "length i < 5"
  shows "graph_node i g = Panics"
proof (cases "gr_nodesMap g i")
  case (Some n)
  then have "n \<in> set (gr_nodes g)" "gn_Identity n = i" using assms(1) by (auto simp: graph_ok_def find_Some_iff)
  then have "5 \<le> length i" using assms(1) by (auto simp: graph_ok_def)
  then show ?thesis using assms(2) by simp
qed (simp add: graph_node_def assms(2))

lemma graph_node_ok:
  assumes "graph_ok g" and "5 \<le> length i"
  obtains n g' where "graph_node i g = Done (n, g')" "grown {i} g g'" "n \<in> set (gr_nodes g')" "gn_Identity n = i"
proof (cases "gr_nodesMap g i")
  case None
  define n where "n = \<lparr>gn_Id = gr_count g, gn_Identity = i, gn_Title = take 5 i\<rparr>"
  define g' where "g' = g\<lparr>gr_nodes := gr_nodes g @ [n], gr_nodesMap := (gr_nodesMap g)(i \<mapsto> n), gr_count := gr_count g + 1\<rparr>"
  have f: "i \<notin> gn_Identity ` set (gr_nodes g)" using None assms(1) by (auto simp: graph_ok_def find_None_iff)
  have "find (\<lambda>n. gn_Identity n = j) (gr_nodes g @ [n]) = (if j = i then Some n else gr_nodesMap g j)" for j
    using f assms(1) None by (auto simp: find_append n_def graph_ok_def split: option.split)
  then have "grown {i} g g'"
    using assms f by (auto simp: grown_def g'_def graph_ok_def n_def identities_def)
  then show thesis using that [of n g'] None assms(2) by (simp add: graph_node_def g'_def n_def Let_def)
next
  case (Some n)
  then have "n \<in> set (gr_nodes g)" "gn_Identity n = i" using assms(1) by (auto simp: graph_ok_def find_Some_iff)
  moreover from this have "grown {i} g g" using assms(1) by (auto simp: grown_def identities_def)
  ultimately show thesis using that [of n g] Some by (simp add: graph_node_def)
qed

lemma add_remotes_ok:
  assumes "graph_ok g" and "node \<in> set (gr_nodes g)" and "edges_ok (gr_nodes g) es ps"
  shows "if list_all (\<lambda>i. 5 \<le> length i) remotes
    then \<exists>es' g'. add_remotes node remotes (es, g) = Done (es', g') \<and> grown (set remotes) g g'
           \<and> edges_ok (gr_nodes g') es' (ps @ map (Pair (gn_Identity node)) remotes)
    else add_remotes node remotes (es, g) = Panics"
  using assms
proof (induction remotes arbitrary: g es ps)
  case Nil
  then show ?case by (simp add: grown_refl)
next
  case (Cons i rest)
  show ?case
  proof (cases "length i < 5")
    case True
    then show ?thesis using graph_node_short [OF Cons.prems(1)] by simp
  next
    case False
    then obtain n g' where n: "graph_node i g = Done (n, g')" "grown {i} g g'" "n \<in> set (gr_nodes g')" "gn_Identity n = i"
      using graph_node_ok [OF Cons.prems(1), of i] by auto
    let ?e = "\<lparr>ge_Id = int (length es) + 1, ge_Source = gn_Id node, ge_Target = gn_Id n\<rparr>"
    have m: "node \<in> set (gr_nodes g')" using Cons.prems(2) n(2) by (auto simp: grown_def)
    have "edges_ok (gr_nodes g') (es @ [?e]) (ps @ [(gn_Identity node, i)])"
      using edges_ok_snoc [OF edges_ok_grown [OF Cons.prems(3) n(2)] m n(3)] n(4) by simp
    note ih = Cons.IH [OF grown_ok [OF n(2)] m this]
    have step: "add_remotes node (i # rest) (es, g) = add_remotes node rest (es @ [?e], g')" using n(1) by simp
    show ?thesis
    proof (cases "list_all (\<lambda>i. 5 \<le> length i) rest")
      case True
      then obtain es' g'' where "add_remotes node rest (es @ [?e], g') = Done (es', g'')" "grown (set rest) g' g''"
        "edges_ok (gr_nodes g'') es' ((ps @ [(gn_Identity node, i)]) @ map (Pair (gn_Identity node)) rest)"
        using ih by auto
      then show ?thesis unfolding step using True False grown_insert [OF n(2)] by auto
    next
      case False
      then show ?thesis unfolding step using ih by simp
    qed
  qed
qed

section \<open>What the graph should show\<close>

text \<open>A successful answer names its node, and no identity is too short for a title.\<close>

definition sound :: "ConnectedNodeResp option \<Rightarrow> bool" where
  "sound resp \<longleftrightarrow> (case resp of
       None \<Rightarrow> True
     | Some r \<Rightarrow> cr_Code r \<noteq> Some NODE_STATUS_SUCCESS
         \<or> (\<exists>l. cr_Local r = Some l \<and> list_all (\<lambda>i. 5 \<le> length i) (l # cr_Remote r)))"

definition reported :: "ConnectedNodeResp option \<Rightarrow> (string \<times> string) list" where
  "reported resp = (case resp of
     None \<Rightarrow> []
   | Some r \<Rightarrow> if cr_Code r = Some NODE_STATUS_SUCCESS then map (Pair (the (cr_Local r))) (cr_Remote r) else [])"

definition named :: "ConnectedNodeResp option \<Rightarrow> string set" where
  "named resp = (case resp of
     None \<Rightarrow> {}
   | Some r \<Rightarrow> if cr_Code r = Some NODE_STATUS_SUCCESS then insert (the (cr_Local r)) (set (cr_Remote r)) else {})"

text \<open>The connections of the last round that reported any.\<close>

definition shown :: "ConnectedNodeResp option list list \<Rightarrow> (string \<times> string) list" where
  "shown ts = foldl (\<lambda>ps t. let qs = concat (map reported t) in if qs = [] then ps else qs) [] ts"

lemma GetCode_iff: "GetCode resp = NODE_STATUS_SUCCESS \<longleftrightarrow> (\<exists>r. resp = Some r \<and> cr_Code r = Some NODE_STATUS_SUCCESS)"
  by (auto simp: GetCode_def split: option.splits)

lemma add_response_ok:
  assumes "graph_ok g" and "edges_ok (gr_nodes g) es ps"
  shows "if sound resp
    then \<exists>es' g'. add_response resp (es, g) = Done (es', g') \<and> grown (named resp) g g'
           \<and> edges_ok (gr_nodes g') es' (ps @ reported resp)
    else add_response resp (es, g) = Panics"
proof (cases "GetCode resp = NODE_STATUS_SUCCESS")
  case False
  then have "sound resp" "named resp = {}" "reported resp = []"
    by (auto simp: GetCode_iff sound_def named_def reported_def split: option.split)
  then show ?thesis using False assms by (simp add: add_response_def grown_refl)
next
  case True
  then obtain r where r: "resp = Some r" "cr_Code r = Some NODE_STATUS_SUCCESS" by (auto simp: GetCode_iff)
  show ?thesis
  proof (cases "cr_Local r")
    case None
    then show ?thesis using r True by (simp add: sound_def add_response_def)
  next
    case (Some l)
    show ?thesis
    proof (cases "length l < 5")
      case True
      then show ?thesis using r Some \<open>GetCode resp = _\<close> graph_node_short [OF assms(1)]
        by (simp add: sound_def add_response_def)
    next
      case False
      then obtain n g' where n: "graph_node l g = Done (n, g')" "grown {l} g g'" "n \<in> set (gr_nodes g')" "gn_Identity n = l"
        using graph_node_ok [OF assms(1), of l] by auto
      note a = add_remotes_ok [OF grown_ok [OF n(2)] n(3) edges_ok_grown [OF assms(2) n(2)], of "cr_Remote r"]
      have step: "add_response resp (es, g) = add_remotes n (cr_Remote r) (es, g')"
        using n(1) r(1) Some \<open>GetCode resp = _\<close> by (simp add: add_response_def)
      have sd: "sound resp \<longleftrightarrow> list_all (\<lambda>i. 5 \<le> length i) (cr_Remote r)" using False r Some by (simp add: sound_def)
      have nm: "named resp = insert l (set (cr_Remote r))" "reported resp = map (Pair l) (cr_Remote r)"
        using r Some by (simp_all add: named_def reported_def)
      show ?thesis
      proof (cases "sound resp")
        case True
        then obtain es' g'' where "add_remotes n (cr_Remote r) (es, g') = Done (es', g'')" "grown (set (cr_Remote r)) g' g''"
          "edges_ok (gr_nodes g'') es' (ps @ map (Pair l) (cr_Remote r))"
          using a sd n(4) by auto
        then show ?thesis unfolding step nm using True grown_insert [OF n(2)] by auto
      next
        case False
        then show ?thesis unfolding step using a sd by simp
      qed
    qed
  qed
qed

lemma add_responses_ok:
  assumes "graph_ok g" and "edges_ok (gr_nodes g) es ps"
  shows "if list_all sound rs
    then \<exists>es' g'. add_responses rs (es, g) = Done (es', g') \<and> grown (\<Union> (named ` set rs)) g g'
           \<and> edges_ok (gr_nodes g') es' (ps @ concat (map reported rs))
    else add_responses rs (es, g) = Panics"
  using assms
proof (induction rs arbitrary: g es ps)
  case Nil
  then show ?case by (simp add: grown_refl)
next
  case (Cons r rs)
  show ?case
  proof (cases "sound r")
    case True
    then obtain es' g' where a: "add_response r (es, g) = Done (es', g')" "grown (named r) g g'"
      "edges_ok (gr_nodes g') es' (ps @ reported r)"
      using add_response_ok [OF Cons.prems, of r] by auto
    from Cons.IH [OF grown_ok [OF a(2)] a(3)] show ?thesis
      using a(1) True grown_trans [OF a(2)] by (auto split: if_splits)
  next
    case False
    then show ?thesis using add_response_ok [OF Cons.prems, of r] by simp
  qed
qed

text \<open>A graph that is right for the rounds so far.\<close>

definition graph_for :: "ConnectedNodeResp option list list \<Rightarrow> graph \<Rightarrow> bool" where
  "graph_for ts g \<longleftrightarrow> graph_ok g \<and> edges_ok (gr_nodes g) (gr_edges g) (shown ts)
     \<and> identities g = \<Union> (named ` set (concat ts))"

lemma graph_tick_ok:
  assumes "graph_for ts g"
  shows "if list_all sound t then \<exists>g'. graph_tick t g = Done g' \<and> graph_for (ts @ [t]) g' else graph_tick t g = Panics"
proof (cases "list_all sound t")
  case True
  have g: "graph_ok g" "edges_ok (gr_nodes g) (gr_edges g) (shown ts)" using assms by (simp_all add: graph_for_def)
  obtain es g' where a: "add_responses t ([], g) = Done (es, g')" "grown (\<Union> (named ` set t)) g g'"
    "edges_ok (gr_nodes g') es (concat (map reported t))"
    using add_responses_ok [OF g(1), of "[]" "[]" t] True by (auto simp: edges_ok_empty)
  have l: "length es = length (concat (map reported t))" using a(3) by (auto simp: edges_ok_def list_all2_lengthD)
  have ids: "identities g' = \<Union> (named ` set (concat (ts @ [t])))"
    using a(2) assms by (auto simp: grown_def graph_for_def)
  show ?thesis
  proof (cases "es = []")
    case True
    then have "shown (ts @ [t]) = shown ts" using l by (simp add: shown_def Let_def)
    then show ?thesis using a True \<open>list_all sound t\<close> ids edges_ok_grown [OF g(2) a(2)]
      by (simp add: graph_tick_def graph_for_def grown_def)
  next
    case False
    then have "concat (map reported t) \<noteq> []" using l False by (metis length_0_conv)
    then have "shown (ts @ [t]) = concat (map reported t)" unfolding shown_def by (simp only: foldl_append foldl.simps Let_def if_False)
    then show ?thesis using a False \<open>list_all sound t\<close> ids
      by (simp add: graph_tick_def graph_for_def grown_def graph_ok_def identities_def)
  qed
next
  case False
  then show ?thesis using add_responses_ok [of g "[]" "[]" t] assms by (simp add: graph_for_def edges_ok_empty graph_tick_def)
qed

lemma graph_run_ok:
  assumes "graph_for done g"
  shows "if list_all sound (concat ts) then \<exists>g'. graph_run ts g = Done g' \<and> graph_for (done @ ts) g' else graph_run ts g = Panics"
  using assms
proof (induction ts arbitrary: "done" g)
  case (Cons t ts)
  show ?case
  proof (cases "list_all sound t")
    case True
    then obtain g' where "graph_tick t g = Done g'" "graph_for (done @ [t]) g'"
      using graph_tick_ok [OF Cons.prems, of t] by auto
    then show ?thesis using Cons.IH [of "done @ [t]" g'] True by (simp split: if_splits)
  next
    case False
    then show ?thesis using graph_tick_ok [OF Cons.prems, of t] by simp
  qed
qed simp

section \<open>Properties\<close>

text \<open>The graph shows what the nodes report. After any rounds of polling the service publishes one node per
  identity ever named in a successful answer, numbered from 1 in the order of their appearance, and exactly
  the connections of the last round that had any, each edge between the numbers of its two ends. The polling
  routine crashes if and only if a successful answer lacks its own identity, or names one of fewer than five
  characters.\<close>

theorem node_graph_shows_connections:
  "if list_all sound (concat ts)
   then \<exists>g. graph_run ts graph_init = Done g
     \<and> map gn_Id (gr_nodes g) = map int [1..<Suc (length (gr_nodes g))] \<and> distinct (map gn_Identity (gr_nodes g))
     \<and> gn_Identity ` set (gr_nodes g) = \<Union> (named ` set (concat ts))
     \<and> map ge_Id (gr_edges g) = map int [1..<Suc (length (gr_edges g))]
     \<and> list_all2 (joins (gr_nodes g)) (gr_edges g) (shown ts)
   else graph_run ts graph_init = Panics"
proof -
  have "graph_for [] graph_init"
    by (simp add: graph_for_def graph_init_def graph_ok_def edges_ok_def shown_def identities_def)
  note run = graph_run_ok [OF this, of ts, unfolded append.simps]
  show ?thesis
  proof (cases "list_all sound (concat ts)")
    case True
    then obtain g where "graph_run ts graph_init = Done g" "graph_for ts g" using run by auto
    then show ?thesis using True unfolding graph_for_def graph_ok_def edges_ok_def identities_def by auto
  next
    case False
    then show ?thesis using run by simp
  qed
qed

text \<open>Two nodes that report each other, and then nothing.\<close>

definition sample_rounds :: "ConnectedNodeResp option list list" where
  "sample_rounds = [[Some \<lparr>cr_Code = Some NODE_STATUS_SUCCESS, cr_Local = Some ''QmAAA'', cr_Remote = [''QmBBB'']\<rparr>,
     Some \<lparr>cr_Code = Some NODE_STATUS_SUCCESS, cr_Local = Some ''QmBBB'', cr_Remote = [''QmAAA'']\<rparr>], [None, None]]"

lemma node_graph_shows_connections_witness:
  "\<exists>g. graph_run sample_rounds graph_init = Done g
    \<and> length (gr_edges g) = 2 \<and> gn_Identity ` set (gr_nodes g) = {''QmAAA'', ''QmBBB''}"
proof -
  have s: "list_all sound (concat sample_rounds)" "shown sample_rounds = [(''QmAAA'', ''QmBBB''), (''QmBBB'', ''QmAAA'')]"
    "\<Union> (named ` set (concat sample_rounds)) = {''QmAAA'', ''QmBBB''}"
    by (simp_all add: sample_rounds_def sound_def shown_def reported_def named_def insert_commute)
  then obtain g where "graph_run sample_rounds graph_init = Done g" "list_all2 (joins (gr_nodes g)) (gr_edges g) (shown sample_rounds)"
    "gn_Identity ` set (gr_nodes g) = \<Union> (named ` set (concat sample_rounds))"
    using node_graph_shows_connections [of sample_rounds] unfolding if_P [OF s(1)] by blast
  then show ?thesis using s(2,3) list_all2_lengthD by force
qed

end
