(* ===== verification/ShortStatus.thy ===== *)
theory ShortStatus
  imports NodeProperties
begin

text \<open>
  What a status message does that is too short for its table: the generated code falls back to the null
  viewer, and the synchroniser believes what it reads there.
\<close>

section \<open>A status that is too short\<close>

lemma process_status_known: "by_knownHeight (process_status h msg bs) = by_knownHeight bs"
  by (simp add: process_status_def Let_def)

lemma process_status_remote:
  "by_remoteHeight (process_status h msg bs)
     = (if ss_LatestHeight msg = -1 then by_remoteHeight bs else max (ss_LatestHeight msg) (by_remoteHeight bs))"
  by (auto simp: process_status_def Let_def)

section \<open>The syncer in the runs of a node\<close>

text \<open>The remote height never falls, and buffer synchronisation is entered only where both heights are equal.\<close>

definition height_moves :: "BlockSyncer \<Rightarrow> BlockSyncer \<Rightarrow> bool" where
  "height_moves bs bs' \<longleftrightarrow> by_remoteHeight bs \<le> by_remoteHeight bs'
     \<and> (by_status bs' = bufferSyncing \<longrightarrow> by_status bs = bufferSyncing \<or> by_remoteHeight bs' = by_knownHeight bs')"

lemma height_moves_refl [simp]: "height_moves bs bs"
  by (simp add: height_moves_def)

lemma height_moves_fields [simp]:
  "height_moves bs (bs\<lparr>by_statusMsg := q\<rparr>)" "height_moves bs (syncer_appendBlock b bs)" "height_moves bs (AddPeer p pid bs)"
  "height_moves bs (setSynced bs)" "height_moves (bs\<lparr>by_statusMsg := q\<rparr>) bs' = height_moves bs bs'"
  by (simp_all add: height_moves_def syncer_appendBlock_def AddPeer_def setSynced_def sync_codes)

lemma process_status_moves: "height_moves bs (process_status h msg bs)"
  by (auto simp: height_moves_def process_status_def Let_def sync_codes)

lemma run_peers_keeps:
  "run_peers now ps bs peers av reqs = Done (bs', peers', av', reqs') \<Longrightarrow>
     by_remoteHeight bs' = by_remoteHeight bs \<and> by_knownHeight bs' = by_knownHeight bs \<and> by_status bs' = by_status bs"
proof (induction ps arbitrary: bs peers av reqs)
  case (Cons p ps)
  then show ?case
    by (auto simp: Let_def outcome_simps selectBlockHeight_def split: if_splits option.splits prod.splits; blast)
qed simp

lemma syncer_run_moves: "syncer_run now bs peers = Done (bs', peers', reqs) \<Longrightarrow> height_moves bs bs'"
  by (auto simp: syncer_run_def outcome_simps height_moves_def dest!: run_peers_keeps)

lemma syncer_insertBlock_keeps:
  "syncer_insertBlock E h (bs, c) = Done (bs', c') \<Longrightarrow> by_remoteHeight bs' = by_remoteHeight bs \<and> by_status bs' = by_status bs"
  by (auto simp: syncer_insertBlock_def outcome_simps split: option.splits)

lemma process_loop_keeps:
  assumes "process_loop E remote height s = Some r" and "r = Done s'"
  shows "by_remoteHeight (fst s') = by_remoteHeight (fst s) \<and> by_status (fst s') = by_status (fst s)"
proof -
  let ?P = "\<lambda>E' (rem :: int) (h :: int) s r. \<forall>s'. r = Done s'
    \<longrightarrow> by_remoteHeight (fst s') = by_remoteHeight (fst s) \<and> by_status (fst s') = by_status (fst s)"
  have "?P E remote height s r"
  proof (rule process_loop.raw_induct [of ?P, OF _ assms(1)], intro allI impI)
    fix loop E' rem h s r s'
    assume IH: "\<And>E rem h s y. loop E rem h s = Some y \<Longrightarrow> ?P E rem h s y"
      and run: "(if h \<le> rem \<and> by_blockMap (fst s) h \<noteq> None
        then case syncer_insertBlock E' h s of Done s' \<Rightarrow> loop E' rem (i64 (h + 1)) s'
             | Panics \<Rightarrow> Some Panics | Blocks \<Rightarrow> Some Blocks | Diverges \<Rightarrow> Some Diverges
        else Some (Done s)) = Some r" and r: "r = Done s'"
    show "by_remoteHeight (fst s') = by_remoteHeight (fst s) \<and> by_status (fst s') = by_status (fst s)"
    proof (cases "h \<le> rem \<and> by_blockMap (fst s) h \<noteq> None")
      case False
      then show ?thesis using run r by (simp split: if_splits)
    next
      case True
      then obtain s1 where "syncer_insertBlock E' h s = Done s1" "loop E' rem (i64 (h + 1)) s1 = Some r"
        using run r by (cases "syncer_insertBlock E' h s") auto
      then show ?thesis
        using IH [of E' rem "i64 (h + 1)" s1 r] r syncer_insertBlock_keeps [of E' h "fst s" "snd s" "fst s1" "snd s1"] by simp
    qed
  qed
  then show ?thesis using assms(2) by blast
qed

lemma blockProcessRoutine_moves: "blockProcessRoutine E (bs, c) = Done (bs', c') \<Longrightarrow> height_moves bs bs'"
  by (auto simp: blockProcessRoutine_def height_moves_def split: option.splits dest: process_loop_keeps)

lemma handler_moves:
  assumes "handlerMap received answered code = Some handle" and "handle payload p N pm = Done pm'"
  shows "height_moves (nm_blockSyncer pm) (nm_blockSyncer pm')"
proof -
  consider "handle = handleStatusMsg" | "handle = handleBlockMsg"
    | "handle = handleSyncStatusReq" | "handle = handleSyncStatusMsg" | "handle = handleSyncGetBlocksMsg"
    | "handle = handleSyncBlockMsg" | "handle = answer_time_request received answered" | "handle = take_time_response received"
    using assms(1) by (auto simp: handlerMap_def split: if_splits)
  then show ?thesis
  proof cases
    case 5
    then show ?thesis using get_blocks_Done assms(2) by fastforce
  qed (use assms(2) in \<open>auto simp: handleStatusMsg_def handleBlockMsg_def handleSyncStatusReq_def handleSyncStatusMsg_def
      handleSyncBlockMsg_def answer_time_request_def take_time_response_def Let_def outcome_simps with_chain_Done
      appendStatusMsg_def appendBlockToSyncer_def update_peer_def markBlock_def
      dest!: with_peer_Done StatusMessage_Done split: if_splits\<close>)
qed

lemma node_step_moves:
  assumes "node_step N J pm pm'"
  shows "height_moves (nm_blockSyncer pm) (nm_blockSyncer pm')"
  using assms
proof cases
  case (message p)
  then show ?thesis by (auto simp: Handle_def update_peer_def Let_def split: if_splits list.splits)
next
  case (handler i p msg received answered)
  then show ?thesis by (fastforce simp: run_handler_def Let_def split: option.splits dest!: handler_moves)
next
  case (gossip data from_self on)
  then show ?thesis
    by (auto simp: gossipBlockSubscribe_def Let_def outcome_simps with_chain_Done markBlock_def split: if_splits)
next
  case (package now order rnd1 rnd2 b pm1)
  then show ?thesis
    by (auto simp: packageBlockRoutine_def publish_block_def with_chain_Done outcome_simps
        dest!: new_block_Done split: option.splits)
next
  case (publish data)
  then show ?thesis by (auto simp: broadcastBlock_def split: list.splits)
next
  case (announce dial draws datagrams)
  then show ?thesis by (auto simp: broadcastTransaction_def split: list.splits)
next
  case (datagram datagram)
  then show ?thesis by (auto simp: TransactionUDP_def Let_def split: if_splits dest!: AddTransaction_Done)
next
  case (submit t)
  then show ?thesis by (auto dest!: AddTransaction_Done)
next
  case (accept remote addr)
  then show ?thesis by (auto simp: HandleStream_def manager_NewPeer_def)
next
  case (dial now reachable stream self pid)
  let ?tried = "case nm_triedPeers pm pid of None \<Rightarrow> False | Some tried \<Rightarrow> now - tried < retryInterval"
    and ?live = "case nm_peersById pm pid of None \<Rightarrow> False | Some remote \<Rightarrow> \<not> Stopped (nm_store pm remote)"
  show ?thesis using dial
    by (cases "card (dom (nm_peersById pm)) \<ge> streamLimit \<or> pid = self"; cases ?tried; cases ?live; cases reachable; cases stream)
      (auto simp: CheckAndCreateStream_def manager_NewPeer_def)
next
  case (ask_status p on)
  then show ?thesis by (auto simp: sendStatus_def outcome_simps dest!: with_peer_Done split: if_splits)
next
  case (ask_blocks now)
  then show ?thesis by (auto simp: request_tick_def outcome_simps dest: syncer_run_moves)
next
  case (request i)
  then show ?thesis by (auto simp: run_request_def dest!: with_peer_Done split: if_splits prod.splits)
next
  case (insert_block i)
  then show ?thesis by (auto simp: run_insert_def outcome_simps split: if_splits prod.splits)
next
  case status
  then show ?thesis
    by (auto simp: status_tick_def statusMsgRoutine_def outcome_simps split: list.splits)
      (use process_status_moves height_moves_fields(5) in blast)
next
  case hand_over
  then show ?thesis by (auto simp: process_tick_def outcome_simps dest: blockProcessRoutine_moves)
next
  case (ask_time now draw)
  then show ?thesis by (auto simp: time_tick_def dest!: with_peer_Done split: if_splits)
next
  case (connection p link)
  then show ?thesis by (simp add: update_peer_def)
qed (simp_all add: SetSynced_def)

text \<open>The runs of a node in which the height it has itself stays below a bound.\<close>

inductive short_reach ::
    "('d, 'h, 'b, 't, 's, 'w, 'k, 'p) node_env \<Rightarrow> json_ops \<Rightarrow> int \<Rightarrow> ('d, 'h, 'b, 't, 's, 'k) P2PManager
       \<Rightarrow> ('d, 'h, 'b, 't, 's, 'k) P2PManager \<Rightarrow> bool" for N J v pm0 where
  short_here: "short_reach N J v pm0 pm0"
| short_more: "short_reach N J v pm0 pm \<Longrightarrow> node_step N J pm pm' \<Longrightarrow> by_knownHeight (nm_blockSyncer pm') < v
    \<Longrightarrow> short_reach N J v pm0 pm'"

lemma node_reach_remote:
  "node_reach N J pm0 pm \<Longrightarrow> by_remoteHeight (nm_blockSyncer pm0) \<le> by_remoteHeight (nm_blockSyncer pm)"
  by (induction rule: node_reach.induct) (use node_step_moves order_trans height_moves_def in fastforce)+

lemma short_reach_node: "short_reach N J v pm0 pm \<Longrightarrow> node_reach N J pm0 pm"
  by (induction rule: short_reach.induct) (auto intro: node_reach.intros)

lemma short_reach_waits:
  assumes "short_reach N J v pm0 pm" and "v \<le> by_remoteHeight (nm_blockSyncer pm0)" and "by_status (nm_blockSyncer pm0) \<noteq> bufferSyncing"
  shows "by_status (nm_blockSyncer pm) \<noteq> bufferSyncing"
  using assms(1)
proof (induction rule: short_reach.induct)
  case (short_more pm pm')
  have "v \<le> by_remoteHeight (nm_blockSyncer pm')"
    using node_reach_remote [OF node_reach.more [OF short_reach_node [OF short_more.hyps(1)] short_more.hyps(2)]] assms(2) by simp
  then show ?case using node_step_moves [OF short_more.hyps(2)] short_more.IH short_more.hyps(3) by (auto simp: height_moves_def)
qed (rule assms(3))

text \<open>C20: One short message sets the height a node waits for out of reach. A status message of fewer than eight
  bytes is read as the header of the slice behind the null viewer; when the lower half of that address is at least
  12, as for all but the first bytes of a 4 GiB range, the height read there is at least 2 to the 38th. Let such a message arrive
  at a node that has no other status waiting, that has less than this height and does not synchronise its buffer yet. Then in
  every run of the node from there the remote height stays above 2 to the 38th; and in every run in which the height
  it has itself stays below that, whatever it receives and does, it never passes on to synchronising its buffer.\<close>

theorem short_status_poisons_sync:
  assumes "karmem (node_karmem N) len cell"
    and "null_viewer64 (node_karmem N) = slice_header addr 64 @ rest" and "addr < 2 ^ 64" and "12 \<le> addr mod 2 ^ 32"
    and "length payload < 8" and "by_statusMsg (nm_blockSyncer pm) = []" and "by_knownHeight (nm_blockSyncer pm) < 2 ^ 38"
    and "by_status (nm_blockSyncer pm) \<noteq> bufferSyncing"
  shows "\<exists>pm1 pm2. handleSyncStatusMsg payload p N pm = Done pm1 \<and> status_tick pm1 = Done pm2
    \<and> (\<forall>J pm3. node_reach N J pm2 pm3 \<longrightarrow> 2 ^ 38 \<le> by_remoteHeight (nm_blockSyncer pm3))
    \<and> (\<forall>J pm3. short_reach N J (2 ^ 38) pm2 pm3 \<longrightarrow> by_status (nm_blockSyncer pm3) \<noteq> bufferSyncing)"
proof -
  let ?msg = "DeserializeStatusMsg (node_karmem N) payload" and ?bs = "nm_blockSyncer pm"
  have "\<not> kr_valid (node_karmem N) payload 0 8" using karmem.valid [OF assms(1)] assms(5) by simp
  then have "?msg = SyncStatusMsg_Reset (node_karmem N)"
    by (simp add: DeserializeStatusMsg_def new_viewer64_def SyncStatusMsg_Reset_def)
  then have h: "2 ^ 38 \<le> ss_LatestHeight ?msg" using null_status_height [OF assms(2-4)] by simp
  define pm1 where "pm1 = pm\<lparr>nm_blockSyncer := ?bs\<lparr>by_statusMsg := [?msg]\<rparr>\<rparr>"
  define pm2 where "pm2 = pm1\<lparr>nm_blockSyncer := process_status (Height (fst (nm_chain pm1))) ?msg ?bs\<rparr>"
  have "handleSyncStatusMsg payload p N pm = Done pm1"
    using assms(6) by (simp add: handleSyncStatusMsg_def appendStatusMsg_def chan_send_def maxSyncerStatusChannel_def pm1_def)
  moreover have "?bs\<lparr>by_statusMsg := []\<rparr> = ?bs" using assms(6) by simp
  then have "status_tick pm1 = Done pm2"
    by (simp add: status_tick_def statusMsgRoutine_def pm1_def pm2_def)
  moreover have r: "2 ^ 38 \<le> by_remoteHeight (nm_blockSyncer pm2)"
    using h by (simp add: pm2_def process_status_remote)
  moreover have "by_status (nm_blockSyncer pm2) \<noteq> bufferSyncing"
    using h assms(7,8) by (auto simp: pm2_def process_status_def Let_def sync_codes split: if_splits)
  ultimately show ?thesis
    using order_trans [OF r node_reach_remote] short_reach_waits [OF _ r] by blast
qed

text \<open>A new node that has received an empty status, and is asked to send its own status afterwards.\<close>

lemma short_status_poisons_sync_witness:
  "\<exists>pm pm1 pm2. handleSyncStatusMsg [] 0 std_node pm = Done pm1 \<and> status_tick pm1 = Done pm2
    \<and> 2 ^ 38 \<le> by_remoteHeight (nm_blockSyncer pm2) \<and> by_status (nm_blockSyncer (HandleStream ''b'' ''addr'' std_node pm2)) \<noteq> bufferSyncing"
proof -
  define pm where "pm = NewP2PManager std_node (undefined, None, None) False 0"
  have k: "karmem (node_karmem std_node) mw_len mw_cell" using std.karmem_axioms by simp
  have n: "null_viewer64 (node_karmem std_node) = slice_header 824633795584 64 @ replicate 40 0"
    by (simp add: null_viewer64_def) (simp add: std_karmem_def)
  have b: "by_statusMsg (nm_blockSyncer pm) = []" "by_knownHeight (nm_blockSyncer pm) < 2 ^ 38"
    "by_status (nm_blockSyncer pm) \<noteq> bufferSyncing"
    by (simp_all add: pm_def NewP2PManager_def NewBlockSyncer_def BlockSyncer_Start_def sync_codes)
  have "(824633795584 :: nat) < 2 ^ 64" "12 \<le> (824633795584 :: nat) mod 2 ^ 32" "length ([] :: bytes) < 8" by simp_all
  from short_status_poisons_sync [OF k n this b, of 0] obtain pm1 pm2 where
    s: "handleSyncStatusMsg [] 0 std_node pm = Done pm1" "status_tick pm1 = Done pm2"
    "\<forall>J pm3. node_reach std_node J pm2 pm3 \<longrightarrow> 2 ^ 38 \<le> by_remoteHeight (nm_blockSyncer pm3)"
    "\<forall>J pm3. short_reach std_node J (2 ^ 38) pm2 pm3 \<longrightarrow> by_status (nm_blockSyncer pm3) \<noteq> bufferSyncing" by blast
  have "by_knownHeight (nm_blockSyncer pm2) = by_knownHeight (nm_blockSyncer pm)"
    using s(1,2) by (auto simp: handleSyncStatusMsg_def status_tick_def statusMsgRoutine_def appendStatusMsg_def outcome_simps
        process_status_known split: list.splits)
  then have "by_knownHeight (nm_blockSyncer (HandleStream ''b'' ''addr'' std_node pm2)) < 2 ^ 38"
    using b(2) by (simp add: HandleStream_def manager_NewPeer_def AddPeer_def)
  then have "short_reach std_node tiny_json (2 ^ 38) pm2 (HandleStream ''b'' ''addr'' std_node pm2)"
    by (rule short_reach.short_more [OF short_reach.short_here node_step.accept])
  then show ?thesis using s node_reach.here by blast
qed

end
