(* ===== verification/Config.thy ===== *)
theory Config
  imports VRF
begin

text \<open>
  cmd/generate/main.go: the tool that writes the configuration of a new node. The generated keys are
  arguments (\<open>None\<close> when the random source failed, whose error is ignored), as are SHA3-256 and the marshalled
  key of the network library.
\<close>

section \<open>main\<close>

record node_config =
  cg_prv :: string
  cg_pub :: string
  cg_address :: string
  cg_p2p_prv :: string
  cg_port :: int
  cg_udp :: int
  cg_rpc_address :: string
  cg_metrics_port :: int

definition generate_main ::
    "'p curve_ops \<Rightarrow> (bytes \<Rightarrow> bytes) \<Rightarrow> 'p PrivateKey option \<Rightarrow> bytes \<Rightarrow> node_config outcome" where
  "generate_main C sha3 prv p2p =
     (case prv of
        None \<Rightarrow> Panics
      | Some prv \<Rightarrow>
          bindO (MarshalCompressed C (pk_Public prv)) (\<lambda>pub.
            Done \<lparr>cg_prv = hex_encode (big_Bytes (pk_D prv)), cg_pub = hex_encode pub,
                  cg_address = take 40 (hex_encode (sha3 pub)), cg_p2p_prv = hex_encode p2p,
                  cg_port = 31258, cg_udp = 53333, cg_rpc_address = ''0.0.0.0:45555'', cg_metrics_port = 8700\<rparr>))"

section \<open>Properties\<close>

text \<open>A generated configuration makes a node whose blocks the others check with the right key. The private key
  is read back from it, the public key in it is the one of the private key, and what the node decides with the one
  about its turn is what the others decide with the other about its block.\<close>

theorem generated_config_consistent:
  assumes "curve C smul base" and "pk_Public prv = smul (pk_D prv) base"
    and "generate_main C sha3 (Some prv) p2p = Done cfg" and "r < ec_N C"
  shows "DecodePrivateKeyFromHexString C (cg_prv cfg) = Some prv
    \<and> (\<exists>pub. hex_decode (cg_pub cfg) = Some pub \<and> PublicKey2Bytes C (pk_Public prv) = Done pub
         \<and> Bytes2PublicKey C pub = Some (pk_Public prv)
         \<and> (\<forall>msg v s t. VRFCalculate C sha (cg_prv cfg) (Inr r) msg = Done (Inr (v, s, t)) \<longrightarrow>
              VRFCheckRemoteConsensus C sha (Bytes2PublicKey C pub) msg s t v
                = VRFCheckLocalConsensus C sha (cg_prv cfg) (Inr r) msg))
    \<and> hex_decode (cg_p2p_prv cfg) = Some p2p"
proof -
  have fin: "\<not> ec_is_inf C (pk_Public prv)" using assms(3) by (auto simp: generate_main_def MarshalCompressed_def)
  then have cfg: "cg_prv cfg = hex_encode (big_Bytes (pk_D prv))" "cg_pub cfg = hex_encode (ec_Marshal C (pk_Public prv))"
    "cg_p2p_prv cfg = hex_encode p2p"
    using assms(3) by (auto simp: generate_main_def MarshalCompressed_def)
  have key: "DecodePrivateKeyFromHexString C (cg_prv cfg) = Some prv"
    using curve.base_mult [OF assms(1)] assms(2) by (simp add: DecodePrivateKeyFromHexString_def cfg be_dec_big_Bytes)
  have pub: "Bytes2PublicKey C (ec_Marshal C (pk_Public prv)) = Some (pk_Public prv)"
    using curve.unmarshal [OF assms(1) fin] by (simp add: Bytes2PublicKey_def)
  have "VRFCheckRemoteConsensus C sha (Some (pk_Public prv)) msg s t v = VRFCheckLocalConsensus C sha (cg_prv cfg) (Inr r) msg"
    if "VRFCalculate C sha (cg_prv cfg) (Inr r) msg = Done (Inr (v, s, t))" for msg v s t
    using curve.verify_calculated [OF assms(1) key assms(4) that] that
    by (simp add: VRFCheckRemoteConsensus_def VRFCheckLocalConsensus_def)
  then show ?thesis using key pub fin by (simp add: cfg PublicKey2Bytes_def MarshalCompressed_def)
qed

lemma generated_config_consistent_witness:
  "\<exists>cfg. generate_main mod7_curve (\<lambda>m. m) (Some \<lparr>pk_D = 3, pk_Public = 3\<rparr>) [9] = Done cfg
    \<and> DecodePrivateKeyFromHexString mod7_curve (cg_prv cfg) = Some \<lparr>pk_D = 3, pk_Public = 3\<rparr>
    \<and> hex_decode (cg_p2p_prv cfg) = Some [9]"
proof -
  obtain cfg where g: "generate_main mod7_curve (\<lambda>m. m) (Some \<lparr>pk_D = 3, pk_Public = 3\<rparr>) [9] = Done cfg"
    by (simp add: generate_main_def MarshalCompressed_def mod7_curve_def)
  have k: "pk_Public \<lparr>pk_D = 3, pk_Public = 3 :: nat\<rparr> = pk_D \<lparr>pk_D = 3, pk_Public = 3 :: nat\<rparr> * 1 mod 7" "(4 :: nat) < ec_N mod7_curve"
    by (simp_all add: mod7_curve_def)
  show ?thesis using generated_config_consistent [OF mod7.curve_axioms k(1) g k(2)] g by blast
qed

end
