(* ===== verification/CalculatorRuns.thy ===== *)
theory CalculatorRuns
  imports Calculator
begin

text \<open>
  The goroutines around the delay function, statement by statement: the goroutine of \<open>run\<close>, the callers of
  \<open>AppendNewSeed\<close>, of which the lock lets one in at a time, and the packager, the only caller of \<open>GetSeedParams\<close>.
  The operations of Calculator are these goroutines without interruption; the last section says when the difference
  shows.
\<close>

section \<open>Where a goroutine stands\<close>

text \<open>
  \<open>R_got\<close>: a seed was received, the read lock not yet taken; \<open>R_locked\<close>: with the read lock, waiting for
  the proof; \<open>R_calc\<close>: before a round of \<open>calculate\<close>; \<open>R_result\<close>, \<open>R_proof\<close>: before the two sends.
\<close>

datatype run_pc =
    R_idle
  | R_got nat
  | R_locked nat
  | R_calc nat nat nat nat nat
  | R_result nat nat nat
  | R_proof nat

text \<open>The caller that holds the lock: before its test, before the send of the seed and before that of the proof.\<close>

datatype append_pc =
    A_free
  | A_check nat nat
  | A_seed nat nat
  | A_proof nat

text \<open>
  \<open>G_len\<close>: before the test of the channel; \<open>G_seed\<close>, \<open>G_proof\<close>: before the two receives; \<open>G_lock\<close>: waiting for
  the read lock; \<open>G_locked\<close>, \<open>G_half\<close>: with it, before copying seed and proof; \<open>G_done\<close>: returned, and
  whether from the channels.
\<close>

datatype get_pc =
    G_free
  | G_len
  | G_seed
  | G_proof nat
  | G_lock
  | G_locked
  | G_half nat
  | G_done nat nat bool

section \<open>The statements\<close>

text \<open>\<open>locked\<close>: somebody holds the write lock.\<close>

definition run_step :: "bool \<Rightarrow> Calculator \<Rightarrow> run_pc \<Rightarrow> (Calculator \<times> run_pc) outcome" where
  "run_step locked c pc =
     (case pc of
        R_idle \<Rightarrow> (case c_seedChannel c of
            [] \<Rightarrow> Blocks
          | seed # rest \<Rightarrow> Done (c\<lparr>c_seedChannel := rest\<rparr>, R_got seed))
      | R_got seed \<Rightarrow>
          if locked then Blocks
          else Done (c\<lparr>c_changed := False, c_prevSeed := c_seed c, c_seed := seed\<rparr>, R_locked seed)
      | R_locked seed \<Rightarrow> (case c_prevProofChannel c of
            [] \<Rightarrow> Blocks
          | proof # rest \<Rightarrow> Done (c\<lparr>c_proof := proof, c_prevProofChannel := rest\<rparr>, R_calc seed 0 seed 1 1))
      | R_calc seed round result pi r \<Rightarrow>
          if \<not> round < c_timeParam c then Done (c, R_result seed result pi)
          else if c_changed c then Done (c, R_idle)
          else if c_order c = 0 then Panics
          else if c_proofParam c = 0 then Panics
          else let result' = result * result mod c_order c;
                   tmp = 2 * r;
                   b = tmp div c_proofParam c;
                   r' = tmp mod c_proofParam c;
                   g = big_Exp seed b (c_order c);
                   pi' = pi * pi * g mod c_order c
               in Done (c, R_calc seed (Suc round) result' pi' r')
      | R_result seed result pi \<Rightarrow>
          bindO (chan_send calc_chan_cap (c_resultChannel c) result) (\<lambda>q. Done (c\<lparr>c_resultChannel := q\<rparr>, R_proof pi))
      | R_proof pi \<Rightarrow>
          bindO (chan_send calc_chan_cap (c_proofChannel c) pi) (\<lambda>q. Done (c\<lparr>c_proofChannel := q\<rparr>, R_idle)))"

definition append_step :: "Calculator \<Rightarrow> append_pc \<Rightarrow> (Calculator \<times> append_pc) outcome" where
  "append_step c pc =
     (case pc of
        A_free \<Rightarrow> Done (c, A_free)
      | A_check seed proof \<Rightarrow>
          if c_prevSeed c = seed \<or> c_seed c = seed then Done (c, A_free)
          else bindO (if c_seed c \<noteq> 0
                      then bindO (Verify_vdf c (c_seed c) proof seed) (\<lambda>ok. Done (\<not> ok))
                      else Done False)
           (\<lambda>rejected. if rejected then Done (c, A_free) else Done (c\<lparr>c_changed := True\<rparr>, A_seed seed proof))
      | A_seed seed proof \<Rightarrow>
          bindO (chan_send calc_chan_cap (c_seedChannel c) seed) (\<lambda>q. Done (c\<lparr>c_seedChannel := q\<rparr>, A_proof proof))
      | A_proof proof \<Rightarrow>
          bindO (chan_send calc_chan_cap (c_prevProofChannel c) proof) (\<lambda>q. Done (c\<lparr>c_prevProofChannel := q\<rparr>, A_free)))"

definition get_step :: "bool \<Rightarrow> Calculator \<Rightarrow> get_pc \<Rightarrow> (Calculator \<times> get_pc) outcome" where
  "get_step locked c pc =
     (case pc of
        G_free \<Rightarrow> Done (c, G_free)
      | G_len \<Rightarrow> Done (c, if c_resultChannel c \<noteq> [] then G_seed else G_lock)
      | G_seed \<Rightarrow> (case c_resultChannel c of
            [] \<Rightarrow> Blocks
          | seed # rest \<Rightarrow> Done (c\<lparr>c_resultChannel := rest\<rparr>, G_proof seed))
      | G_proof seed \<Rightarrow> (case c_proofChannel c of
            [] \<Rightarrow> Blocks
          | proof # rest \<Rightarrow> Done (c\<lparr>c_proofChannel := rest\<rparr>, G_done seed proof True))
      | G_lock \<Rightarrow> if locked then Blocks else Done (c, G_locked)
      | G_locked \<Rightarrow> Done (c, G_half (c_seed c))
      | G_half seed \<Rightarrow> Done (c, G_done seed (c_proof c) False)
      | G_done seed proof sent \<Rightarrow> Done (c, G_done seed proof sent))"

text \<open>Without interruption and with a free lock, the statements make up the operations of Calculator.\<close>

lemma AppendNewSeed_steps:
  "AppendNewSeed seed proof c = bindO (append_step c (A_check seed proof)) (\<lambda>(c1, a1).
     bindO (append_step c1 a1) (\<lambda>(c2, a2). bindO (append_step c2 a2) (\<lambda>(c3, a3). Done c3)))"
  by (cases "Verify_vdf c (c_seed c) proof seed")
    (auto simp: AppendNewSeed_def append_step_def chan_send_def)

lemma run_take_steps:
  "run_take c = bindO (run_step False c R_idle) (\<lambda>(c1, p1). bindO (run_step False c1 p1) (\<lambda>(c2, p2).
     bindO (run_step False c2 p2) (\<lambda>(c3, p3). case p3 of R_calc seed round result pi r \<Rightarrow> Done (seed, c3) | _ \<Rightarrow> Blocks)))"
  by (simp add: run_take_def run_step_def split: list.split)

lemma run_deliver_steps:
  "run_deliver (Some (result, pi)) c = bindO (run_step locked c (R_result seed result pi)) (\<lambda>(c1, p1).
     bindO (run_step locked c1 p1) (\<lambda>(c2, p2). Done c2))"
  by (simp add: run_deliver_def run_step_def chan_send_def)

lemma GetSeedParams_steps:
  "GetSeedParams c = bindO (get_step False c G_len) (\<lambda>(c1, g1). bindO (get_step False c1 g1) (\<lambda>(c2, g2).
     bindO (get_step False c2 g2) (\<lambda>(c3, g3). bindO (get_step False c3 g3) (\<lambda>(c4, g4).
       case g4 of G_done seed proof sent \<Rightarrow> Done ((seed, proof), c4) | _ \<Rightarrow> Blocks))))"
  by (simp add: GetSeedParams_def get_step_def split: list.split)

section \<open>Runs\<close>

type_synonym calc_threads = "Calculator \<times> run_pc \<times> append_pc \<times> get_pc"

text \<open>The write lock can be had: no other caller inside, and no reader.\<close>

fun lock_free :: "calc_threads \<Rightarrow> bool" where
  "lock_free (c, rp, ap, gp) \<longleftrightarrow> ap = A_free \<and> (\<forall>s. rp \<noteq> R_locked s) \<and> gp \<noteq> G_locked \<and> (\<forall>s. gp \<noteq> G_half s)"

text \<open>What a step adds to the history: the seeds taken, the results computed, the pairs handed out by the channels.\<close>

fun taken :: "run_pc \<Rightarrow> run_pc \<Rightarrow> nat list" where
  "taken (R_got s) (R_locked s') = [s']"
| "taken _ _ = []"

fun computed :: "run_pc \<Rightarrow> run_pc \<Rightarrow> (nat \<times> nat) list" where
  "computed (R_calc _ _ _ _ _) (R_result s result pi) = [(result, pi)]"
| "computed _ _ = []"

fun handed :: "get_pc \<Rightarrow> get_pc \<Rightarrow> (nat \<times> nat) list" where
  "handed (G_proof _) (G_done seed proof True) = [(seed, proof)]"
| "handed _ _ = []"

inductive calc_run :: "Calculator \<Rightarrow> calc_threads \<Rightarrow> nat list \<Rightarrow> (nat \<times> nat) list \<Rightarrow> (nat \<times> nat) list \<Rightarrow> bool" for c0 where
  init: "calc_run c0 (c0, R_idle, A_free, G_free) [] [] []"
| run: "calc_run c0 (c, rp, ap, gp) ts rs gs \<Longrightarrow> run_step (ap \<noteq> A_free) c rp = Done (c', rp')
    \<Longrightarrow> calc_run c0 (c', rp', ap, gp) (ts @ taken rp rp') (rs @ computed rp rp') gs"
| call_append: "calc_run c0 (c, rp, ap, gp) ts rs gs \<Longrightarrow> lock_free (c, rp, ap, gp)
    \<Longrightarrow> calc_run c0 (c, rp, A_check seed proof, gp) ts rs gs"
| append: "calc_run c0 (c, rp, ap, gp) ts rs gs \<Longrightarrow> append_step c ap = Done (c', ap')
    \<Longrightarrow> calc_run c0 (c', rp, ap', gp) ts rs gs"
| call_get: "calc_run c0 (c, rp, ap, gp) ts rs gs \<Longrightarrow> gp = G_free \<or> gp = G_done seed proof sent
    \<Longrightarrow> calc_run c0 (c, rp, ap, G_len) ts rs gs"
| get: "calc_run c0 (c, rp, ap, gp) ts rs gs \<Longrightarrow> get_step (ap \<noteq> A_free) c gp = Done (c', gp')
    \<Longrightarrow> calc_run c0 (c', rp, ap, gp') ts rs (gs @ handed gp gp')"

section \<open>What always holds\<close>

abbreviation got_seed :: "run_pc \<Rightarrow> nat" where
  "got_seed rp \<equiv> (case rp of R_got _ \<Rightarrow> 1 | R_locked _ \<Rightarrow> 1 | _ \<Rightarrow> 0)"

abbreviation owes_proof :: "append_pc \<Rightarrow> nat" where
  "owes_proof ap \<equiv> (case ap of A_proof _ \<Rightarrow> 1 | _ \<Rightarrow> 0)"

abbreviation unsent_pair :: "run_pc \<Rightarrow> (nat \<times> nat) list" where
  "unsent_pair rp \<equiv> (case rp of R_result s r pi \<Rightarrow> [(r, pi)] | _ \<Rightarrow> [])"

abbreviation unsent_proof :: "run_pc \<Rightarrow> nat list" where
  "unsent_proof rp \<equiv> (case rp of R_proof pi \<Rightarrow> [pi] | _ \<Rightarrow> [])"

abbreviation half_got :: "get_pc \<Rightarrow> nat list" where
  "half_got gp \<equiv> (case gp of G_proof r \<Rightarrow> [r] | _ \<Rightarrow> [])"

text \<open>The parameters never change; every seed in its channel, or taken from it, has its proof behind it.\<close>

definition paired :: "Calculator \<Rightarrow> Calculator \<Rightarrow> run_pc \<Rightarrow> append_pc \<Rightarrow> bool" where
  "paired c0 c rp ap \<longleftrightarrow> c_order c = c_order c0 \<and> c_proofParam c = c_proofParam c0 \<and> c_timeParam c = c_timeParam c0
     \<and> length (c_seedChannel c) + got_seed rp = length (c_prevProofChannel c) + owes_proof ap
     \<and> length (c_seedChannel c) \<le> calc_chan_cap \<and> length (c_prevProofChannel c) \<le> calc_chan_cap
     \<and> ((\<exists>s. rp = R_locked s) \<longrightarrow> ap = A_free)"

text \<open>What the goroutine works on is the delay function of a seed it has taken.\<close>

definition works :: "Calculator \<Rightarrow> run_pc \<Rightarrow> nat list \<Rightarrow> bool" where
  "works c0 rp ts \<longleftrightarrow>
     (case rp of
        R_locked s \<Rightarrow> s \<in> set ts
      | R_calc s n result pi r \<Rightarrow> s \<in> set ts \<and> n \<le> c_timeParam c0
          \<and> calc_rounds c0 s (\<lambda>_. False) (c_timeParam c0 - n) n result pi r = calculate c0 (\<lambda>_. False) s
      | R_result s result pi \<Rightarrow> s \<in> set ts \<and> calculate c0 (\<lambda>_. False) s = Done (Some (result, pi))
      | _ \<Rightarrow> True)"

definition results_of :: "Calculator \<Rightarrow> nat list \<Rightarrow> (nat \<times> nat) list \<Rightarrow> bool" where
  "results_of c0 ts rs \<longleftrightarrow> (\<forall>(r, p) \<in> set rs. \<exists>s \<in> set ts. calculate c0 (\<lambda>_. False) s = Done (Some (r, p)))"

text \<open>The results not handed out yet are in the channels, in order, but for what the two ends hold.\<close>

definition in_transit :: "Calculator \<Rightarrow> run_pc \<Rightarrow> get_pc \<Rightarrow> (nat \<times> nat) list \<Rightarrow> (nat \<times> nat) list \<Rightarrow> bool" where
  "in_transit c rp gp rs gs \<longleftrightarrow> (\<exists>xs. rs = gs @ xs @ unsent_pair rp
     \<and> map fst xs = half_got gp @ c_resultChannel c \<and> map snd xs = c_proofChannel c @ unsent_proof rp)
     \<and> (gp = G_seed \<longrightarrow> c_resultChannel c \<noteq> [])"

definition copied :: "Calculator \<Rightarrow> get_pc \<Rightarrow> nat list \<Rightarrow> bool" where
  "copied c gp ts \<longleftrightarrow> c_seed c \<in> insert 0 (set ts)
     \<and> (\<forall>s. gp = G_half s \<or> (\<exists>p. gp = G_done s p False) \<longrightarrow> s \<in> insert 0 (set ts))"

text \<open>The test of \<open>AppendNewSeed\<close> still holds when the seed is sent, because the lock is held.\<close>

definition admitted :: "Calculator \<Rightarrow> append_pc \<Rightarrow> bool" where
  "admitted c ap \<longleftrightarrow> (\<forall>s p. ap = A_seed s p \<longrightarrow> c_changed c \<and> c_prevSeed c \<noteq> s \<and> c_seed c \<noteq> s
     \<and> (c_seed c \<noteq> 0 \<longrightarrow> Verify_vdf c (c_seed c) p s = Done True))"

definition threads_ok ::
    "Calculator \<Rightarrow> calc_threads \<Rightarrow> nat list \<Rightarrow> (nat \<times> nat) list \<Rightarrow> (nat \<times> nat) list \<Rightarrow> bool" where
  "threads_ok c0 st ts rs gs \<longleftrightarrow> (case st of (c, rp, ap, gp) \<Rightarrow>
     paired c0 c rp ap \<and> works c0 rp ts \<and> results_of c0 ts rs \<and> in_transit c rp gp rs gs \<and> copied c gp ts \<and> admitted c ap)"

lemma calc_rounds_cong:
  "c_order c' = c_order c \<Longrightarrow> c_proofParam c' = c_proofParam c \<Longrightarrow>
     calc_rounds c' seed ch n round result pi r = calc_rounds c seed ch n round result pi r"
  by (induction n arbitrary: round result pi r) (simp_all add: Let_def)

lemma run_step_cases [consumes 1, case_names receive lock complete finish abandon round result send]:
  assumes "run_step locked c rp = Done (c', rp')"
  obtains s rest where "rp = R_idle" "c_seedChannel c = s # rest" "c' = c\<lparr>c_seedChannel := rest\<rparr>" "rp' = R_got s"
  | s where "rp = R_got s" "\<not> locked" "c' = c\<lparr>c_changed := False, c_prevSeed := c_seed c, c_seed := s\<rparr>" "rp' = R_locked s"
  | s p rest where "rp = R_locked s" "c_prevProofChannel c = p # rest" "c' = c\<lparr>c_proof := p, c_prevProofChannel := rest\<rparr>"
      "rp' = R_calc s 0 s 1 1"
  | s n result pi r where "rp = R_calc s n result pi r" "\<not> n < c_timeParam c" "c' = c" "rp' = R_result s result pi"
  | s n result pi r where "rp = R_calc s n result pi r" "n < c_timeParam c" "c_changed c" "c' = c" "rp' = R_idle"
  | s n result pi r where "rp = R_calc s n result pi r" "n < c_timeParam c" "\<not> c_changed c" "c_order c \<noteq> 0" "c_proofParam c \<noteq> 0" "c' = c"
      "rp' = R_calc s (Suc n) (result * result mod c_order c)
         (pi * pi * big_Exp s (2 * r div c_proofParam c) (c_order c) mod c_order c) (2 * r mod c_proofParam c)"
  | s result pi where "rp = R_result s result pi" "length (c_resultChannel c) < calc_chan_cap"
      "c' = c\<lparr>c_resultChannel := c_resultChannel c @ [result]\<rparr>" "rp' = R_proof pi"
  | pi where "rp = R_proof pi" "length (c_proofChannel c) < calc_chan_cap"
      "c' = c\<lparr>c_proofChannel := c_proofChannel c @ [pi]\<rparr>" "rp' = R_idle"
  using assms
  by (cases rp) (auto simp: run_step_def chan_send_def Let_def split: list.splits if_splits)

lemma run_step_paired:
  assumes "run_step (ap \<noteq> A_free) c rp = Done (c', rp')" and "paired c0 c rp ap"
  shows "paired c0 c' rp' ap"
  using assms by (cases rule: run_step_cases) (auto simp: paired_def)

lemma run_step_works:
  assumes "run_step locked c rp = Done (c', rp')" and "paired c0 c rp ap" and "works c0 rp ts"
  shows "works c0 rp' (ts @ taken rp rp')"
  using assms(1)
proof (cases rule: run_step_cases)
  case (round s n result pi r)
  then have "c_timeParam c0 - n = Suc (c_timeParam c0 - Suc n)" using assms(2) by (simp add: paired_def)
  then show ?thesis using round assms(2,3) by (auto simp: works_def paired_def Let_def)
next
  case (finish s n result pi r)
  then show ?thesis using assms(2,3) by (auto simp: works_def paired_def)
qed (use assms(3) in \<open>auto simp: works_def calculate_def\<close>)

lemma run_step_results:
  assumes "run_step locked c rp = Done (c', rp')" and "works c0 rp' (ts @ taken rp rp')" and "results_of c0 ts rs"
  shows "results_of c0 (ts @ taken rp rp') (rs @ computed rp rp')"
  using assms by (cases rule: run_step_cases) (auto simp: results_of_def works_def)

lemma in_transitI:
  "rs = gs @ xs @ unsent_pair rp \<Longrightarrow> map fst xs = half_got gp @ c_resultChannel c \<Longrightarrow>
     map snd xs = c_proofChannel c @ unsent_proof rp \<Longrightarrow> gp = G_seed \<longrightarrow> c_resultChannel c \<noteq> [] \<Longrightarrow> in_transit c rp gp rs gs"
  unfolding in_transit_def by blast

lemma run_step_transit:
  assumes "run_step locked c rp = Done (c', rp')" and "in_transit c rp gp rs gs"
  shows "in_transit c' rp' gp (rs @ computed rp rp') gs"
proof -
  obtain xs where x: "rs = gs @ xs @ unsent_pair rp" "map fst xs = half_got gp @ c_resultChannel c"
    "map snd xs = c_proofChannel c @ unsent_proof rp" "gp = G_seed \<longrightarrow> c_resultChannel c \<noteq> []"
    using assms(2) unfolding in_transit_def by blast
  from assms(1) show ?thesis
  proof (cases rule: run_step_cases)
    case (result s res pi)
    then show ?thesis using x by (intro in_transitI [where xs = "xs @ [(res, pi)]"]) auto
  qed (use x in \<open>auto intro!: in_transitI [where xs = xs]\<close>)
qed

lemma run_step_copied: "run_step locked c rp = Done (c', rp') \<Longrightarrow> works c0 rp' (ts @ taken rp rp') \<Longrightarrow> copied c gp ts \<Longrightarrow>
    copied c' gp (ts @ taken rp rp')"
  by (cases rule: run_step_cases) (auto simp: copied_def)

lemma run_step_admitted:
  assumes "run_step (ap \<noteq> A_free) c rp = Done (c', rp')" and "admitted c ap"
  shows "admitted c' ap"
  using assms(1)
proof (cases rule: run_step_cases)
  case (lock s)
  then show ?thesis by (simp add: admitted_def)
qed (use assms(2) Verify_vdf_cong [of c' c] in \<open>auto simp: admitted_def\<close>)

lemma append_check:
  assumes "append_step c (A_check s p) = Done (c', ap')"
  shows "(c' = c \<and> ap' = A_free) \<or> (c_prevSeed c \<noteq> s \<and> c_seed c \<noteq> s \<and> (c_seed c \<noteq> 0 \<longrightarrow> Verify_vdf c (c_seed c) p s = Done True)
     \<and> c' = c\<lparr>c_changed := True\<rparr> \<and> ap' = A_seed s p)"
proof (cases "c_prevSeed c = s \<or> c_seed c = s")
  case True
  then show ?thesis using assms by (simp add: append_step_def)
next
  case new: False
  show ?thesis
  proof (cases "c_seed c = 0")
    case True
    then show ?thesis using assms new by (auto simp: append_step_def)
  next
    case False
    then obtain ok where ok: "Verify_vdf c (c_seed c) p s = Done ok"
      using assms new by (cases "Verify_vdf c (c_seed c) p s") (auto simp: append_step_def)
    show ?thesis using assms new False ok by (cases ok) (auto simp: append_step_def)
  qed
qed

lemma append_step_cases [consumes 1, case_names idle refuse admit seed complete]:
  assumes "append_step c ap = Done (c', ap')"
  obtains "ap = A_free" "c' = c" "ap' = A_free"
  | s p where "ap = A_check s p" "c' = c" "ap' = A_free"
  | s p where "ap = A_check s p" "c_prevSeed c \<noteq> s" "c_seed c \<noteq> s" "c_seed c \<noteq> 0 \<longrightarrow> Verify_vdf c (c_seed c) p s = Done True"
      "c' = c\<lparr>c_changed := True\<rparr>" "ap' = A_seed s p"
  | s p where "ap = A_seed s p" "length (c_seedChannel c) < calc_chan_cap"
      "c' = c\<lparr>c_seedChannel := c_seedChannel c @ [s]\<rparr>" "ap' = A_proof p"
  | p where "ap = A_proof p" "length (c_prevProofChannel c) < calc_chan_cap"
      "c' = c\<lparr>c_prevProofChannel := c_prevProofChannel c @ [p]\<rparr>" "ap' = A_free"
proof (cases ap)
  case A_free
  then have "c' = c \<and> ap' = A_free" using assms by (auto simp: append_step_def)
  then show ?thesis using that(1) A_free by blast
next
  case (A_check s p)
  then show ?thesis using append_check [of c s p c' ap'] assms that(2,3) by blast
next
  case (A_seed s p)
  then have "length (c_seedChannel c) < calc_chan_cap \<and> c' = c\<lparr>c_seedChannel := c_seedChannel c @ [s]\<rparr> \<and> ap' = A_proof p"
    using assms by (auto simp: append_step_def chan_send_def split: if_splits)
  then show ?thesis using that(4) A_seed by blast
next
  case (A_proof p)
  then have "length (c_prevProofChannel c) < calc_chan_cap \<and> c' = c\<lparr>c_prevProofChannel := c_prevProofChannel c @ [p]\<rparr> \<and> ap' = A_free"
    using assms by (auto simp: append_step_def chan_send_def split: if_splits)
  then show ?thesis using that(5) A_proof by blast
qed

lemma append_step_paired:
  "append_step c ap = Done (c', ap') \<Longrightarrow> paired c0 c rp ap \<Longrightarrow> paired c0 c' rp ap'"
  by (cases rule: append_step_cases) (auto simp: paired_def)

lemma append_step_others:
  assumes "append_step c ap = Done (c', ap')"
  shows "in_transit c' rp gp rs gs = in_transit c rp gp rs gs" and "copied c' gp ts = copied c gp ts" and "admitted c' ap'"
  using assms Verify_vdf_cong [of c' c] by (cases rule: append_step_cases; auto simp: in_transit_def copied_def admitted_def)+

lemma get_step_cases [consumes 1, case_names idle long empty seed complete lock copy_seed copy_proof returned]:
  assumes "get_step locked c gp = Done (c', gp')"
  obtains "gp = G_free" "c' = c" "gp' = G_free"
  | "gp = G_len" "c_resultChannel c \<noteq> []" "c' = c" "gp' = G_seed"
  | "gp = G_len" "c_resultChannel c = []" "c' = c" "gp' = G_lock"
  | s rest where "gp = G_seed" "c_resultChannel c = s # rest" "c' = c\<lparr>c_resultChannel := rest\<rparr>" "gp' = G_proof s"
  | s p rest where "gp = G_proof s" "c_proofChannel c = p # rest" "c' = c\<lparr>c_proofChannel := rest\<rparr>" "gp' = G_done s p True"
  | "gp = G_lock" "\<not> locked" "c' = c" "gp' = G_locked"
  | "gp = G_locked" "c' = c" "gp' = G_half (c_seed c)"
  | s where "gp = G_half s" "c' = c" "gp' = G_done s (c_proof c) False"
  | s p b where "gp = G_done s p b" "c' = c" "gp' = G_done s p b"
proof (cases gp)
  case G_free
  then have "c' = c \<and> gp' = G_free" using assms by (auto simp: get_step_def)
  then show ?thesis using that(1) G_free by blast
next
  case G_len
  then have "c' = c \<and> gp' = (if c_resultChannel c \<noteq> [] then G_seed else G_lock)" using assms by (auto simp: get_step_def)
  then show ?thesis using that(2,3) G_len by (cases "c_resultChannel c = []") auto
next
  case G_seed
  then obtain s rest where "c_resultChannel c = s # rest" "c' = c\<lparr>c_resultChannel := rest\<rparr>" "gp' = G_proof s"
    using assms by (auto simp: get_step_def split: list.splits)
  then show ?thesis using that(4) G_seed by blast
next
  case (G_proof s)
  then obtain p rest where "c_proofChannel c = p # rest" "c' = c\<lparr>c_proofChannel := rest\<rparr>" "gp' = G_done s p True"
    using assms by (auto simp: get_step_def split: list.splits)
  then show ?thesis using that(5) G_proof by blast
next
  case G_lock
  then have "\<not> locked" "c' = c \<and> gp' = G_locked" using assms by (auto simp: get_step_def split: if_splits)
  then show ?thesis using that(6) G_lock by blast
next
  case G_locked
  then have "c' = c \<and> gp' = G_half (c_seed c)" using assms by (auto simp: get_step_def)
  then show ?thesis using that(7) G_locked by blast
next
  case (G_half s)
  then have "c' = c \<and> gp' = G_done s (c_proof c) False" using assms by (auto simp: get_step_def)
  then show ?thesis using that(8) G_half by blast
next
  case (G_done s p b)
  then have "c' = c \<and> gp' = G_done s p b" using assms by (auto simp: get_step_def)
  then show ?thesis using that(9) G_done by blast
qed

lemma get_step_transit:
  assumes "get_step locked c gp = Done (c', gp')" and "in_transit c rp gp rs gs"
  shows "in_transit c' rp gp' rs (gs @ handed gp gp')"
proof -
  obtain xs where x: "rs = gs @ xs @ unsent_pair rp" "map fst xs = half_got gp @ c_resultChannel c"
    "map snd xs = c_proofChannel c @ unsent_proof rp" "gp = G_seed \<longrightarrow> c_resultChannel c \<noteq> []"
    using assms(2) unfolding in_transit_def by blast
  from assms(1) show ?thesis
  proof (cases rule: get_step_cases)
    case (complete s p rest)
    then obtain ys where "xs = (s, p) # ys" using x(2,3) by (cases xs) auto
    then show ?thesis using x complete by (intro in_transitI [where xs = ys]) auto
  next
    case (returned s p b)
    then show ?thesis using x by (cases b) (auto intro!: in_transitI [where xs = xs])
  qed (use x in \<open>auto intro!: in_transitI [where xs = xs]\<close>)
qed

lemma get_step_others:
  assumes "get_step locked c gp = Done (c', gp')"
  shows "paired c0 c' rp ap = paired c0 c rp ap" and "copied c gp ts \<Longrightarrow> copied c' gp' ts" and "admitted c' ap = admitted c ap"
  using assms Verify_vdf_cong [of c' c] by (cases rule: get_step_cases; auto simp: paired_def copied_def admitted_def)+

lemma calc_run_ok:
  assumes "CalculatorInitialization None pp ord t = Some c0" and "calc_run c0 st ts rs gs"
  shows "threads_ok c0 st ts rs gs"
  using assms(2)
proof (induction rule: calc_run.induct)
  case init
  show ?case using assms(1)
    by (auto simp: threads_ok_def CalculatorInitialization_def paired_def works_def results_of_def in_transit_def copied_def admitted_def)
next
  case (run c rp ap gp ts rs gs c' rp')
  have o: "paired c0 c rp ap" "works c0 rp ts" "results_of c0 ts rs" "in_transit c rp gp rs gs" "copied c gp ts" "admitted c ap"
    using run.IH by (simp_all add: threads_ok_def)
  have w: "works c0 rp' (ts @ taken rp rp')" by (rule run_step_works [OF run.hyps(2) o(1,2)])
  show ?case
    using run_step_paired [OF run.hyps(2) o(1)] w run_step_results [OF run.hyps(2) w o(3)]
      run_step_transit [OF run.hyps(2) o(4)] run_step_copied [OF run.hyps(2) w o(5)] run_step_admitted [OF run.hyps(2) o(6)]
    by (simp add: threads_ok_def)
next
  case (call_append c rp ap gp ts rs gs)
  then show ?case by (auto simp: threads_ok_def paired_def admitted_def)
next
  case (append c rp ap gp ts rs gs c' ap')
  then show ?case
    using append_step_paired [OF append.hyps(2)] append_step_others [OF append.hyps(2)]
    by (simp add: threads_ok_def)
next
  case (call_get c rp ap gp ts rs gs)
  then show ?case by (auto simp: threads_ok_def in_transit_def copied_def)
next
  case (get c rp ap gp ts rs gs c' gp')
  then show ?case
    using get_step_transit [OF get.hyps(2)] get_step_others [OF get.hyps(2)] by (simp add: threads_ok_def)
qed

section \<open>Handed out results\<close>

lemma result_verifies:
  assumes "results_of c0 ts rs" and "(r, p) \<in> set rs" and "0 < c_order c0" and "1 < c_proofParam c0" and "0 < c_timeParam c0"
  shows "\<exists>s \<in> set ts. r = s ^ 2 ^ c_timeParam c0 mod c_order c0 \<and> Verify_vdf c0 s p r = Done True"
proof -
  obtain s where "s \<in> set ts" "calculate c0 (\<lambda>_. False) s = Done (Some (r, p))" using assms(1,2) by (auto simp: results_of_def)
  then show ?thesis using calculate_result [of c0 "\<lambda>_. False" s r p] assms(3-5) by blast
qed



section \<open>Atomic operations, and a deadlock\<close>

text \<open>
  Which state of the atomic operations a state stands for: taking a seed counts from the moment the lock is taken, a result
  from the moment it is sent, a new seed from the moment it is sent, and a result as received with its first half.
\<close>

abbreviation busy_with :: "run_pc \<Rightarrow> nat option" where
  "busy_with rp \<equiv> (case rp of R_locked s \<Rightarrow> Some s | R_calc s _ _ _ _ \<Rightarrow> Some s | R_result s _ _ \<Rightarrow> Some s | _ \<Rightarrow> None)"

fun atomic_view :: "bool \<Rightarrow> calc_threads \<Rightarrow> Calculator" where
  "atomic_view x (c, rp, ap, gp) = c\<lparr>
     c_seedChannel := (case rp of R_got s \<Rightarrow> [s] | _ \<Rightarrow> []) @ c_seedChannel c,
     c_prevProofChannel := (case rp of R_locked _ \<Rightarrow> tl (c_prevProofChannel c) | _ \<Rightarrow> c_prevProofChannel c)
       @ (case ap of A_proof p \<Rightarrow> [p] | _ \<Rightarrow> []),
     c_proofChannel := (case gp of G_proof _ \<Rightarrow> tl (c_proofChannel c @ unsent_proof rp) | _ \<Rightarrow> c_proofChannel c @ unsent_proof rp),
     c_proof := (case rp of R_locked _ \<Rightarrow> hd (c_prevProofChannel c) | _ \<Rightarrow> c_proof c), c_changed := x\<rparr>"

definition stands_for :: "calc_threads \<Rightarrow> Calculator \<times> nat option \<Rightarrow> bool" where
  "stands_for st a \<longleftrightarrow> (case st of (c, rp, ap, gp) \<Rightarrow>
     \<exists>x. ((\<forall>s p. ap \<noteq> A_seed s p) \<longrightarrow> x = c_changed c) \<and> a = (atomic_view x st, busy_with rp))"

text \<open>
  The caller holds the lock and waits for room for its proof, the goroutine has a seed and waits for the lock.
\<close>

definition deadlocked :: "calc_threads \<Rightarrow> bool" where
  "deadlocked st \<longleftrightarrow> (case st of (c, rp, ap, gp) \<Rightarrow>
     (\<exists>s. rp = R_got s) \<and> (\<exists>p. ap = A_proof p) \<and> length (c_prevProofChannel c) = calc_chan_cap)"

lemma calculate_cong:
  "c_order c = c_order c0 \<Longrightarrow> c_proofParam c = c_proofParam c0 \<Longrightarrow> c_timeParam c = c_timeParam c0 \<Longrightarrow>
     calculate c ch s = calculate c0 ch s"
  by (simp add: calculate_def calc_rounds_cong [of c c0])

lemma stands_forI:
  "(\<forall>s p. ap \<noteq> A_seed s p) \<longrightarrow> x = c_changed c \<Longrightarrow> atomic_view x (c, rp, ap, gp) = ca \<Longrightarrow> stands_for (c, rp, ap, gp) (ca, busy_with rp)"
  unfolding stands_for_def prod.case by blast

lemma run_step_atomic:
  assumes r: "run_step (ap \<noteq> A_free) c rp = Done (c', rp')" and o: "threads_ok c0 (c, rp, ap, gp) ts rs gs"
    and t: "0 < c_timeParam c0" and s: "stands_for (c, rp, ap, gp) a"
  shows "\<exists>a'. (a' = a \<or> calc_step a a') \<and> stands_for (c', rp', ap, gp) a'"
proof -
  obtain x where x: "(\<forall>s p. ap \<noteq> A_seed s p) \<longrightarrow> x = c_changed c" "a = (atomic_view x (c, rp, ap, gp), busy_with rp)"
    using s unfolding stands_for_def prod.case by blast
  define ca where "ca = atomic_view x (c, rp, ap, gp)"
  have a: "a = (ca, busy_with rp)" by (simp add: x(2) ca_def)
  note a4 = ca_def [unfolded atomic_view.simps]
  have p: "paired c0 c rp ap" "works c0 rp ts" "in_transit c rp gp rs gs" using o by (simp_all add: threads_ok_def)
  have same: ?thesis
    if v: "atomic_view x (c', rp', ap, gp) = ca" and b: "busy_with rp' = busy_with rp" and u: "c_changed c' = c_changed c"
  proof -
    have "stands_for (c', rp', ap, gp) (ca, busy_with rp')" using v by (rule stands_forI [rotated]) (use x(1) u in simp)
    then show ?thesis unfolding a b by blast
  qed
  from r show ?thesis
  proof (cases rule: run_step_cases)
    case (lock s)
    then have ap: "ap = A_free" by simp
    obtain q qs where q: "c_prevProofChannel c = q # qs" using p(1) lock ap by (cases "c_prevProofChannel c") (auto simp: paired_def)
    define ca' where "ca' = ca\<lparr>c_seedChannel := c_seedChannel c, c_changed := False, c_prevSeed := c_seed c, c_seed := s,
      c_proof := q, c_prevProofChannel := qs\<rparr>"
    have "run_take ca = Done (s, ca')"
      using lock(1) ap q by (simp add: run_take_def ca'_def a4)
    then have "calc_step a (ca', Some s)" using step_take [of ca s ca'] lock(1) by (simp add: a)
    moreover have "atomic_view False (c', rp', ap, gp) = ca'"
      using lock ap q by (cases gp) (simp_all add: ca'_def a4)
    then have "stands_for (c', rp', ap, gp) (ca', busy_with rp')"
      by (rule stands_forI [rotated]) (simp add: lock(3))
    then have "stands_for (c', rp', ap, gp) (ca', Some s)" by (simp add: lock(4))
    ultimately show ?thesis by blast
  next
    case (abandon s n result pi r)
    have "calculate ca (\<lambda>_. True) s = Done None"
      using abandon(2) by (cases "c_timeParam ca") (simp_all add: calculate_def a4)
    then have "calc_step a (ca, None)" using step_deliver [of ca "\<lambda>_. True" s None ca] abandon(1) by (simp add: a run_deliver_def)
    moreover have "atomic_view x (c', rp', ap, gp) = ca"
      using abandon by (cases ap; cases gp) (simp_all add: ca_def)
    then have "stands_for (c', rp', ap, gp) (ca, busy_with rp')"
      by (rule stands_forI [rotated]) (use x(1) abandon in simp)
    then have "stands_for (c', rp', ap, gp) (ca, None)" by (simp add: abandon(5))
    ultimately show ?thesis by blast
  next
    case (result s res pi)
    obtain xs where "map fst xs = half_got gp @ c_resultChannel c" "map snd xs = c_proofChannel c"
      using p(3) result(1) by (auto simp: in_transit_def)
    then have len: "length (c_proofChannel c) = length (half_got gp) + length (c_resultChannel c)"
      by (metis length_append length_map)
    have "length (c_proofChannel ca) = length (c_resultChannel c)"
      using len result(1) by (cases gp) (simp_all add: a4)
    then have "run_deliver (Some (res, pi)) ca = Done (ca\<lparr>c_resultChannel := c_resultChannel c @ [res],
        c_proofChannel := c_proofChannel ca @ [pi]\<rparr>)" (is "_ = Done ?ca")
      using result(2) by (simp add: run_deliver_def chan_send_def) (simp add: a4)
    moreover have "calculate ca (\<lambda>_. False) s = Done (Some (res, pi))"
      using p(1,2) result(1) calculate_cong [of ca c0] by (simp add: works_def paired_def a4)
    ultimately have "calc_step a (?ca, None)" using step_deliver [of ca "\<lambda>_. False" s] result(1) by (simp add: a)
    moreover have "atomic_view x (c', rp', ap, gp) = ?ca"
      using result len by (cases gp; cases "c_proofChannel c") (simp_all add: ca_def)
    then have "stands_for (c', rp', ap, gp) (?ca, busy_with rp')"
      by (rule stands_forI [rotated]) (use x(1) result in simp)
    then have "stands_for (c', rp', ap, gp) (?ca, None)" by (simp add: result(4))
    ultimately show ?thesis by blast
  next
    case (receive z rest)
    show ?thesis using receive by (intro same; cases gp) (simp_all add: ca_def)
  next
    case (complete z q rest)
    show ?thesis using complete by (intro same; cases gp) (simp_all add: ca_def)
  next
    case (finish z n result pi r)
    show ?thesis using finish by (intro same; cases gp) (simp_all add: ca_def)
  next
    case (round z n result pi r)
    show ?thesis using round by (intro same; cases gp) (simp_all add: ca_def)
  next
    case (send pi)
    show ?thesis using send by (intro same; cases gp) (simp_all add: ca_def)
  qed
qed

lemma append_step_atomic:
  assumes r: "append_step c ap = Done (c', ap')" and o: "threads_ok c0 (c, rp, ap, gp) ts rs gs"
    and s: "stands_for (c, rp, ap, gp) a"
  shows "deadlocked (c', rp, ap', gp) \<or> (\<exists>a'. (a' = a \<or> calc_step a a') \<and> stands_for (c', rp, ap', gp) a')"
proof -
  obtain x where x: "(\<forall>s p. ap \<noteq> A_seed s p) \<longrightarrow> x = c_changed c" "a = (atomic_view x (c, rp, ap, gp), busy_with rp)"
    using s unfolding stands_for_def prod.case by blast
  have o': "paired c0 c rp ap" "admitted c ap" using o by (simp_all add: threads_ok_def)
  from r show ?thesis
  proof (cases rule: append_step_cases)
    case (admit s p)
    then have "atomic_view x (c', rp, ap', gp) = atomic_view x (c, rp, ap, gp)" by (cases rp; cases gp) simp_all
    then have "stands_for (c', rp, ap', gp) a" unfolding x(2) by (rule stands_forI [rotated]) (simp add: admit(6))
    then show ?thesis by blast
  next
    case (seed s p)
    have rp: "rp \<noteq> R_locked z" for z using o'(1) seed(1) by (auto simp: paired_def)
    have len: "length (c_seedChannel c) + got_seed rp = length (c_prevProofChannel c)" "length (c_prevProofChannel c) \<le> calc_chan_cap"
      using o'(1) seed(1) by (simp_all add: paired_def)
    show ?thesis
    proof (cases "length (c_prevProofChannel c) = calc_chan_cap")
      case True
      then have "got_seed rp \<noteq> 0" using len seed(2) by simp
      then have "\<exists>z. rp = R_got z" using rp by (cases rp) auto
      then show ?thesis using True seed by (auto simp: deadlocked_def)
    next
      case False
      define ca where "ca = atomic_view x (c, rp, ap, gp)"
      have ca: "c_seedChannel ca = (case rp of R_got s \<Rightarrow> [s] | _ \<Rightarrow> []) @ c_seedChannel c" "c_prevProofChannel ca = c_prevProofChannel c"
        "c_prevSeed ca = c_prevSeed c" "c_seed ca = c_seed c"
        using rp seed(1) by (cases rp; simp add: ca_def)+
      have v: "Verify_vdf ca = Verify_vdf c" by (rule Verify_vdf_cong) (simp_all add: ca_def)
      have "length (c_seedChannel ca) < calc_chan_cap" "length (c_prevProofChannel ca) < calc_chan_cap"
        using len False rp by (cases rp; simp add: ca)+
      then have "AppendNewSeed s p ca = Done (ca\<lparr>c_changed := True, c_seedChannel := c_seedChannel ca @ [s],
          c_prevProofChannel := c_prevProofChannel ca @ [p]\<rparr>)" (is "_ = Done ?ca")
        using o'(2) seed(1) by (simp add: AppendNewSeed_def chan_send_def admitted_def ca(3,4) v)
      then have "calc_step a (?ca, busy_with rp)" using step_append x(2) by (simp add: ca_def)
      moreover have "atomic_view True (c', rp, ap', gp) = ?ca"
        using seed rp by (cases rp; cases gp) (simp_all add: ca(1,2), simp_all add: ca_def)
      then have "stands_for (c', rp, ap', gp) (?ca, busy_with rp)"
        by (rule stands_forI [rotated]) (use o'(2) seed in \<open>simp add: admitted_def\<close>)
      ultimately show ?thesis by blast
    qed
  next
    case (complete p)
    have rp: "rp \<noteq> R_locked z" for z using o'(1) complete(1) by (auto simp: paired_def)
    then have "atomic_view x (c', rp, ap', gp) = atomic_view x (c, rp, ap, gp)"
      using complete by (cases rp; cases gp) simp_all
    then have "stands_for (c', rp, ap', gp) a"
      unfolding x(2) by (rule stands_forI [rotated]) (use x(1) complete in simp)
    then show ?thesis by blast
  next
    case idle
    then show ?thesis using s by blast
  next
    case (refuse z p)
    have "atomic_view x (c', rp, ap', gp) = atomic_view x (c, rp, ap, gp)"
      using refuse by (cases rp; cases gp) simp_all
    then have "stands_for (c', rp, ap', gp) a"
      unfolding x(2) by (rule stands_forI [rotated]) (use x(1) refuse in simp)
    then show ?thesis by blast
  qed
qed

lemma get_step_atomic:
  assumes r: "get_step locked c gp = Done (c', gp')" and o: "in_transit c rp gp rs gs" and s: "stands_for (c, rp, ap, gp) a"
  shows "\<exists>a'. (a' = a \<or> calc_step a a') \<and> stands_for (c', rp, ap, gp') a'"
proof -
  obtain x where x: "(\<forall>s p. ap \<noteq> A_seed s p) \<longrightarrow> x = c_changed c" "a = (atomic_view x (c, rp, ap, gp), busy_with rp)"
    using s unfolding stands_for_def prod.case by blast
  have same: ?thesis if "atomic_view x (c', rp, ap, gp') = atomic_view x (c, rp, ap, gp)" "c_changed c' = c_changed c"
  proof -
    have "stands_for (c', rp, ap, gp') a" unfolding x(2) using that x(1) by (intro stands_forI) auto
    then show ?thesis by blast
  qed
  from r show ?thesis
  proof (cases rule: get_step_cases)
    case (seed z rest)
    define ca where "ca = atomic_view x (c, rp, ap, gp)"
    obtain xs where "map fst xs = half_got gp @ c_resultChannel c" "map snd xs = c_proofChannel c @ unsent_proof rp"
      using o unfolding in_transit_def by blast
    moreover from this(1) have "xs \<noteq> []" using seed(1,2) by auto
    ultimately have "c_proofChannel c @ unsent_proof rp \<noteq> []" by (metis map_is_Nil_conv)
    then obtain p ps where p: "c_proofChannel c @ unsent_proof rp = p # ps" by (metis neq_Nil_conv)
    have "GetSeedParams ca = Done ((z, p), ca\<lparr>c_resultChannel := rest, c_proofChannel := ps\<rparr>)"
      using seed(1,2) p by (simp add: GetSeedParams_def ca_def)
    then have "calc_step a (ca\<lparr>c_resultChannel := rest, c_proofChannel := ps\<rparr>, busy_with rp)"
      using step_get x(2) by (simp add: ca_def)
    moreover have "stands_for (c', rp, ap, gp') (ca\<lparr>c_resultChannel := rest, c_proofChannel := ps\<rparr>, busy_with rp)"
    proof -
      have "atomic_view x (c', rp, ap, gp') = ca\<lparr>c_resultChannel := rest, c_proofChannel := ps\<rparr>"
        using seed p by (cases rp) (simp_all add: ca_def)
      then show ?thesis by (rule stands_forI [rotated]) (use x(1) seed(3) in simp)
    qed
    ultimately show ?thesis by blast
  next
    case (complete z p rest)
    show ?thesis using complete by (intro same; cases rp) simp_all
  next
    case idle
    show ?thesis by (rule same) (simp_all add: idle)
  next
    case long
    show ?thesis by (rule same) (simp_all add: long)
  next
    case empty
    show ?thesis by (rule same) (simp_all add: empty)
  next
    case lock
    show ?thesis by (rule same) (simp_all add: lock)
  next
    case copy_seed
    show ?thesis by (rule same) (simp_all add: copy_seed)
  next
    case (copy_proof z)
    show ?thesis by (rule same) (simp_all add: copy_proof)
  next
    case (returned z p b)
    show ?thesis by (rule same) (simp_all add: returned)
  qed
qed

lemma deadlocked_stays:
  assumes "deadlocked (c, rp, ap, gp)"
  shows "run_step (ap \<noteq> A_free) c rp = Blocks" and "append_step c ap = Blocks" and "\<not> lock_free (c, rp, ap, gp)"
    and "get_step (ap \<noteq> A_free) c gp = Done (c', gp') \<Longrightarrow> deadlocked (c', rp, ap, gp')"
proof -
  obtain s p where d: "rp = R_got s" "ap = A_proof p" "length (c_prevProofChannel c) = calc_chan_cap"
    using assms by (auto simp: deadlocked_def)
  show "run_step (ap \<noteq> A_free) c rp = Blocks" by (simp add: run_step_def d)
  show "append_step c ap = Blocks" by (simp add: append_step_def chan_send_def d)
  show "\<not> lock_free (c, rp, ap, gp)" by (simp add: d)
  show "deadlocked (c', rp, ap, gp')" if "get_step (ap \<noteq> A_free) c gp = Done (c', gp')"
    using that by (cases rule: get_step_cases) (simp_all add: deadlocked_def d)
qed

lemma calc_run_atomic:
  assumes "CalculatorInitialization None pp ord t = Some c0" and "0 < t" and "calc_run c0 st ts rs gs"
  shows "deadlocked st \<or> (\<exists>a. calc_reach c0 a \<and> stands_for st a)"
  using assms(3)
proof (induction rule: calc_run.induct)
  case init
  have "stands_for (c0, R_idle, A_free, G_free) (c0, None)" by (simp add: stands_for_def)
  then show ?case using reach_init by blast
next
  case (run c rp ap gp ts rs gs c' rp')
  have o: "threads_ok c0 (c, rp, ap, gp) ts rs gs" by (rule calc_run_ok [OF assms(1) run.hyps(1)])
  have t: "0 < c_timeParam c0" using assms(1,2) by (auto simp: CalculatorInitialization_def)
  have "\<not> deadlocked (c, rp, ap, gp)" using run.hyps(2) deadlocked_stays(1) by fastforce
  then obtain a where "calc_reach c0 a" "stands_for (c, rp, ap, gp) a" using run.IH by blast
  then show ?case using run_step_atomic [OF run.hyps(2) o t] reach_step by metis
next
  case (call_append c rp ap gp ts rs gs s p)
  then have "\<not> deadlocked (c, rp, ap, gp)" using deadlocked_stays(3) by blast
  then obtain a where "calc_reach c0 a" "stands_for (c, rp, ap, gp) a" using call_append.IH by blast
  then show ?case using call_append.hyps(2) by (auto simp: stands_for_def)
next
  case (append c rp ap gp ts rs gs c' ap')
  have o: "threads_ok c0 (c, rp, ap, gp) ts rs gs" by (rule calc_run_ok [OF assms(1) append.hyps(1)])
  have "\<not> deadlocked (c, rp, ap, gp)" using append.hyps(2) deadlocked_stays(2) by fastforce
  then obtain a where "calc_reach c0 a" "stands_for (c, rp, ap, gp) a" using append.IH by blast
  then show ?case using append_step_atomic [OF append.hyps(2) o] reach_step by metis
next
  case (call_get c rp ap gp ts rs gs s p b)
  have "atomic_view x (c, rp, ap, G_len) = atomic_view x (c, rp, ap, gp)" for x
    using call_get.hyps(2) by (elim disjE) simp_all
  then have "stands_for (c, rp, ap, G_len) a = stands_for (c, rp, ap, gp) a" for a
    unfolding stands_for_def prod.case by (simp only:)
  then show ?case using call_get.IH by (simp only: deadlocked_def prod.case)
next
  case (get c rp ap gp ts rs gs c' gp')
  have "in_transit c rp gp rs gs" using calc_run_ok [OF assms(1) get.hyps(1)] by (simp add: threads_ok_def)
  then have "\<exists>a'. (a' = a \<or> calc_step a a') \<and> stands_for (c', rp, ap, gp') a'" if "stands_for (c, rp, ap, gp) a" for a
    using that by (rule get_step_atomic [OF get.hyps(2)])
  then show ?case
    using get.IH deadlocked_stays(4) [OF _ get.hyps(2)] by (blast intro: reach_step)
qed

lemma append_completes:
  assumes "calc_run c0 (c, rp, A_free, gp) ts rs gs" and "lock_free (c, rp, A_free, gp)"
    and "s \<noteq> 0" and "c_seed c = 0" and "c_prevSeed c = 0" and "length (c_seedChannel c) < calc_chan_cap"
  shows "calc_run c0 (c\<lparr>c_changed := True, c_seedChannel := c_seedChannel c @ [s]\<rparr>, rp, A_proof p, gp) ts rs gs"
    and "length (c_prevProofChannel c) < calc_chan_cap \<Longrightarrow> calc_run c0 (c\<lparr>c_changed := True,
      c_seedChannel := c_seedChannel c @ [s], c_prevProofChannel := c_prevProofChannel c @ [p]\<rparr>, rp, A_free, gp) ts rs gs"
proof -
  have "calc_run c0 (c, rp, A_check s p, gp) ts rs gs" by (rule call_append [OF assms(1,2)])
  then have "calc_run c0 (c\<lparr>c_changed := True\<rparr>, rp, A_seed s p, gp) ts rs gs"
    by (rule append) (use assms(3-5) in \<open>simp add: append_step_def\<close>)
  then show r: "calc_run c0 (c\<lparr>c_changed := True, c_seedChannel := c_seedChannel c @ [s]\<rparr>, rp, A_proof p, gp) ts rs gs"
    by (rule append) (use assms(6) in \<open>simp add: append_step_def chan_send_def\<close>)
  show "calc_run c0 (c\<lparr>c_changed := True, c_seedChannel := c_seedChannel c @ [s],
      c_prevProofChannel := c_prevProofChannel c @ [p]\<rparr>, rp, A_free, gp) ts rs gs"
    if "length (c_prevProofChannel c) < calc_chan_cap"
    by (rule append [OF r]) (use that in \<open>simp add: append_step_def chan_send_def\<close>)
qed

lemma appends_complete:
  assumes "c_seed c0 = 0" and "c_prevSeed c0 = 0" and "c_seedChannel c0 = []" and "c_prevProofChannel c0 = []"
  shows "length xs \<le> calc_chan_cap \<Longrightarrow> 0 \<notin> fst ` set xs \<Longrightarrow> calc_run c0 (c0\<lparr>c_changed := c_changed c0 \<or> xs \<noteq> [],
     c_seedChannel := map fst xs, c_prevProofChannel := map snd xs\<rparr>, R_idle, A_free, G_free) [] [] []"
proof (induction xs rule: rev_induct)
  case Nil
  have "c0\<lparr>c_seedChannel := [], c_prevProofChannel := []\<rparr> = c0" using assms(3,4) by simp
  then show ?case using init [of c0] by simp
next
  case (snoc x xs)
  from append_completes(2) [OF snoc.IH, of "fst x" "snd x"] snoc.prems show ?case
    by (force simp: assms)
qed

lemma deadlock_reached:
  assumes "CalculatorInitialization None pp ord t = Some c0" and "length sps = Suc calc_chan_cap" and "0 \<notin> fst ` set sps"
  shows "\<exists>c. calc_run c0 (c, R_got (fst (hd sps)), A_proof (snd (last sps)), G_free) [] [] []
    \<and> deadlocked (c, R_got (fst (hd sps)), A_proof (snd (last sps)), G_free)"
proof -
  obtain x xs y where sps: "sps = x # xs @ [y]" "Suc (length xs) = calc_chan_cap"
  proof -
    obtain x zs where z: "sps = x # zs" "length zs = calc_chan_cap" using assms(2) by (cases sps) auto
    then have "zs \<noteq> []" by (auto simp: calc_chan_cap_def)
    then have "sps = x # butlast zs @ [last zs]" "Suc (length (butlast zs)) = calc_chan_cap" using z by (simp_all add: calc_chan_cap_def)
    then show thesis using that by blast
  qed
  let ?c = "c0\<lparr>c_changed := True, c_seedChannel := fst x # map fst xs, c_prevProofChannel := map snd (x # xs)\<rparr>"
    and ?c1 = "c0\<lparr>c_changed := True, c_seedChannel := map fst xs, c_prevProofChannel := map snd (x # xs)\<rparr>"
  have c0: "c_seed c0 = 0" "c_prevSeed c0 = 0" "c_seedChannel c0 = []" "c_prevProofChannel c0 = []"
    using assms(1) by (auto simp: CalculatorInitialization_def)
  have "calc_run c0 (?c, R_idle, A_free, G_free) [] [] []"
    using appends_complete [OF c0, of "x # xs"] sps assms(3) by simp
  then have "calc_run c0 (?c1, R_got (fst x), A_free, G_free) ([] @ taken R_idle (R_got (fst x)))
      ([] @ computed R_idle (R_got (fst x))) []"
    by (rule run) (simp add: run_step_def)
  then have "calc_run c0 (?c1, R_got (fst x), A_free, G_free) [] [] []" by simp
  from append_completes(1) [OF this, of "fst y" "snd y"]
  have "calc_run c0 (?c1\<lparr>c_changed := True, c_seedChannel := c_seedChannel ?c1 @ [fst y]\<rparr>, R_got (fst x), A_proof (snd y), G_free) [] [] []"
    using sps assms(3) c0 by simp
  then show ?thesis using sps by (auto simp: deadlocked_def)
qed

text \<open>Both sides of the read lock can be inside at once, though one of them writes.\<close>

lemma copy_mixes:
  assumes "CalculatorInitialization None pp ord t = Some c0" and "s \<noteq> 0"
  shows "\<exists>c. calc_run c0 (c, R_locked s, A_free, G_done s 0 False) [s] [] [] \<and> c_prevProofChannel c = [p]"
proof -
  have c0: "c_seed c0 = 0" "c_prevSeed c0 = 0" "c_seedChannel c0 = []" "c_prevProofChannel c0 = []" "c_resultChannel c0 = []" "c_proof c0 = 0"
    using assms(1) by (auto simp: CalculatorInitialization_def)
  let ?c = "c0\<lparr>c_changed := True, c_seedChannel := [s], c_prevProofChannel := [p]\<rparr>"
    and ?c1 = "c0\<lparr>c_changed := True, c_prevProofChannel := [p], c_seedChannel := []\<rparr>"
    and ?c2 = "c0\<lparr>c_changed := False, c_prevProofChannel := [p], c_seedChannel := [], c_seed := s, c_prevSeed := 0\<rparr>"
  have "calc_run c0 (?c, R_idle, A_free, G_free) [] [] []"
    using append_completes(2) [OF init, of c0 s p] assms(2) c0 by (simp add: calc_chan_cap_def)
  from run [OF this, of ?c1 "R_got s"] have "calc_run c0 (?c1, R_got s, A_free, G_free) [] [] []" by (simp add: run_step_def)
  from call_get [OF this] have "calc_run c0 (?c1, R_got s, A_free, G_len) [] [] []" by simp
  from get [OF this, of ?c1 G_lock] have "calc_run c0 (?c1, R_got s, A_free, G_lock) [] [] []" by (simp add: get_step_def c0)
  from get [OF this, of ?c1 G_locked] have "calc_run c0 (?c1, R_got s, A_free, G_locked) [] [] []" by (simp add: get_step_def)
  from run [OF this, of ?c2 "R_locked s"] have "calc_run c0 (?c2, R_locked s, A_free, G_locked) [s] [] []"
    by (simp add: run_step_def c0)
  from get [OF this, of ?c2 "G_half s"] have "calc_run c0 (?c2, R_locked s, A_free, G_half s) [s] [] []" by (simp add: get_step_def)
  from get [OF this, of ?c2 "G_done s 0 False"] have "calc_run c0 (?c2, R_locked s, A_free, G_done s 0 False) [s] [] []"
    by (simp add: get_step_def c0)
  then show ?thesis by (intro exI [of _ ?c2]) simp
qed

text \<open>C25: The operations of the calculator that the rest of the model uses do what the code does statement by statement, up to
  one deadlock. Every state the goroutines can reach by interleaving their statements stands for a state that whole operations reach,
  and is that state when no goroutine is inside one; except when a caller of \<open>AppendNewSeed\<close> has sent its seed, holds the lock and finds no room
  for its proof, while the goroutine has received a seed and waits for the lock to fetch its proof. Then neither moves, nobody
  else gets the lock, and this never ends; any 33 seeds that arrive before the first is taken can lead there.
  What a caller copies from the two fields is not part of these states, and can mix the rounds: the goroutine writes
  them under the read lock, so a caller can return a new seed with the proof of the one before.\<close>

theorem calculator_atomic_or_deadlocked:
  assumes "CalculatorInitialization None pp ord t = Some c0" and "0 < t"
  shows "(\<forall>st ts rs gs. calc_run c0 st ts rs gs \<longrightarrow> deadlocked st \<or> (\<exists>a. calc_reach c0 a \<and> stands_for st a))
    \<and> (\<forall>c ts rs gs. calc_run c0 (c, R_idle, A_free, G_free) ts rs gs \<longrightarrow> calc_reach c0 (c, None))
    \<and> (\<forall>c rp ap gp. deadlocked (c, rp, ap, gp) \<longrightarrow>
         run_step (ap \<noteq> A_free) c rp = Blocks \<and> append_step c ap = Blocks \<and> \<not> lock_free (c, rp, ap, gp)
         \<and> get_step (ap \<noteq> A_free) c G_lock = Blocks
         \<and> (\<forall>c' gp'. get_step (ap \<noteq> A_free) c gp = Done (c', gp') \<longrightarrow> deadlocked (c', rp, ap, gp')))
    \<and> (\<forall>sps. length sps = 33 \<and> 0 \<notin> fst ` set sps \<longrightarrow>
         (\<exists>c. calc_run c0 (c, R_got (fst (hd sps)), A_proof (snd (last sps)), G_free) [] [] []
            \<and> deadlocked (c, R_got (fst (hd sps)), A_proof (snd (last sps)), G_free)))
    \<and> (\<forall>s p. s \<noteq> 0 \<longrightarrow> (\<exists>c. calc_run c0 (c, R_locked s, A_free, G_done s 0 False) [s] [] []
         \<and> c_prevProofChannel c = [p]))"
proof (intro conjI allI impI)
  fix st ts rs gs assume r: "calc_run c0 st ts rs gs"
  show "deadlocked st \<or> (\<exists>a. calc_reach c0 a \<and> stands_for st a)" by (rule calc_run_atomic [OF assms r])
next
  fix c ts rs gs assume r: "calc_run c0 (c, R_idle, A_free, G_free) ts rs gs"
  have "\<not> deadlocked (c, R_idle, A_free, G_free)" by (simp add: deadlocked_def)
  then obtain a where a: "calc_reach c0 a" "stands_for (c, R_idle, A_free, G_free) a" using calc_run_atomic [OF assms r] by blast
  then have "a = (c, None)" by (simp add: stands_for_def)
  then show "calc_reach c0 (c, None)" using a(1) by simp
next
  fix c rp ap gp assume d: "deadlocked (c, rp, ap, gp)"
  show "run_step (ap \<noteq> A_free) c rp = Blocks" by (rule deadlocked_stays(1) [OF d])
  show "append_step c ap = Blocks" by (rule deadlocked_stays(2) [OF d])
  show "\<not> lock_free (c, rp, ap, gp)" by (rule deadlocked_stays(3) [OF d])
  show "get_step (ap \<noteq> A_free) c G_lock = Blocks" using d by (auto simp: deadlocked_def get_step_def)
next
  fix c rp ap gp c' gp' assume "deadlocked (c, rp, ap, gp)" and "get_step (ap \<noteq> A_free) c gp = Done (c', gp')"
  then show "deadlocked (c', rp, ap, gp')" by (rule deadlocked_stays(4))
next
  fix sps :: "(nat \<times> nat) list" assume "length sps = 33 \<and> 0 \<notin> fst ` set sps"
  then show "\<exists>c. calc_run c0 (c, R_got (fst (hd sps)), A_proof (snd (last sps)), G_free) [] [] []
      \<and> deadlocked (c, R_got (fst (hd sps)), A_proof (snd (last sps)), G_free)"
    using deadlock_reached [OF assms(1), of sps] by (auto simp: calc_chan_cap_def)
next
  fix s p :: nat assume "s \<noteq> 0"
  then show "\<exists>c. calc_run c0 (c, R_locked s, A_free, G_done s 0 False) [s] [] [] \<and> c_prevProofChannel c = [p]"
    by (rule copy_mixes [OF assms(1)])
qed

lemma calculator_atomic_or_deadlocked_witness:
  "\<exists>c rp ap. calc_run sample_calc (c, rp, ap, G_free) [] [] [] \<and> append_step c ap = Blocks \<and> run_step True c rp = Blocks"
proof -
  have i: "CalculatorInitialization None 3 77 4 = Some sample_calc"
    by (simp add: CalculatorInitialization_def sample_calc_def)
  note all = calculator_atomic_or_deadlocked [OF i]
  have "length (replicate 33 (5, 7)) = 33 \<and> 0 \<notin> fst ` set (replicate 33 (5 :: nat, 7 :: nat))" by simp
  then obtain c where r: "calc_run sample_calc (c, R_got 5, A_proof 7, G_free) [] [] []" "deadlocked (c, R_got 5, A_proof 7, G_free)"
    using all [THEN conjunct2, THEN conjunct2, THEN conjunct2, THEN conjunct1, rule_format, of "replicate 33 (5, 7)"] by auto
  have "run_step True c (R_got 5) = Blocks" "append_step c (A_proof 7) = Blocks"
    using all [THEN conjunct2, THEN conjunct2, THEN conjunct1] r(2) by fastforce+
  then show ?thesis using r(1) by blast
qed

end
