(* ===== verification/Spec2Isabelle.thy ===== *)
theory Spec2Isabelle
  imports Startup CatchUp EarlyBlock ForkChoice Crash Metrics ChainScan NodeGraph ShortStatus Config CalculatorRuns
begin

text \<open>
  A verification library of go-norn, a blockchain node in Go: blocks are produced by nodes that a
  verifiable random function (VRF) selects, paced by a verifiable delay function (VDF), ordered by a
  block buffer, stored in LevelDB, and exchanged with other nodes over libp2p.

  \<^bold>\<open>The program and its parts.\<close> A node receives transactions (RPC, UDP gossip) into its pool. Every
  two seconds of logical time a synced node that the VRF selects packages the pool into a block on
  the best leaf of the buffer and gossips it. Blocks from anywhere go through the buffer, which keeps
  one selected block per height and pops the lowest one into the chain's queue; the chain stores it,
  removes its transactions from the pool and queues its data commands; the data processor applies
  these and publishes events to subscribers. A new node first synchronises clock and blocks from its
  peers. All shared state is in singletons guarded by locks; the routines communicate by channels.

  \<^bold>\<open>Theories and sources.\<close>
  \<^item> Prelude: outcomes of Go code (a value, a panic, blocking on a channel, divergence), int64
    arithmetic, byte strings, hexadecimal and decimal text, and the lemma collections.
  \<^item> Karmem, Codec, Roundtrip: the binary format (common/common_km.go, utils/serializer.go,
    utils/deseralizer.go). The karmem library is the locale \<open>karmem\<close>; Roundtrip proves that encoding
    and decoding are inverse.
  \<^item> P2PMessages, PeerLink: the messages (p2p/message_km.go) and a connection (p2p/peer.go): base64
    frames, the read and the write loop.
  \<^item> Caches, Store: the LRU caches and the database with its keys (utils/leveldb.go, dbtools.go) as
    the locales \<open>lru\<close> and \<open>db_interface\<close>, with concrete instances.
  \<^item> Merkle, Calculator, VRF, TxVerify: core/merkle.go, crypto/calculator.go, crypto/vrf.go with the
    key conversions, common/transaction.go and the signing handler of rpc/blockchain.go. The elliptic
    curve is the locale \<open>curve\<close>; digests and ECDSA are arguments.
  \<^item> CalculatorRuns: the goroutines of crypto/calculator.go statement by statement, with the lock and the four channels;
    invariants of their runs, and how far the operations of Calculator may be taken as atomic.
  \<^item> Buffer: core/buffer.go, both routines and the tree view; what is popped forms a chain.
  \<^item> PubSub, DataProcessor: pubsub/router.go, publisher.go and core/data.go; JSON is the locale \<open>json\<close>.
  \<^item> TxPool, Chain: core/txpool.go and core/blockchain.go. The pool's view of the chain is the
    locale \<open>tx_lookup\<close>, which ChainHistory interprets by the chain itself.
  \<^item> ChainStore, ChainHistory: the abstract chain (a list of blocks) and the refinement of it by
    database, caches and latest pointer; histories of inserts, data commands, reads and restarts.
  \<^item> TimeSync, BlockSync: node/time_syncer.go and node/block_syncer.go.
  \<^item> NodePeer, Node: node/peer.go, request.go, respond.go, handler_funcs.go and manager.go.
  \<^item> NodeHistory, NodeProperties: the whole node as a step relation, and what holds of its runs.
  \<^item> Rpc: the services clients call (rpc/blockchain.go, transaction.go, node.go, limiter.go) and the
    rendering of blocks and transactions (utils/km_pb.go).
  \<^item> Startup: how a process becomes a node (cmd/norn) and finds peers (\<open>Discover\<close> of manager.go); the
    life of a process as a step relation over start, requests, discovery, genesis routine and node.
  \<^item> ShortStatus: what a status message does that is too short for its table.
  \<^item> Clients: the command line client, the sender and the four transaction builders (cmd/chronos-cli,
    cmd/sender, core/test_tools.go, benchmark/utils.go, cmd/norn/utils.go), against the services of Rpc.
  \<^item> DataPath: the way of a value from the command line through pool, block and data processor into the
    database and back to a client.
  \<^item> Window: the buffer while a chain is handed to it block by block, as a window on the chain; EarlyBlock: what
    happens when the calculator has not taken the seed of the block before; ForkChoice: which of several blocks of a height
    two nodes select.
  \<^item> LiveChain: the goroutines around one chain as operations on one state: the two of the buffer, the one that stores
    popped blocks, the calculator in two halves, the data processor, the packager's use of the calculator.
  \<^item> Restart, Crash, CatchUp: runs of these goroutines after a restart of the process, when the process ends between storing
    a block and its data commands, and on a fresh node that the syncer feeds with a chain.
  \<^item> Metrics: the gauges and counters (src/metrics) and the operations together with their reports.
  \<^item> ChainScan, NodeGraph, Config: the tools that report on a database (cmd/graph), draw the network
    (cmd/node-graph) and write a configuration (cmd/generate).

  \<^bold>\<open>How code is modelled.\<close> A struct is a record whose fields carry the Go names behind a prefix; a
  method is a definition of the same name that takes and returns the state. Pointers are values,
  except where several parts share an object: peers live in a store with indices. An iteration of an
  endless loop is one operation; locks make it atomic, and where the code releases a lock in between,
  the operation is split. Three places are atomic that are not under one lock: the operations of the calculator, which
  CalculatorRuns justifies up to a deadlock and the copying of fields; the tests of \<open>Process\<close> and \<open>secondProcess\<close> before they take
  the buffer's lock; and \<open>insertBlock\<close>, which only one goroutine calls apart from the genesis block.
  A channel is a bounded list; sending to a full one is the outcome \<open>Blocks\<close>.
  Nil dereferences, slice conversions of wrong length and index errors are \<open>Panics\<close>, and so is \<open>log.Fatalln\<close>, which ends the process too. Goroutines that
  were started and did not run yet are lists in the state, run in any order. The manager that the RPC
  handlers ask for is an option: there is none until main has made it. Data that is too short for its
  table is read from the null viewer, which is the memory at a slice variable (its header and what lies
  behind it), not zeros: two fields of the karmem record hold that memory. Time, random numbers,
  map iteration orders and the network's behaviour are arguments. 64-bit integers are integers with
  the wrap-around (\<open>i64\<close>) written out; bytes are 8-bit words.

  \<^bold>\<open>Loops.\<close> Loops that may not end are partial functions into options and give \<open>Diverges\<close>; the theorems
  about them (clearing the view, choosing a height, handing over blocks) prove that they return. The
  packaging loop counts down its bound of 10000 rounds, the loop of the sender up to its bound of 3000, with
  a measure; the scan of a chain counts down the heights that are left. No fuel is used elsewhere. That the work of
  CatchUp ends is proved with a measure over blocks and tasks that are left (\<open>effort\<close>).

  \<^bold>\<open>What is proved.\<close> The codec: round trips. The chain: inserting refines
  appending to a list, reads agree with the list, restarts recover it, the database always holds one
  growing chain, also in every run of a whole node and of the process around it, from the start on a data
  directory. The buffer: pops form a chain, the selected block
  is the best one, two nodes select the same block unless two are tied, and two defects (a panic, a deadlock). Cryptography: delay function and VRF are
  complete, every result the calculator hands out belongs to a seed it has taken and verifies, its operations are atomic but for one deadlock,
  transactions built by the RPC handler and by every tool verify, a generated configuration carries
  matching keys. Clients: what they read is the chain; a value sent with the command line tool is what
  clients are answered once its block is in the chain, but the tool itself cannot read it back. Tools: the scan reports the stored chain, the graph the reported connections.
  Synchronisation: the clock estimate and its error bound, the state machine, ordered and
  gap-free handing over, requests, serving of requests between two nodes; and the whole way: a fresh node stores the
  chain it is sent up to the newest twelve blocks, in every order of the goroutines in which the calculator keeps up, and
  work always ends. A block that is gossiped back is dropped, and ends the receiving of blocks; events reach the subscribers of their topic. A restarted node verifies no block any more, a buffer that is faster than the calculator loses
  the chain, and a process that ends loses the data commands it has queued. The gauges follow the state. Connections deliver in
  order, and a search for peers keeps to its limits. Defects are theorems about the code as it is and are listed in the manifest.

  \<^bold>\<open>Assumptions.\<close> The locales state documented behaviour of the libraries: karmem's writer and reader,
  LevelDB's maps, LRU caches that never invent entries, the group laws of the curve, JSON's decoding
  of its own encoding. Each has a concrete instance, so none is vacuous. The theorems about a running
  chain ask that inserted blocks fit the format's 32-bit lengths (\<open>fits\<close>). The theorem about a fresh node asks of the chain
  it is sent what \<open>served\<close> says (consecutive heights, seeds that follow each other, one genesis block, no block with more
  transactions than the queue of data commands takes), and that the buffer handles a block only when the calculator has taken the seed before;
  EarlyBlock shows that the code does not ensure the latter.

  \<^bold>\<open>Not modelled.\<close> The gRPC and HTTP plumbing, loading the configuration file, Prometheus itself and the labels and help texts, logging, profiling and
  signals, which nothing else reads; the stubs that protoc generates; the packet identifiers of the generated
  codec, which nothing uses; libp2p, Kademlia and the gossip network themselves, whose answers are arguments; data
  races, outside of CalculatorRuns: operations are atomic as said above.
\<close>

end
